(* ===== verification/Prelude.thy ===== *)
theory Prelude
  imports Main "HOL-Library.Word"
begin

text \<open>
  What the components of the node share: the machine integers of the Rust code as words,
  the checked and saturating operations the code calls on them, \<open>Result\<close> as a sum type,
  byte strings and their big-endian fixed-width encodings, and lemma collections.

  The code's \<open>U256\<close> comes from ruint: its \<open>+\<close>, \<open>-\<close> and \<open>*\<close> wrap, as the operations of a
  256-bit word do here. On \<open>u64\<close> the release build wraps as well.
\<close>

section \<open>Machine integers\<close>

type_synonym u8 = "8 word"
type_synonym u16 = "16 word"
type_synonym u32 = "32 word"
type_synonym u64 = "64 word"
type_synonym u128 = "128 word"
type_synonym u256 = "256 word"
type_synonym b256 = "256 word"
type_synonym address = "160 word"
type_synonym bytes = "u8 list"

named_theorems word_nat \<open>unat of the arithmetic the code performs\<close>
named_theorems codec \<open>round trips of the byte codecs\<close>
named_theorems result_simps \<open>inversion of successful results\<close>

abbreviation max_val :: "'a::len word" where
  "max_val \<equiv> - 1"

lemma unat_max_val: "unat (max_val :: 'a::len word) = 2 ^ LENGTH('a) - 1"
  by (simp add: unsigned_minus_1_eq_mask mask_eq_exp_minus_1)

definition sat_add :: "'a::len word \<Rightarrow> 'a word \<Rightarrow> 'a word" where
  "sat_add a b = (if unat a + unat b < 2 ^ LENGTH('a) then a + b else max_val)"

definition sat_sub :: "'a::len word \<Rightarrow> 'a word \<Rightarrow> 'a word" where
  "sat_sub a b = (if b \<le> a then a - b else 0)"

definition sat_mul :: "'a::len word \<Rightarrow> 'a word \<Rightarrow> 'a word" where
  "sat_mul a b = (if unat a * unat b < 2 ^ LENGTH('a) then a * b else max_val)"

definition checked_add :: "'a::len word \<Rightarrow> 'a word \<Rightarrow> 'a word option" where
  "checked_add a b = (if unat a + unat b < 2 ^ LENGTH('a) then Some (a + b) else None)"

definition checked_mul :: "'a::len word \<Rightarrow> 'a word \<Rightarrow> 'a word option" where
  "checked_mul a b = (if unat a * unat b < 2 ^ LENGTH('a) then Some (a * b) else None)"

definition abs_diff :: "'a::len word \<Rightarrow> 'a word \<Rightarrow> 'a word" where
  "abs_diff a b = (if a \<le> b then b - a else a - b)"

lemma unat_add_exact: "unat a + unat b < 2 ^ LENGTH('a) \<Longrightarrow> unat (a + b) = unat a + unat b"
  for a b :: "'a::len word"
  by (metis unat_add_lem)

lemma unat_mult_exact: "unat a * unat b < 2 ^ LENGTH('a) \<Longrightarrow> unat (a * b) = unat a * unat b"
  for a b :: "'a::len word"
  by (metis unat_mult_lem)

lemma unat_sub_exact: "b \<le> a \<Longrightarrow> unat (a - b) = unat a - unat b"
  for a b :: "'a::len word"
  by (simp add: unat_sub)

lemma unat_less_exp: "unat (a :: 'a::len word) < 2 ^ LENGTH('a)"
  by simp

lemma unat_sat_add [word_nat]:
  "unat (sat_add a b) = min (unat a + unat b) (2 ^ LENGTH('a) - 1)" for a b :: "'a::len word"
  using unat_less_exp [of a] by (auto simp: sat_add_def unat_add_exact unat_max_val min_def)

lemma unat_sat_sub [word_nat]: "unat (sat_sub a b) = unat a - unat b"
  by (auto simp: sat_sub_def unat_sub_exact word_le_nat_alt)

lemma unat_sat_mul [word_nat]:
  "unat (sat_mul a b) = min (unat a * unat b) (2 ^ LENGTH('a) - 1)" for a b :: "'a::len word"
proof (cases "unat a * unat b < 2 ^ LENGTH('a)")
  case True
  then show ?thesis by (simp add: sat_mul_def unat_mult_exact)
next
  case False
  then have "2 ^ LENGTH('a) - 1 \<le> unat a * unat b" by linarith
  with False show ?thesis by (simp add: sat_mul_def unat_max_val min_absorb2 del: One_nat_def)
qed

lemma unat_min_word [word_nat]: "unat (min a b) = min (unat a) (unat b)" for a b :: "'a::len word"
  by (auto simp: min_def word_le_nat_alt)

lemma unat_word_div [word_nat]: "unat (a div b) = unat a div unat b" for a b :: "'a::len word"
  by (simp add: unat_div)

lemma unat_ucast_small:
  "unat w < 2 ^ LENGTH('b) \<Longrightarrow> unat (ucast w :: 'b::len word) = unat w" for w :: "'a::len word"
  by (simp add: unsigned_ucast_eq take_bit_nat_eq_self)

lemma unat_ucast_u64: "unat w < 2 ^ 64 \<Longrightarrow> unat (ucast w :: u64) = unat w" for w :: "'a::len word"
  by (simp add: unat_ucast_small)

lemma unat_bound_u64: "unat (w :: u64) < 2 ^ 64"
  using unat_less_exp [of w] by simp

lemma unat_bound_u256: "unat (w :: u256) < 2 ^ 256"
  using unat_less_exp [of w] by simp

lemma unat_of_nat_u256: "n < 2 ^ 256 \<Longrightarrow> unat (of_nat n :: u256) = n"
  by (simp add: unat_of_nat take_bit_nat_eq_self)

lemma unat_of_nat_u128: "n < 2 ^ 128 \<Longrightarrow> unat (of_nat n :: u128) = n"
  by (simp add: unat_of_nat take_bit_nat_eq_self)

lemma unat_of_nat_u64: "n < 2 ^ 64 \<Longrightarrow> unat (of_nat n :: u64) = n"
  by (simp add: unat_of_nat take_bit_nat_eq_self)

lemma u256_eq_max_iff: "(w :: u256) = max_val \<longleftrightarrow> unat w = 2 ^ 256 - 1"
  by (simp add: word_unat_eq_iff unat_max_val)

lemma checked_add_Some:
  "checked_add a b = Some c \<longleftrightarrow> unat c = unat a + unat b" for a b :: "'a::len word"
proof -
  have "unat c < 2 ^ LENGTH('a)" by simp
  then show ?thesis
    by (cases "unat a + unat b < 2 ^ LENGTH('a)")
      (auto simp: checked_add_def unat_add_exact word_unat_eq_iff simp del: unsigned_less)
qed

lemma checked_mul_Some:
  "checked_mul a b = Some c \<longleftrightarrow> unat c = unat a * unat b" for a b :: "'a::len word"
proof -
  have "unat c < 2 ^ LENGTH('a)" by simp
  then show ?thesis
    by (cases "unat a * unat b < 2 ^ LENGTH('a)")
      (auto simp: checked_mul_def unat_mult_exact word_unat_eq_iff simp del: unsigned_less)
qed

section \<open>Results\<close>

text \<open>\<open>Result<T, E>\<close> is \<open>'e + 'a\<close>; \<open>bindE\<close> is the \<open>?\<close> operator and \<open>ensure\<close> an early
  \<open>return Err\<close> guarded by a condition.\<close>

definition bindE :: "'e + 'a \<Rightarrow> ('a \<Rightarrow> 'e + 'b) \<Rightarrow> 'e + 'b" where
  "bindE m f = (case m of Inl e \<Rightarrow> Inl e | Inr x \<Rightarrow> f x)"

definition ensure :: "bool \<Rightarrow> 'e \<Rightarrow> 'e + unit" where
  "ensure c e = (if c then Inr () else Inl e)"

definition of_option :: "'e \<Rightarrow> 'a option \<Rightarrow> 'e + 'a" where
  "of_option e x = (case x of None \<Rightarrow> Inl e | Some v \<Rightarrow> Inr v)"

fun mapE :: "('a \<Rightarrow> 'e + 'b) \<Rightarrow> 'a list \<Rightarrow> 'e + 'b list" where
  "mapE f [] = Inr []"
| "mapE f (x # xs) = bindE (f x) (\<lambda>y. bindE (mapE f xs) (\<lambda>ys. Inr (y # ys)))"

fun eachE :: "('a \<Rightarrow> 'e + unit) \<Rightarrow> 'a list \<Rightarrow> 'e + unit" where
  "eachE f [] = Inr ()"
| "eachE f (x # xs) = bindE (f x) (\<lambda>_. eachE f xs)"

fun foldE :: "('s \<Rightarrow> 'a \<Rightarrow> 'e + 's) \<Rightarrow> 's \<Rightarrow> 'a list \<Rightarrow> 'e + 's" where
  "foldE f s [] = Inr s"
| "foldE f s (x # xs) = bindE (f s x) (\<lambda>s'. foldE f s' xs)"

lemma bindE_simps [simp]: "bindE (Inl e) f = Inl e" "bindE (Inr x) f = f x"
  by (simp_all add: bindE_def)

lemma bindE_Inr [result_simps]: "bindE m f = Inr y \<longleftrightarrow> (\<exists>x. m = Inr x \<and> f x = Inr y)"
  by (cases m) auto

lemma bindE_Inl: "bindE m f = Inl e \<longleftrightarrow> m = Inl e \<or> (\<exists>x. m = Inr x \<and> f x = Inl e)"
  by (cases m) auto

lemma bindE_cong [fundef_cong]:
  "m = m' \<Longrightarrow> (\<And>x. m' = Inr x \<Longrightarrow> f x = f' x) \<Longrightarrow> bindE m f = bindE m' f'"
  by (cases m') (auto simp: bindE_def)

lemma ensure_Inr [simp]: "ensure c e = Inr u \<longleftrightarrow> c"
  by (simp add: ensure_def)

lemma ensure_Inl [simp]: "ensure c e = Inl e' \<longleftrightarrow> \<not> c \<and> e = e'"
  by (auto simp: ensure_def)

lemma of_option_Inr [simp]: "of_option e x = Inr v \<longleftrightarrow> x = Some v"
  by (auto simp: of_option_def split: option.splits)

lemma of_option_Inl [simp]: "of_option e x = Inl e' \<longleftrightarrow> x = None \<and> e = e'"
  by (auto simp: of_option_def split: option.splits)

lemma eachE_Inr [simp]: "eachE f xs = Inr u \<longleftrightarrow> (\<forall>x\<in>set xs. f x = Inr ())"
  by (induction xs) (auto simp: result_simps)

lemma eachE_append: "eachE f (xs @ ys) = bindE (eachE f xs) (\<lambda>_. eachE f ys)"
proof (induction xs)
  case (Cons x xs)
  then show ?case by (cases "f x") auto
qed simp

lemma eachE_Inl_first:
  "eachE f xs = Inl e \<Longrightarrow> \<exists>ys x zs. xs = ys @ x # zs \<and> (\<forall>y\<in>set ys. f y = Inr ()) \<and> f x = Inl e"
proof (induction xs)
  case (Cons a xs)
  show ?case
  proof (cases "f a")
    case (Inl e')
    with Cons.prems have "a # xs = [] @ a # xs \<and> (\<forall>y\<in>set []. f y = Inr ()) \<and> f a = Inl e" by simp
    then show ?thesis by blast
  next
    case (Inr u)
    with Cons obtain ys x zs where
      "xs = ys @ x # zs" "\<forall>y\<in>set ys. f y = Inr ()" "f x = Inl e" by auto
    with Inr have "a # xs = (a # ys) @ x # zs \<and> (\<forall>y\<in>set (a # ys). f y = Inr ()) \<and> f x = Inl e" by simp
    then show ?thesis by blast
  qed
qed simp

lemma foldE_invariant:
  assumes "foldE f s xs = Inr t" and "P s"
    and "\<And>s x s'. \<lbrakk> P s; x \<in> set xs; f s x = Inr s' \<rbrakk> \<Longrightarrow> P s'"
  shows "P t"
  using assms
proof (induction xs arbitrary: s)
  case (Cons x xs)
  obtain s' where step: "f s x = Inr s'" and rest: "foldE f s' xs = Inr t"
    using Cons.prems(1) by (auto simp: result_simps)
  have "P s'" using Cons.prems(3) [OF Cons.prems(2) _ step] by simp
  moreover have "\<And>s y s'. \<lbrakk> P s; y \<in> set xs; f s y = Inr s' \<rbrakk> \<Longrightarrow> P s'"
    using Cons.prems(3) by (metis list.set_intros(2))
  ultimately show ?case by (rule Cons.IH [OF rest])
qed simp

lemma mapE_Inr_length: "mapE f xs = Inr ys \<Longrightarrow> length ys = length xs"
  by (induction xs arbitrary: ys) (auto simp: result_simps)

section \<open>Byte strings\<close>

text \<open>\<open>be_nat\<close> reads a big-endian byte string; \<open>nat_bytes k n\<close> is the value as exactly
  \<open>k\<close> big-endian bytes, keeping the low ones when it does not fit.\<close>

fun be_acc :: "nat \<Rightarrow> bytes \<Rightarrow> nat" where
  "be_acc a [] = a"
| "be_acc a (b # bs) = be_acc (a * 256 + unat b) bs"

definition be_nat :: "bytes \<Rightarrow> nat" where
  "be_nat bs = be_acc 0 bs"

fun nat_bytes :: "nat \<Rightarrow> nat \<Rightarrow> bytes" where
  "nat_bytes 0 n = []"
| "nat_bytes (Suc k) n = nat_bytes k (n div 256) @ [of_nat (n mod 256)]"

lemma be_acc_append: "be_acc a (xs @ ys) = be_acc (be_acc a xs) ys"
  by (induction xs arbitrary: a) auto

lemma be_nat_snoc: "be_nat (xs @ [b]) = be_nat xs * 256 + unat b"
  by (simp add: be_nat_def be_acc_append)

lemma be_nat_Nil [simp]: "be_nat [] = 0"
  by (simp add: be_nat_def)

lemma be_acc_eq: "be_acc a bs = a * 256 ^ length bs + be_nat bs"
proof (induction bs arbitrary: a)
  case (Cons b bs)
  have "be_acc a (b # bs) = (a * 256 + unat b) * 256 ^ length bs + be_nat bs"
    using Cons [of "a * 256 + unat b"] by simp
  moreover have "be_nat (b # bs) = unat b * 256 ^ length bs + be_nat bs"
    using Cons [of "unat b"] by (simp add: be_nat_def)
  ultimately show ?case by (simp add: algebra_simps)
qed simp

lemma be_nat_Cons: "be_nat (b # bs) = unat b * 256 ^ length bs + be_nat bs"
  using be_acc_eq [of "unat b" bs] by (simp add: be_nat_def)

lemma be_nat_append: "be_nat (xs @ ys) = be_nat xs * 256 ^ length ys + be_nat ys"
  using be_acc_eq [of "be_nat xs" ys] by (simp add: be_nat_def be_acc_append)

lemma length_nat_bytes [simp]: "length (nat_bytes k n) = k"
  by (induction k arbitrary: n) auto

lemma unat_byte_mod: "unat (of_nat (n mod 256) :: u8) = n mod 256"
  by (simp add: unat_of_nat)

lemma be_nat_nat_bytes: "be_nat (nat_bytes k n) = n mod 256 ^ k"
proof (induction k arbitrary: n)
  case (Suc k)
  have "n div 256 mod 256 ^ k * 256 + n mod 256 = n mod (256 * 256 ^ k)"
    by (simp add: mod_mult2_eq)
  then show ?case
    by (simp add: be_nat_snoc Suc unat_byte_mod)
qed simp

lemma be_nat_bound: "be_nat bs < 256 ^ length bs"
proof (induction bs rule: rev_induct)
  case (snoc b bs)
  have "unat b < 256" using unat_less_exp [of b] by simp
  with snoc show ?case by (simp add: be_nat_snoc)
qed simp

lemma nat_bytes_be_nat: "nat_bytes (length bs) (be_nat bs) = bs"
proof (induction bs rule: rev_induct)
  case (snoc b bs)
  have "unat b < 256" using unat_less_exp [of b] by simp
  with snoc show ?case
    by (simp add: be_nat_snoc div_add1_eq mod_less)
qed simp

lemma nat_bytes_split: "nat_bytes (j + k) n = nat_bytes j (n div 256 ^ k) @ nat_bytes k n"
  by (induction k arbitrary: n) (simp_all add: div_mult2_eq)

lemma nat_bytes_take: "j \<le> k \<Longrightarrow> take j (nat_bytes k n) = nat_bytes j (n div 256 ^ (k - j))"
  using nat_bytes_split [of j "k - j" n] by simp

lemma nat_bytes_drop: "j \<le> k \<Longrightarrow> drop j (nat_bytes k n) = nat_bytes (k - j) n"
  using nat_bytes_split [of j "k - j" n] by simp

definition to_be :: "nat \<Rightarrow> 'a::len word \<Rightarrow> bytes" where
  "to_be k w = nat_bytes k (unat w)"

definition from_be :: "bytes \<Rightarrow> 'a::len word" where
  "from_be bs = of_nat (be_nat bs)"

lemma length_to_be [simp]: "length (to_be k w) = k"
  by (simp add: to_be_def)

lemma from_be_to_be: "LENGTH('a) = 8 * k \<Longrightarrow> from_be (to_be k w) = w" for w :: "'a::len word"
proof -
  assume len: "LENGTH('a) = 8 * k"
  have "unat w < 256 ^ k"
    using unat_less_exp [of w] by (simp add: len power_mult)
  then show ?thesis by (simp add: from_be_def to_be_def be_nat_nat_bytes)
qed

lemma from_be_u8 [codec]: "from_be (to_be 1 w) = (w :: u8)"
  and from_be_u32 [codec]: "from_be (to_be 4 v) = (v :: u32)"
  and from_be_u64 [codec]: "from_be (to_be 8 x) = (x :: u64)"
  and from_be_u256 [codec]: "from_be (to_be 32 y) = (y :: u256)"
  and from_be_address [codec]: "from_be (to_be 20 z) = (z :: address)"
  by (rule from_be_to_be; simp)+

lemma to_be_from_be: "length bs = k \<Longrightarrow> 256 ^ k \<le> (2::nat) ^ LENGTH('a) \<Longrightarrow> to_be k (from_be bs :: 'a::len word) = bs"
proof -
  assume k: "length bs = k" and le: "256 ^ k \<le> (2::nat) ^ LENGTH('a)"
  have "be_nat bs < 2 ^ LENGTH('a)"
    using be_nat_bound [of bs] k le by simp
  then have "unat (from_be bs :: 'a word) = be_nat bs"
    by (simp add: from_be_def unat_of_nat)
  then show ?thesis
    using nat_bytes_be_nat [of bs] k by (simp add: to_be_def)
qed

text \<open>The bytes that are UTF-8 text, by the ranges of their lead bytes.\<close>

definition utf8_tail :: "u8 \<Rightarrow> bool" where
  "utf8_tail b \<longleftrightarrow> 0x80 \<le> b \<and> b \<le> 0xBF"

fun utf8_ok :: "bytes \<Rightarrow> bool" where
  "utf8_ok [] \<longleftrightarrow> True"
| "utf8_ok (b # bs) \<longleftrightarrow>
     (if b < 0x80 then utf8_ok bs
      else case bs of
        [] \<Rightarrow> False
      | c # cs \<Rightarrow>
          if 0xC2 \<le> b \<and> b \<le> 0xDF then utf8_tail c \<and> utf8_ok cs
          else case cs of
            [] \<Rightarrow> False
          | d # ds \<Rightarrow>
              if 0xE0 \<le> b \<and> b \<le> 0xEF then
                (if b = 0xE0 then 0xA0 \<le> c \<and> c \<le> 0xBF else if b = 0xED then 0x80 \<le> c \<and> c \<le> 0x9F else utf8_tail c) \<and>
                utf8_tail d \<and> utf8_ok ds
              else case ds of
                [] \<Rightarrow> False
              | e # es \<Rightarrow>
                  0xF0 \<le> b \<and> b \<le> 0xF4 \<and>
                  (if b = 0xF0 then 0x90 \<le> c \<and> c \<le> 0xBF else if b = 0xF4 then 0x80 \<le> c \<and> c \<le> 0x8F else utf8_tail c) \<and>
                  utf8_tail d \<and> utf8_tail e \<and> utf8_ok es)"

text \<open>Slices: \<open>slice a b xs\<close> is \<open>xs[a..b]\<close>, which the code takes only where \<open>b\<close> is within
  the length; the callers check it.\<close>

definition slice :: "nat \<Rightarrow> nat \<Rightarrow> 'a list \<Rightarrow> 'a list" where
  "slice a b xs = take (b - a) (drop a xs)"

lemma slice_prefix [simp]: "length xs = b \<Longrightarrow> slice 0 b (xs @ ys) = xs"
  by (simp add: slice_def)

lemma slice_skip: "length xs = n \<Longrightarrow> n \<le> a \<Longrightarrow> slice a b (xs @ ys) = slice (a - n) (b - n) ys"
  by (simp add: slice_def)

lemma length_slice [simp]: "b \<le> length xs \<Longrightarrow> length (slice a b xs) = b - a"
  by (simp add: slice_def)

section \<open>Lists\<close>

lemma distinct_length_le_card:
  "distinct xs \<Longrightarrow> set xs \<subseteq> A \<Longrightarrow> finite A \<Longrightarrow> length xs \<le> card A"
  by (metis card_mono distinct_card)

lemma sum_list_le_length_mult:
  fixes f :: "'a \<Rightarrow> nat"
  assumes "\<And>x. x \<in> set xs \<Longrightarrow> f x \<le> c"
  shows "(\<Sum>x\<leftarrow>xs. f x) \<le> length xs * c"
  using assms
proof (induction xs)
  case (Cons x xs)
  have "f x \<le> c" "(\<Sum>x\<leftarrow>xs. f x) \<le> length xs * c"
    using Cons by auto
  then show ?case by simp
qed simp

lemma find_Some_in: "List.find P xs = Some x \<Longrightarrow> x \<in> set xs \<and> P x"
  by (auto simp: find_Some_iff)

section \<open>Chunks\<close>

text \<open>\<open>as_chunks::<N>().0\<close>: the whole chunks of a list; what is left at the end is dropped.\<close>

function chunks :: "nat \<Rightarrow> 'a list \<Rightarrow> 'a list list" where
  "chunks n xs = (if n = 0 \<or> length xs < n then [] else take n xs # chunks n (drop n xs))"
  by pat_completeness auto
termination by (relation "measure (\<lambda>(n, xs). length xs)") auto

declare chunks.simps [simp del]

lemma chunks_short [simp]: "length xs < n \<Longrightarrow> chunks n xs = []"
  by (simp add: chunks.simps)

lemma chunks_append:
  "n dvd length xs \<Longrightarrow> 0 < n \<Longrightarrow> chunks n (xs @ ys) = chunks n xs @ chunks n ys"
proof (induction "length xs" arbitrary: xs rule: less_induct)
  case less
  show ?case
  proof (cases "xs = []")
    case True
    then show ?thesis using less.prems by simp
  next
    case False
    then have le: "n \<le> length xs" using less.prems by (auto dest: dvd_imp_le)
    have "chunks n (drop n xs @ ys) = chunks n (drop n xs) @ chunks n ys"
      using less.prems le False by (intro less.hyps) (auto simp: dvd_minus_self)
    then show ?thesis
      using le less.prems by (simp add: chunks.simps [of n "xs @ ys"] chunks.simps [of n xs])
  qed
qed

lemma chunks_concat: "\<forall>x \<in> set xs. length x = n \<Longrightarrow> 0 < n \<Longrightarrow> chunks n (concat xs) = xs"
  by (induction xs) (auto simp: chunks.simps)

end
