(* ===== verification/Types.thy ===== *)
theory Types
  imports Prelude
begin

text \<open>
  The data model of \<open>crates/rsk-consensus/src/types\<close>: RSK headers, transactions and blocks.
  Hashes and addresses are words read big-endian from the byte arrays of the code, the logs
  bloom is its 2048-bit value, and \<open>Bytes\<close> is a byte list.
\<close>

record header =
  h_parent_hash :: b256
  h_ommers_hash :: b256
  h_beneficiary :: address
  h_state_root :: b256
  h_transactions_root :: b256
  h_receipts_root :: b256
  h_logs_bloom :: "2048 word"
  h_extension_data :: "bytes option"
  h_difficulty :: u256
  h_number :: u64
  h_gas_limit :: u256
  h_gas_used :: u64
  h_timestamp :: u64
  h_extra_data :: bytes
  h_paid_fees :: u256
  h_minimum_gas_price :: u256
  h_uncle_count :: u64
  h_umm_root :: "bytes option"
  h_mm_header :: "bytes option"
  h_mm_merkle_proof :: "bytes option"
  h_mm_coinbase :: "bytes option"
  h_cached_hash :: "b256 option"
  h_cached_mm_hash :: "b256 option"

record transaction =
  t_nonce :: u64
  t_gas_price :: u256
  t_gas_limit :: u256
  t_to :: bytes
  t_value :: u256
  t_input :: bytes
  t_v :: u64
  t_r :: u256
  t_s :: u256
  t_cached_rlp :: "bytes option"

definition transaction_default :: transaction where
  "transaction_default = \<lparr> t_nonce = 0, t_gas_price = 0, t_gas_limit = 0, t_to = [], t_value = 0,
     t_input = [], t_v = 0, t_r = 0, t_s = 0, t_cached_rlp = None \<rparr>"

text \<open>\<open>PartialEq for Transaction\<close>: every field but the cached encoding.\<close>

definition transaction_eq :: "transaction \<Rightarrow> transaction \<Rightarrow> bool" where
  "transaction_eq a b \<longleftrightarrow>
     t_nonce a = t_nonce b \<and> t_gas_price a = t_gas_price b \<and> t_gas_limit a = t_gas_limit b \<and>
     t_to a = t_to b \<and> t_value a = t_value b \<and> t_input a = t_input b \<and> t_v a = t_v b \<and>
     t_r a = t_r b \<and> t_s a = t_s b"

lemma transaction_eq_iff:
  "transaction_eq a b \<longleftrightarrow> a\<lparr>t_cached_rlp := c\<rparr> = b\<lparr>t_cached_rlp := c\<rparr>"
  by (cases a; cases b) (simp add: transaction_eq_def)

record block =
  b_header :: header
  b_transactions :: "transaction list"
  b_ommers :: "header list"

definition header_default :: header where
  "header_default = \<lparr> h_parent_hash = 0, h_ommers_hash = 0, h_beneficiary = 0, h_state_root = 0,
     h_transactions_root = 0, h_receipts_root = 0, h_logs_bloom = 0, h_extension_data = None,
     h_difficulty = 0, h_number = 0, h_gas_limit = 0, h_gas_used = 0, h_timestamp = 0,
     h_extra_data = [], h_paid_fees = 0, h_minimum_gas_price = 0, h_uncle_count = 0,
     h_umm_root = None, h_mm_header = None, h_mm_merkle_proof = None, h_mm_coinbase = None,
     h_cached_hash = None, h_cached_mm_hash = None \<rparr>"

end
