(* ===== verification/Config.thy ===== *)
theory Config
  imports Types
begin

text \<open>
  \<open>crates/rsk-consensus/src/config.rs\<close>: activation heights, the chain parameters of the three
  networks, the process-wide activation cell, and the genesis state each network starts from.
\<close>

section \<open>Activation heights\<close>

record activation_heights =
  orchid :: u64
  wasabi100 :: u64
  papyrus200 :: u64
  iris300 :: u64
  fingerroot500 :: u64

definition activations_mainnet :: activation_heights where
  "activations_mainnet = \<lparr> orchid = 729000, wasabi100 = 1591000, papyrus200 = 2392700,
     iris300 = 3614800, fingerroot500 = 5468000 \<rparr>"

definition activations_testnet :: activation_heights where
  "activations_testnet = \<lparr> orchid = 0, wasabi100 = 0, papyrus200 = 863000,
     iris300 = 2060500, fingerroot500 = 4015800 \<rparr>"

definition activations_regtest :: activation_heights where
  "activations_regtest = \<lparr> orchid = 0, wasabi100 = 0, papyrus200 = max_val,
     iris300 = 0, fingerroot500 = 0 \<rparr>"

text \<open>The \<open>OnceLock\<close> cell: \<open>install\<close> sets it once and is ignored afterwards; \<open>current\<close>
  initialises it to mainnet when it is still empty, and returns the cell it leaves.\<close>

type_synonym activation_cell = "activation_heights option"

definition install :: "activation_heights \<Rightarrow> activation_cell \<Rightarrow> activation_cell" where
  "install a cell = (case cell of None \<Rightarrow> Some a | Some b \<Rightarrow> Some b)"

definition current :: "activation_cell \<Rightarrow> activation_heights \<times> activation_cell" where
  "current cell = (case cell of
     None \<Rightarrow> (activations_mainnet, Some activations_mainnet)
   | Some a \<Rightarrow> (a, Some a))"

lemma current_stable: "current (snd (current cell)) = current cell"
  by (simp add: current_def split: option.splits)

lemma install_after_current: "install a (snd (current cell)) = snd (current cell)"
  by (simp add: current_def install_def split: option.splits)

section \<open>Chain parameters\<close>

record chain_config =
  chain_id :: u8
  network_id :: u64
  duration_limit :: u64
  difficulty_divisor :: u256
  min_difficulty :: u256
  max_future_block_time :: u64
  gas_limit_bound_divisor :: u64
  min_gas_limit :: u64
  max_gas_limit :: u64
  activations :: activation_heights

definition mainnet :: chain_config where
  "mainnet = \<lparr> chain_id = 30, network_id = 775, duration_limit = 14, difficulty_divisor = 50,
     min_difficulty = 7000000000000000, max_future_block_time = 540,
     gas_limit_bound_divisor = 1024, min_gas_limit = 5000, max_gas_limit = 1000000000,
     activations = activations_mainnet \<rparr>"

definition testnet :: chain_config where
  "testnet = \<lparr> chain_id = 31, network_id = 8100, duration_limit = 14, difficulty_divisor = 50,
     min_difficulty = 131072, max_future_block_time = 540,
     gas_limit_bound_divisor = 1024, min_gas_limit = 5000, max_gas_limit = 1000000000,
     activations = activations_testnet \<rparr>"

definition regtest :: chain_config where
  "regtest = \<lparr> chain_id = 33, network_id = 7771, duration_limit = 10, difficulty_divisor = 2048,
     min_difficulty = 1, max_future_block_time = 0,
     gas_limit_bound_divisor = 1024, min_gas_limit = 1, max_gas_limit = 10000000,
     activations = activations_regtest \<rparr>"

lemmas network_defs = mainnet_def testnet_def regtest_def
  activations_mainnet_def activations_testnet_def activations_regtest_def

section \<open>Genesis\<close>

definition known_genesis_hash :: "chain_config \<Rightarrow> b256 option" where
  "known_genesis_hash c = (if chain_id c = 30
     then Some 0xf88529d4ab262c0f4d042e9d8d3f2472848eaafe1a9b7213f57617eb40a9f9e0
     else if chain_id c = 31
     then Some 0xcabb7fbe88cd6d922042a32ffc08ce8b1fbb37d650b9d4e7dbfe2a7469adfa42
     else None)"

definition empty_list_hash :: b256 where
  "empty_list_hash = 0x1dcc4de8dec75d7aab85b567b6ccd41ad312451b948a7413f0a142fd40d49347"

definition empty_trie_hash :: b256 where
  "empty_trie_hash = 0x56e81f171bcc55a6ff8345e692c0f86e5b48e01b996cadc001622fb5e363b421"

definition genesis_extra_mainnet :: bytes where
  "genesis_extra_mainnet = [0x48,0x61,0x70,0x70,0x79,0x20,0x42,0x69,0x74,0x63,0x6f,0x69,0x6e,0x20,
     0x44,0x61,0x79,0x21,0x20,0x30,0x33,0x2f,0x4a,0x61,0x6e,0x2f,0x32,0x30,0x31,0x38,0x20,0x2d,0x20,
     0x52,0x53,0x4b,0x20,0x74,0x65,0x63,0x68,0x6e,0x6f,0x6c,0x6f,0x67,0x79,0x20,0x61,0x74,0x20,0x74,
     0x68,0x65,0x20,0x73,0x65,0x72,0x76,0x69,0x63,0x65,0x20,0x6f,0x66,0x20,0x73,0x6f,0x63,0x69,0x65,
     0x74,0x79]"

definition genesis_extra_other :: bytes where
  "genesis_extra_other = [0x72,0x75,0x73,0x74,0x6f,0x63,0x6b,0x2d,0x67,0x65,0x6e,0x65,0x73,0x69,0x73]"

definition genesis_header :: "chain_config \<Rightarrow> header" where
  "genesis_header c =
    (if chain_id c = 30 then header_default\<lparr>
       h_ommers_hash := empty_list_hash,
       h_beneficiary := 0x3333333333333333333333333333333333333333,
       h_state_root := 0x9fa70f12726ac738640a86754741bb3f5680520ccc7e6ae9d95ace566a67fe01,
       h_transactions_root := empty_trie_hash, h_receipts_root := empty_trie_hash,
       h_difficulty := 0x00100000, h_gas_limit := 0x67c280, h_timestamp := 0x5a4af5b0,
       h_extra_data := genesis_extra_mainnet, h_minimum_gas_price := 0x0AE85BC0,
       h_mm_header := Some [0], h_mm_merkle_proof := Some [0], h_mm_coinbase := Some [0] \<rparr>
     else if chain_id c = 31 then header_default\<lparr>
       h_state_root := 0x45bce5168430c42b3d568331753f900a32457b4f3748697cbd8375ff4da72641,
       h_difficulty := 0x00100000, h_gas_limit := 0x4c4b40,
       h_extra_data := [0x43, 0x4d, 0x27, 0x28, 0x41] \<rparr>
     else header_default\<lparr>
       h_difficulty := 0x20000, h_gas_limit := 10000000, h_extra_data := genesis_extra_other \<rparr>)"

record genesis_account =
  ga_address :: address
  ga_balance :: u256
  ga_nonce :: u256

definition twenty_one_million_rbtc :: u256 where
  "twenty_one_million_rbtc = 21000000 * 10 ^ 18"

definition genesis_alloc :: "chain_config \<Rightarrow> genesis_account list" where
  "genesis_alloc c = (if chain_id c = 30 \<or> chain_id c = 31
     then [\<lparr> ga_address = 0x01000006, ga_balance = twenty_one_million_rbtc, ga_nonce = 0 \<rparr>]
     else [])"

text \<open>\<open>bridge_storage_key_ascii\<close> right-aligns a name of at most 32 bytes; a longer one would
  make \<open>32 - len\<close> underflow, which is the \<open>None\<close> here.\<close>

definition bridge_storage_key_ascii :: "bytes \<Rightarrow> u256 option" where
  "bridge_storage_key_ascii name = (if length name \<le> 32
     then Some (from_be (replicate (32 - length name) 0 @ name)) else None)"

definition u256_to_storage_bytes :: "u256 \<Rightarrow> bytes" where
  "u256_to_storage_bytes v = dropWhile (\<lambda>b. b = 0) (to_be 32 v)"

definition fee_per_kb_name :: bytes where
  "fee_per_kb_name = [0x66,0x65,0x65,0x50,0x65,0x72,0x4b,0x62]"

definition locking_cap_name :: bytes where
  "locking_cap_name = [0x6c,0x6f,0x63,0x6b,0x69,0x6e,0x67,0x43,0x61,0x70]"

definition genesis_bridge_storage :: "chain_config \<Rightarrow> (u256 \<times> bytes) list option" where
  "genesis_bridge_storage c = (if chain_id c = 30 \<or> chain_id c = 31
     then (case (bridge_storage_key_ascii fee_per_kb_name, bridge_storage_key_ascii locking_cap_name) of
         (Some fee, Some cap) \<Rightarrow> Some [(fee, u256_to_storage_bytes 10000),
                                      (cap, u256_to_storage_bytes twenty_one_million_rbtc)]
       | _ \<Rightarrow> None)
     else Some [])"

fun digit :: "nat \<Rightarrow> char" where
  "digit n = char_of (48 + n mod 10)"

text \<open>\<open>format!("{n:02}")\<close> for the one- and two-digit numbers the boot nodes use.\<close>

definition two_digits :: "nat \<Rightarrow> string" where
  "two_digits n = [digit (n div 10), digit n]"

definition bootnodes :: "chain_config \<Rightarrow> string list" where
  "bootnodes c = (if chain_id c = 30
       then map (\<lambda>n. ''bootstrap'' @ two_digits n @ ''.rsk.co:5050'') [1..<17]
     else if chain_id c = 31
       then map (\<lambda>n. ''bootstrap'' @ two_digits n @ ''.testnet.rsk.co:50505'') [1..<9]
     else [])"

section \<open>Facts\<close>

lemma be_nat_leading_zeros: "be_nat (replicate k 0 @ bs) = be_nat bs"
  by (induction k) (simp_all add: be_nat_Cons)

lemma be_nat_dropWhile_zero: "be_nat (dropWhile (\<lambda>b. b = 0) bs) = be_nat bs"
  by (induction bs) (auto simp: be_nat_Cons)

lemma from_be_storage_bytes: "from_be (u256_to_storage_bytes v) = v"
  using from_be_u256 [of v]
  by (simp add: from_be_def u256_to_storage_bytes_def be_nat_dropWhile_zero)

lemma storage_bytes_no_leading_zero: "u256_to_storage_bytes v \<noteq> [] \<Longrightarrow> hd (u256_to_storage_bytes v) \<noteq> 0"
  unfolding u256_to_storage_bytes_def by (rule hd_dropWhile)

lemma twenty_one_million_rbtc_exact: "unat twenty_one_million_rbtc = 21000000 * 10 ^ 18"
  by (simp add: twenty_one_million_rbtc_def)

lemma known_genesis_hash_Some: "known_genesis_hash c \<noteq> None \<longleftrightarrow> chain_id c \<in> {30, 31}"
  by (auto simp: known_genesis_hash_def)

lemma genesis_header_number: "h_number (genesis_header c) = 0 \<and> h_parent_hash (genesis_header c) = 0"
  by (simp add: genesis_header_def header_default_def)

lemma genesis_bridge_storage_total: "genesis_bridge_storage c \<noteq> None"
  by (simp add: genesis_bridge_storage_def bridge_storage_key_ascii_def fee_per_kb_name_def
      locking_cap_name_def)

end
