(* ===== verification/Validation.thy ===== *)
theory Validation
  imports Config
begin

text \<open>
  The vocabulary of \<open>crates/rsk-consensus/src/validation/mod.rs\<close>: the errors a rule can
  return and the three kinds of rule. \<open>PanicDivZero\<close> is not an error of the enum: it stands
  for the panic of a division by a zero configuration value.
\<close>

datatype validation_error =
    InvalidBlockNumber (ibn_expected: u64) (ibn_got: u64)
  | ParentHashMismatch b256 b256
  | TimestampInFuture u64 u64
  | TimestampOlderThanParent u64 u64
  | SystemTimeError
  | GasUsedExceedsLimit u64 u64
  | GasLimitOverflow
  | GasLimitOutOfBounds u64 u64 u64
  | GasLimitInvalid u64 u64
  | DifficultyMismatch u256 u256
  | DifficultyZero
  | BitcoinHeaderDecodeError
  | BitcoinCoinbaseDecodeError
  | BitcoinMerkleProofDecodeError
  | BitcoinPowInvalid b256 u256
  | BitcoinMerkleProofInvalid
  | BitcoinCoinbaseTagInvalid
  | MerkleProofTooLarge nat nat
  | TxGasPriceBelowMinimum u256 u256
  | TxGasPriceAboveCap u256 u256
  | RemascTxMissing
  | ExtraDataTooLarge nat nat
  | MinGasPriceOutOfRange u256 u256 u256
  | TooManyUncles nat nat
  | UncleIsAncestor b256
  | UncleAlreadyUsed b256
  | UncleRepeated b256
  | UncleIsSiblingOrDescendant b256
  | UncleTooOld b256 u64
  | UncleHasNoCommonParent b256
  | ForkDetectionDataMismatch bytes bytes
  | ForkDetectionDataUnreadable
  | PanicDivZero

type_synonym 'a checked = "validation_error + 'a"
type_synonym header_rule = "header \<Rightarrow> unit checked"
type_synonym parent_rule = "header \<Rightarrow> header \<Rightarrow> unit checked"
type_synonym block_rule = "block \<Rightarrow> unit checked"

end
