(* ===== verification/Difficulty.thy ===== *)
theory Difficulty
  imports Validation
begin

text \<open>
  \<open>validation/difficulty.rs\<close>: the difficulty a header must carry given its parent, and the
  rule that compares it. \<open>retarget_step\<close> is the contract the rest of the development uses:
  how far one block may move the difficulty.
\<close>

definition RSKIP156_DIFFICULTY_DIVISOR :: u256 where
  "RSKIP156_DIFFICULTY_DIVISOR = 400"

definition TEN_MINUTES :: u64 where
  "TEN_MINUTES = 600"

definition retarget_sign :: "u64 \<Rightarrow> u64 \<Rightarrow> int" where
  "retarget_sign calc_dur delta = (if calc_dur > delta then 1 else if calc_dur < delta then - 1 else 0)"

definition calculate_expected_difficulty :: "chain_config \<Rightarrow> header \<Rightarrow> header \<Rightarrow> u256 checked" where
  "calculate_expected_difficulty config header parent =
    (let act = activations config;
         rskip97_active = h_number header \<ge> orchid act;
         delta = sat_sub (h_timestamp header) (h_timestamp parent)
     in if \<not> rskip97_active \<and> delta \<ge> TEN_MINUTES then Inr (min_difficulty config)
        else if h_timestamp header < h_timestamp parent then Inr (h_difficulty parent)
        else
          let calc_dur = (1 + h_uncle_count header) * duration_limit config;
              sign = retarget_sign calc_dur delta
          in if sign = 0 then Inr (h_difficulty parent)
             else
               let divisor = (if h_number header \<ge> papyrus200 act then RSKIP156_DIFFICULTY_DIVISOR
                              else difficulty_divisor config)
               in bindE (ensure (divisor \<noteq> 0) PanicDivZero) (\<lambda>_.
                    let quotient = h_difficulty parent div divisor;
                        from_parent = (if sign = 1 then h_difficulty parent + quotient
                          else if h_difficulty parent > quotient then h_difficulty parent - quotient
                          else 0)
                    in Inr (if from_parent < min_difficulty config then min_difficulty config
                            else from_parent)))"

definition difficulty_for_child :: "chain_config \<Rightarrow> header \<Rightarrow> u64 \<Rightarrow> u64 \<Rightarrow> u64 \<Rightarrow> u256 checked" where
  "difficulty_for_child config parent number timestamp uncle_count =
     calculate_expected_difficulty config
       (parent\<lparr> h_number := number, h_timestamp := timestamp, h_uncle_count := uncle_count \<rparr>) parent"

definition difficulty_rule :: "chain_config \<Rightarrow> parent_rule" where
  "difficulty_rule config header parent =
     bindE (calculate_expected_difficulty config header parent) (\<lambda>expected.
       ensure (h_difficulty header = expected) (DifficultyMismatch expected (h_difficulty header)))"

section \<open>The rule and the miner agree\<close>

lemma calculate_depends:
  assumes "h_number h = h_number h'" "h_timestamp h = h_timestamp h'" "h_uncle_count h = h_uncle_count h'"
  shows "calculate_expected_difficulty c h p = calculate_expected_difficulty c h' p"
  unfolding calculate_expected_difficulty_def assms ..

lemma calculate_is_for_child:
  "calculate_expected_difficulty c h p =
     difficulty_for_child c p (h_number h) (h_timestamp h) (h_uncle_count h)"
  unfolding difficulty_for_child_def by (rule calculate_depends) simp_all

section \<open>The contract of one step\<close>

text \<open>\<open>k\<close> is the divisor, \<open>m\<close> the minimum: a child's difficulty rises by at most \<open>1/k\<close> of its
  parent's (or up to the minimum) and falls by at most \<open>1/k\<close>.\<close>

definition retarget_step :: "nat \<Rightarrow> nat \<Rightarrow> nat \<Rightarrow> nat \<Rightarrow> bool" where
  "retarget_step k m d d' \<longleftrightarrow> d' \<le> max m (d + d div k) \<and> d - d div k \<le> d'"

definition header_divisor :: "chain_config \<Rightarrow> header \<Rightarrow> u256" where
  "header_divisor config header = (if h_number header \<ge> papyrus200 (activations config)
     then RSKIP156_DIFFICULTY_DIVISOR else difficulty_divisor config)"

lemma retarget_clamp:
  fixes p q m :: u256
  assumes "unat p + unat q < 2 ^ 256" and "q \<le> p"
  shows "unat (let fp = (if s = (1::int) then p + q else if p > q then p - q else 0)
               in if fp < m then m else fp)
         = max (unat m) (if s = 1 then unat p + unat q else unat p - unat q)"
proof (cases "s = 1")
  case True
  have "unat (p + q) = unat p + unat q" using assms(1) by (intro unat_add_exact) simp
  then show ?thesis using True by (simp add: Let_def max_def word_less_nat_alt)
next
  case False
  show ?thesis
  proof (cases "p > q")
    case True
    then have "unat (p - q) = unat p - unat q" by (simp add: unat_sub_exact)
    then show ?thesis using False True by (simp add: Let_def max_def word_less_nat_alt)
  next
    case nle: False
    then have "unat p - unat q = 0" by (simp add: word_less_nat_alt)
    then show ?thesis using False nle by (simp add: Let_def max_def word_less_nat_alt)
  qed
qed

section \<open>The rule in exact arithmetic\<close>

text \<open>The divisor in force, and the difficulty a child must carry, in natural numbers: the minimum
  for a block before orchid ten minutes or more after its parent; the parent's difficulty for a block
  before its parent's time; otherwise the time since the parent against the slot of
  \<open>duration_limit\<close> seconds for the block and for every uncle it lists.\<close>

definition divisor_at :: "chain_config \<Rightarrow> header \<Rightarrow> nat" where
  "divisor_at c h = (if unat (papyrus200 (activations c)) \<le> unat (h_number h) then 400
     else unat (difficulty_divisor c))"

definition exact_difficulty :: "chain_config \<Rightarrow> header \<Rightarrow> header \<Rightarrow> nat" where
  "exact_difficulty c h p =
    (let d = unat (h_difficulty p); least = unat (min_difficulty c); k = divisor_at c h;
         before = unat (h_timestamp p); at = unat (h_timestamp h);
         slot = (1 + unat (h_uncle_count h)) * unat (duration_limit c)
     in if unat (h_number h) < unat (orchid (activations c)) \<and> before + 600 \<le> at then least
        else if at < before \<or> at = before + slot then d
        else if at < before + slot then max least (d + d div k)
        else max least (d - d div k))"

text \<open>What keeps the machine arithmetic exact: a nonzero divisor, a slot that fits 64 bits and a
  raised difficulty that fits 256.\<close>

definition difficulty_room :: "chain_config \<Rightarrow> header \<Rightarrow> header \<Rightarrow> bool" where
  "difficulty_room c h p \<longleftrightarrow> divisor_at c h \<noteq> 0
     \<and> (1 + unat (h_uncle_count h)) * unat (duration_limit c) < 2 ^ 64
     \<and> unat (h_difficulty p) + unat (h_difficulty p) div divisor_at c h < 2 ^ 256"

lemma word_nat_inverse: "of_nat (unat (w :: u256)) = w"
  by simp

lemma divisor_at_header: "unat (header_divisor c h) = divisor_at c h"
  by (simp add: header_divisor_def divisor_at_def RSKIP156_DIFFICULTY_DIVISOR_def word_le_nat_alt)

lemma unat_slot:
  fixes u l :: u64
  assumes "(1 + unat u) * unat l < 2 ^ 64"
  shows "unat ((1 + u) * l) = (1 + unat u) * unat l"
proof (cases "unat l = 0")
  case True
  then have "l = 0" by (simp add: unat_eq_0)
  then show ?thesis by simp
next
  case False
  then have "(1 + unat u) * 1 \<le> (1 + unat u) * unat l" by (intro mult_le_mono2) simp
  then have "unat (1 + u) = 1 + unat u" using assms by (subst unat_add_exact) simp_all
  then show ?thesis using assms by (subst unat_mult_exact) simp_all
qed

lemma delta_exact:
  fixes t t' :: u64
  assumes "t' \<le> t"
  shows "unat (sat_sub t t') = unat t - unat t'"
  using assms by (simp add: sat_sub_def unat_sub_exact)

lemma calculate_exact:
  assumes "difficulty_room c h p"
  shows "\<exists>d. calculate_expected_difficulty c h p = Inr d \<and> unat d = exact_difficulty c h p"
proof -
  let ?t = "h_timestamp h" and ?t' = "h_timestamp p" and ?k = "header_divisor c h"
  let ?slot = "(1 + h_uncle_count h) * duration_limit c"
  have k: "?k \<noteq> 0" using assms divisor_at_header [of c h] by (auto simp: difficulty_room_def)
  have slot: "unat ?slot = (1 + unat (h_uncle_count h)) * unat (duration_limit c)"
    using assms by (intro unat_slot) (simp add: difficulty_room_def)
  show ?thesis
  proof (cases "h_number h < orchid (activations c) \<and> unat ?t' + 600 \<le> unat ?t")
    case True
    then have le: "?t' \<le> ?t" by (simp add: word_le_nat_alt)
    have "unat (sat_sub ?t ?t') \<ge> 600"
      unfolding delta_exact [OF le] using True by linarith
    then show ?thesis using True le
      by (simp add: calculate_expected_difficulty_def exact_difficulty_def Let_def TEN_MINUTES_def
          word_le_nat_alt word_less_nat_alt)
  next
    case noreset: False
    have no: "\<not> (\<not> h_number h \<ge> orchid (activations c) \<and> sat_sub ?t ?t' \<ge> TEN_MINUTES)"
    proof (cases "?t' \<le> ?t")
      case True
      then show ?thesis using noreset
        by (auto simp: TEN_MINUTES_def word_le_nat_alt delta_exact word_less_nat_alt)
    qed (simp add: sat_sub_def TEN_MINUTES_def word_le_nat_alt)
    show ?thesis
    proof (cases "?t < ?t'")
      case True
      then show ?thesis using no noreset
        by (auto simp: calculate_expected_difficulty_def exact_difficulty_def Let_def word_less_nat_alt)
    next
      case False
      then have le: "?t' \<le> ?t" by simp
      have q: "unat (h_difficulty p div ?k) = unat (h_difficulty p) div divisor_at c h"
        by (simp add: word_nat divisor_at_header)
      have room: "unat (h_difficulty p) + unat (h_difficulty p div ?k) < 2 ^ 256"
        using assms by (simp add: q difficulty_room_def)
      have "h_difficulty p div ?k \<le> h_difficulty p" by (simp add: word_le_nat_alt q)
      note clamp = retarget_clamp [OF room this, where m = "min_difficulty c", unfolded q]
      have cmp: "?slot < sat_sub ?t ?t' \<longleftrightarrow> unat ?t' + unat ?slot < unat ?t"
          "sat_sub ?t ?t' < ?slot \<longleftrightarrow> unat ?t < unat ?t' + unat ?slot"
        using le by (auto simp: word_less_nat_alt word_le_nat_alt delta_exact)
      show ?thesis
        using no noreset False le k clamp [of 1] clamp [of "- 1"]
        unfolding calculate_expected_difficulty_def exact_difficulty_def Let_def retarget_sign_def
          header_divisor_def [symmetric] cmp slot
        by (auto simp: word_less_nat_alt word_le_nat_alt ensure_def)
    qed
  qed
qed

lemma exact_is_step:
  "unat (orchid (activations c)) \<le> unat (h_number h) \<Longrightarrow>
     retarget_step (divisor_at c h) (unat (min_difficulty c)) (unat (h_difficulty p)) (exact_difficulty c h p)"
  by (auto simp: exact_difficulty_def retarget_step_def Let_def)

lemma exact_keeps_minimum:
  "min_difficulty c \<le> h_difficulty p \<Longrightarrow> unat (min_difficulty c) \<le> exact_difficulty c h p"
  by (auto simp: exact_difficulty_def Let_def word_le_nat_alt)

lemma difficulty_rule_exact:
  assumes "difficulty_room c h p"
  shows "difficulty_rule c h p = (if unat (h_difficulty h) = exact_difficulty c h p then Inr ()
      else Inl (DifficultyMismatch (of_nat (exact_difficulty c h p)) (h_difficulty h)))"
proof -
  obtain d where d: "calculate_expected_difficulty c h p = Inr d" "unat d = exact_difficulty c h p"
    using calculate_exact [OF assms] by blast
  then have "of_nat (exact_difficulty c h p) = d" by (metis word_nat_inverse)
  moreover have "h_difficulty h = d \<longleftrightarrow> unat (h_difficulty h) = exact_difficulty c h p"
    using d(2) by (auto simp: word_unat_eq_iff)
  ultimately show ?thesis by (simp add: difficulty_rule_def d(1) ensure_def)
qed

section \<open>Properties\<close>


definition demo_parent :: header where
  "demo_parent = header_default\<lparr> h_number := 9020000, h_difficulty := 8000000000000000, h_timestamp := 1000 \<rparr>"

definition demo_child :: header where
  "demo_child = header_default\<lparr> h_number := 9020001, h_difficulty := 8020000000000000, h_timestamp := 1010 \<rparr>"

lemma demo_child_accepted: "calculate_expected_difficulty mainnet demo_child demo_parent = Inr 8020000000000000"
  by (simp add: calculate_expected_difficulty_def demo_child_def demo_parent_def header_default_def
      network_defs TEN_MINUTES_def retarget_sign_def sat_sub_def RSKIP156_DIFFICULTY_DIVISOR_def ensure_def)


end
