(* ===== verification/Work_Bound.thy ===== *)
theory Work_Bound
  imports Difficulty
begin

text \<open>
  \<open>crates/rsk-consensus/src/checkpoint.rs\<close>: the upper bound on the work a chain can carry
  above a checkpoint, the uncle allowance taken from samples, and the verdict on a peer's claim.

  The vector of caps is a list, \<open>caps div to n = [cap[0], ..., cap[n]]\<close>; its allocation is
  taken to succeed. The theorems compare the code's saturating 256-bit arithmetic with natural
  numbers.
\<close>

section \<open>Data\<close>

record difficulty_checkpoint =
  cp_number :: u64
  cp_hash :: b256
  cp_cumulative :: u256
  cp_difficulty :: u256

text \<open>\<open>U256::from_limbs\<close>: little-endian 64-bit limbs.\<close>

definition from_limbs :: "u64 list \<Rightarrow> u256" where
  "from_limbs ls = foldr (\<lambda>l acc. of_nat (unat l) + 2 ^ 64 * acc) ls 0"

definition MAINNET_CHECKPOINT :: difficulty_checkpoint where
  "MAINNET_CHECKPOINT = \<lparr> cp_number = 9020000,
     cp_hash = 0x270343b5b43eca9c17538bdaefe7cf8fd3012ce9b7cefc9c7d4ac2322b472cc5,
     cp_cumulative = from_limbs [0x3df62dc93cc9b32e, 0x00000000ba214741, 0, 0],
     cp_difficulty = from_limbs [0x8d8fe2d95db565bd, 0x0000000000000190, 0, 0] \<rparr>"

datatype verdict =
    Plausible (pl_ceiling: u256)
  | Impossible u256 u256
  | Contradicted u256 u256

record defence =
  verify_hash :: bool
  bound_work :: bool

definition defence_none :: defence where
  "defence_none = \<lparr> verify_hash = False, bound_work = False \<rparr>"

definition defence_full :: defence where
  "defence_full = \<lparr> verify_hash = True, bound_work = True \<rparr>"

definition defence_any :: "defence \<Rightarrow> bool" where
  "defence_any d \<longleftrightarrow> verify_hash d \<or> bound_work d"

record sample =
  s_number :: u64
  s_difficulty :: u256
  s_uncle_count :: u64

definition LN_3_OVER_DELTA_PER_MILLE :: u128 where
  "LN_3_OVER_DELTA_PER_MILLE = 21821"

definition UNCLE_LIST_LIMIT :: u64 where
  "UNCLE_LIST_LIMIT = 10"

section \<open>The bound over one interval\<close>

definition cap_back :: "u256 \<Rightarrow> u256 \<Rightarrow> u256" where
  "cap_back dv nxt = (case checked_mul nxt dv of Some v \<Rightarrow> v div (dv - 1) | None \<Rightarrow> max_val)"

fun caps :: "u256 \<Rightarrow> u256 \<Rightarrow> nat \<Rightarrow> u256 list" where
  "caps dv to 0 = [to]"
| "caps dv to (Suc n) = (let cs = caps dv to n in cap_back dv (hd cs) # cs)"

fun work_walk :: "u256 \<Rightarrow> u256 \<Rightarrow> u256 \<Rightarrow> u256 \<Rightarrow> u256 list \<Rightarrow> u256" where
  "work_walk dv m tot d [] = tot"
| "work_walk dv m tot d (c # cs) =
    (let risen = sat_add d (d div dv);
         d1 = min risen c;
         d2 = (if d1 < m then m else d1)
     in work_walk dv m (sat_add tot d2) d2 cs)"

definition max_work_between :: "u256 \<Rightarrow> u256 \<Rightarrow> u64 \<Rightarrow> u64 \<Rightarrow> u256 \<Rightarrow> u256" where
  "max_work_between start to span divisor m =
    (if span = 0 \<or> divisor < 2 then 0
     else let dv = ucast divisor in work_walk dv m 0 start (tl (caps dv to (unat span))))"

section \<open>The uncle allowance\<close>

text \<open>\<open>u128::isqrt\<close>, the integer square root.\<close>

fun isqrt :: "nat \<Rightarrow> nat" where
  "isqrt n = (if n = 0 then 0
     else let r = 2 * isqrt (n div 4) in if (r + 1) * (r + 1) \<le> n then r + 1 else r)"

declare isqrt.simps [simp del]

definition isqrt_u128 :: "u128 \<Rightarrow> u128" where
  "isqrt_u128 v = of_nat (isqrt (unat v))"

definition uncle_allowance_per_mille :: "sample list \<Rightarrow> u64" where
  "uncle_allowance_per_mille samples =
    (let cap = 1000 + UNCLE_LIST_LIMIT * 1000;
         k = (of_nat (length samples) :: u128)
     in if k < 2 then cap
        else
          let counts = map (\<lambda>s. ucast (s_uncle_count s) * 1000 :: u128) samples;
              tot = sum_list counts;
              mean = tot div k;
              ss = sum_list (map (\<lambda>c. abs_diff c mean * abs_diff c mean) counts);
              variance = ss div (k - 1);
              l = LN_3_OVER_DELTA_PER_MILLE;
              variance_term = isqrt_u128 (2 * variance * l div (1000 * k));
              range_term = 3 * (ucast UNCLE_LIST_LIMIT * 1000) * l div (1000 * k);
              uncles = sat_add (sat_add mean variance_term) range_term
          in ucast (min (1000 + uncles) (ucast cap)))"

section \<open>The ceiling and the verdict\<close>

definition scale_work :: "u64 \<Rightarrow> u256 \<Rightarrow> u256" where
  "scale_work allowance work = sat_mul work (ucast allowance) div 1000"

text \<open>The state of the loop: total, height and difficulty of the last sample counted.\<close>

fun ceiling_loop :: "u64 \<Rightarrow> u64 \<Rightarrow> u256 \<Rightarrow> u256 \<times> u64 \<times> u256 \<Rightarrow> sample list \<Rightarrow> u256 \<times> u64 \<times> u256" where
  "ceiling_loop al divisor m st [] = st"
| "ceiling_loop al divisor m (tot, at, d) (s # ss) =
    (if s_number s \<le> at then ceiling_loop al divisor m (tot, at, d) ss
     else ceiling_loop al divisor m
       (sat_add tot (scale_work al (max_work_between d (s_difficulty s) (s_number s - at) divisor m)),
        s_number s, s_difficulty s) ss)"

definition ceiling_for :: "difficulty_checkpoint \<Rightarrow> sample list \<Rightarrow> u64 \<Rightarrow> u64 \<Rightarrow> u256 \<Rightarrow> u256" where
  "ceiling_for cp samples head divisor m =
    (let al = uncle_allowance_per_mille samples;
         (tot, at, d) = ceiling_loop al divisor m
            (cp_cumulative cp, cp_number cp, cp_difficulty cp) samples
     in if head > at
        then sat_add tot (scale_work al (max_work_between d max_val (head - at) divisor m))
        else tot)"

definition judge :: "difficulty_checkpoint \<Rightarrow> u256 \<Rightarrow> sample list \<Rightarrow> u64 \<Rightarrow> u64 \<Rightarrow> u256 \<Rightarrow> verdict" where
  "judge cp claimed samples head divisor m =
    (let ceiling = ceiling_for cp samples head divisor m
     in if claimed > ceiling then Impossible claimed ceiling else Plausible ceiling)"

definition audit_own_chain :: "difficulty_checkpoint \<Rightarrow> u256 \<Rightarrow> verdict option" where
  "audit_own_chain cp observed =
    (if observed > cp_cumulative cp then Some (Contradicted observed (cp_cumulative cp)) else None)"

section \<open>Soundness of the interval bound\<close>

text \<open>A chain of difficulties that follows the retarget rule from a block of difficulty \<open>d\<close>.\<close>

fun chain_ok :: "nat \<Rightarrow> nat \<Rightarrow> nat \<Rightarrow> nat list \<Rightarrow> bool" where
  "chain_ok k m d [] \<longleftrightarrow> True"
| "chain_ok k m d (e # es) \<longleftrightarrow> retarget_step k m d e \<and> chain_ok k m e es"

lemma fall_inverse:
  assumes "e - e div k \<le> c" and "2 \<le> (k :: nat)"
  shows "e \<le> c * k div (k - 1)"
proof -
  have "e div k * k \<le> e" by simp
  then have "e * (k - 1) \<le> (e - e div k) * k"
    by (simp add: diff_mult_distrib diff_mult_distrib2 diff_le_mono2)
  also have "\<dots> \<le> c * k" using assms(1) by (rule mult_le_mono1)
  finally show ?thesis using assms(2) by (simp add: less_eq_div_iff_mult_less_eq)
qed

lemma fall_inverse_conv:
  assumes "e \<le> c * k div (k - 1)" and "2 \<le> (k :: nat)"
  shows "e - e div k \<le> c"
proof -
  have "e * (k - 1) \<le> c * k" using assms by (simp add: less_eq_div_iff_mult_less_eq)
  then have "e * k \<le> c * k + e" by (simp add: diff_mult_distrib2)
  moreover have "e < (e div k + 1) * k"
    using assms(2) by (metis add.commute dividend_less_times_div mult.commute mult_Suc_right
        plus_1_eq_Suc less_le_trans zero_less_numeral)
  ultimately have "e * k < (c + e div k + 1) * k" by (simp add: algebra_simps)
  then have "e < c + e div k + 1" using mult_less_cancel2 by blast
  then show ?thesis by linarith
qed

lemma unat_cap_back:
  assumes "2 \<le> unat dv"
  shows "cap_back dv c = max_val \<or> unat (cap_back dv c) = unat c * unat dv div (unat dv - 1)"
proof (cases "checked_mul c dv")
  case (Some v)
  have "unat (dv - 1) = unat dv - 1" using assms by (subst unat_sub_exact) (simp_all add: word_le_nat_alt)
  moreover have "unat v = unat c * unat dv" using Some by (simp add: checked_mul_Some)
  ultimately show ?thesis by (simp add: cap_back_def Some word_nat)
qed (simp add: cap_back_def)

lemma cap_back_sound:
  assumes "e - e div unat dv \<le> unat c" and "2 \<le> unat dv" and "e < 2 ^ 256"
  shows "e \<le> unat (cap_back dv c)"
  using unat_cap_back [OF assms(2), of c] fall_inverse [OF assms(1,2)] assms(3)
  by (auto simp: unat_max_val)

lemma caps_not_Nil [simp]: "caps dv to n \<noteq> []"
  by (cases n) (simp_all add: Let_def)

lemma length_caps [simp]: "length (caps dv to n) = Suc n"
  by (induction n) (simp_all add: Let_def)

lemma caps_unfold: "tl (caps dv to (Suc n)) = hd (caps dv to n) # tl (caps dv to n)"
  by (simp add: Let_def)

lemma caps_bound:
  assumes "chain_ok (unat dv) m e es" and "last (e # es) \<le> unat to" and "2 \<le> unat dv"
    and "\<forall>x \<in> set (e # es). x < 2 ^ 256"
  shows "e \<le> unat (hd (caps dv to (length es)))"
  using assms
proof (induction es arbitrary: e)
  case (Cons f fs)
  have "f \<le> unat (hd (caps dv to (length fs)))"
    using Cons.prems by (intro Cons.IH) auto
  moreover have "e - e div unat dv \<le> f"
    using Cons.prems(1) by (simp add: retarget_step_def)
  ultimately have "e - e div unat dv \<le> unat (hd (caps dv to (length fs)))" by simp
  then have "e \<le> unat (cap_back dv (hd (caps dv to (length fs))))"
    using Cons.prems by (intro cap_back_sound) auto
  then show ?case by (simp add: Let_def)
qed simp

lemma step_under_walk:
  fixes dv m d c :: u256
  assumes step: "retarget_step (unat dv) (unat m) e f" and "e \<le> unat d" and "f \<le> unat c" and "f < 2 ^ 256"
  shows "f \<le> unat (let d1 = min (sat_add d (d div dv)) c in if d1 < m then m else d1)"
proof -
  define d1 where "d1 = min (sat_add d (d div dv)) c"
  have d1: "unat d1 = min (min (unat d + unat d div unat dv) (2 ^ 256 - 1)) (unat c)"
    by (simp add: d1_def word_nat)
  have mono: "e + e div unat dv \<le> unat d + unat d div unat dv"
    using assms(2) by (simp add: add_mono div_le_mono)
  have "f \<le> unat m \<or> f \<le> unat d1"
    using step mono assms(3,4) unfolding d1 by (auto simp: retarget_step_def le_max_iff_disj)
  then show ?thesis
    by (auto simp: Let_def d1_def [symmetric] word_less_nat_alt)
qed

lemma work_walk_sound:
  assumes "chain_ok (unat dv) (unat m) e es" and "last (e # es) \<le> unat to" and "2 \<le> unat dv"
    and "\<forall>x \<in> set (e # es). x < 2 ^ 256" and "e \<le> unat d"
  shows "min (unat t + sum_list es) (2 ^ 256 - 1) \<le> unat (work_walk dv m t d (tl (caps dv to (length es))))"
  using assms
proof (induction es arbitrary: e d t)
  case (Cons f fs)
  define c where "c = hd (caps dv to (length fs))"
  define d2 where "d2 = (let d1 = min (sat_add d (d div dv)) c in if d1 < m then m else d1)"
  have "f \<le> unat c" unfolding c_def using Cons.prems by (intro caps_bound [of _ "unat m"]) auto
  then have f: "f \<le> unat d2" unfolding d2_def
    using Cons.prems by (intro step_under_walk) auto
  have "min (unat (sat_add t d2) + sum_list fs) (2 ^ 256 - 1)
      \<le> unat (work_walk dv m (sat_add t d2) d2 (tl (caps dv to (length fs))))"
    using Cons.prems f by (intro Cons.IH [of f]) auto
  moreover have "min (unat t + sum_list (f # fs)) (2 ^ 256 - 1) \<le>
      min (unat (sat_add t d2) + sum_list fs) (2 ^ 256 - 1)"
    using f by (simp add: word_nat)
  moreover have "work_walk dv m t d (tl (caps dv to (length (f # fs)))) =
      work_walk dv m (sat_add t d2) d2 (tl (caps dv to (length fs)))"
    unfolding list.size add_0_right add_Suc_right caps_unfold work_walk.simps d2_def c_def Let_def ..
  ultimately show ?case by simp
qed (simp add: min_def)

lemma max_work_between_sound_sat:
  assumes "chain_ok (unat divisor) (unat m) (unat start) es" and "es \<noteq> [] \<Longrightarrow> last es \<le> unat to"
    and "2 \<le> divisor" and "\<forall>x \<in> set es. x < 2 ^ 256" and "length es = unat span"
  shows "min (sum_list es) (2 ^ 256 - 1) \<le> unat (max_work_between start to span divisor m)"
proof (cases "es = []")
  case False
  have dv: "unat (ucast divisor :: u256) = unat divisor"
    using unat_bound_u64 [of divisor] by (intro unat_ucast_small) simp
  have two: "2 \<le> unat divisor" using assms(3) by (simp add: word_le_nat_alt)
  have "span \<noteq> 0" using False assms(5) by auto
  moreover have "\<not> divisor < 2" using assms(3) by simp
  moreover have "min (unat (0 :: u256) + sum_list es) (2 ^ 256 - 1)
      \<le> unat (work_walk (ucast divisor) m 0 start (tl (caps (ucast divisor) to (length es))))"
    using assms False two unat_bound_u256 [of start]
    by (intro work_walk_sound [where e = "unat start"]) (simp_all add: dv)
  ultimately show ?thesis by (simp add: max_work_between_def Let_def assms(5))
qed simp

section \<open>The bound is the best possible\<close>

text \<open>The difficulties the walk adds up.\<close>

fun walk_path :: "u256 \<Rightarrow> u256 \<Rightarrow> u256 \<Rightarrow> u256 list \<Rightarrow> nat list" where
  "walk_path dv m d [] = []"
| "walk_path dv m d (c # cs) =
    (let d2 = (let d1 = min (sat_add d (d div dv)) c in if d1 < m then m else d1)
     in unat d2 # walk_path dv m d2 cs)"

lemma length_walk_path [simp]: "length (walk_path dv m d cs) = length cs"
  by (induction cs arbitrary: d) (simp_all add: Let_def)

lemma work_walk_is_path_sum:
  "unat (work_walk dv m t d cs) = min (unat t + sum_list (walk_path dv m d cs)) (2 ^ 256 - 1)"
proof (induction cs arbitrary: t d)
  case Nil
  have "unat t \<le> 2 ^ 256 - 1" using unat_bound_u256 [of t] by simp
  then show ?case by simp
next
  case (Cons c cs)
  define d2 where "d2 = (let d1 = min (sat_add d (d div dv)) c in if d1 < m then m else d1)"
  have "work_walk dv m t d (c # cs) = work_walk dv m (sat_add t d2) d2 cs"
    by (simp add: d2_def Let_def)
  moreover have "walk_path dv m d (c # cs) = unat d2 # walk_path dv m d2 cs"
    by (simp add: d2_def Let_def)
  ultimately show ?case by (simp add: Cons word_nat)
qed

lemma cap_back_ge: "2 \<le> unat dv \<Longrightarrow> c \<le> cap_back dv c"
proof -
  assume two: "2 \<le> unat dv"
  have "unat c * (unat dv - 1) \<le> unat c * unat dv" by simp
  then have "unat c \<le> unat c * unat dv div (unat dv - 1)"
    using two by (simp add: less_eq_div_iff_mult_less_eq)
  then show ?thesis
    using unat_cap_back [OF two, of c] by (metis word_le_nat_alt word_n1_ge)
qed

lemma hd_caps_ge: "2 \<le> unat dv \<Longrightarrow> to \<le> hd (caps dv to n)"
  by (induction n) (auto simp: Let_def intro: order_trans cap_back_ge)

lemma hd_caps_unsaturated:
  assumes "hd (caps dv to (Suc n)) \<noteq> max_val" "2 \<le> unat dv"
  shows "hd (caps dv to n) \<noteq> max_val"
proof
  assume "hd (caps dv to n) = max_val"
  then have "max_val \<le> hd (caps dv to (Suc n))"
    using cap_back_ge [OF assms(2), of "hd (caps dv to n)"] by (simp add: Let_def)
  then show False using assms(1) by (metis word_n1_ge antisym)
qed

lemma walk_path_legal:
  assumes "2 \<le> unat dv" and "m \<le> to" and "m \<le> d" and "d \<le> hd (caps dv to n)"
    and "hd (caps dv to n) \<noteq> max_val"
  shows "chain_ok (unat dv) (unat m) (unat d) (walk_path dv m d (tl (caps dv to n)))
    \<and> last (unat d # walk_path dv m d (tl (caps dv to n))) \<le> unat to"
  using assms
proof (induction n arbitrary: d)
  case 0
  then show ?case by (simp add: word_le_nat_alt)
next
  case (Suc n)
  define c where "c = hd (caps dv to n)"
  define d2 where "d2 = (let d1 = min (sat_add d (d div dv)) c in if d1 < m then m else d1)"
  have unsat: "c \<noteq> max_val" unfolding c_def using Suc.prems(5,1) by (rule hd_caps_unsaturated)
  have mc: "m \<le> c" unfolding c_def using Suc.prems(1,2) hd_caps_ge order_trans by blast
  have "unat d \<le> unat (sat_add d (d div dv))"
    using unat_bound_u256 [of d] by (simp add: word_nat)
  then have "m \<le> min (sat_add d (d div dv)) c"
    using Suc.prems(3) mc by (auto simp: word_le_nat_alt min_def)
  then have d2: "d2 = min (sat_add d (d div dv)) c" by (simp only: d2_def Let_def leD if_False)
  have ud2: "unat d2 = min (min (unat d + unat d div unat dv) (2 ^ 256 - 1)) (unat c)"
    by (simp add: d2 word_nat)
  have "unat d - unat d div unat dv \<le> unat c"
  proof -
    have "cap_back dv c \<noteq> max_val" using Suc.prems(5) by (simp add: Let_def c_def)
    then have "unat (cap_back dv c) = unat c * unat dv div (unat dv - 1)"
      using unat_cap_back [OF Suc.prems(1), of c] by blast
    moreover have "unat d \<le> unat (cap_back dv c)"
      using Suc.prems(4) by (simp add: Let_def c_def word_le_nat_alt)
    ultimately show ?thesis using Suc.prems(1) by (intro fall_inverse_conv) simp_all
  qed
  then have step: "retarget_step (unat dv) (unat m) (unat d) (unat d2)"
    using unat_bound_u256 [of d] unfolding retarget_step_def ud2 by auto
  have "m \<le> d2" "d2 \<le> c" using \<open>m \<le> min (sat_add d (d div dv)) c\<close> by (simp_all add: d2)
  then have "chain_ok (unat dv) (unat m) (unat d2) (walk_path dv m d2 (tl (caps dv to n)))
    \<and> last (unat d2 # walk_path dv m d2 (tl (caps dv to n))) \<le> unat to"
    using Suc.prems(1,2) unsat unfolding c_def by (intro Suc.IH) auto
  moreover have "walk_path dv m d (tl (caps dv to (Suc n))) = unat d2 # walk_path dv m d2 (tl (caps dv to n))"
    unfolding caps_unfold walk_path.simps d2_def c_def Let_def ..
  ultimately show ?case using step by simp
qed

section \<open>Integer square root and allowance\<close>

lemma isqrt_spec: "isqrt n * isqrt n \<le> n \<and> n < (isqrt n + 1) * (isqrt n + 1)"
proof (induction n rule: isqrt.induct)
  case (1 n)
  show ?case
  proof (cases "n = 0")
    case False
    define q where "q = isqrt (n div 4)"
    have q: "q * q \<le> n div 4" "n div 4 < (q + 1) * (q + 1)"
      using 1 [OF False] by (simp_all add: q_def)
    have "4 * (q * q) \<le> n" using q(1) by linarith
    moreover have "n < 4 * ((q + 1) * (q + 1))" using q(2) by linarith
    ultimately have b: "2 * q * (2 * q) \<le> n" "n < (2 * q + 2) * (2 * q + 2)"
      by (simp_all add: algebra_simps)
    show ?thesis
    proof (cases "(2 * q + 1) * (2 * q + 1) \<le> n")
      case True
      then have "isqrt n = 2 * q + 1"
        using False by (subst isqrt.simps) (simp add: q_def Let_def)
      then show ?thesis using True b(2) by simp
    next
      case F: False
      then have "isqrt n = 2 * q"
        using False by (subst isqrt.simps) (simp add: q_def Let_def)
      then show ?thesis using F b(1) by simp
    qed
  qed (simp add: isqrt.simps)
qed

lemma isqrt_zero: "isqrt 0 = 0"
  by (simp add: isqrt.simps [of 0])

lemma isqrt_le: "isqrt n * isqrt n \<le> n"
  using isqrt_spec by blast

lemma isqrt_less: "n < b * b \<Longrightarrow> isqrt n < b"
  using isqrt_le [of n] by (metis le_less_trans mult_le_mono not_le)

lemma isqrt_u128_small: "unat (isqrt_u128 v) < 2 ^ 64"
proof -
  have "unat v < 2 ^ 128" using unat_less_exp [of v] by simp
  then have "unat v < 2 ^ 64 * 2 ^ 64" by simp
  then have "isqrt (unat v) < 2 ^ 64" by (rule isqrt_less)
  then show ?thesis by (simp add: isqrt_u128_def unat_of_nat)
qed

lemma allowance_cap: "1000 + UNCLE_LIST_LIMIT * 1000 = (11000 :: u64)"
  by (simp add: UNCLE_LIST_LIMIT_def)

lemma allowance_range:
  "1000 \<le> unat (uncle_allowance_per_mille samples) \<and> unat (uncle_allowance_per_mille samples) \<le> 11000"
proof (cases "(of_nat (length samples) :: u128) < 2")
  case True
  then show ?thesis by (simp add: uncle_allowance_per_mille_def Let_def allowance_cap)
next
  case False
  define k where "k = (of_nat (length samples) :: u128)"
  define counts where "counts = map (\<lambda>s. ucast (s_uncle_count s) * 1000 :: u128) samples"
  define mean where "mean = sum_list counts div k"
  define variance where "variance = sum_list (map (\<lambda>c. abs_diff c mean * abs_diff c mean) counts) div (k - 1)"
  define vt where "vt = isqrt_u128 (2 * variance * LN_3_OVER_DELTA_PER_MILLE div (1000 * k))"
  define rt where "rt = 3 * (ucast UNCLE_LIST_LIMIT * 1000) * LN_3_OVER_DELTA_PER_MILLE div (1000 * k)"
  define uncles where "uncles = sat_add (sat_add mean vt) rt"
  have al: "uncle_allowance_per_mille samples = ucast (min (1000 + uncles) 11000)"
    using False unfolding uncle_allowance_per_mille_def Let_def allowance_cap
    by (simp add: k_def counts_def mean_def variance_def vt_def rt_def uncles_def)
  have "2 \<le> unat k" using False by (simp add: k_def word_less_nat_alt)
  have "unat mean \<le> 2 ^ 127"
  proof -
    have "unat (sum_list counts) < 2 ^ 128" using unat_less_exp [of "sum_list counts"] by simp
    then have "unat (sum_list counts) div unat k \<le> unat (sum_list counts) div 2"
      using \<open>2 \<le> unat k\<close> by (intro div_le_mono2) auto
    then show ?thesis using \<open>unat (sum_list counts) < 2 ^ 128\<close>
      by (simp add: mean_def word_nat)
  qed
  moreover have "unat vt < 2 ^ 64" unfolding vt_def by (rule isqrt_u128_small)
  moreover have "unat rt < 2 ^ 64"
  proof -
    have "3 * (ucast UNCLE_LIST_LIMIT * 1000) * LN_3_OVER_DELTA_PER_MILLE = (654630000 :: u128)"
      by (simp add: UNCLE_LIST_LIMIT_def LN_3_OVER_DELTA_PER_MILLE_def)
    then have "unat rt \<le> 654630000" by (simp add: rt_def word_nat div_le_dividend)
    then show ?thesis by simp
  qed
  ultimately have "unat uncles \<le> 2 ^ 127 + 2 ^ 64 + 2 ^ 64"
    by (simp add: uncles_def word_nat)
  then have "unat (1000 + uncles) = 1000 + unat uncles"
    by (subst unat_add_exact) simp_all
  then have "unat (min (1000 + uncles) 11000) = min (1000 + unat uncles) 11000"
    by (simp add: word_nat)
  moreover have "unat (uncle_allowance_per_mille samples) = unat (min (1000 + uncles) 11000)"
    unfolding al using calculation by (intro unat_ucast_u64) simp
  ultimately show ?thesis by simp
qed

section \<open>The ceiling\<close>

text \<open>The intervals the ceiling adds up, as \<open>(from, to]\<close> heights.\<close>

fun gaps :: "u64 \<Rightarrow> sample list \<Rightarrow> u64 \<Rightarrow> (nat \<times> nat) list" where
  "gaps at [] head = (if head > at then [(unat at, unat head)] else [])"
| "gaps at (s # ss) head = (if s_number s \<le> at then gaps at ss head
     else (unat at, unat (s_number s)) # gaps (s_number s) ss head)"

text \<open>A chain above the checkpoint that follows the retarget rule: \<open>dif h\<close> is the difficulty of the
  block at height \<open>h\<close>, \<open>unc h\<close> lists the difficulties of its uncles. What the block adds to the
  cumulative difficulty is the sum of them all.\<close>

definition follows_retarget ::
  "nat \<Rightarrow> nat \<Rightarrow> difficulty_checkpoint \<Rightarrow> (nat \<Rightarrow> nat) \<Rightarrow> nat \<Rightarrow> bool" where
  "follows_retarget k m cp dif head \<longleftrightarrow>
     dif (unat (cp_number cp)) = unat (cp_difficulty cp) \<and>
     (\<forall>h \<in> {unat (cp_number cp)..<head}. retarget_step k m (dif h) (dif (Suc h)))"

definition block_work :: "(nat \<Rightarrow> nat) \<Rightarrow> (nat \<Rightarrow> nat list) \<Rightarrow> nat \<Rightarrow> nat" where
  "block_work dif unc h = dif h + sum_list (unc h)"

definition true_samples :: "(nat \<Rightarrow> nat) \<Rightarrow> nat \<Rightarrow> sample list \<Rightarrow> bool" where
  "true_samples dif head samples \<longleftrightarrow>
     (\<forall>s \<in> set samples. unat (s_number s) \<le> head \<and> unat (s_difficulty s) = dif (unat (s_number s)))"

definition work_over :: "(nat \<Rightarrow> nat) \<Rightarrow> nat \<Rightarrow> nat \<Rightarrow> nat" where
  "work_over f a b = sum_list (map f [Suc a..<Suc b])"

lemma work_over_split: "a \<le> b \<Longrightarrow> b \<le> c \<Longrightarrow> work_over f a c = work_over f a b + work_over f b c"
proof -
  assume "a \<le> b" "b \<le> c"
  then have "[Suc a..<Suc c] = [Suc a..<Suc b] @ [Suc b..<Suc c]"
    by (metis Suc_le_mono le_Suc_ex upt_add_eq_append)
  then show ?thesis by (simp add: work_over_def del: upt_Suc)
qed

lemma chain_ok_heights:
  assumes "\<forall>h \<in> {a..<b}. retarget_step k m (dif h) (dif (Suc h))" and "a \<le> b"
  shows "chain_ok k m (dif a) (map dif [Suc a..<Suc b])"
  using assms
proof (induction "b - a" arbitrary: a)
  case (Suc n)
  then have "a < b" by linarith
  then have "[Suc a..<Suc b] = Suc a # [Suc (Suc a)..<Suc b]" by (simp add: upt_conv_Cons)
  moreover have "chain_ok k m (dif (Suc a)) (map dif [Suc (Suc a)..<Suc b])"
    using Suc \<open>a < b\<close> by (intro Suc.hyps(1)) auto
  ultimately show ?case using Suc.prems \<open>a < b\<close> by (simp del: upt_Suc)
qed simp

lemma work_over_mono: "(\<And>h. a < h \<Longrightarrow> h \<le> b \<Longrightarrow> f h \<le> g h) \<Longrightarrow> work_over f a b \<le> work_over g a b"
  unfolding work_over_def by (intro sum_list_mono) auto

lemma work_over_const: "work_over (\<lambda>_. c) a b = (b - a) * c"
  by (simp add: work_over_def sum_list_triv del: upt_Suc)

lemma work_over_add: "work_over (\<lambda>h. f h + g h) a b = work_over f a b + work_over g a b"
  by (simp add: work_over_def sum_list_addf del: upt_Suc)

lemma work_over_scale: "work_over (\<lambda>h. c * f h) a b = c * work_over f a b"
  by (simp add: work_over_def sum_list_const_mult del: upt_Suc)

text \<open>Scaling and dividing by a thousand loses less than one unit, and nothing when the allowance
  is a multiple of a thousand; or it saturates.\<close>

definition lost_per_gap :: "nat \<Rightarrow> nat" where
  "lost_per_gap al = (if 1000 dvd al then 0 else 999)"

lemma scale_work_covers:
  assumes "min tr (2 ^ 256 - 1) \<le> unat mw" and "1 \<le> unat al"
  shows "unat al * tr \<le> 1000 * unat (scale_work al mw) + lost_per_gap (unat al)
    \<or> (2 ^ 256 - 1) div 1000 \<le> unat (scale_work al mw)"
proof -
  have "unat (ucast al :: u256) = unat al"
    using unat_bound_u64 [of al] by (intro unat_ucast_small) simp
  then have g: "unat (scale_work al mw) = min (unat mw * unat al) (2 ^ 256 - 1) div 1000"
    by (simp add: scale_work_def word_nat)
  show ?thesis
  proof (cases "2 ^ 256 - 1 \<le> unat mw * unat al")
    case True
    then show ?thesis by (simp add: g)
  next
    case False
    have "unat mw \<le> unat mw * unat al" using assms(2) by simp
    then have "tr \<le> unat mw" using False assms(1) by linarith
    then have "unat al * tr \<le> unat mw * unat al" by (simp add: mult.commute)
    also have "\<dots> \<le> 1000 * (unat mw * unat al div 1000) + lost_per_gap (unat al)"
    proof (cases "1000 dvd unat al")
      case True
      then have "1000 dvd unat mw * unat al" by (rule dvd_mult)
      then show ?thesis by simp
    next
      case False
      have "n \<le> 1000 * (n div 1000) + 999" for n :: nat
        using mult_div_mod_eq [of 1000 n] mod_less_divisor [of 1000 n] by linarith
      then show ?thesis using False by (simp add: lost_per_gap_def)
    qed
    finally show ?thesis using False by (simp add: g)
  qed
qed

lemma gap_covered:
  assumes hon: "follows_retarget (unat divisor) (unat m) cp dif tip"
    and div: "2 \<le> divisor" and d: "unat d = dif (unat at)"
    and rng: "unat (cp_number cp) \<le> unat at" "at < s" "unat s \<le> tip"
    and to: "dif (unat s) \<le> unat to"
    and fits: "\<forall>h. unat (cp_number cp) < h \<and> h \<le> tip \<longrightarrow> dif h < 2 ^ 256"
    and al: "1 \<le> unat al"
  defines "g \<equiv> scale_work al (max_work_between d to (s - at) divisor m)"
  shows "unat al * work_over dif (unat at) (unat s) \<le> 1000 * unat g + lost_per_gap (unat al)
    \<or> (2 ^ 256 - 1) div 1000 \<le> unat g"
proof -
  define es where "es = map dif [Suc (unat at)..<Suc (unat s)]"
  have lt: "unat at < unat s" using rng(2) by (simp add: word_less_nat_alt)
  have len: "length es = unat (s - at)"
    using lt by (simp add: es_def unat_sub_exact word_le_nat_alt del: upt_Suc)
  have last: "last es = dif (unat s)" using lt by (simp add: es_def)
  have chain: "chain_ok (unat divisor) (unat m) (unat d) es"
    unfolding es_def d using hon rng lt by (intro chain_ok_heights) (auto simp: follows_retarget_def)
  have bound: "\<forall>x \<in> set es. x < 2 ^ 256" using fits rng by (auto simp: es_def)
  have "min (sum_list es) (2 ^ 256 - 1) \<le> unat (max_work_between d to (s - at) divisor m)"
    using chain last to div bound len by (intro max_work_between_sound_sat) simp_all
  then show ?thesis
    using scale_work_covers [OF _ al] by (simp add: g_def es_def work_over_def del: upt_Suc)
qed

fun ceiling_finish :: "u64 \<Rightarrow> u64 \<Rightarrow> u256 \<Rightarrow> u64 \<Rightarrow> u256 \<times> u64 \<times> u256 \<Rightarrow> u256" where
  "ceiling_finish al divisor m head (tot, at, d) =
    (if head > at then sat_add tot (scale_work al (max_work_between d max_val (head - at) divisor m))
     else tot)"

lemma ceiling_for_finish:
  "ceiling_for cp samples head divisor m =
     ceiling_finish (uncle_allowance_per_mille samples) divisor m head
       (ceiling_loop (uncle_allowance_per_mille samples) divisor m
         (cp_cumulative cp, cp_number cp, cp_difficulty cp) samples)"
  by (simp add: ceiling_for_def Let_def split: prod.splits)

lemma sat_add_ge: "a \<le> sat_add a (b :: u256)"
  using unat_bound_u256 [of a] by (simp add: word_le_nat_alt word_nat)

lemma ceiling_finish_ge: "tot \<le> ceiling_finish al divisor m head (ceiling_loop al divisor m (tot, at, d) ss)"
proof (induction ss arbitrary: tot at d)
  case (Cons s ss)
  then show ?case using sat_add_ge order_trans by (cases "s_number s \<le> at") (simp, simp, blast)
qed (simp add: sat_add_ge)

lemma gap_and_rest:
  fixes t g r k l n a b :: nat
  assumes "a \<le> 1000 * g + l \<or> k \<le> g"
    and "1000 * (t + g) + b \<le> 1000 * r + l * n \<or> t + g + k \<le> r \<or> P" and "t + g \<le> r"
  shows "1000 * t + (a + b) \<le> 1000 * r + l * Suc n \<or> t + k \<le> r \<or> P"
  using assms by auto

lemma sat_add_cases:
  "unat (sat_add a b) = unat a + unat b \<or> sat_add a b = (max_val :: u256)"
  by (cases "unat a + unat b \<le> 2 ^ 256 - 1") (simp_all add: word_nat word_unat_eq_iff unat_max_val)

text \<open>Either the sum is saturated somewhere, or it covers the allowance of the whole window less
  what the divisions of its intervals drop.\<close>

lemma ceiling_loop_covers:
  assumes hon: "follows_retarget (unat divisor) (unat m) cp dif (unat head)"
    and div: "2 \<le> divisor" and al: "1 \<le> unat al"
    and fits: "\<forall>h. unat (cp_number cp) < h \<and> h \<le> unat head \<longrightarrow> dif h < 2 ^ 256"
    and smp: "true_samples dif (unat head) ss"
    and d: "unat d = dif (unat at)"
    and rng: "unat (cp_number cp) \<le> unat at" "unat at \<le> unat head"
  defines "r \<equiv> \<lambda>tot at d ss. ceiling_finish al divisor m head (ceiling_loop al divisor m (tot, at, d) ss)"
  shows "1000 * unat tot + unat al * work_over dif (unat at) (unat head)
       \<le> 1000 * unat (r tot at d ss) + lost_per_gap (unat al) * length (gaps at ss head)
    \<or> unat tot + (2 ^ 256 - 1) div 1000 \<le> unat (r tot at d ss)
    \<or> r tot at d ss = max_val"
  using smp d rng
proof (induction ss arbitrary: tot at d)
  case Nil
  show ?case
  proof (cases "head > at")
    case True
    let ?g = "scale_work al (max_work_between d max_val (head - at) divisor m)"
    have "dif (unat head) < 2 ^ 256"
      using fits True Nil.prems by (simp add: word_less_nat_alt)
    then have "unat al * work_over dif (unat at) (unat head) \<le> 1000 * unat ?g + lost_per_gap (unat al)
        \<or> (2 ^ 256 - 1) div 1000 \<le> unat ?g"
      using hon div Nil.prems True al fits by (intro gap_covered) (auto simp: unat_max_val)
    then show ?thesis using True sat_add_cases [of tot ?g] by (auto simp: r_def)
  next
    case False
    then have "unat at = unat head" using Nil.prems by (simp add: word_less_nat_alt)
    then show ?thesis using False by (simp add: r_def work_over_def)
  qed
next
  case (Cons s ss)
  show ?case
  proof (cases "s_number s \<le> at")
    case True
    have "r tot at d (s # ss) = r tot at d ss" using True by (simp add: r_def)
    then show ?thesis using True Cons.prems Cons.IH [of d at tot] by (simp add: true_samples_def)
  next
    case False
    let ?g = "scale_work al (max_work_between d (s_difficulty s) (s_number s - at) divisor m)"
    let ?n = "length (gaps (s_number s) ss head)" and ?t = "sat_add tot ?g"
    have r: "r tot at d (s # ss) = r ?t (s_number s) (s_difficulty s) ss" using False by (simp add: r_def)
    have lt: "unat at < unat (s_number s)" using False by (simp add: word_le_nat_alt not_le)
    have sn: "unat (s_number s) \<le> unat head" "unat (s_difficulty s) = dif (unat (s_number s))"
      using Cons.prems(1) by (auto simp: true_samples_def)
    have split: "work_over dif (unat at) (unat head) =
        work_over dif (unat at) (unat (s_number s)) + work_over dif (unat (s_number s)) (unat head)"
      using lt sn by (intro work_over_split) auto
    have gap: "unat al * work_over dif (unat at) (unat (s_number s)) \<le> 1000 * unat ?g + lost_per_gap (unat al)
        \<or> (2 ^ 256 - 1) div 1000 \<le> unat ?g"
      using hon div Cons.prems False al fits sn by (intro gap_covered) auto
    have ge: "unat ?t \<le> unat (r tot at d (s # ss))"
      unfolding r unfolding r_def using ceiling_finish_ge [of ?t] by (simp add: word_le_nat_alt)
    have rest: "1000 * unat ?t + unat al * work_over dif (unat (s_number s)) (unat head)
         \<le> 1000 * unat (r tot at d (s # ss)) + lost_per_gap (unat al) * ?n
      \<or> unat ?t + (2 ^ 256 - 1) div 1000 \<le> unat (r tot at d (s # ss))
      \<or> r tot at d (s # ss) = max_val"
      unfolding r using Cons.prems sn lt by (intro Cons.IH) (auto simp: true_samples_def)
    have gaps: "length (gaps at (s # ss) head) = Suc ?n" using False by simp
    show ?thesis
    proof (cases "?t = max_val")
      case True
      then show ?thesis using ge unat_bound_u256 [of "r tot at d (s # ss)"]
        by (intro disjI2) (simp add: word_unat_eq_iff unat_max_val)
    next
      case nosat: False
      then have t: "unat ?t = unat tot + unat ?g" using sat_add_cases by blast
      show ?thesis using gap_and_rest [OF gap rest [unfolded t] ge [unfolded t]]
        unfolding gaps split distrib_left .
    qed
  qed
qed

text \<open>What the intervals of a window may drop together: less than a unit each, and a whole number
  of units in all.\<close>

definition rounding_loss :: "nat \<Rightarrow> nat \<Rightarrow> nat" where
  "rounding_loss al n = lost_per_gap al * (n - 1)"

lemma ceiling_sound:
  assumes hon: "follows_retarget (unat divisor) (unat m) cp dif (unat head)"
    and div: "2 \<le> divisor" and le: "cp_number cp \<le> head"
    and small: "w \<le> (2 ^ 256 - 1) div 1000" "unat (cp_cumulative cp) + w < 2 ^ 256"
    and fits: "\<forall>h. unat (cp_number cp) < h \<and> h \<le> unat head \<longrightarrow> dif h < 2 ^ 256"
    and smp: "true_samples dif (unat head) samples"
    and win: "1000 * w + rounding_loss (unat (uncle_allowance_per_mille samples))
         (length (gaps (cp_number cp) samples head))
       \<le> unat (uncle_allowance_per_mille samples) * work_over dif (unat (cp_number cp)) (unat head)"
  shows "unat (cp_cumulative cp) + w \<le> unat (ceiling_for cp samples head divisor m)"
proof -
  let ?al = "uncle_allowance_per_mille samples" and ?n = "length (gaps (cp_number cp) samples head)"
  let ?r = "ceiling_for cp samples head divisor m"
  have lost: "lost_per_gap (unat ?al) * ?n \<le> rounding_loss (unat ?al) ?n + 999"
    by (cases ?n) (simp_all add: rounding_loss_def lost_per_gap_def)
  have "1000 * unat (cp_cumulative cp) + unat ?al * work_over dif (unat (cp_number cp)) (unat head)
       \<le> 1000 * unat ?r + lost_per_gap (unat ?al) * ?n
    \<or> unat (cp_cumulative cp) + (2 ^ 256 - 1) div 1000 \<le> unat ?r \<or> ?r = max_val"
    unfolding ceiling_for_finish
    using hon div fits smp le allowance_range [of samples]
    by (intro ceiling_loop_covers [where cp = cp]) (auto simp: follows_retarget_def word_le_nat_alt)
  then show ?thesis using win lost small by (auto simp: unat_max_val)
qed

section \<open>Allowance without overflow\<close>

lemma sum_list_of_nat: "sum_list (map (\<lambda>x. of_nat (f x) :: u128) xs) = of_nat (sum_list (map f xs))"
  by (induction xs) simp_all

definition milli_counts :: "sample list \<Rightarrow> nat list" where
  "milli_counts samples = map (\<lambda>s. unat (s_uncle_count s) * 1000) samples"

definition nat_dist :: "nat \<Rightarrow> nat \<Rightarrow> nat" where
  "nat_dist a b = (if a \<le> b then b - a else a - b)"

text \<open>The empirical Bernstein bound in exact integer arithmetic.\<close>

definition bernstein_per_mille :: "sample list \<Rightarrow> nat" where
  "bernstein_per_mille samples =
    (let k = length samples; counts = milli_counts samples; mean = sum_list counts div k;
         variance = sum_list (map (\<lambda>c. nat_dist c mean * nat_dist c mean) counts) div (k - 1)
     in mean + isqrt (2 * variance * 21821 div (1000 * k)) + 654630000 div (1000 * k))"

lemma unat_abs_diff: "unat (abs_diff a b) = nat_dist (unat a) (unat b)"
  by (auto simp: abs_diff_def nat_dist_def word_le_nat_alt unat_sub_exact)

lemma abs_diff_of_nat:
  "a < 2 ^ 128 \<Longrightarrow> b < 2 ^ 128 \<Longrightarrow> abs_diff (of_nat a :: u128) (of_nat b) = of_nat (nat_dist a b)"
proof -
  assume a: "a < 2 ^ 128" "b < 2 ^ 128"
  then have "nat_dist a b < 2 ^ 128" unfolding nat_dist_def by (auto intro: le_less_trans [OF diff_le_self])
  with a show ?thesis
    by (intro iffD2 [OF word_unat_eq_iff]) (simp add: unat_abs_diff unat_of_nat_u128)
qed

lemma div_of_nat_u128:
  "a < 2 ^ 128 \<Longrightarrow> b < 2 ^ 128 \<Longrightarrow> (of_nat a :: u128) div of_nat b = of_nat (a div b)"
  by (rule iffD2 [OF word_unat_eq_iff])
    (simp add: word_nat unat_of_nat_u128 le_less_trans [OF div_le_dividend])

lemma allowance_exact:
  assumes len: "length samples < 2 ^ 32" and lim: "\<forall>s \<in> set samples. s_uncle_count s \<le> 10"
  shows "unat (uncle_allowance_per_mille samples) =
    (if length samples < 2 then 11000 else min (1000 + bernstein_per_mille samples) 11000)"
proof (cases "length samples < 2")
  case True
  then have "(of_nat (length samples) :: u128) < 2"
    by (simp add: word_less_nat_alt unat_of_nat_u128)
  then show ?thesis using True by (simp add: uncle_allowance_per_mille_def Let_def allowance_cap)
next
  case False
  define k where "k = length samples"
  define cs where "cs = milli_counts samples"
  define mean where "mean = sum_list cs div k"
  define ss where "ss = sum_list (map (\<lambda>c. nat_dist c mean * nat_dist c mean) cs)"
  define var where "var = ss div (k - 1)"
  define vt where "vt = isqrt (2 * var * 21821 div (1000 * k))"
  define rt where "rt = 654630000 div (1000 * k)"
  have k: "2 \<le> k" "k < 2 ^ 32" using False len by (simp_all add: k_def)
  have cs_le: "c \<le> 10000" if c: "c \<in> set cs" for c
  proof -
    obtain s where "s \<in> set samples" "c = unat (s_uncle_count s) * 1000"
      using c by (auto simp: cs_def milli_counts_def)
    moreover have "unat (s_uncle_count s) \<le> 10" using lim calculation(1) by (auto simp: word_le_nat_alt)
    ultimately show ?thesis by simp
  qed
  have len_cs: "length cs = k" by (simp add: cs_def milli_counts_def k_def)
  have tot: "sum_list cs \<le> k * 10000"
    using sum_list_le_length_mult [of cs "\<lambda>x. x" 10000] cs_le len_cs by simp
  then have "sum_list cs div k \<le> k * 10000 div k" by (rule div_le_mono)
  then have mean: "mean \<le> 10000" using k by (simp add: mean_def)
  have dist: "nat_dist c mean \<le> 10000" if "c \<in> set cs" for c
    using cs_le [OF that] mean by (auto simp: nat_dist_def)
  have ss: "ss \<le> k * 100000000"
  proof -
    have "nat_dist c mean * nat_dist c mean \<le> 100000000" if "c \<in> set cs" for c
      using mult_le_mono [OF dist [OF that] dist [OF that]] by simp
    then show ?thesis
      using sum_list_le_length_mult [of cs "\<lambda>c. nat_dist c mean * nat_dist c mean" 100000000] len_cs
      by (simp add: ss_def)
  qed
  then have var: "var \<le> k * 100000000" unfolding var_def by (meson div_le_dividend le_trans)
  have counts: "map (\<lambda>s. ucast (s_uncle_count s) * 1000 :: u128) samples = map of_nat cs"
    unfolding cs_def milli_counts_def map_map
  proof (rule map_cong [OF refl])
    fix s assume "s \<in> set samples"
    have "(ucast (s_uncle_count s) :: u128) = of_nat (unat (s_uncle_count s))" by simp
    then show "ucast (s_uncle_count s) * 1000 = (of_nat \<circ> (\<lambda>s. unat (s_uncle_count s) * 1000)) s"
      by simp
  qed
  have sum: "sum_list (map of_nat cs :: u128 list) = of_nat (sum_list cs)"
    using sum_list_of_nat [of "\<lambda>x. x" cs] by simp
  have wmean: "(of_nat (sum_list cs) :: u128) div of_nat k = of_nat mean"
    unfolding mean_def using tot k by (intro div_of_nat_u128) simp_all
  have wss: "sum_list (map (\<lambda>c. abs_diff c (of_nat mean) * abs_diff c (of_nat mean)) (map of_nat cs :: u128 list))
      = of_nat ss"
  proof -
    have "map (\<lambda>c. abs_diff c (of_nat mean) * abs_diff c (of_nat mean)) (map of_nat cs :: u128 list)
        = map (\<lambda>c. of_nat (nat_dist c mean * nat_dist c mean)) cs"
    proof -
      have "abs_diff (of_nat c) (of_nat mean) = (of_nat (nat_dist c mean) :: u128)" if c: "c \<in> set cs" for c
        using cs_le [OF c] mean by (intro abs_diff_of_nat) simp_all
      then show ?thesis by simp
    qed
    then show ?thesis by (simp only: ss_def sum_list_of_nat)
  qed
  have km1: "(of_nat k :: u128) - 1 = of_nat (k - 1)" using k by (simp add: of_nat_diff)
  have wvar: "(of_nat ss :: u128) div of_nat (k - 1) = of_nat var"
    unfolding var_def using ss k by (intro div_of_nat_u128) simp_all
  have wv: "2 * of_nat var * LN_3_OVER_DELTA_PER_MILLE div (1000 * of_nat k) =
      (of_nat (2 * var * 21821 div (1000 * k)) :: u128)"
    using div_of_nat_u128 [of "2 * var * 21821" "1000 * k"] var k
    by (simp add: LN_3_OVER_DELTA_PER_MILLE_def)
  have small: "2 * var * 21821 div (1000 * k) < 2 ^ 128"
    using var k by (intro le_less_trans [OF div_le_dividend]) simp
  have wvt: "isqrt_u128 (of_nat (2 * var * 21821 div (1000 * k))) = of_nat vt"
    using small by (simp add: isqrt_u128_def vt_def unat_of_nat_u128)
  have wrt: "3 * (ucast UNCLE_LIST_LIMIT * 1000) * LN_3_OVER_DELTA_PER_MILLE div (1000 * of_nat k)
      = (of_nat rt :: u128)"
    using div_of_nat_u128 [of 654630000 "1000 * k"] k
    by (simp add: rt_def LN_3_OVER_DELTA_PER_MILLE_def UNCLE_LIST_LIMIT_def)
  have vt64: "vt < 2 ^ 64" unfolding vt_def using small by (intro isqrt_less) simp
  have rt64: "rt \<le> 654630000" unfolding rt_def by (rule div_le_dividend)
  have uncles: "unat (sat_add (sat_add (of_nat mean) (of_nat vt)) (of_nat rt) :: u128) = mean + vt + rt"
    using mean vt64 rt64 by (simp add: word_nat unat_of_nat_u128)
  have "\<not> (of_nat k :: u128) < 2" using k by (simp add: word_less_nat_alt unat_of_nat_u128)
  then have al: "uncle_allowance_per_mille samples =
      ucast (min (1000 + sat_add (sat_add (of_nat mean) (of_nat vt)) (of_nat rt) :: u128) 11000)"
    unfolding uncle_allowance_per_mille_def Let_def allowance_cap counts k_def [symmetric] sum wmean
      wss km1 wvar wv wvt wrt by simp
  have m: "unat (min (1000 + sat_add (sat_add (of_nat mean) (of_nat vt)) (of_nat rt) :: u128) 11000)
      = min (1000 + (mean + vt + rt)) 11000"
    using uncles mean vt64 rt64 by (subst unat_min_word, subst unat_add_exact) simp_all
  then have "unat (uncle_allowance_per_mille samples) = min (1000 + (mean + vt + rt)) 11000"
    unfolding al by (subst unat_ucast_u64) simp_all
  then show ?thesis using False
    by (simp add: bernstein_per_mille_def Let_def k_def cs_def mean_def ss_def var_def vt_def rt_def)
qed

lemma sum_list_le_bound: "(\<And>x. x \<in> set xs \<Longrightarrow> x \<le> b) \<Longrightarrow> sum_list xs \<le> length xs * (b :: nat)"
proof (induction xs)
  case (Cons x xs)
  then have "sum_list xs \<le> length xs * b" "x \<le> b" by simp_all
  then show ?case by simp
qed simp

text \<open>With fewer than two samples the allowance is the cap: ten uncles as heavy as their block.\<close>

lemma allowance_of_few: "length samples < 2 \<Longrightarrow> unat (uncle_allowance_per_mille samples) = 11000"
proof -
  assume "length samples < 2"
  then have "(of_nat (length samples) :: u128) < 2" by (simp add: word_less_nat_alt unat_of_nat_u128)
  then show ?thesis by (simp add: uncle_allowance_per_mille_def Let_def allowance_cap)
qed

lemma light_uncles:
  assumes "\<forall>h. a < h \<and> h \<le> b \<longrightarrow> length (unc h) \<le> 10 \<and> (\<forall>u \<in> set (unc h). u \<le> dif h)"
  shows "work_over (\<lambda>h. sum_list (unc h)) a b \<le> 10 * work_over dif a b"
proof -
  have "sum_list (unc h) \<le> 10 * dif h" if "a < h" "h \<le> b" for h
  proof -
    have "sum_list (unc h) \<le> length (unc h) * dif h"
      using assms that by (intro sum_list_le_bound) auto
    also have "\<dots> \<le> 10 * dif h" using assms that by (intro mult_le_mono1) auto
    finally show ?thesis .
  qed
  then have "work_over (\<lambda>h. sum_list (unc h)) a b \<le> work_over (\<lambda>h. 10 * dif h) a b"
    by (rule work_over_mono)
  then show ?thesis by (simp add: work_over_scale)
qed

lemma member_le_work_over: "a < h \<Longrightarrow> h \<le> b \<Longrightarrow> f h \<le> work_over f a b"
  unfolding work_over_def by (intro member_le_sum_list) (simp_all del: upt_Suc)

lemma window_sum:
  fixes u r y d z :: nat
  shows "1000 * u + r \<le> y \<Longrightarrow> 1000 * d + y = z \<Longrightarrow> 1000 * (d + u) + r \<le> z"
  by simp

section \<open>Properties\<close>


definition demo_checkpoint :: difficulty_checkpoint where
  "demo_checkpoint = \<lparr> cp_number = 100, cp_hash = 0, cp_cumulative = 5000, cp_difficulty = 1000 \<rparr>"

definition demo_samples :: "sample list" where
  "demo_samples = [\<lparr> s_number = 102, s_difficulty = 1000, s_uncle_count = 1 \<rparr>]"

text \<open>Two hundred samples of one block without uncles: the allowance is 4.273. The chain has four
  uncles in the block at 101, three in the next and none in the last, so the first interval alone
  carries more than its allowance, while the window does not.\<close>

definition demo_uncles :: "nat \<Rightarrow> nat list" where
  "demo_uncles h = (if h = 101 then [1000, 1000, 1000, 1000] else if h = 102 then [1000, 1000, 1000] else [])"

definition many_samples :: "sample list" where
  "many_samples = replicate 200 \<lparr> s_number = 102, s_difficulty = 1000, s_uncle_count = 0 \<rparr>"

lemma gaps_of_old: "(\<forall>s \<in> set ss. s_number s \<le> at) \<Longrightarrow> gaps at ss head = gaps at [] head"
  by (induction ss) auto

lemma many_samples_facts:
  "unat (uncle_allowance_per_mille many_samples) = 4273"
  "gaps 100 many_samples 103 = [(100, 102), (102, 103)]"
proof -
  let ?s = "\<lparr> s_number = 102, s_difficulty = 1000, s_uncle_count = 0 \<rparr>"
  have "milli_counts many_samples = replicate 200 0"
    by (simp add: milli_counts_def many_samples_def)
  then have "bernstein_per_mille many_samples = 3273"
    by (simp add: bernstein_per_mille_def Let_def nat_dist_def isqrt_zero many_samples_def sum_list_replicate
       )
  then show "unat (uncle_allowance_per_mille many_samples) = 4273"
    using allowance_exact [of many_samples] by (simp add: many_samples_def)
  have many: "many_samples = ?s # replicate 199 ?s" by (simp add: many_samples_def flip: replicate_Suc)
  have "gaps 102 (replicate 199 ?s) 103 = gaps 102 [] 103" by (intro gaps_of_old) simp
  then show "gaps 100 many_samples 103 = [(100, 102), (102, 103)]" unfolding many by simp
qed


text \<open>Difficulties each at most one part in \<open>k\<close> away from the one before, ending at or below
  \<open>to\<close>: the rule's own steps and everything between them.\<close>

definition legal_between :: "nat \<Rightarrow> nat \<Rightarrow> nat \<Rightarrow> nat \<Rightarrow> nat \<Rightarrow> nat list \<Rightarrow> bool" where
  "legal_between k m start to n es \<longleftrightarrow>
     length es = n \<and> chain_ok k m start es \<and> last (start # es) \<le> to \<and> (\<forall>e \<in> set es. e < 2 ^ 256)"

lemma legal_between_sound:
  assumes "legal_between (unat divisor) (unat m) (unat start) (unat to) (unat span) es"
    and "2 \<le> divisor" and "max_work_between start to span divisor m \<noteq> max_val"
  shows "sum_list es \<le> unat (max_work_between start to span divisor m)"
proof -
  let ?r = "max_work_between start to span divisor m"
  have "min (sum_list es) (2 ^ 256 - 1) \<le> unat ?r"
    using assms(1,2) by (intro max_work_between_sound_sat) (auto simp: legal_between_def)
  moreover have "unat ?r \<noteq> unat (max_val :: u256)" using assms(3) by (simp add: word_unat_eq_iff)
  then have "unat ?r < 2 ^ 256 - 1" using unat_bound_u256 [of ?r] by (simp add: unat_max_val)
  ultimately show ?thesis by simp
qed

text \<open>Headers from \<open>p\<close> on, each accepted by the difficulty rule against the one before it, from
  orchid on and with the divisor \<open>k\<close>.\<close>

fun ruled_chain :: "chain_config \<Rightarrow> nat \<Rightarrow> header \<Rightarrow> header list \<Rightarrow> bool" where
  "ruled_chain c k p [] \<longleftrightarrow> True"
| "ruled_chain c k p (h # hs) \<longleftrightarrow> difficulty_rule c h p = Inr () \<and> difficulty_room c h p
     \<and> unat (orchid (activations c)) \<le> unat (h_number h) \<and> divisor_at c h = k \<and> ruled_chain c k h hs"

abbreviation difficulties :: "header list \<Rightarrow> nat list" where
  "difficulties hs \<equiv> map (\<lambda>h. unat (h_difficulty h)) hs"

lemma ruled_chain_ok:
  "ruled_chain c k p hs \<Longrightarrow> chain_ok k (unat (min_difficulty c)) (unat (h_difficulty p)) (difficulties hs)"
proof (induction hs arbitrary: p)
  case (Cons h hs)
  then have "unat (h_difficulty h) = exact_difficulty c h p"
    using difficulty_rule_exact [of c h p] by (auto split: if_split_asm)
  moreover have "chain_ok k (unat (min_difficulty c)) (unat (h_difficulty h)) (difficulties hs)"
    using Cons by simp
  ultimately show ?case using Cons.prems exact_is_step [of c h p] by simp
qed simp

lemma ruled_chain_legal:
  assumes "ruled_chain c k p hs" and "length hs = n" and "unat (h_difficulty (last (p # hs))) \<le> to"
  shows "legal_between k (unat (min_difficulty c)) (unat (h_difficulty p)) to n (difficulties hs)"
  using ruled_chain_ok [OF assms(1)] assms(2,3) unat_bound_u256
  by (auto simp: legal_between_def last_map)


text \<open>Over three blocks from difficulty 1000 back to 1000, with divisor 10, the bound is 3211; the
  headers of the rule carry 3190 at most.\<close>

definition flat_header :: "u64 \<Rightarrow> header" where
  "flat_header n = header_default\<lparr> h_number := n, h_difficulty := 1000, h_timestamp := n * 10 \<rparr>"

definition flat_config :: chain_config where
  "flat_config = regtest\<lparr> duration_limit := 10, difficulty_divisor := 10, min_difficulty := 1,
     activations := (activations regtest)\<lparr> orchid := 0, papyrus200 := 1000 \<rparr> \<rparr>"

lemma ruled_chain_step:
  assumes "ruled_chain c k p (h # hs)"
  shows "unat (h_difficulty h) \<in> {unat (h_difficulty p),
      max (unat (min_difficulty c)) (unat (h_difficulty p) + unat (h_difficulty p) div k),
      max (unat (min_difficulty c)) (unat (h_difficulty p) - unat (h_difficulty p) div k)}
    \<and> ruled_chain c k h hs"
proof -
  have "unat (h_difficulty h) = exact_difficulty c h p"
    using assms difficulty_rule_exact [of c h p] by (auto split: if_split_asm)
  moreover have "unat (orchid (activations c)) \<le> unat (h_number h)" "divisor_at c h = k"
    using assms by simp_all
  ultimately show ?thesis using assms by (auto simp: exact_difficulty_def Let_def)
qed

lemma the_rule_carries_less:
  assumes "ruled_chain flat_config 10 p [a, b, c]"
    and "unat (h_difficulty p) = 1000" and "unat (h_difficulty c) \<le> 1000"
  shows "sum_list (difficulties [a, b, c]) \<le> 3190"
proof -
  have m: "unat (min_difficulty flat_config) = 1" by (simp add: flat_config_def)
  have "unat (h_difficulty a) \<in> {900, 1000, 1100}"
    using ruled_chain_step [OF assms(1)] assms(2) by (auto simp: m)
  moreover have "ruled_chain flat_config 10 a [b, c]" using ruled_chain_step [OF assms(1)] by blast
  moreover note ruled_chain_step [OF this]
  moreover from this have "ruled_chain flat_config 10 b [c]" by blast
  moreover note ruled_chain_step [OF this]
  ultimately show ?thesis using assms(3) by (auto simp: m simp del: ruled_chain.simps)
qed



lemma isqrt_1080: "isqrt 1080 = 32"
  by (simp add: isqrt.simps Let_def)


end
