(* ===== verification/Sha256.thy ===== *)
theory Sha256
  imports Prelude
begin

text \<open>
  The SHA-256 code of \<open>validation/merged_mining.rs\<close>: the compression function and finishing a hash
  from a midstate. The state is the list of its eight words.
\<close>

text \<open>The constants of the source, in decimal.\<close>

definition K256 :: "u32 list" where
  "K256 = [
    1116352408, 1899447441, 3049323471, 3921009573,
    961987163, 1508970993, 2453635748, 2870763221,
    3624381080, 310598401, 607225278, 1426881987,
    1925078388, 2162078206, 2614888103, 3248222580,
    3835390401, 4022224774, 264347078, 604807628,
    770255983, 1249150122, 1555081692, 1996064986,
    2554220882, 2821834349, 2952996808, 3210313671,
    3336571891, 3584528711, 113926993, 338241895,
    666307205, 773529912, 1294757372, 1396182291,
    1695183700, 1986661051, 2177026350, 2456956037,
    2730485921, 2820302411, 3259730800, 3345764771,
    3516065817, 3600352804, 4094571909, 275423344,
    430227734, 506948616, 659060556, 883997877,
    958139571, 1322822218, 1537002063, 1747873779,
    1955562222, 2024104815, 2227730452, 2361852424,
    2428436474, 2756734187, 3204031479, 3329325298]"

definition SHA256_INITIAL_STATE :: "u32 list" where
  "SHA256_INITIAL_STATE = [1779033703, 3144134277, 1013904242, 2773480762,
    1359893119, 2600822924, 528734635, 1541459225]"

definition schedule_step :: "u32 list \<Rightarrow> nat \<Rightarrow> u32 list" where
  "schedule_step w i =
    (let x = w ! (i - 15); y = w ! (i - 2);
         s0 = Bit_Operations.xor (Bit_Operations.xor (word_rotr 7 x) (word_rotr 18 x)) (drop_bit 3 x);
         s1 = Bit_Operations.xor (Bit_Operations.xor (word_rotr 17 y) (word_rotr 19 y)) (drop_bit 10 y)
     in w @ [w ! (i - 16) + s0 + w ! (i - 7) + s1])"

definition schedule :: "bytes \<Rightarrow> u32 list" where
  "schedule blk = foldl schedule_step (map (\<lambda>i. from_be (slice (i * 4) ((i + 1) * 4) blk)) [0..<16]) [16..<64]"

type_synonym vars = "u32 \<times> u32 \<times> u32 \<times> u32 \<times> u32 \<times> u32 \<times> u32 \<times> u32"

definition round_step :: "u32 list \<Rightarrow> vars \<Rightarrow> nat \<Rightarrow> vars" where
  "round_step w v i = (case v of (a, b, c, d, e, f, g, h) \<Rightarrow>
     let s1 = Bit_Operations.xor (Bit_Operations.xor (word_rotr 6 e) (word_rotr 11 e)) (word_rotr 25 e);
         ch = Bit_Operations.xor (Bit_Operations.and e f) (Bit_Operations.and (Bit_Operations.not e) g);
         temp1 = h + s1 + ch + K256 ! i + w ! i;
         s0 = Bit_Operations.xor (Bit_Operations.xor (word_rotr 2 a) (word_rotr 13 a)) (word_rotr 22 a);
         maj = Bit_Operations.xor (Bit_Operations.xor (Bit_Operations.and a b) (Bit_Operations.and a c))
                 (Bit_Operations.and b c);
         temp2 = s0 + maj
     in (temp1 + temp2, a, b, c, d + temp1, e, f, g))"

definition sha256_compress :: "u32 list \<Rightarrow> bytes \<Rightarrow> u32 list" where
  "sha256_compress state blk =
    (case foldl (round_step (schedule blk))
            (state ! 0, state ! 1, state ! 2, state ! 3, state ! 4, state ! 5, state ! 6, state ! 7) [0..<64] of
       (a, b, c, d, e, f, g, h) \<Rightarrow>
         [state ! 0 + a, state ! 1 + b, state ! 2 + c, state ! 3 + d,
          state ! 4 + e, state ! 5 + f, state ! 6 + g, state ! 7 + h])"

text \<open>The padding loop runs at most 63 times (\<open>pad_zeros_done\<close>); its bound is 64 here.\<close>

fun pad_zeros :: "nat \<Rightarrow> u64 \<Rightarrow> bytes \<Rightarrow> bytes" where
  "pad_zeros 0 byte_count padded = padded"
| "pad_zeros (Suc k) byte_count padded =
    (if unat (byte_count + of_nat (length padded)) mod 64 \<noteq> 56 then pad_zeros k byte_count (padded @ [0])
     else padded)"

definition sha256_from_midstate :: "u32 list \<Rightarrow> u64 \<Rightarrow> bytes \<Rightarrow> bytes" where
  "sha256_from_midstate state byte_count tail =
    (let total_len = byte_count + of_nat (length tail);
         total_bits = total_len * 8;
         padded = pad_zeros 64 byte_count (tail @ [0x80]) @ to_be 8 total_bits
     in concat (map (to_be 4) (foldl sha256_compress state (chunks 64 padded))))"

section \<open>Padding\<close>

lemma mod_64_wrap: "unat (b + of_nat n) mod 64 = (unat b + n) mod 64" for b :: u64
proof -
  have "unat (b + of_nat n) = (unat b + n mod 2 ^ 64) mod 2 ^ 64"
    by (simp add: unat_word_ariths unat_of_nat)
  also have "\<dots> = (unat b + n) mod 2 ^ 64" by (rule mod_add_right_eq)
  finally have "unat (b + of_nat n) = (unat b + n) mod 2 ^ 64" .
  moreover have "(64 :: nat) dvd 2 ^ 64" by (rule dvdI [of _ _ "2 ^ 58"]) simp
  ultimately show ?thesis by (simp only: mod_mod_cancel)
qed

definition pad_count :: "nat \<Rightarrow> nat" where
  "pad_count m = (120 - m mod 64) mod 64"

lemma pad_count_cases:
  "pad_count m = (if m mod 64 \<le> 56 then 56 - m mod 64 else 120 - m mod 64)"
proof -
  have "m mod 64 < 64" by simp
  then show ?thesis unfolding pad_count_def by (simp add: le_mod_geq)
qed

lemma pad_count_0: "pad_count m = 0 \<longleftrightarrow> m mod 64 = 56"
proof -
  have "m mod 64 < 64" by simp
  then show ?thesis by (auto simp: pad_count_cases)
qed

lemma pad_count_Suc: "m mod 64 \<noteq> 56 \<Longrightarrow> pad_count m = Suc (pad_count (Suc m))"
proof -
  assume ne: "m mod 64 \<noteq> 56"
  have "m mod 64 < 64" by simp
  moreover have "Suc m mod 64 = (if m mod 64 = 63 then 0 else Suc (m mod 64))" by (simp add: mod_Suc)
  ultimately show ?thesis using ne by (auto simp: pad_count_cases)
qed

lemma pad_zeros_eq:
  "pad_count (unat b + length padded) \<le> k \<Longrightarrow>
     pad_zeros k b padded = padded @ replicate (pad_count (unat b + length padded)) 0"
proof (induction k arbitrary: padded)
  case (Suc k)
  show ?case
  proof (cases "(unat b + length padded) mod 64 = 56")
    case True
    then show ?thesis using pad_count_0 by (simp add: mod_64_wrap)
  next
    case False
    then have c: "pad_count (unat b + length padded) = Suc (pad_count (unat b + length (padded @ [0])))"
      using pad_count_Suc by simp
    with Suc.prems have "pad_count (unat b + length (padded @ [0])) \<le> k" by simp
    from Suc.IH [OF this] c False show ?thesis by (simp add: mod_64_wrap del: of_nat_add)
  qed
qed simp

lemma pad_count_bound: "pad_count m < 64"
  by (simp add: pad_count_def)

lemma pad_zeros_done:
  "pad_zeros 64 b padded = padded @ replicate (pad_count (unat b + length padded)) 0"
  using pad_count_bound [of "unat b + length padded"] by (intro pad_zeros_eq) simp

text \<open>Absorbing a whole number of blocks first and finishing from the midstate gives the hash of the
  whole message.\<close>

lemma sha256_resume:
  assumes "64 dvd length xs" and "length xs < 2 ^ 64"
  shows "sha256_from_midstate (foldl sha256_compress st (chunks 64 xs)) (of_nat (length xs)) ys =
    sha256_from_midstate st 0 (xs @ ys)"
proof -
  have u: "unat (of_nat (length xs) :: u64) = length xs" using assms(2) by (rule unat_of_nat_u64)
  have p: "pad_zeros 64 0 ((xs @ ys) @ [0x80]) = xs @ pad_zeros 64 (of_nat (length xs)) (ys @ [0x80])"
    unfolding pad_zeros_done u by (simp add: add.commute add.left_commute)
  show ?thesis
    unfolding sha256_from_midstate_def Let_def p
    using assms(1) by (simp add: chunks_append)
qed

text \<open>A midstate whose byte count is one past a block boundary, and a short tail: the padded tail
  is shorter than a block, nothing is compressed, and the digest is the midstate itself.\<close>

lemma sha256_short_tail:
  assumes "unat byte_count mod 64 = 1" and "length tail < 55"
  shows "sha256_from_midstate state byte_count tail = concat (map (to_be 4) state)"
proof -
  have "(unat byte_count + (length tail + 1)) mod 64 = (1 + (length tail + 1)) mod 64"
    using assms(1) by (metis mod_add_left_eq)
  then have "(unat byte_count + length (tail @ [0x80])) mod 64 = length tail + 2"
    using assms(2) by simp
  then have "pad_count (unat byte_count + length (tail @ [0x80])) = 54 - length tail"
    using assms(2) by (simp add: pad_count_cases)
  then have "length (pad_zeros 64 byte_count (tail @ [0x80]) @ to_be 8 (w :: u64)) < 64" for w
    unfolding pad_zeros_done using assms(2) by simp
  then show ?thesis by (simp add: sha256_from_midstate_def Let_def)
qed

end
