(* ===== verification/Rlp_Lib.thy ===== *)
theory Rlp_Lib
  imports Prelude
begin

text \<open>
  The \<open>alloy_rlp\<close> crate and keccak as a parameter, and the lenient integer decoders of
  \<open>crates/rsk-consensus/src/rlp_compat.rs\<close> on top of it. A decoder takes a byte string and returns the
  value with what is left of the string, as the code advances its \<open>buf\<close>.
\<close>

section \<open>The library parameter\<close>

text \<open>\<open>RlpOther\<close> is any other error of the library; \<open>RlpPanic\<close> a slice out of range;
  \<open>RlpDiverges\<close> a loop that does not end.\<close>

datatype rlp_error =
    UnexpectedString
  | UnexpectedList
  | Overflow
  | InputTooShort
  | RlpOther string
  | RlpPanic
  | RlpDiverges

type_synonym 'a rlp = "rlp_error + 'a"

record rlp_lib =
  rl_header :: "bytes \<Rightarrow> (bool \<times> nat \<times> bytes) rlp"
  rl_header_bytes :: "bool \<Rightarrow> nat \<Rightarrow> bytes"
  rl_bytes :: "bytes \<Rightarrow> (bytes \<times> bytes) rlp"
  rl_fixed :: "nat \<Rightarrow> bytes \<Rightarrow> (bytes \<times> bytes) rlp"
  rl_string_bytes :: "bytes \<Rightarrow> bytes"
  rl_keccak :: "bytes \<Rightarrow> b256"

text \<open>An unsigned integer is encoded as the string of its bytes without leading zeros.\<close>

definition strip_zeros :: "bytes \<Rightarrow> bytes" where
  "strip_zeros bs = dropWhile (\<lambda>b. b = 0) bs"

definition rl_u8_bytes :: "rlp_lib \<Rightarrow> u8 \<Rightarrow> bytes" where
  "rl_u8_bytes R v = rl_string_bytes R (strip_zeros [v])"

definition rl_u32_bytes :: "rlp_lib \<Rightarrow> u32 \<Rightarrow> bytes" where
  "rl_u32_bytes R v = rl_string_bytes R (strip_zeros (to_be 4 v))"

definition rl_u64_bytes :: "rlp_lib \<Rightarrow> u64 \<Rightarrow> bytes" where
  "rl_u64_bytes R v = rl_string_bytes R (strip_zeros (to_be 8 v))"

definition rl_u256_bytes :: "rlp_lib \<Rightarrow> u256 \<Rightarrow> bytes" where
  "rl_u256_bytes R v = rl_string_bytes R (strip_zeros (to_be 32 v))"

text \<open>What the code relies on, for payloads shorter than \<open>2 ^ 64\<close> bytes: decoders read back what
  encoders wrote and leave the rest (a string header before a single byte below \<open>80\<close> is not
  canonical and is refused); a decoded header announces no more than what follows it and
  an item is never empty; the encoding of a string holds the string, and the empty string is \<open>80\<close>;
  the first byte of a list is at least \<open>c0\<close>.\<close>

definition rlp_ok :: "rlp_lib \<Rightarrow> bool" where
  "rlp_ok R \<longleftrightarrow>
     (\<forall>p rest. length p < 2 ^ 64 \<longrightarrow>
        rl_header R (rl_header_bytes R True (length p) @ p @ rest) = Inr (True, length p, p @ rest) \<and>
        (\<not> (length p = 1 \<and> unat (hd p) < 128) \<longrightarrow>
           rl_header R (rl_header_bytes R False (length p) @ p @ rest) = Inr (False, length p, p @ rest)) \<and>
        rl_header R (rl_string_bytes R p @ rest) = Inr (False, length p, p @ rest) \<and>
        rl_bytes R (rl_string_bytes R p @ rest) = Inr (p, rest) \<and>
        rl_fixed R (length p) (rl_string_bytes R p @ rest) = Inr (p, rest)) \<and>
     (\<forall>d l n rest. rl_header R d = Inr (l, n, rest) \<longrightarrow>
        n \<le> length rest \<and> (\<exists>k. rest = drop k d \<and> k \<le> length d \<and> 0 < k + n)) \<and>
     (\<forall>p. length p \<le> length (rl_string_bytes R p)) \<and> rl_string_bytes R [] = [0x80] \<and>
     (\<forall>n < 2 ^ 64. rl_header_bytes R True n \<noteq> [] \<and> 192 \<le> unat (hd (rl_header_bytes R True n)))"

lemma rlp_laws [codec]:
  assumes "rlp_ok R" and "length p < 2 ^ 64"
  shows "rl_header R (rl_header_bytes R True (length p) @ p @ rest) = Inr (True, length p, p @ rest)"
    and "rl_header R (rl_string_bytes R p @ rest) = Inr (False, length p, p @ rest)"
    and "rl_bytes R (rl_string_bytes R p @ rest) = Inr (p, rest)"
    and "length p = n \<Longrightarrow> rl_fixed R n (rl_string_bytes R p @ rest) = Inr (p, rest)"
    and "\<not> (length p = 1 \<and> unat (hd p) < 128) \<Longrightarrow>
      rl_header R (rl_header_bytes R False (length p) @ p @ rest) = Inr (False, length p, p @ rest)"
  using assms by (auto simp: rlp_ok_def)

lemma rlp_string_length: "rlp_ok R \<Longrightarrow> length p \<le> length (rl_string_bytes R p)"
  and rlp_empty_string: "rlp_ok R \<Longrightarrow> rl_string_bytes R [] = [0x80]"
  and rlp_list_byte: "rlp_ok R \<Longrightarrow> n < 2 ^ 64 \<Longrightarrow> rl_header_bytes R True n \<noteq> [] \<and> 192 \<le> unat (hd (rl_header_bytes R True n))"
  by (simp_all add: rlp_ok_def)

lemma rlp_header_bound:
  assumes "rlp_ok R" and "rl_header R d = Inr (l, n, rest)"
  obtains k where "rest = drop k d" "k \<le> length d" "n \<le> length rest" "0 < k + n"
  using assms unfolding rlp_ok_def by blast

text \<open>An item is read from its own bytes: its header is the same when nothing follows the item, and a
  byte string is the payload its header announces.\<close>

definition rlp_exact :: "rlp_lib \<Rightarrow> bool" where
  "rlp_exact R \<longleftrightarrow>
     (\<forall>d l n rest. rl_header R d = Inr (l, n, rest) \<longrightarrow>
        rl_header R (take (length d - (length rest - n)) d) = Inr (l, n, take n rest)) \<and>
     (\<forall>d p rest. rl_bytes R d = Inr (p, rest) \<longrightarrow>
        (\<exists>n r. rl_header R d = Inr (False, n, r) \<and> p = take n r \<and> rest = drop n r))"

text \<open>No call of the library panics or loops, whatever the bytes, and a value that is read takes at
  least one byte.\<close>

definition crash_free :: "'a rlp \<Rightarrow> bool" where
  "crash_free r \<longleftrightarrow> r \<noteq> Inl RlpPanic \<and> r \<noteq> Inl RlpDiverges"

definition rlp_total :: "rlp_lib \<Rightarrow> bool" where
  "rlp_total R \<longleftrightarrow> (\<forall>d n. crash_free (rl_header R d) \<and> crash_free (rl_bytes R d) \<and> crash_free (rl_fixed R n d) \<and>
     (\<forall>p rest. rl_bytes R d = Inr (p, rest) \<or> rl_fixed R n d = Inr (p, rest) \<longrightarrow>
        (\<exists>k. rest = drop k d \<and> 0 < k \<and> k \<le> length d)))"

section \<open>Indexing that may panic\<close>

text \<open>\<open>&bytes[..n]\<close>, \<open>a - b\<close> on \<open>usize\<close> (which, where overflow is not checked, wraps to a value no slice
  can take) and \<open>list[i]\<close>.\<close>

definition slice_to :: "nat \<Rightarrow> bytes \<Rightarrow> bytes rlp" where
  "slice_to n bs = (if n \<le> length bs then Inr (take n bs) else Inl RlpPanic)"

definition usize_sub :: "nat \<Rightarrow> nat \<Rightarrow> nat rlp" where
  "usize_sub a b = (if b \<le> a then Inr (a - b) else Inl RlpPanic)"

definition at_index :: "'a list \<Rightarrow> nat \<Rightarrow> 'a rlp" where
  "at_index xs i = (if i < length xs then Inr (xs ! i) else Inl RlpPanic)"

lemma no_panic [simp]:
  "n \<le> length bs \<Longrightarrow> slice_to n bs = Inr (take n bs)"
  "b \<le> a \<Longrightarrow> usize_sub a b = Inr (a - b)"
  "i < length xs \<Longrightarrow> at_index xs i = Inr (xs ! i)"
  by (simp_all add: slice_to_def usize_sub_def at_index_def)

lemma indexing_Inr:
  "slice_to n bs = Inr p \<longleftrightarrow> n \<le> length bs \<and> p = take n bs"
  "usize_sub a b = Inr k \<longleftrightarrow> b \<le> a \<and> k = a - b"
  "at_index xs i = Inr x \<longleftrightarrow> i < length xs \<and> x = xs ! i"
  by (auto simp: slice_to_def usize_sub_def at_index_def)

section \<open>Lenient integers\<close>

text \<open>The four decoders share their first steps: the header, the payload, the zeros stripped.\<close>

definition lenient_payload :: "rlp_lib \<Rightarrow> bytes \<Rightarrow> (bytes \<times> bytes) rlp" where
  "lenient_payload R buf =
     bindE (rl_header R buf) (\<lambda>(is_list, n, rest).
     bindE (ensure (\<not> is_list) UnexpectedList) (\<lambda>_.
     bindE (ensure (n \<le> length rest) RlpPanic) (\<lambda>_.
       Inr (strip_zeros (take n rest), drop n rest))))"

definition shift_in :: "'a::len word \<Rightarrow> u8 \<Rightarrow> 'a word" where
  "shift_in acc b = Bit_Operations.or (push_bit 8 acc) (ucast b)"

definition decode_u8_lenient :: "rlp_lib \<Rightarrow> bytes \<Rightarrow> (u8 \<times> bytes) rlp" where
  "decode_u8_lenient R buf =
     bindE (lenient_payload R buf) (\<lambda>(stripped, rest).
       case stripped of
         [] \<Rightarrow> Inr (0, rest)
       | b # _ \<Rightarrow> if length stripped > 1 then Inl Overflow else Inr (b, rest))"

definition decode_u32_lenient :: "rlp_lib \<Rightarrow> bytes \<Rightarrow> (u32 \<times> bytes) rlp" where
  "decode_u32_lenient R buf =
     bindE (lenient_payload R buf) (\<lambda>(stripped, rest).
       if length stripped > 4 then Inl Overflow else Inr (foldl shift_in 0 stripped, rest))"

definition decode_u64_lenient :: "rlp_lib \<Rightarrow> bytes \<Rightarrow> (u64 \<times> bytes) rlp" where
  "decode_u64_lenient R buf =
     bindE (lenient_payload R buf) (\<lambda>(stripped, rest).
       if length stripped > 8 then Inl Overflow else Inr (foldl shift_in 0 stripped, rest))"

definition decode_u256_lenient :: "rlp_lib \<Rightarrow> bytes \<Rightarrow> (u256 \<times> bytes) rlp" where
  "decode_u256_lenient R buf =
     bindE (lenient_payload R buf) (\<lambda>(stripped, rest).
       if length stripped > 32 then Inl Overflow else Inr (from_be stripped, rest))"

section \<open>What they read\<close>

lemma be_nat_strip: "be_nat (strip_zeros bs) = be_nat bs"
  by (induction bs) (auto simp: strip_zeros_def be_nat_Cons)

lemma length_strip_zeros: "length (strip_zeros bs) \<le> length bs"
  by (simp add: strip_zeros_def length_dropWhile_le)

lemma strip_zeros_idem [simp]: "strip_zeros (strip_zeros bs) = strip_zeros bs"
  by (simp add: strip_zeros_def)

lemma strip_zeros_Cons0 [simp]: "strip_zeros (0 # bs) = strip_zeros bs"
  by (simp add: strip_zeros_def)

lemma from_be_strip [simp]: "from_be (strip_zeros bs) = from_be bs"
  by (simp add: from_be_def be_nat_strip)

lemma shift_in_eq: "shift_in acc b = of_nat (unat acc * 256 + unat b)" for acc :: "'a::len word"
proof -
  have "Bit_Operations.and (push_bit 8 acc) (ucast b :: 'a word) = 0"
    by (rule bit_word_eqI) (use bit_imp_le_length [of b] in \<open>fastforce simp: bit_simps\<close>)
  then have "shift_in acc b = push_bit 8 acc + ucast b"
    unfolding shift_in_def by (simp only: disjunctive_add_eq_or)
  then show ?thesis by (simp add: push_bit_eq_mult mult.commute)
qed

lemma shift_fold:
  fixes acc :: "'a::len word"
  assumes "be_acc (unat acc) bs < 2 ^ LENGTH('a)"
  shows "unat (foldl shift_in acc bs) = be_acc (unat acc) bs"
  using assms
proof (induction bs arbitrary: acc)
  case (Cons b bs)
  have "(unat acc * 256 + unat b) * 1 \<le> (unat acc * 256 + unat b) * 256 ^ length bs"
    by (intro mult_le_mono2) simp
  also have "\<dots> \<le> be_acc (unat acc * 256 + unat b) bs" by (simp add: be_acc_eq [of _ bs])
  finally have "unat acc * 256 + unat b < 2 ^ LENGTH('a)" using Cons.prems by simp
  then have "unat (shift_in acc b) = unat acc * 256 + unat b"
    unfolding shift_in_eq by (simp only: unat_of_nat mod_less)
  then show ?case using Cons.IH [of "shift_in acc b"] Cons.prems by simp
qed simp

lemma shift_fold_from_be:
  "256 ^ length bs \<le> (2::nat) ^ LENGTH('a) \<Longrightarrow> foldl shift_in (0 :: 'a::len word) bs = from_be bs"
proof -
  assume "256 ^ length bs \<le> (2::nat) ^ LENGTH('a)"
  then have "unat (foldl shift_in (0 :: 'a word) bs) = be_nat bs"
    using shift_fold [of "0 :: 'a word" bs] be_nat_bound [of bs] by (simp add: be_nat_def)
  from arg_cong [OF this, of "of_nat :: nat \<Rightarrow> 'a word"] show ?thesis by (simp add: from_be_def)
qed

text \<open>Reading back an encoded integer, however many zeros lead it.\<close>

lemma lenient_payload_string:
  "rlp_ok R \<Longrightarrow> length p < 2 ^ 64 \<Longrightarrow>
     lenient_payload R (rl_string_bytes R p @ rest) = Inr (strip_zeros p, rest)"
  by (simp add: lenient_payload_def rlp_laws ensure_def)

lemma strip_bound: "be_nat bs < 256 ^ k \<Longrightarrow> length (strip_zeros bs) \<le> k"
proof (rule ccontr)
  assume b: "be_nat bs < 256 ^ k" and "\<not> length (strip_zeros bs) \<le> k"
  then obtain c cs where cs: "strip_zeros bs = c # cs" "k \<le> length cs"
    by (cases "strip_zeros bs") auto
  then have "c \<noteq> 0" by (metis (mono_tags, lifting) hd_dropWhile list.distinct(1) list.sel(1) strip_zeros_def)
  then have "1 \<le> unat c" by (simp add: unat_gt_0 Suc_le_eq)
  then have "256 ^ length cs \<le> be_nat (strip_zeros bs)"
    by (simp add: cs be_nat_Cons trans_le_add1)
  then have "256 ^ length cs \<le> be_nat bs" by (simp add: be_nat_strip)
  moreover have "(256::nat) ^ k \<le> 256 ^ length cs" using cs(2) by (intro power_increasing) simp_all
  ultimately show False using b by linarith
qed

lemma decode_u64_string:
  assumes "rlp_ok R" and "length p < 2 ^ 64" and "be_nat p < 2 ^ 64"
  shows "decode_u64_lenient R (rl_string_bytes R p @ rest) = Inr (from_be p, rest)"
proof -
  have l: "length (strip_zeros p) \<le> 8" using assms(3) by (intro strip_bound) simp
  then have "(256::nat) ^ length (strip_zeros p) \<le> 256 ^ 8" by (intro power_increasing) simp_all
  then have "foldl shift_in (0 :: u64) (strip_zeros p) = from_be p"
    by (simp add: shift_fold_from_be)
  then show ?thesis using l assms
    by (simp add: decode_u64_lenient_def lenient_payload_string)
qed

lemma decode_u256_string:
  assumes "rlp_ok R" and "length p < 2 ^ 64" and "be_nat p < 2 ^ 256"
  shows "decode_u256_lenient R (rl_string_bytes R p @ rest) = Inr (from_be p, rest)"
proof -
  have l: "length (strip_zeros p) \<le> 32" using assms(3) by (intro strip_bound) simp
  then show ?thesis using assms
    by (simp add: decode_u256_lenient_def lenient_payload_string)
qed

lemma decode_u8_string:
  assumes "rlp_ok R"
  shows "decode_u8_lenient R (rl_string_bytes R (strip_zeros [b]) @ rest) = Inr (b, rest)"
proof -
  have "lenient_payload R (rl_string_bytes R (strip_zeros [b]) @ rest) = Inr (strip_zeros [b], rest)"
    using assms lenient_payload_string [of R "strip_zeros [b]"] length_strip_zeros [of "[b]"] by simp
  then show ?thesis by (simp add: decode_u8_lenient_def) (simp add: strip_zeros_def)
qed

lemma decode_u32_string:
  assumes "rlp_ok R" and "length p < 2 ^ 64" and "be_nat p < 2 ^ 32"
  shows "decode_u32_lenient R (rl_string_bytes R p @ rest) = Inr (from_be p, rest)"
proof -
  have l: "length (strip_zeros p) \<le> 4" using assms(3) by (intro strip_bound) simp
  then have "(256::nat) ^ length (strip_zeros p) \<le> 256 ^ 4" by (intro power_increasing) simp_all
  then have "foldl shift_in (0 :: u32) (strip_zeros p) = from_be p"
    by (simp add: shift_fold_from_be)
  then show ?thesis using l assms
    by (simp add: decode_u32_lenient_def lenient_payload_string)
qed

lemma unat_bound_u32: "unat v < 2 ^ 32" for v :: u32
  using unat_less_exp [of v] by simp

lemma be_nat_to_be4: "be_nat (to_be 4 v) = unat v" for v :: u32
  using unat_bound_u32 [of v] by (simp add: to_be_def be_nat_nat_bytes)

lemma be_nat_to_be8: "be_nat (to_be 8 v) = unat v" for v :: u64
  using unat_bound_u64 [of v] by (simp add: to_be_def be_nat_nat_bytes)

lemma be_nat_to_be32: "be_nat (to_be 32 v) = unat v" for v :: u256
  using unat_bound_u256 [of v] by (simp add: to_be_def be_nat_nat_bytes)

lemma decode_u64_bytes [codec]:
  "rlp_ok R \<Longrightarrow> decode_u64_lenient R (rl_u64_bytes R v @ rest) = Inr (v, rest)"
proof -
  assume ok: "rlp_ok R"
  have "length (strip_zeros (to_be 8 v)) \<le> 8" using length_strip_zeros [of "to_be 8 v"] by simp
  then have "length (strip_zeros (to_be 8 v)) < 2 ^ 64" by (rule le_less_trans) simp
  with ok show ?thesis unfolding rl_u64_bytes_def
    using unat_bound_u64 [of v] by (subst decode_u64_string) (simp_all add: be_nat_strip be_nat_to_be8 codec)
qed

lemma decode_u8_bytes [codec]: "rlp_ok R \<Longrightarrow> decode_u8_lenient R (rl_u8_bytes R v @ rest) = Inr (v, rest)"
  by (simp add: rl_u8_bytes_def decode_u8_string)

lemma decode_u32_bytes [codec]: "rlp_ok R \<Longrightarrow> decode_u32_lenient R (rl_u32_bytes R v @ rest) = Inr (v, rest)"
proof -
  assume ok: "rlp_ok R"
  have "length (strip_zeros (to_be 4 v)) \<le> 4" using length_strip_zeros [of "to_be 4 v"] by simp
  then have "length (strip_zeros (to_be 4 v)) < 2 ^ 64" by (rule le_less_trans) simp
  with ok show ?thesis unfolding rl_u32_bytes_def
    using unat_bound_u32 [of v] by (subst decode_u32_string) (simp_all add: be_nat_strip be_nat_to_be4 codec)
qed

lemma decode_u256_bytes [codec]:
  "rlp_ok R \<Longrightarrow> decode_u256_lenient R (rl_u256_bytes R v @ rest) = Inr (v, rest)"
proof -
  assume ok: "rlp_ok R"
  have "length (strip_zeros (to_be 32 v)) \<le> 32" using length_strip_zeros [of "to_be 32 v"] by simp
  then have "length (strip_zeros (to_be 32 v)) < 2 ^ 64" by (rule le_less_trans) simp
  with ok show ?thesis unfolding rl_u256_bytes_def
    using unat_bound_u256 [of v] by (subst decode_u256_string) (simp_all add: be_nat_strip be_nat_to_be32 codec)
qed

end
