(* ===== verification/Header_Codec.thy ===== *)
theory Header_Codec
  imports Types Config Rlp_Lib
begin

text \<open>
  \<open>types/header.rs\<close>: the RLP encoding of a block header, its lenient decoding, the block hash and
  the hash for merged mining. The activation heights that \<open>ActivationHeights::current\<close> reads from
  the process are an argument.
\<close>

section \<open>Encoding\<close>

definition java_signed_bytes :: "u256 \<Rightarrow> bytes" where
  "java_signed_bytes v =
    (if v = 0 then [0]
     else let s = strip_zeros (to_be 32 v) in
       if Bit_Operations.and (hd s) 0x80 \<noteq> 0 then 0 # s else s)"

definition base_items :: "rlp_lib \<Rightarrow> header \<Rightarrow> bytes list" where
  "base_items R h =
    [rl_string_bytes R (to_be 32 (h_parent_hash h)),
     rl_string_bytes R (to_be 32 (h_ommers_hash h)),
     rl_string_bytes R (to_be 20 (h_beneficiary h)),
     rl_string_bytes R (to_be 32 (h_state_root h)),
     rl_string_bytes R (to_be 32 (h_transactions_root h)),
     rl_string_bytes R (to_be 32 (h_receipts_root h)),
     rl_string_bytes R (to_be 256 (h_logs_bloom h)),
     rl_string_bytes R (java_signed_bytes (h_difficulty h)),
     rl_u64_bytes R (h_number h),
     rl_string_bytes R (java_signed_bytes (h_gas_limit h)),
     rl_u64_bytes R (h_gas_used h),
     rl_u64_bytes R (h_timestamp h),
     rl_string_bytes R (h_extra_data h),
     rl_u256_bytes R (h_paid_fees h),
     rl_string_bytes R (java_signed_bytes (h_minimum_gas_price h)),
     rl_u64_bytes R (h_uncle_count h)]"

definition encode_base_fields :: "rlp_lib \<Rightarrow> header \<Rightarrow> bytes" where
  "encode_base_fields R h = concat (base_items R h)"

definition encode_payload :: "rlp_lib \<Rightarrow> bool \<Rightarrow> header \<Rightarrow> bytes" where
  "encode_payload R with_merkle_proof_and_coinbase h =
     encode_base_fields R h @
     (case h_umm_root h of None \<Rightarrow> [] | Some umm \<Rightarrow> rl_string_bytes R umm) @
     (case h_mm_header h of
        None \<Rightarrow> []
      | Some btc \<Rightarrow> rl_string_bytes R btc @
          (if with_merkle_proof_and_coinbase then
             (case h_mm_merkle_proof h of Some p \<Rightarrow> rl_string_bytes R p | None \<Rightarrow> [0x80]) @
             (case h_mm_coinbase h of Some tx \<Rightarrow> rl_string_bytes R tx | None \<Rightarrow> [0x80])
           else []))"

definition wrap_list :: "rlp_lib \<Rightarrow> bytes \<Rightarrow> bytes" where
  "wrap_list R payload = rl_header_bytes R True (length payload) @ payload"

definition encode_header :: "rlp_lib \<Rightarrow> header \<Rightarrow> bytes" where
  "encode_header R h = wrap_list R (encode_payload R True h)"

section \<open>Decoding\<close>

text \<open>Field 6 is the logs bloom when it is a string of 256 bytes, and extension data otherwise.\<close>

definition decode_bloom :: "rlp_lib \<Rightarrow> bytes \<Rightarrow> ((2048 word \<times> bytes option) \<times> bytes) rlp" where
  "decode_bloom R body =
     bindE (rl_header R body) (\<lambda>(is_list, n, peek).
       if \<not> is_list \<and> n = 256 then
         bindE (rl_fixed R 256 body) (\<lambda>(v, rest). Inr ((from_be v, None), rest))
       else
         bindE (usize_sub (length body) (length peek)) (\<lambda>header_len.
         let tot = header_len + n in
         bindE (slice_to tot body) (\<lambda>raw. Inr ((0, Some raw), drop tot body))))"

partial_function (option) count_items :: "rlp_lib \<Rightarrow> bytes \<Rightarrow> nat option" where
  "count_items R rest =
    (if rest = [] then Some 0
     else case rl_header R rest of
       Inl e \<Rightarrow> Some 0
     | Inr (is_list, n, temp) \<Rightarrow>
         if n > length temp then Some 0
         else Option.bind (count_items R (drop n temp)) (\<lambda>c. Some (Suc c)))"

definition opt_item :: "rlp_lib \<Rightarrow> bool \<Rightarrow> bytes \<Rightarrow> (bytes option \<times> bytes) rlp" where
  "opt_item R present body =
    (if present then bindE (rl_bytes R body) (\<lambda>(v, rest). Inr (Some v, rest)) else Inr (None, body))"

definition decode_mining_fields :: "rlp_lib \<Rightarrow> header \<Rightarrow> bytes \<Rightarrow> header rlp" where
  "decode_mining_fields R h body =
     bindE (of_option RlpDiverges (count_items R body)) (\<lambda>remaining_items.
     bindE (opt_item R (remaining_items \<ge> 4) body) (\<lambda>(umm, body).
     bindE (opt_item R (body \<noteq> []) body) (\<lambda>(btc, body).
     bindE (opt_item R (body \<noteq> []) body) (\<lambda>(merkle, body).
     bindE (opt_item R (body \<noteq> []) body) (\<lambda>(coinbase, body).
       Inr (h\<lparr> h_umm_root := umm, h_mm_header := btc, h_mm_merkle_proof := merkle,
               h_mm_coinbase := coinbase \<rparr>))))))"

definition decode_fields :: "rlp_lib \<Rightarrow> bytes \<Rightarrow> header rlp" where
  "decode_fields R body =
     bindE (rl_fixed R 32 body) (\<lambda>(parent_hash, body).
     bindE (rl_fixed R 32 body) (\<lambda>(ommers_hash, body).
     bindE (rl_fixed R 20 body) (\<lambda>(beneficiary, body).
     bindE (rl_fixed R 32 body) (\<lambda>(state_root, body).
     bindE (rl_fixed R 32 body) (\<lambda>(transactions_root, body).
     bindE (rl_fixed R 32 body) (\<lambda>(receipts_root, body).
     bindE (decode_bloom R body) (\<lambda>((logs_bloom, extension_data), body).
     bindE (decode_u256_lenient R body) (\<lambda>(difficulty, body).
     bindE (decode_u64_lenient R body) (\<lambda>(number, body).
     bindE (decode_u256_lenient R body) (\<lambda>(gas_limit, body).
     bindE (decode_u64_lenient R body) (\<lambda>(gas_used, body).
     bindE (decode_u64_lenient R body) (\<lambda>(timestamp, body).
     bindE (rl_bytes R body) (\<lambda>(extra_data, body).
     bindE (decode_u256_lenient R body) (\<lambda>(paid_fees, body).
     bindE (decode_u256_lenient R body) (\<lambda>(minimum_gas_price, body).
     bindE (decode_u64_lenient R body) (\<lambda>(uncle_count, body).
       decode_mining_fields R \<lparr> h_parent_hash = from_be parent_hash, h_ommers_hash = from_be ommers_hash,
         h_beneficiary = from_be beneficiary, h_state_root = from_be state_root,
         h_transactions_root = from_be transactions_root, h_receipts_root = from_be receipts_root,
         h_logs_bloom = logs_bloom, h_extension_data = extension_data, h_difficulty = difficulty,
         h_number = number, h_gas_limit = gas_limit, h_gas_used = gas_used, h_timestamp = timestamp,
         h_extra_data = extra_data, h_paid_fees = paid_fees, h_minimum_gas_price = minimum_gas_price,
         h_uncle_count = uncle_count, h_umm_root = None, h_mm_header = None, h_mm_merkle_proof = None,
         h_mm_coinbase = None, h_cached_hash = None, h_cached_mm_hash = None \<rparr> body))))))))))))))))"

definition decode_header :: "rlp_lib \<Rightarrow> bytes \<Rightarrow> (header \<times> bytes) rlp" where
  "decode_header R buf =
     bindE (rl_header R buf) (\<lambda>(is_list, n, rest).
     bindE (ensure is_list UnexpectedString) (\<lambda>_.
     bindE (ensure (n \<le> length rest) RlpPanic) (\<lambda>_.
     bindE (decode_fields R (take n rest)) (\<lambda>h.
       Inr (h, drop n rest)))))"

section \<open>Hashes\<close>

definition rskip92_active :: "activation_heights \<Rightarrow> header \<Rightarrow> bool" where
  "rskip92_active acts h \<longleftrightarrow> h_number h \<ge> orchid acts"

definition header_hash :: "rlp_lib \<Rightarrow> activation_heights \<Rightarrow> header \<Rightarrow> b256" where
  "header_hash R acts h = (case h_cached_hash h of
     Some x \<Rightarrow> x
   | None \<Rightarrow> rl_keccak R (wrap_list R (encode_payload R (\<not> rskip92_active acts h) h)))"

text \<open>The ends of the items of a list body; the outer option is divergence, the inner one the
  early return.\<close>

partial_function (option) item_ends :: "rlp_lib \<Rightarrow> nat \<Rightarrow> bytes \<Rightarrow> nat list option rlp option" where
  "item_ends R tot cursor =
    (if cursor = [] then Some (Inr (Some []))
     else case rl_header R cursor of
       Inl e \<Rightarrow> Some (Inr None)
     | Inr (is_list, n, temp) \<Rightarrow>
         if n > length temp then Some (Inr None)
         else case usize_sub tot (length (drop n temp)) of
           Inl e \<Rightarrow> Some (Inl e)
         | Inr here \<Rightarrow> Option.bind (item_ends R tot (drop n temp)) (\<lambda>r.
             Some (bindE r (\<lambda>ends. Inr (map_option (\<lambda>es. here # es) ends)))))"

definition rskip92_hash_from_encoded :: "rlp_lib \<Rightarrow> bytes \<Rightarrow> b256 option rlp" where
  "rskip92_hash_from_encoded R encoded = (case rl_header R encoded of
     Inl e \<Rightarrow> Inr None
   | Inr (is_list, n, parse) \<Rightarrow>
       if n > length parse then Inr None
       else
         let body = take n parse in
         bindE (case item_ends R (length body) body of None \<Rightarrow> Inl RlpDiverges | Some r \<Rightarrow> r) (\<lambda>oe. case oe of
           None \<Rightarrow> Inr None
         | Some ends \<Rightarrow>
             if length ends < 3 then Inr None
             else
               bindE (usize_sub (length ends) 3) (\<lambda>third_last.
               bindE (at_index ends third_last) (\<lambda>e.
               bindE (slice_to e body) (\<lambda>payload.
                 Inr (Some (rl_keccak R (wrap_list R payload))))))))"

fun skip_items :: "rlp_lib \<Rightarrow> nat \<Rightarrow> bytes \<Rightarrow> bytes" where
  "skip_items R 0 cursor = cursor"
| "skip_items R (Suc k) cursor =
    (if cursor = [] then []
     else case rl_header R cursor of
       Inl e \<Rightarrow> cursor
     | Inr (is_list, n, temp) \<Rightarrow> if n > length temp then cursor else skip_items R k (drop n temp))"

text \<open>The hash of a merged-mining payload, hashed twice when the block carries a UMM root.\<close>

definition mm_hash_of :: "rlp_lib \<Rightarrow> bytes option \<Rightarrow> bytes \<Rightarrow> b256" where
  "mm_hash_of R umm_root payload =
    (let base = rl_keccak R (wrap_list R payload) in
     case umm_root of
       Some umm \<Rightarrow> if umm \<noteq> [] then rl_keccak R (take 20 (to_be 32 base) @ umm) else base
     | None \<Rightarrow> base)"

definition mm_hash_from_encoded :: "rlp_lib \<Rightarrow> bytes option \<Rightarrow> bytes \<Rightarrow> b256 rlp" where
  "mm_hash_from_encoded R umm_root body =
    (let cursor = skip_items R 16 body in
     bindE (usize_sub (length body) (length cursor)) (\<lambda>mm_end.
     bindE (case umm_root of
         None \<Rightarrow> Inr mm_end
       | Some _ \<Rightarrow>
           if cursor = [] then Inr mm_end
           else (case rl_header R cursor of
             Inl e \<Rightarrow> Inr mm_end
           | Inr (is_list, n, temp) \<Rightarrow>
               if n \<le> length temp
               then bindE (usize_sub (length cursor) (length temp)) (\<lambda>header_len. Inr (mm_end + (header_len + n)))
               else Inr mm_end)) (\<lambda>mm_end_with_umm.
     bindE (slice_to mm_end_with_umm body) (\<lambda>mm_payload.
       Inr (mm_hash_of R umm_root mm_payload)))))"

definition decode_with_hash :: "rlp_lib \<Rightarrow> activation_heights \<Rightarrow> bytes \<Rightarrow> (header \<times> bytes) rlp" where
  "decode_with_hash R acts original =
     bindE (decode_header R original) (\<lambda>(h, buf).
     bindE (usize_sub (length original) (length buf)) (\<lambda>consumed.
     bindE (slice_to consumed original) (\<lambda>encoded.
     let has_proof_and_coinbase = (h_mm_merkle_proof h \<noteq> None \<or> h_mm_coinbase h \<noteq> None) in
     bindE (if rskip92_active acts h \<and> has_proof_and_coinbase then rskip92_hash_from_encoded R encoded
            else Inr None) (\<lambda>oh.
     let h1 = h\<lparr> h_cached_hash := Some (case oh of Some x \<Rightarrow> x | None \<Rightarrow> rl_keccak R encoded) \<rparr> in
     case rl_header R encoded of
       Inl e \<Rightarrow> Inr (h1, buf)
     | Inr (is_list, n, parse) \<Rightarrow>
         bindE (slice_to n parse) (\<lambda>body.
         bindE (mm_hash_from_encoded R (h_umm_root h) body) (\<lambda>mm_hash.
           Inr (h1\<lparr> h_cached_mm_hash := Some mm_hash \<rparr>, buf)))))))"

definition hash_for_merged_mining :: "rlp_lib \<Rightarrow> header \<Rightarrow> b256" where
  "hash_for_merged_mining R h = (case h_cached_mm_hash h of
     Some x \<Rightarrow> x
   | None \<Rightarrow> mm_hash_of R (h_umm_root h)
       (encode_base_fields R h @ (case h_umm_root h of None \<Rightarrow> [] | Some umm \<Rightarrow> rl_string_bytes R umm)))"

section \<open>Items\<close>

text \<open>A string that the library splits off as one item.\<close>

definition item :: "rlp_lib \<Rightarrow> bytes \<Rightarrow> bool" where
  "item R it \<longleftrightarrow> it \<noteq> [] \<and>
     (\<forall>rest. \<exists>n temp. rl_header R (it @ rest) = Inr (False, n, temp) \<and> n \<le> length temp \<and> drop n temp = rest)"

lemma item_string: "rlp_ok R \<Longrightarrow> length p < 2 ^ 64 \<Longrightarrow> item R (rl_string_bytes R p)"
proof -
  assume ok: "rlp_ok R" and p: "length p < 2 ^ 64"
  have "rl_string_bytes R p \<noteq> []"
  proof
    assume "rl_string_bytes R p = []"
    then show False
      using rlp_string_length [OF ok, of p] rlp_empty_string [OF ok] by (cases p) auto
  qed
  moreover have "rl_header R (rl_string_bytes R p @ rest) = Inr (False, length p, p @ rest)" for rest
    using ok p by (rule rlp_laws)
  ultimately show ?thesis by (simp add: item_def)
qed

lemma count_items_concat:
  assumes "\<forall>it \<in> set its. item R it"
  shows "count_items R (concat its) = Some (length its)"
  using assms
proof (induction its)
  case (Cons it its)
  then obtain n temp where t: "rl_header R (it @ concat its) = Inr (False, n, temp)"
    "n \<le> length temp" "drop n temp = concat its" and "it \<noteq> []"
    unfolding item_def by (metis list.set_intros(1))
  with Cons show ?case by (simp add: count_items.simps [of R "it @ concat its"])
qed (simp add: count_items.simps)

lemma item_ends_concat:
  assumes "\<forall>it \<in> set its. item R it" and "length (concat its) \<le> tot"
  shows "item_ends R tot (concat its) =
    Some (Inr (Some (map (\<lambda>i. tot - length (concat (drop (Suc i) its))) [0..<length its])))"
  using assms
proof (induction its)
  case (Cons it its)
  then obtain n temp where t: "rl_header R (it @ concat its) = Inr (False, n, temp)"
    "n \<le> length temp" "drop n temp = concat its" and ne: "it \<noteq> []"
    unfolding item_def by (metis list.set_intros(1))
  have "map (\<lambda>i. tot - length (concat (drop (Suc i) (it # its)))) [0..<length (it # its)] =
      (tot - length (concat its)) # map (\<lambda>i. tot - length (concat (drop (Suc i) its))) [0..<length its]"
    by (simp add: upt_conv_Cons map_Suc_upt [symmetric] comp_def del: upt_Suc)
  with Cons t ne show ?case
    by (simp add: item_ends.simps [of R tot "it @ concat its"] del: upt_Suc)
qed (simp add: item_ends.simps)

lemma skip_items_concat:
  assumes "\<forall>it \<in> set its. item R it"
  shows "skip_items R (length its) (concat its @ rest) = rest"
  using assms
proof (induction its)
  case (Cons it its)
  then obtain n temp where t: "rl_header R (it @ concat its @ rest) = Inr (False, n, temp)"
    "n \<le> length temp" "drop n temp = concat its @ rest" and ne: "it \<noteq> []"
    unfolding item_def by (metis list.set_intros(1))
  with Cons show ?case by simp
qed simp

end
