(* ===== verification/Rlp_Std.thy ===== *)
theory Rlp_Std
  imports Rlp_Lib
begin

text \<open>
  A concrete RLP codec that meets \<open>rlp_ok\<close>: the published encoding (single bytes below \<open>80\<close> stand
  for themselves, short and long strings and lists carry their length). Witnesses use it.
\<close>

definition std_header_bytes :: "bool \<Rightarrow> nat \<Rightarrow> bytes" where
  "std_header_bytes l n =
    (let off = (if l then 192 else 128); lb = strip_zeros (nat_bytes 8 n)
     in if n < 56 then [of_nat (off + n)] else of_nat (off + 55 + length lb) # lb)"

definition std_string_bytes :: "bytes \<Rightarrow> bytes" where
  "std_string_bytes p =
    (if length p = 1 \<and> unat (hd p) < 128 then p else std_header_bytes False (length p) @ p)"

definition std_check :: "bool \<Rightarrow> nat \<Rightarrow> bytes \<Rightarrow> (bool \<times> nat \<times> bytes) rlp" where
  "std_check l n rest = (if n \<le> length rest then Inr (l, n, rest) else Inl InputTooShort)"

definition std_long :: "bool \<Rightarrow> nat \<Rightarrow> bytes \<Rightarrow> (bool \<times> nat \<times> bytes) rlp" where
  "std_long l k rest =
    (let lb = take k rest; n = be_nat lb in
     if length rest < k then Inl InputTooShort
     else if n < 56 \<or> hd lb = 0 then Inl (RlpOther ''non-canonical size'')
     else std_check l n (drop k rest))"

definition std_header :: "bytes \<Rightarrow> (bool \<times> nat \<times> bytes) rlp" where
  "std_header d = (case d of
     [] \<Rightarrow> Inl InputTooShort
   | b # rest \<Rightarrow>
       let x = unat b in
       if x < 128 then Inr (False, 1, d)
       else if x = 129 \<and> rest \<noteq> [] \<and> unat (hd rest) < 128 then Inl (RlpOther ''non-canonical single byte'')
       else if x < 184 then std_check False (x - 128) rest
       else if x < 192 then std_long False (x - 183) rest
       else if x < 248 then std_check True (x - 192) rest
       else std_long True (x - 247) rest)"

definition std_bytes :: "bytes \<Rightarrow> (bytes \<times> bytes) rlp" where
  "std_bytes d = bindE (std_header d) (\<lambda>(l, n, rest).
     if l then Inl UnexpectedList else Inr (take n rest, drop n rest))"

definition std_fixed :: "nat \<Rightarrow> bytes \<Rightarrow> (bytes \<times> bytes) rlp" where
  "std_fixed k d = bindE (std_bytes d) (\<lambda>(p, rest).
     if length p = k then Inr (p, rest) else Inl (RlpOther ''unexpected length''))"

definition rlp_std :: rlp_lib where
  "rlp_std = \<lparr> rl_header = std_header, rl_header_bytes = std_header_bytes, rl_bytes = std_bytes,
     rl_fixed = std_fixed, rl_string_bytes = std_string_bytes, rl_keccak = (\<lambda>b. of_nat (be_nat (1 # b))) \<rparr>"

section \<open>It meets the laws\<close>

lemma len_bytes:
  assumes "56 \<le> n" and "n < 2 ^ 64"
  defines "lb \<equiv> strip_zeros (nat_bytes 8 n)"
  shows "be_nat lb = n" and "0 < length lb" and "length lb \<le> 8" and "hd lb \<noteq> 0"
proof -
  show n: "be_nat lb = n" using assms(2) by (simp add: lb_def be_nat_strip be_nat_nat_bytes)
  then have ne: "lb \<noteq> []" using assms(1) by auto
  then show "0 < length lb" by simp
  show "length lb \<le> 8" using length_strip_zeros [of "nat_bytes 8 n"] by (simp add: lb_def)
  show "hd lb \<noteq> 0" using ne unfolding lb_def strip_zeros_def by (rule hd_dropWhile)
qed

lemma unat_of_nat_u8: "n < 256 \<Longrightarrow> unat (of_nat n :: u8) = n"
  by (simp add: unat_of_nat)

lemma std_header_of_bytes:
  assumes n: "length p = n" "n < 2 ^ 64" and l: "l \<or> n \<noteq> 1 \<or> 128 \<le> unat (hd p)"
  shows "std_header (std_header_bytes l n @ p @ rest) = Inr (l, n, p @ rest)"
proof (cases "n < 56")
  case True
  have "unat (of_nat ((if l then 192 else 128) + n) :: u8) = (if l then 192 else 128) + n"
    using True by (intro unat_of_nat_u8) simp
  moreover have "n = 1 \<Longrightarrow> p @ rest \<noteq> [] \<and> hd (p @ rest) = hd p" using n by (cases p) auto
  ultimately show ?thesis using True n l
    by (simp add: std_header_def std_header_bytes_def std_check_def Let_def del: of_nat_add) auto
next
  case False
  define lb where "lb = strip_zeros (nat_bytes 8 n)"
  note lb = len_bytes [of n, folded lb_def]
  have h: "std_header_bytes l n = of_nat ((if l then 192 else 128) + 55 + length lb) # lb"
    using False by (simp add: std_header_bytes_def lb_def Let_def del: of_nat_add)
  have k: "0 < length lb" "length lb \<le> 8" "be_nat lb = n" "hd lb \<noteq> 0" using lb False n by auto
  have u: "unat (of_nat ((if l then 192 else 128) + 55 + length lb) :: u8) = (if l then 192 else 128) + 55 + length lb"
    using k by (intro unat_of_nat_u8) simp
  have "std_long l (length lb) (lb @ p @ rest) = Inr (l, n, p @ rest)"
    using k n False by (simp add: std_long_def std_check_def)
  then show ?thesis unfolding h using k u
    by (cases l) (simp_all add: std_header_def Let_def del: of_nat_add)
qed

lemma std_header_of_string:
  assumes "length p < 2 ^ 64"
  shows "std_header (std_string_bytes p @ rest) = Inr (False, length p, p @ rest)"
proof (cases "length p = 1 \<and> unat (hd p) < 128")
  case True
  then obtain b where "p = [b]" by (cases p) auto
  with True show ?thesis by (simp add: std_string_bytes_def std_header_def Let_def)
next
  case False
  then show ?thesis using assms std_header_of_bytes [of p "length p" False rest]
    by (auto simp: std_string_bytes_def)
qed

lemma std_check_Inr: "std_check l m r = Inr (l', n, rest) \<Longrightarrow> rest = drop 0 r \<and> n \<le> length rest"
  by (auto simp: std_check_def split: if_splits)

lemma std_long_Inr:
  "std_long l j r = Inr (l', n, rest) \<Longrightarrow> rest = drop j r \<and> j \<le> length r \<and> n \<le> length rest"
  by (auto simp: std_long_def Let_def dest: std_check_Inr split: if_splits)

lemma std_header_bound:
  assumes "std_header d = Inr (l, n, rest)"
  shows "n \<le> length rest \<and> (\<exists>k. rest = drop k d \<and> k \<le> length d \<and> 0 < k + n)"
proof (cases d)
  case Nil
  with assms show ?thesis by (simp add: std_header_def)
next
  case (Cons b r)
  show ?thesis
  proof (cases "unat b < 128")
    case True
    then show ?thesis using assms Cons by (auto simp: std_header_def intro!: exI [of _ 0])
  next
    case False
    then have "\<exists>j. rest = drop j r \<and> j \<le> length r \<and> n \<le> length rest"
      using assms unfolding Cons std_header_def Let_def list.case
      by (simp split: if_split_asm) (blast dest: std_check_Inr std_long_Inr intro: le0)+
    then obtain j where "rest = drop (Suc j) d" "Suc j \<le> length d" "n \<le> length rest"
      by (auto simp: Cons)
    then show ?thesis by (intro conjI exI [of _ "Suc j"]) simp_all
  qed
qed

lemma std_string_length: "length p \<le> length (std_string_bytes p)"
  by (simp add: std_string_bytes_def)

lemma rlp_std_ok: "rlp_ok rlp_std"
  unfolding rlp_ok_def
proof (intro conjI allI impI)
  fix p rest :: bytes assume p: "length p < 2 ^ 64"
  show "rl_header rlp_std (rl_header_bytes rlp_std True (length p) @ p @ rest) = Inr (True, length p, p @ rest)"
    using p by (simp add: rlp_std_def std_header_of_bytes)
  show "rl_header rlp_std (rl_header_bytes rlp_std False (length p) @ p @ rest) = Inr (False, length p, p @ rest)"
    if "\<not> (length p = 1 \<and> unat (hd p) < 128)"
    using p that by (auto simp: rlp_std_def std_header_of_bytes)
  note str = std_header_of_string [OF p, of rest]
  then show "rl_header rlp_std (rl_string_bytes rlp_std p @ rest) = Inr (False, length p, p @ rest)"
    by (simp add: rlp_std_def)
  from str show "rl_bytes rlp_std (rl_string_bytes rlp_std p @ rest) = Inr (p, rest)"
    and "rl_fixed rlp_std (length p) (rl_string_bytes rlp_std p @ rest) = Inr (p, rest)"
    by (simp_all add: rlp_std_def std_bytes_def std_fixed_def)
next
  fix d l n rest assume "rl_header rlp_std d = Inr (l, n, rest)"
  then have "std_header d = Inr (l, n, rest)" by (simp add: rlp_std_def)
  then show "n \<le> length rest" "\<exists>k. rest = drop k d \<and> k \<le> length d \<and> 0 < k + n"
    using std_header_bound by blast+
next
  show "length p \<le> length (rl_string_bytes rlp_std p)" for p
    by (simp add: rlp_std_def std_string_length)
  show "rl_string_bytes rlp_std [] = [128]"
    by (simp add: rlp_std_def std_string_bytes_def std_header_bytes_def)
  fix n :: nat assume n: "n < 2 ^ 64"
  show "rl_header_bytes rlp_std True n \<noteq> []" by (simp add: rlp_std_def std_header_bytes_def Let_def)
  have "length (strip_zeros (nat_bytes 8 n)) \<le> 8" using length_strip_zeros [of "nat_bytes 8 n"] by simp
  then have "unat (of_nat (192 + 55 + length (strip_zeros (nat_bytes 8 n))) :: u8) = 247 + length (strip_zeros (nat_bytes 8 n))"
    by (subst unat_of_nat_u8) simp_all
  moreover have "unat (of_nat (192 + n) :: u8) = 192 + n" if "n < 56" using that by (intro unat_of_nat_u8) simp
  ultimately show "192 \<le> unat (hd (rl_header_bytes rlp_std True n))"
    by (auto simp: rlp_std_def std_header_bytes_def Let_def simp del: of_nat_add)
qed

text \<open>A header looks at no byte after its item.\<close>

lemma std_header_exact:
  assumes "std_header d = Inr (l, n, rest)"
  shows "std_header (take (length d - (length rest - n)) d) = Inr (l, n, take n rest)"
proof (cases d)
  case (Cons b r)
  show ?thesis
  proof (cases "unat b < 128")
    case True
    then have "n = 1" "rest = d" "l = False" using assms Cons by (auto simp: std_header_def)
    then show ?thesis using True Cons by (simp add: std_header_def)
  next
    case big: False
    let ?x = "unat b" and ?q = "take (length r - (length rest - n)) r"
    have chk: "std_check l' m ?q = Inr (l, n, take n rest)" if "std_check l' m r = Inr (l, n, rest)" for l' m
      using that by (auto simp: std_check_def split: if_splits)
    have lng: "std_long l' j ?q = Inr (l, n, take n rest)" if "std_long l' j r = Inr (l, n, rest)" for l' j
    proof -
      have r: "rest = drop j r" "j \<le> length r" "n \<le> length rest" using std_long_Inr [OF that] by blast+
      then have "length r - (length rest - n) = j + n" "n \<le> length r - j" by auto
      then show ?thesis using that r
        by (auto simp: std_long_def std_check_def Let_def min_def drop_take split: if_splits)
    qed
    have "length rest \<le> length r"
      using assms big unfolding Cons std_header_def Let_def list.case
      by (auto split: if_split_asm dest: std_check_Inr std_long_Inr)
    then have tk: "take (length (b # r) - (length rest - n)) (b # r) = b # ?q"
      by (simp add: Suc_diff_le le_diff_conv trans_le_add1)
    have hd_q: "?q = [] \<or> r \<noteq> [] \<and> hd ?q = hd r" by (cases r) (auto simp: take_Cons split: nat.splits)
    show ?thesis
      unfolding Cons tk using assms [unfolded Cons] big hd_q unfolding std_header_def Let_def list.case
      by (simp only: if_False split: if_split_asm) (use chk lng in auto)
  qed
qed (use assms in \<open>simp add: std_header_def\<close>)

lemma std_bytes_item: "std_bytes d = Inr (p, rest) \<Longrightarrow> \<exists>n r. std_header d = Inr (False, n, r) \<and> p = take n r \<and> rest = drop n r"
  by (auto simp: std_bytes_def result_simps split: if_splits)

lemma rlp_std_exact: "rlp_exact rlp_std"
  using std_header_exact std_bytes_item by (simp add: rlp_exact_def rlp_std_def)

lemma std_crash_free: "crash_free (std_check l n r)" "crash_free (std_long l n r)" "crash_free (std_header d)"
  by (auto simp: crash_free_def std_check_def std_long_def std_header_def Let_def split: list.splits)

lemma std_bytes_suffix: "std_bytes d = Inr (p, rest) \<Longrightarrow> \<exists>k. rest = drop k d \<and> 0 < k \<and> k \<le> length d"
proof -
  assume "std_bytes d = Inr (p, rest)"
  then obtain l n r where h: "std_header d = Inr (l, n, r)" and r: "rest = drop n r"
    by (auto simp: std_bytes_def result_simps split: if_splits)
  from std_header_bound [OF h] obtain k where "r = drop k d" "k \<le> length d" "0 < k + n" "n \<le> length r" by blast
  then show ?thesis by (intro exI [of _ "k + n"]) (auto simp: r add.commute)
qed

lemma rlp_std_total: "rlp_total rlp_std"
proof -
  have b: "crash_free (std_bytes d)" for d
    using std_crash_free(3) [of d] by (cases "std_header d") (auto simp: std_bytes_def crash_free_def result_simps split: if_split_asm)
  then have f: "crash_free (std_fixed n d)" for n d
    by (cases "std_bytes d") (auto simp: std_fixed_def crash_free_def result_simps split: if_split_asm)
  have "std_bytes d = Inr (p, rest)" if "std_fixed n d = Inr (p, rest)" for n d p rest
    using that by (auto simp: std_fixed_def result_simps split: if_splits)
  then show ?thesis
    using b f std_crash_free(3) std_bytes_suffix unfolding rlp_total_def
    by (auto simp: rlp_std_def)
qed

lemma std_string_bound: "length p \<le> 256 \<Longrightarrow> length (rl_string_bytes rlp_std p) \<le> 265"
proof -
  assume "length p \<le> 256"
  moreover have "length (strip_zeros (nat_bytes 8 (length p))) \<le> 8"
    using length_strip_zeros [of "nat_bytes 8 (length p)"] by simp
  ultimately show ?thesis
    by (simp add: rlp_std_def std_string_bytes_def std_header_bytes_def Let_def)
qed

end
