(* ===== verification/Header_Wire.thy ===== *)
theory Header_Wire
  imports Header_Codec Rlp_Std
begin

text \<open>
  Decoding inverts encoding for RSK headers, and the hashes computed from the received bytes are
  the ones computed by encoding the decoded fields again.
\<close>

section \<open>The sixteen base fields\<close>

lemma java_signed_bytes_props: "be_nat (java_signed_bytes v) = unat v \<and> length (java_signed_bytes v) \<le> 33"
proof -
  let ?s = "strip_zeros (to_be 32 v)"
  have s: "be_nat ?s = unat v" "length ?s \<le> 32"
    using length_strip_zeros [of "to_be 32 v"] by (simp_all add: be_nat_strip be_nat_to_be32)
  have "be_nat [0] = 0" by (simp add: be_nat_def)
  with s show ?thesis by (auto simp: java_signed_bytes_def Let_def be_nat_Cons)
qed

lemma decode_java_signed [codec]:
  "rlp_ok R \<Longrightarrow> decode_u256_lenient R (rl_string_bytes R (java_signed_bytes v) @ rest) = Inr (v, rest)"
proof -
  assume ok: "rlp_ok R"
  have "length (java_signed_bytes v) < 2 ^ 64" using java_signed_bytes_props [of v] by simp
  moreover have "be_nat (java_signed_bytes v) < 2 ^ 256"
    using java_signed_bytes_props [of v] unat_bound_u256 [of v] by simp
  ultimately have "decode_u256_lenient R (rl_string_bytes R (java_signed_bytes v) @ rest) =
      Inr (from_be (java_signed_bytes v), rest)" using ok by (intro decode_u256_string)
  then show ?thesis using java_signed_bytes_props [of v] by (simp add: from_be_def)
qed

lemma from_be_bloom [codec]: "from_be (to_be 256 w) = (w :: 2048 word)"
  by (rule from_be_to_be) simp

text \<open>A header whose every variable-length field, and so its payload, is shorter than \<open>2 ^ 64\<close>.\<close>

definition encodable :: "rlp_lib \<Rightarrow> header \<Rightarrow> bool" where
  "encodable R h \<longleftrightarrow> length (encode_payload R True h) < 2 ^ 64"

lemma encodable_base:
  assumes "rlp_ok R" and "encodable R h"
  shows "length (encode_base_fields R h) < 2 ^ 64" and "length (h_extra_data h) < 2 ^ 64"
proof -
  show b: "length (encode_base_fields R h) < 2 ^ 64"
    using assms(2) by (simp add: encodable_def encode_payload_def)
  have "length (rl_string_bytes R (h_extra_data h)) \<le> length (encode_base_fields R h)"
    by (simp add: encode_base_fields_def base_items_def)
  with b rlp_string_length [OF assms(1), of "h_extra_data h"]
  show "length (h_extra_data h) < 2 ^ 64" by linarith
qed

lemma item_fixed:
  assumes ok: "rlp_ok R"
  shows "k < 2 ^ 64 \<Longrightarrow> item R (rl_string_bytes R (to_be k w))"
    and "item R (rl_string_bytes R (java_signed_bytes v))"
    and "item R (rl_u64_bytes R x)" and "item R (rl_u256_bytes R y)"
proof -
  show "k < 2 ^ 64 \<Longrightarrow> item R (rl_string_bytes R (to_be k w))" by (rule item_string [OF ok]) simp
  show "item R (rl_string_bytes R (java_signed_bytes v))"
    using java_signed_bytes_props [of v] by (intro item_string [OF ok]) simp
  show "item R (rl_u64_bytes R x)" unfolding rl_u64_bytes_def
    using length_strip_zeros [of "to_be 8 x"] by (intro item_string [OF ok]) simp
  show "item R (rl_u256_bytes R y)" unfolding rl_u256_bytes_def
    using length_strip_zeros [of "to_be 32 y"] by (intro item_string [OF ok]) simp
qed

lemma base_items_item:
  "rlp_ok R \<Longrightarrow> length (h_extra_data h) < 2 ^ 64 \<Longrightarrow> \<forall>it \<in> set (base_items R h). item R it"
  by (simp add: base_items_def item_fixed item_string)

lemma decode_bloom_bytes:
  "rlp_ok R \<Longrightarrow> decode_bloom R (rl_string_bytes R (to_be 256 w) @ rest) = Inr ((w, None), rest)"
  by (simp add: decode_bloom_def rlp_laws from_be_bloom)

text \<open>A header without what comes after its base fields.\<close>

definition base_header :: "header \<Rightarrow> header" where
  "base_header h = h\<lparr> h_extension_data := None, h_umm_root := None, h_mm_header := None,
     h_mm_merkle_proof := None, h_mm_coinbase := None, h_cached_hash := None, h_cached_mm_hash := None \<rparr>"

lemma decode_base_fields:
  assumes "rlp_ok R" and "length (h_extra_data h) < 2 ^ 64"
  shows "decode_fields R (encode_base_fields R h @ m) = decode_mining_fields R (base_header h) m"
  using assms
  by (cases h) (simp add: decode_fields_def encode_base_fields_def base_items_def base_header_def
      rlp_laws decode_bloom_bytes codec)

section \<open>The mining fields\<close>

text \<open>The encoder writes the proof and the coinbase whenever it writes a mining header, and the
  decoder tells a UMM root from a mining header by the number of items left, so a header has one of
  two forms: no mining fields at all, or a mining header.\<close>

definition mining_form :: "header \<Rightarrow> bool" where
  "mining_form h \<longleftrightarrow>
     (h_mm_header h = None \<longrightarrow> h_umm_root h = None \<and> h_mm_merkle_proof h = None \<and> h_mm_coinbase h = None)"

definition opt_string :: "rlp_lib \<Rightarrow> bytes option \<Rightarrow> bytes" where
  "opt_string R v = rl_string_bytes R (case v of None \<Rightarrow> [] | Some p \<Rightarrow> p)"

definition mining_items :: "rlp_lib \<Rightarrow> bool \<Rightarrow> header \<Rightarrow> bytes list" where
  "mining_items R with_proof h = (case h_mm_header h of
     None \<Rightarrow> []
   | Some btc \<Rightarrow> map (rl_string_bytes R) (case h_umm_root h of None \<Rightarrow> [] | Some umm \<Rightarrow> [umm]) @
       [rl_string_bytes R btc] @
       (if with_proof then [opt_string R (h_mm_merkle_proof h), opt_string R (h_mm_coinbase h)] else []))"

lemma encode_payload_items:
  assumes "rlp_ok R" and "mining_form h"
  shows "encode_payload R wp h = encode_base_fields R h @ concat (mining_items R wp h)"
  using assms
  by (auto simp: encode_payload_def mining_items_def mining_form_def opt_string_def rlp_empty_string
      split: option.splits)

lemma mining_item_lengths:
  assumes "rlp_ok R" and "mining_form h" and "encodable R h"
  shows "\<forall>b \<in> set_option (h_umm_root h) \<union> set_option (h_mm_header h) \<union> set_option (h_mm_merkle_proof h)
      \<union> set_option (h_mm_coinbase h). length b < 2 ^ 64"
proof
  fix b assume b: "b \<in> set_option (h_umm_root h) \<union> set_option (h_mm_header h) \<union> set_option (h_mm_merkle_proof h)
      \<union> set_option (h_mm_coinbase h)"
  then have "rl_string_bytes R b \<in> set (mining_items R True h)"
    using assms(2) by (auto simp: mining_items_def mining_form_def opt_string_def split: option.splits)
  then have "length (rl_string_bytes R b) \<le> length (concat (mining_items R True h))"
    by (simp add: length_concat member_le_sum_list)
  also have "\<dots> < 2 ^ 64"
    using assms(3) by (simp add: encodable_def encode_payload_items [OF assms(1,2)])
  finally show "length b < 2 ^ 64" using rlp_string_length [OF assms(1), of b] by linarith
qed

lemma mining_items_item:
  assumes "rlp_ok R" and "mining_form h" and "encodable R h"
  shows "\<forall>it \<in> set (mining_items R wp h). item R it"
  using mining_item_lengths [OF assms] item_string [OF assms(1)]
  by (auto simp: mining_items_def opt_string_def split: option.splits)

text \<open>What the wire form of a header decodes to: proof and coinbase present, perhaps empty, and no
  extension data, which the encoder never writes.\<close>

definition wire_header :: "header \<Rightarrow> header" where
  "wire_header h = (let fill = (\<lambda>v. map_option (\<lambda>_. case v of None \<Rightarrow> [] | Some p \<Rightarrow> p) (h_mm_header h)) in
     h\<lparr> h_extension_data := None, h_mm_merkle_proof := fill (h_mm_merkle_proof h),
        h_mm_coinbase := fill (h_mm_coinbase h), h_cached_hash := None, h_cached_mm_hash := None \<rparr>)"

lemma opt_item_string:
  "rlp_ok R \<Longrightarrow> length p < 2 ^ 64 \<Longrightarrow> opt_item R True (rl_string_bytes R p @ rest) = Inr (Some p, rest)"
  by (simp add: opt_item_def rlp_laws)

lemma decode_mining_items:
  assumes "rlp_ok R" and "mining_form h" and "encodable R h"
  shows "decode_mining_fields R (base_header h) (concat (mining_items R True h)) = Inr (wire_header h)"
proof -
  note count = count_items_concat [OF mining_items_item [OF assms, of True]]
  note ok = assms(1)
  show ?thesis
  proof (cases "h_mm_header h")
    case None
    with assms(2) show ?thesis
      by (cases h) (simp add: decode_mining_fields_def mining_items_def mining_form_def count_items.simps
          opt_item_def base_header_def wire_header_def of_option_def)
  next
    case (Some btc)
    define p where "p = (case h_mm_merkle_proof h of None \<Rightarrow> [] | Some p \<Rightarrow> p)"
    define c where "c = (case h_mm_coinbase h of None \<Rightarrow> [] | Some c \<Rightarrow> c)"
    have len: "length btc < 2 ^ 64" "length p < 2 ^ 64" "length c < 2 ^ 64"
      using mining_item_lengths [OF assms] Some by (auto simp: p_def c_def split: option.splits)
    have ne: "rl_string_bytes R b \<noteq> []" if "length b < 2 ^ 64" for b
      using item_string [OF ok that] by (simp add: item_def)
    have rl: "rl_bytes R (rl_string_bytes R b @ rest) = Inr (b, rest)" "rl_bytes R (rl_string_bytes R b) = Inr (b, [])"
      if "length b < 2 ^ 64" for b rest
      using rlp_laws(3) [OF ok that] rlp_laws(3) [OF ok that, of "[]"] by simp_all
    have items: "concat (mining_items R True h) =
        concat (map (rl_string_bytes R) (case h_umm_root h of None \<Rightarrow> [] | Some umm \<Rightarrow> [umm])) @
        rl_string_bytes R btc @ rl_string_bytes R p @ rl_string_bytes R c"
      by (simp add: mining_items_def Some opt_string_def p_def c_def)
    have num: "length (mining_items R True h) = (case h_umm_root h of None \<Rightarrow> 3 | Some _ \<Rightarrow> 4)"
      by (simp add: mining_items_def Some split: option.splits)
    have wire: "wire_header h = base_header h\<lparr> h_umm_root := h_umm_root h, h_mm_header := Some btc,
        h_mm_merkle_proof := Some p, h_mm_coinbase := Some c \<rparr>"
      using Some assms(2) by (cases h) (simp add: wire_header_def base_header_def mining_form_def p_def c_def)
    show ?thesis
    proof (cases "h_umm_root h")
      case None
      then show ?thesis
        unfolding decode_mining_fields_def count num wire
        by (simp add: items opt_item_def of_option_def rl [OF len(1)] rl [OF len(2)] rl [OF len(3)]
            ne [OF len(1)] ne [OF len(2)] ne [OF len(3)])
    next
      case umm: (Some umm)
      then have lu: "length umm < 2 ^ 64" using mining_item_lengths [OF assms] by auto
      from umm show ?thesis
        unfolding decode_mining_fields_def count num wire
        by (simp add: items opt_item_def of_option_def rl [OF len(1)] rl [OF len(2)] rl [OF len(3)] rl [OF lu]
            ne [OF len(1)] ne [OF len(2)] ne [OF len(3)])
    qed
  qed
qed

lemma decode_encode_header:
  assumes "rlp_ok R" and "mining_form h" and "encodable R h"
  shows "decode_header R (encode_header R h @ rest) = Inr (wire_header h, rest)"
proof -
  have "rl_header R (encode_header R h @ rest) =
      Inr (True, length (encode_payload R True h), encode_payload R True h @ rest)"
    using assms(3) by (simp add: encode_header_def wrap_list_def encodable_def rlp_laws(1) [OF assms(1)])
  moreover have "decode_fields R (encode_payload R True h) = Inr (wire_header h)"
    unfolding encode_payload_items [OF assms(1,2)]
    by (simp only: decode_base_fields [OF assms(1) encodable_base(2) [OF assms(1,3)]]
        decode_mining_items [OF assms])
  ultimately show ?thesis by (simp add: decode_header_def ensure_def)
qed

section \<open>Hashes from the received bytes\<close>

lemma take_ends:
  assumes "\<forall>it \<in> set (front @ [p, c]). item R it" and "front \<noteq> []"
  shows "\<exists>es. item_ends R (length (concat (front @ [p, c]))) (concat (front @ [p, c])) = Some (Inr (Some es)) \<and>
     length es \<ge> 3 \<and> es ! (length es - 3) \<le> length (concat (front @ [p, c])) \<and>
     take (es ! (length es - 3)) (concat (front @ [p, c])) = concat front"
proof -
  let ?its = "front @ [p, c]"
  let ?f = "\<lambda>i. length (concat ?its) - length (concat (drop (Suc i) ?its))"
  have k: "Suc (length ?its - 3) = length front" "length ?its \<ge> 3" "length ?its - 3 < length ?its"
    using assms(2) by (cases front; simp)+
  have "map ?f [0..<length ?its] ! (length ?its - 3) = ?f (length ?its - 3)"
    using k(3) by (simp del: upt_Suc)
  also have "\<dots> = length (concat front)" unfolding k(1) by simp
  finally have "map ?f [0..<length ?its] ! (length (map ?f [0..<length ?its]) - 3) = length (concat front)"
    by (simp only: length_map length_upt diff_zero)
  then show ?thesis
    using item_ends_concat [OF assms(1) order_refl] k(2) by (simp del: upt_Suc)
qed

lemma hash_from_encoded:
  assumes "rlp_ok R" and "mining_form h" and "encodable R h" and mm: "h_mm_header h = Some btc"
  shows "rskip92_hash_from_encoded R (encode_header R h) =
    Inr (Some (rl_keccak R (wrap_list R (encode_payload R False h))))"
proof -
  have hd: "rl_header R (encode_header R h) =
      Inr (True, length (encode_payload R True h), encode_payload R True h)"
    using assms(3) rlp_laws(1) [OF assms(1), of "encode_payload R True h" "[]"]
    by (simp add: encode_header_def wrap_list_def encodable_def)
  let ?p = "opt_string R (h_mm_merkle_proof h)" and ?c = "opt_string R (h_mm_coinbase h)"
  let ?front = "base_items R h @ mining_items R False h"
  have split: "mining_items R True h = mining_items R False h @ [?p, ?c]"
    by (simp add: mining_items_def mm)
  have pay: "encode_payload R True h = concat (?front @ [?p, ?c])" "encode_payload R False h = concat ?front"
    using split by (simp_all add: encode_payload_items [OF assms(1,2)] encode_base_fields_def)
  have "\<forall>it \<in> set (?front @ [?p, ?c]). item R it"
    using base_items_item [OF assms(1) encodable_base(2) [OF assms(1,3)]] mining_items_item [OF assms(1-3), of True]
    by (auto simp: split)
  moreover have "?front \<noteq> []" by (simp add: base_items_def)
  ultimately obtain es where "item_ends R (length (encode_payload R True h)) (encode_payload R True h) = Some (Inr (Some es))"
    "length es \<ge> 3" "es ! (length es - 3) \<le> length (encode_payload R True h)"
    "take (es ! (length es - 3)) (encode_payload R True h) = encode_payload R False h"
    unfolding pay using take_ends by blast
  then show ?thesis by (simp add: rskip92_hash_from_encoded_def hd of_option_def)
qed

lemma mm_hash_from_encoded_eq:
  assumes "rlp_ok R" and "mining_form h" and "encodable R h"
  shows "mm_hash_from_encoded R (h_umm_root h) (encode_payload R True h) =
    Inr (hash_for_merged_mining R (h\<lparr> h_cached_mm_hash := None \<rparr>))"
proof -
  let ?m = "concat (mining_items R True h)"
  have pay: "encode_payload R True h = encode_base_fields R h @ ?m"
    by (rule encode_payload_items [OF assms(1,2)])
  have "length (base_items R h) = 16" by (simp add: base_items_def)
  then have skip: "skip_items R 16 (encode_payload R True h) = ?m"
    using skip_items_concat [OF base_items_item [OF assms(1) encodable_base(2) [OF assms(1,3)]], of ?m]
    by (simp only: pay encode_base_fields_def)
  have base: "encode_base_fields R (h\<lparr> h_cached_mm_hash := None \<rparr>) = encode_base_fields R h"
    by (simp add: encode_base_fields_def base_items_def)
  show ?thesis
  proof (cases "h_umm_root h")
    case None
    then show ?thesis
      unfolding mm_hash_from_encoded_def skip by (simp add: pay hash_for_merged_mining_def base Let_def)
  next
    case (Some umm)
    then obtain btc where btc: "h_mm_header h = Some btc" using assms(2) by (auto simp: mining_form_def)
    have lu: "length umm < 2 ^ 64" using mining_item_lengths [OF assms] Some by auto
    obtain m' where m: "?m = rl_string_bytes R umm @ m'"
      by (simp add: mining_items_def btc Some)
    have h: "rl_header R ?m = Inr (False, length umm, umm @ m')"
      unfolding m by (rule rlp_laws(2) [OF assms(1) lu])
    have ne: "?m \<noteq> []" using item_string [OF assms(1) lu] by (simp add: m item_def)
    have "length umm \<le> length (rl_string_bytes R umm)" by (rule rlp_string_length [OF assms(1)])
    then have "(length ?m - length (umm @ m')) + length umm = length (rl_string_bytes R umm)"
      by (simp add: m)
    then have "mm_hash_from_encoded R (h_umm_root h) (encode_payload R True h) =
        Inr (mm_hash_of R (Some umm) (take (length (encode_base_fields R h) + length (rl_string_bytes R umm))
          (encode_payload R True h)))"
      unfolding mm_hash_from_encoded_def skip
      by (simp add: Some ne h Let_def del: concat_eq_Nil_conv) (simp add: pay m)
    then show ?thesis by (simp add: pay m hash_for_merged_mining_def base Some)
  qed
qed

section \<open>Round trip\<close>

lemma header_round_trip_both:
  assumes ok: "rlp_ok R" and form: "mining_form h" and enc: "encodable R h"
  shows "decode_header R (encode_header R h @ rest) = Inr (wire_header h, rest)"
    and "decode_with_hash R acts (encode_header R h @ rest) =
      Inr (wire_header h\<lparr> h_cached_hash := Some (header_hash R acts (h\<lparr> h_cached_hash := None \<rparr>)),
        h_cached_mm_hash := Some (hash_for_merged_mining R (h\<lparr> h_cached_mm_hash := None \<rparr>)) \<rparr>, rest)"
proof -
  show dec: "decode_header R (encode_header R h @ rest) = Inr (wire_header h, rest)"
    using assms by (rule decode_encode_header)
  let ?h = "wire_header h" and ?e = "encode_header R h"
  have hd: "rl_header R ?e = Inr (True, length (encode_payload R True h), encode_payload R True h)"
    using enc rlp_laws(1) [OF ok, of "encode_payload R True h" "[]"]
    by (simp add: encode_header_def wrap_list_def encodable_def)
  have umm: "h_umm_root ?h = h_umm_root h" by (simp add: wire_header_def Let_def)
  have act: "rskip92_active acts ?h = rskip92_active acts h"
    "rskip92_active acts (h\<lparr> h_cached_hash := None \<rparr>) = rskip92_active acts h"
    by (simp_all add: wire_header_def rskip92_active_def Let_def)
  have pay: "encode_payload R wp (h\<lparr> h_cached_hash := None \<rparr>) = encode_payload R wp h" for wp
    by (simp add: encode_payload_def encode_base_fields_def base_items_def cong: option.case_cong)
  have hash: "(if rskip92_active acts ?h \<and> (h_mm_merkle_proof ?h \<noteq> None \<or> h_mm_coinbase ?h \<noteq> None)
      then rskip92_hash_from_encoded R ?e else Inr None) =
    Inr (if rskip92_active acts h \<and> h_mm_header h \<noteq> None then Some (header_hash R acts (h\<lparr> h_cached_hash := None \<rparr>)) else None)"
  proof (cases "h_mm_header h")
    case None
    then show ?thesis by (simp add: wire_header_def Let_def)
  next
    case (Some btc)
    have "h_mm_merkle_proof ?h \<noteq> None" by (simp add: wire_header_def Let_def Some)
    then show ?thesis using hash_from_encoded [OF assms Some] Some
      by (simp add: act header_hash_def pay)
  qed
  have full: "rl_keccak R ?e = header_hash R acts (h\<lparr> h_cached_hash := None \<rparr>)"
    if "\<not> (rskip92_active acts h \<and> h_mm_header h \<noteq> None)"
  proof -
    have "encode_payload R (\<not> rskip92_active acts h) h = encode_payload R True h"
      using that by (auto simp: encode_payload_def)
    then show ?thesis by (simp add: header_hash_def act pay encode_header_def)
  qed
  have sel: "(case (if rskip92_active acts h \<and> h_mm_header h \<noteq> None then Some (header_hash R acts (h\<lparr> h_cached_hash := None \<rparr>)) else None) of
      Some x \<Rightarrow> x | None \<Rightarrow> rl_keccak R ?e) = header_hash R acts (h\<lparr> h_cached_hash := None \<rparr>)"
    using full by auto
  have consumed: "usize_sub (length (?e @ rest)) (length rest) = Inr (length ?e)"
      "slice_to (length ?e) (?e @ rest) = Inr ?e"
    by simp_all
  show "decode_with_hash R acts (?e @ rest) =
      Inr (?h\<lparr> h_cached_hash := Some (header_hash R acts (h\<lparr> h_cached_hash := None \<rparr>)),
        h_cached_mm_hash := Some (hash_for_merged_mining R (h\<lparr> h_cached_mm_hash := None \<rparr>)) \<rparr>, rest)"
    unfolding decode_with_hash_def dec bindE_simps prod.case Let_def consumed hash sel hd sum.case
    by (simp add: umm mm_hash_from_encoded_eq [OF assms] ensure_def)
qed

lemma std_encodable:
  assumes "length (h_extra_data h) \<le> 256"
    and "\<forall>b \<in> set_option (h_umm_root h) \<union> set_option (h_mm_header h) \<union> set_option (h_mm_merkle_proof h)
      \<union> set_option (h_mm_coinbase h). length b \<le> 256"
  shows "encodable rlp_std h"
proof -
  have "length it \<le> 265" if "it \<in> set (base_items rlp_std h)" for it
  proof -
    have "length (strip_zeros (to_be 8 (x :: u64))) \<le> 256" "length (strip_zeros (to_be 32 (y :: u256))) \<le> 256"
      "length (java_signed_bytes y) \<le> 256" for x y
      using length_strip_zeros [of "to_be 8 x"] length_strip_zeros [of "to_be 32 y"] java_signed_bytes_props [of y]
      by simp_all
    with that assms(1) show ?thesis
      by (auto simp: base_items_def rl_u64_bytes_def rl_u256_bytes_def intro!: std_string_bound)
  qed
  then have "(\<Sum>it\<leftarrow>base_items rlp_std h. length it) \<le> length (base_items rlp_std h) * 265"
    by (rule sum_list_le_length_mult)
  also have "\<dots> = 16 * 265" by (simp add: base_items_def)
  finally have base: "length (encode_base_fields rlp_std h) \<le> 16 * 265"
    by (simp add: encode_base_fields_def length_concat)
  have opt: "length (case v of None \<Rightarrow> d | Some x \<Rightarrow> rl_string_bytes rlp_std x) \<le> 265"
    if "\<forall>b \<in> set_option v. length b \<le> 256" "length d \<le> 265" for v d
    using that std_string_bound by (cases v) auto
  have "length (encode_payload rlp_std True h) \<le> 16 * 265 + 4 * 265"
    using base opt [of "h_umm_root h" "[]"] opt [of "h_mm_header h" "[]"] opt [of "h_mm_merkle_proof h" "[0x80]"]
      opt [of "h_mm_coinbase h" "[0x80]"] assms(2)
    by (cases "h_mm_header h") (auto simp: encode_payload_def)
  then show ?thesis by (simp add: encodable_def)
qed

lemma demo_encodable: "encodable rlp_std header_default"
  by (rule std_encodable) (simp_all add: header_default_def)


text \<open>A merged-mined header with a UMM root and extension data, without a merkle proof.\<close>

definition demo_mined :: header where
  "demo_mined = header_default\<lparr> h_parent_hash := 7, h_number := 9020001, h_difficulty := 8000000000000000,
     h_gas_limit := 6800000, h_timestamp := 1010, h_extra_data := [1, 2], h_minimum_gas_price := 500,
     h_extension_data := Some [0xc1, 1], h_umm_root := Some (replicate 20 5), h_mm_header := Some (replicate 80 6),
     h_mm_coinbase := Some [8, 9] \<rparr>"


end
