(* ===== verification/Bitcoin_Lib.thy ===== *)
theory Bitcoin_Lib
  imports Prelude
begin

text \<open>
  The \<open>bitcoin\<close> crate as a parameter: \<open>btc_lib\<close> bundles the functions the code calls on headers
  (block hash, work of the target, proof-of-work test, retarget, consensus encoding) and on
  networks. The record \<open>btc_header\<close> is the data of its \<open>Header\<close>; a hash is the word read
  big-endian from its bytes.
\<close>

record btc_header =
  bh_version :: u32
  bh_prev :: b256
  bh_merkle_root :: b256
  bh_time :: u32
  bh_bits :: u32
  bh_nonce :: u32

datatype network = Bitcoin | Testnet | Testnet4 | Signet | Regtest

record btc_lib =
  bl_block_hash :: "btc_header \<Rightarrow> b256"
  bl_to_work :: "btc_header \<Rightarrow> u256"
  bl_pow_ok :: "btc_header \<Rightarrow> bool"
  bl_retarget :: "network \<Rightarrow> btc_header \<Rightarrow> btc_header \<Rightarrow> u32"
  bl_no_pow_retargeting :: "network \<Rightarrow> bool"
  bl_allow_min_difficulty :: "network \<Rightarrow> bool"
  bl_encode :: "btc_header \<Rightarrow> bytes"
  bl_decode :: "bytes \<Rightarrow> btc_header option"
  bl_network_name :: "network \<Rightarrow> string"
  bl_network_parse :: "string \<Rightarrow> network option"

text \<open>What the code relies on: the consensus encoding of a header is 80 bytes and decodes to it,
  decoding reads a prefix of its input, and a network's name parses back.\<close>

definition btc_lib_ok :: "btc_lib \<Rightarrow> bool" where
  "btc_lib_ok L \<longleftrightarrow> (\<forall>h. length (bl_encode L h) = 80 \<and> bl_decode L (bl_encode L h) = Some h)
     \<and> (\<forall>d rest h. bl_decode L d = Some h \<longrightarrow> bl_decode L (d @ rest) = Some h)
     \<and> (\<forall>n. bl_network_parse L (bl_network_name L n) = Some n)"

end
