(* ===== verification/Merged_Mining.thy ===== *)
theory Merged_Mining
  imports Sha256 Header_Wire Validation Bitcoin_Lib
begin

text \<open>
  \<open>validation/merged_mining.rs\<close>: the rule that a header carries a Bitcoin header of enough work
  whose coinbase commits to it, the compressed form of that coinbase, and its producer. The digest
  of the \<open>sha2\<close> crate is the argument \<open>sha\<close>.
\<close>

section \<open>Constants\<close>

text \<open>\<open>RSKBLOCK:\<close> in ASCII.\<close>

definition RSK_TAG :: bytes where
  "RSK_TAG = [82, 83, 75, 66, 76, 79, 67, 75, 58]"

abbreviation (input) "MIDSTATE_SIZE_TRIMMED \<equiv> 40 :: nat"
abbreviation (input) "BLOCK_HEADER_HASH_SIZE \<equiv> 32 :: nat"
abbreviation (input) "MAX_BYTES_AFTER_MERGED_MINING_HASH \<equiv> 128 :: nat"
abbreviation (input) "HASH_FOR_MERGED_MINING_PREFIX_LENGTH \<equiv> 20 :: nat"
abbreviation (input) "MAX_RSK_TAG_POSITION_IN_TAIL \<equiv> 64 :: nat"
abbreviation (input) "MAX_MERGED_MINING_MERKLE_PROOF_LENGTH \<equiv> 960 :: nat"
abbreviation (input) "FORK_DETECTION_DATA_LENGTH \<equiv> 12 :: nat"

section \<open>Subsequences\<close>

definition windows :: "nat \<Rightarrow> 'a list \<Rightarrow> 'a list list" where
  "windows n xs = map (\<lambda>i. take n (drop i xs)) [0..<length xs + 1 - n]"

definition positions :: "bytes \<Rightarrow> bytes \<Rightarrow> nat list" where
  "positions haystack needle =
     (let ws = windows (length needle) haystack in filter (\<lambda>i. ws ! i = needle) [0..<length ws])"

definition find_last_subsequence :: "bytes \<Rightarrow> bytes \<Rightarrow> nat option" where
  "find_last_subsequence haystack needle =
    (if length needle > length haystack then None
     else case positions haystack needle of [] \<Rightarrow> None | i # is \<Rightarrow> Some (last (i # is)))"

definition find_first_subsequence :: "bytes \<Rightarrow> bytes \<Rightarrow> nat option" where
  "find_first_subsequence haystack needle =
    (if length needle > length haystack then None
     else case positions haystack needle of [] \<Rightarrow> None | i # is \<Rightarrow> Some i)"

section \<open>The coinbase\<close>

definition compute_coinbase_hash :: "(bytes \<Rightarrow> bytes) \<Rightarrow> bytes \<Rightarrow> bytes" where
  "compute_coinbase_hash sha compressed =
    (let trimmed = take MIDSTATE_SIZE_TRIMMED compressed;
         tail = drop MIDSTATE_SIZE_TRIMMED compressed;
         byte_count = from_be (slice 0 8 trimmed);
         state = [from_be (slice 8 12 trimmed), from_be (slice 12 16 trimmed), from_be (slice 16 20 trimmed),
           from_be (slice 20 24 trimmed), from_be (slice 24 28 trimmed), from_be (slice 28 32 trimmed),
           from_be (slice 32 36 trimmed), from_be (slice 36 40 trimmed)];
         one_round = sha256_from_midstate state byte_count tail
     in rev (sha one_round))"

datatype compression_error =
    TagNotFound
  | TagTooDeepInTail nat nat
  | HashTruncated nat nat
  | TooMuchTrailingData nat nat

definition compress_coinbase :: "bytes \<Rightarrow> bool \<Rightarrow> compression_error + bytes" where
  "compress_coinbase coinbase last_occurrence =
    bindE (of_option TagNotFound
      (if last_occurrence then find_last_subsequence coinbase RSK_TAG
       else find_first_subsequence coinbase RSK_TAG)) (\<lambda>tag_position.
    let after_tag = tag_position + length RSK_TAG;
        available = length coinbase - after_tag in
    bindE (ensure (\<not> available < BLOCK_HEADER_HASH_SIZE) (HashTruncated available BLOCK_HEADER_HASH_SIZE)) (\<lambda>_.
    let trailing = available - BLOCK_HEADER_HASH_SIZE in
    bindE (ensure (\<not> trailing > MAX_BYTES_AFTER_MERGED_MINING_HASH)
      (TooMuchTrailingData trailing MAX_BYTES_AFTER_MERGED_MINING_HASH)) (\<lambda>_.
    let bytes_to_hash = (tag_position div 64) * 64;
        tail_tag_position = tag_position - bytes_to_hash in
    bindE (ensure (\<not> tail_tag_position \<ge> MAX_RSK_TAG_POSITION_IN_TAIL)
      (TagTooDeepInTail tail_tag_position MAX_RSK_TAG_POSITION_IN_TAIL)) (\<lambda>_.
    let state = foldl sha256_compress SHA256_INITIAL_STATE (chunks 64 (take bytes_to_hash coinbase)) in
      Inr (to_be 8 (of_nat bytes_to_hash :: u64) @ concat (map (to_be 4) state) @ drop bytes_to_hash coinbase)))))"

section \<open>The merkle proof\<close>

definition combine_left_right :: "(bytes \<Rightarrow> bytes) \<Rightarrow> bytes \<Rightarrow> bytes \<Rightarrow> bytes" where
  "combine_left_right sha left right = rev (sha (sha (rev left @ rev right)))"

definition rskip92_merkle_root :: "(bytes \<Rightarrow> bytes) \<Rightarrow> bytes \<Rightarrow> bytes \<Rightarrow> bytes" where
  "rskip92_merkle_root sha coinbase_hash proof_bytes =
     foldl (combine_left_right sha) coinbase_hash (chunks 32 proof_bytes)"

section \<open>The rule\<close>

definition expected_tag :: "rlp_lib \<Rightarrow> chain_config \<Rightarrow> header \<Rightarrow> bytes" where
  "expected_tag R config h =
    (let rsk_hash = to_be 32 (hash_for_merged_mining R h) in
     if h_number h \<ge> wasabi100 (activations config)
     then RSK_TAG @ take HASH_FOR_MERGED_MINING_PREFIX_LENGTH rsk_hash
     else RSK_TAG @ rsk_hash)"

definition check_coinbase_tag :: "bytes \<Rightarrow> bytes \<Rightarrow> unit checked" where
  "check_coinbase_tag tag tail =
    bindE (of_option BitcoinCoinbaseTagInvalid (find_last_subsequence tail tag)) (\<lambda>rsk_tag_position.
    bindE (ensure (\<not> rsk_tag_position \<ge> MAX_RSK_TAG_POSITION_IN_TAIL) BitcoinCoinbaseTagInvalid) (\<lambda>_.
    bindE (of_option BitcoinCoinbaseTagInvalid (find_last_subsequence tail RSK_TAG)) (\<lambda>last_tag.
    bindE (ensure (\<not> rsk_tag_position \<noteq> last_tag) BitcoinCoinbaseTagInvalid) (\<lambda>_.
    bindE (ensure (\<not> length tail < rsk_tag_position + length RSK_TAG + BLOCK_HEADER_HASH_SIZE)
      BitcoinCoinbaseTagInvalid) (\<lambda>_.
    let remaining = length tail - rsk_tag_position - length RSK_TAG - BLOCK_HEADER_HASH_SIZE in
      ensure (\<not> remaining > MAX_BYTES_AFTER_MERGED_MINING_HASH) BitcoinCoinbaseTagInvalid)))))"

definition check_merkle_proof ::
  "(bytes \<Rightarrow> bytes) \<Rightarrow> chain_config \<Rightarrow> header \<Rightarrow> btc_header \<Rightarrow> bytes \<Rightarrow> unit checked" where
  "check_merkle_proof sha config h btc coinbase_hash =
    bindE (of_option BitcoinMerkleProofDecodeError (h_mm_merkle_proof h)) (\<lambda>proof_bytes.
    bindE (ensure (\<not> (h_number h \<ge> iris300 (activations config) \<and>
        length proof_bytes > MAX_MERGED_MINING_MERKLE_PROOF_LENGTH))
      (MerkleProofTooLarge MAX_MERGED_MINING_MERKLE_PROOF_LENGTH (length proof_bytes))) (\<lambda>_.
    bindE (ensure (\<not> length proof_bytes mod 32 \<noteq> 0) BitcoinMerkleProofDecodeError) (\<lambda>_.
    let computed_root = rskip92_merkle_root sha coinbase_hash proof_bytes;
        btc_merkle_root_bytes = to_be 32 (bh_merkle_root btc) in
      if computed_root \<noteq> btc_merkle_root_bytes
      then ensure (\<not> rev computed_root \<noteq> btc_merkle_root_bytes) BitcoinMerkleProofInvalid
      else Inr ())))"

text \<open>\<open>U256::from_le_slice\<close> of a hash.\<close>

definition hash_as_number :: "b256 \<Rightarrow> u256" where
  "hash_as_number hash = from_be (rev (to_be 32 hash))"

definition merged_mining_rule ::
  "rlp_lib \<Rightarrow> btc_lib \<Rightarrow> (bytes \<Rightarrow> bytes) \<Rightarrow> chain_config \<Rightarrow> header_rule" where
  "merged_mining_rule R L sha config h =
    (if h_number h < orchid (activations config) then Inr ()
     else
       bindE (of_option BitcoinHeaderDecodeError (h_mm_header h)) (\<lambda>btc_header_bytes.
       bindE (of_option BitcoinHeaderDecodeError (bl_decode L btc_header_bytes)) (\<lambda>btc.
       bindE (ensure (\<not> h_difficulty h = 0) DifficultyZero) (\<lambda>_.
       let target = max_val div h_difficulty h; btc_hash = bl_block_hash L btc in
       bindE (ensure (\<not> hash_as_number btc_hash > target) (BitcoinPowInvalid btc_hash target)) (\<lambda>_.
       bindE (of_option BitcoinCoinbaseDecodeError (h_mm_coinbase h)) (\<lambda>compressed.
       bindE (ensure (\<not> length compressed < MIDSTATE_SIZE_TRIMMED + 1) BitcoinCoinbaseDecodeError) (\<lambda>_.
       bindE (check_coinbase_tag (expected_tag R config h) (drop MIDSTATE_SIZE_TRIMMED compressed)) (\<lambda>_.
         check_merkle_proof sha config h btc (compute_coinbase_hash sha compressed)))))))))"

definition extract_fork_detection_data :: "rlp_lib \<Rightarrow> header \<Rightarrow> bytes option" where
  "extract_fork_detection_data R h =
    Option.bind (h_mm_coinbase h) (\<lambda>compressed.
      if length compressed < MIDSTATE_SIZE_TRIMMED + 1 then None
      else
        let tail = drop MIDSTATE_SIZE_TRIMMED compressed;
            prefix = RSK_TAG @ take HASH_FOR_MERGED_MINING_PREFIX_LENGTH (to_be 32 (hash_for_merged_mining R h))
        in Option.bind (find_last_subsequence tail prefix) (\<lambda>position.
             let start = position + length prefix; stop = start + FORK_DETECTION_DATA_LENGTH in
             if length tail < stop then None else Some (slice start stop tail)))"

section \<open>Where a subsequence occurs\<close>

definition occurs_at :: "bytes \<Rightarrow> bytes \<Rightarrow> nat \<Rightarrow> bool" where
  "occurs_at haystack needle p \<longleftrightarrow>
     p + length needle \<le> length haystack \<and> take (length needle) (drop p haystack) = needle"

lemma set_positions:
  "length needle \<le> length haystack \<Longrightarrow> set (positions haystack needle) = {p. occurs_at haystack needle p}"
  by (auto simp: positions_def windows_def occurs_at_def Let_def)

lemma sorted_positions: "sorted (positions haystack needle)"
  by (simp add: positions_def Let_def sorted_wrt_filter)

lemma le_last_if_sorted: "sorted xs \<Longrightarrow> x \<in> set xs \<Longrightarrow> x \<le> last xs"
  by (induction xs) auto

lemma find_last_Some:
  "find_last_subsequence haystack needle = Some p \<longleftrightarrow>
     occurs_at haystack needle p \<and> (\<forall>q. occurs_at haystack needle q \<longrightarrow> q \<le> p)"
proof (cases "length needle \<le> length haystack")
  case True
  note set = set_positions [OF True]
  have srt: "\<forall>q \<in> set (positions haystack needle). q \<le> last (positions haystack needle)"
    using le_last_if_sorted [OF sorted_positions] by blast
  show ?thesis
  proof (cases "positions haystack needle")
    case Nil
    with set True show ?thesis by (auto simp: find_last_subsequence_def)
  next
    case (Cons i "is")
    then have "last (positions haystack needle) \<in> set (positions haystack needle)" by (intro last_in_set) simp
    then have "occurs_at haystack needle (last (positions haystack needle))" using set by simp
    moreover have "q \<le> last (positions haystack needle)" if "occurs_at haystack needle q" for q
      using srt set that by simp
    ultimately show ?thesis using True Cons
      by (auto simp: find_last_subsequence_def intro: antisym simp del: last.simps)
  qed
next
  case False
  then show ?thesis by (simp add: find_last_subsequence_def occurs_at_def)
qed

lemma find_first_Some: "find_first_subsequence haystack needle = Some p \<Longrightarrow> occurs_at haystack needle p"
  using set_positions [of needle haystack]
  by (fastforce simp: find_first_subsequence_def split: list.splits if_splits)

lemma occurs_at_drop: "occurs_at (drop n xs) needle q \<longleftrightarrow> occurs_at xs needle (q + n)" if "n \<le> length xs"
  using that by (auto simp: occurs_at_def add.commute)

lemma occurs_at_append: "occurs_at xs (needle @ mo) q \<Longrightarrow> occurs_at xs needle q"
proof -
  assume "occurs_at xs (needle @ mo) q"
  then have "q + length needle \<le> length xs" "take (length needle) (take (length (needle @ mo)) (drop q xs)) = needle"
    by (auto simp: occurs_at_def)
  then show ?thesis by (simp add: occurs_at_def min_def split: if_splits)
qed

lemma find_last_drop:
  "find_last_subsequence xs needle = Some p \<Longrightarrow> n \<le> p \<Longrightarrow>
     find_last_subsequence (drop n xs) needle = Some (p - n)"
proof -
  assume f: "find_last_subsequence xs needle = Some p" and n: "n \<le> p"
  then have "occurs_at xs needle p" by (simp add: find_last_Some)
  then have "n \<le> length xs" using n by (simp add: occurs_at_def)
  then show ?thesis using f n by (auto simp: find_last_Some occurs_at_drop)
qed

lemma find_last_extend:
  "find_last_subsequence xs needle = Some p \<Longrightarrow> occurs_at xs (needle @ mo) p \<Longrightarrow>
     find_last_subsequence xs (needle @ mo) = Some p"
  by (auto simp: find_last_Some dest: occurs_at_append)

end
