(* ===== verification/Fork_Detection.thy ===== *)
theory Fork_Detection
  imports Merged_Mining
begin

text \<open>
  \<open>validation/fork_detection.rs\<close>: the twelve bytes of the coinbase that commit to the miner's view of
  the main chain (RSKIP110). The trait \<open>MainchainView\<close> is the function \<open>headers_from\<close>. The sum of
  uncle counts wraps as in a release build.
\<close>

definition CPV_SIZE :: nat where
  "CPV_SIZE = 7"

definition CPV_JUMP_FACTOR :: u64 where
  "CPV_JUMP_FACTOR = 64"

definition NUMBER_OF_UNCLES :: nat where
  "NUMBER_OF_UNCLES = 32"

definition REQUIRED_BLOCKS :: u64 where
  "REQUIRED_BLOCKS = of_nat CPV_SIZE * CPV_JUMP_FACTOR + 1"

definition btc_hash_least_significant_byte :: "btc_lib \<Rightarrow> header \<Rightarrow> u8 option" where
  "btc_hash_least_significant_byte L h =
     Option.bind (h_mm_header h) (\<lambda>raw.
     Option.bind (bl_decode L raw) (\<lambda>btc. Some (hd (to_be 32 (bl_block_hash L btc)))))"

text \<open>The slots of the commit-to-parents vector, from slot \<open>i\<close> on.\<close>

fun cpv_slots :: "btc_lib \<Rightarrow> header list \<Rightarrow> u64 \<Rightarrow> u64 \<Rightarrow> nat list \<Rightarrow> bytes option" where
  "cpv_slots L headers best_height cpv_start [] = Some []"
| "cpv_slots L headers best_height cpv_start (i # is) =
    (let index = best_height - cpv_start + of_nat i * CPV_JUMP_FACTOR in
     if unat index < length headers then
       Option.bind (btc_hash_least_significant_byte L (headers ! unat index)) (\<lambda>b.
       Option.bind (cpv_slots L headers best_height cpv_start is) (\<lambda>bs. Some (b # bs)))
     else None)"

definition calculate :: "btc_lib \<Rightarrow> header list \<Rightarrow> bytes option" where
  "calculate L headers =
    (if length headers < unat REQUIRED_BLOCKS then None
     else
       let best_height = h_number (headers ! 0);
           cpv_start = (best_height div CPV_JUMP_FACTOR) * CPV_JUMP_FACTOR
       in Option.bind (cpv_slots L headers best_height cpv_start [0..<CPV_SIZE]) (\<lambda>cpv.
          let uncle_sum = sum_list (map h_uncle_count (take NUMBER_OF_UNCLES headers));
              height_being_mined = (ucast (best_height + 1) :: u32)
          in Some (cpv @ [ucast (min uncle_sum 255)] @ to_be 4 height_being_mined)))"

definition fork_detection_rule ::
  "btc_lib \<Rightarrow> (b256 \<Rightarrow> u64 \<Rightarrow> header list) \<Rightarrow> u64 \<Rightarrow> bytes option \<Rightarrow> header \<Rightarrow> unit checked" where
  "fork_detection_rule L headers_from rskip110_height actual h =
    (if h_number h < rskip110_height then Inr ()
     else if h_number h < REQUIRED_BLOCKS then
       (case actual of Some _ \<Rightarrow> Inl ForkDetectionDataUnreadable | None \<Rightarrow> Inr ())
     else
       bindE (of_option ForkDetectionDataUnreadable actual) (\<lambda>got.
       let headers = headers_from (h_parent_hash h) REQUIRED_BLOCKS in
       bindE (of_option ForkDetectionDataUnreadable (calculate L headers)) (\<lambda>expected.
         ensure (\<not> expected \<noteq> got) (ForkDetectionDataMismatch expected got))))"

section \<open>What the bytes are\<close>

lemma required_blocks: "unat REQUIRED_BLOCKS = 449"
  by (simp add: REQUIRED_BLOCKS_def CPV_SIZE_def CPV_JUMP_FACTOR_def)

text \<open>The slots are read within the 449 headers: slot \<open>i\<close> at the distance of the tip from the last
  multiple of 64, and 64 headers further per slot.\<close>

lemma cpv_index:
  fixes best :: u64
  assumes "i < 7"
  shows "unat (best - best div CPV_JUMP_FACTOR * CPV_JUMP_FACTOR + of_nat i * CPV_JUMP_FACTOR) =
    unat best mod 64 + 64 * i"
proof -
  have "best - best div CPV_JUMP_FACTOR * CPV_JUMP_FACTOR = best mod CPV_JUMP_FACTOR"
    by (simp add: minus_div_mult_eq_mod)
  moreover have m: "unat (best mod CPV_JUMP_FACTOR) = unat best mod 64"
    by (simp add: unat_mod CPV_JUMP_FACTOR_def)
  moreover have "unat (of_nat i * CPV_JUMP_FACTOR) = 64 * i"
  proof -
    have "of_nat i * CPV_JUMP_FACTOR = (of_nat (64 * i) :: u64)" by (simp add: CPV_JUMP_FACTOR_def)
    moreover have "64 * i < 2 ^ 64" using assms by simp
    ultimately show ?thesis by (simp only: unat_of_nat_u64)
  qed
  moreover have "unat best mod 64 < 64" by simp
  ultimately show ?thesis using assms by (subst unat_add_exact) simp_all
qed

lemma cpv_slots_Some:
  assumes "449 \<le> length hs" and "\<forall>i \<in> set is. i < 7"
  shows "cpv_slots L hs best (best div CPV_JUMP_FACTOR * CPV_JUMP_FACTOR) is = Some bs \<longleftrightarrow>
    map (\<lambda>i. btc_hash_least_significant_byte L (hs ! (unat best mod 64 + 64 * i))) is = map Some bs"
  using assms(2)
proof (induction "is" arbitrary: bs)
  case (Cons i "is")
  have "unat best mod 64 < 64" "i < 7" using Cons.prems by simp_all
  then have "unat best mod 64 + 64 * i < length hs" using assms(1) by linarith
  moreover have "unat (best - best div CPV_JUMP_FACTOR * CPV_JUMP_FACTOR + of_nat i * CPV_JUMP_FACTOR) =
      unat best mod 64 + 64 * i" using Cons.prems by (intro cpv_index) simp
  ultimately show ?case using Cons by (cases bs) (auto simp: Let_def bind_eq_Some_conv)
qed (auto)

text \<open>What the miner's twelve bytes must be, written over the headers of the view.\<close>

definition commits_to :: "btc_lib \<Rightarrow> header list \<Rightarrow> bytes \<Rightarrow> bool" where
  "commits_to L hs data \<longleftrightarrow>
     (\<exists>cpv. map Some cpv = map (\<lambda>i. btc_hash_least_significant_byte L (hs ! (unat (h_number (hs ! 0)) mod 64 + 64 * i))) [0..<7] \<and>
       data = cpv @ [of_nat (min (unat (sum_list (map h_uncle_count (take 32 hs)))) 255)] @
         to_be 4 (of_nat (unat (h_number (hs ! 0)) + 1) :: u32))"

lemma min_255: "ucast (min x 255) = (of_nat (min (unat x) 255) :: u8)" for x :: u64
  by (simp add: min_def word_le_nat_alt)

lemma height_32: "ucast (x + 1) = (of_nat (unat x + 1) :: u32)" for x :: u64
proof -
  have "unat (x + 1) = (unat x + 1) mod 2 ^ 64" by (simp add: unat_word_ariths)
  moreover have "unat (ucast (x + 1) :: u32) = unat (x + 1) mod 2 ^ 32"
    by (simp add: unsigned_ucast_eq take_bit_eq_mod)
  moreover have "(2 :: nat) ^ 32 dvd 2 ^ 64" by (rule le_imp_power_dvd) simp
  ultimately have "unat (ucast (x + 1) :: u32) = (unat x + 1) mod 2 ^ 32" by (simp only: mod_mod_cancel)
  also have "\<dots> = unat (of_nat (unat x + 1) :: u32)" by (simp only: unat_of_nat) simp
  finally show ?thesis by (simp only: word_unat_eq_iff)
qed

lemma calculate_Some: "calculate L hs = Some data \<longleftrightarrow> 449 \<le> length hs \<and> commits_to L hs data"
proof (cases "449 \<le> length hs")
  case True
  then show ?thesis
    using cpv_slots_Some [OF True, of "[0..<7]" L "h_number (hs ! 0)"]
    by (auto simp: calculate_def required_blocks Let_def bind_eq_Some_conv commits_to_def CPV_SIZE_def
        NUMBER_OF_UNCLES_def min_255 height_32 simp del: upt_Suc)
next
  case False
  then show ?thesis by (simp add: calculate_def required_blocks)
qed

text \<open>C27. From RSKIP110 on, and past the first 449 blocks, the rule accepts exactly the headers whose
  twelve bytes commit to the view of the main chain: the first hash bytes of seven Bitcoin headers
  64 blocks apart on the grid, the uncle count of the last 32 blocks capped at 255, and the height being
  mined. A view of fewer than 449 headers is a rejection; below the activation anything passes, and
  between the two only a header without the bytes.\<close>

theorem fork_detection_accepts:
  "fork_detection_rule L view activation actual h = Inr () \<longleftrightarrow>
     h_number h < activation \<or>
     activation \<le> h_number h \<and> unat (h_number h) < 449 \<and> actual = None \<or>
     449 \<le> unat (h_number h) \<and>
       (\<exists>data. actual = Some data \<and> 449 \<le> length (view (h_parent_hash h) REQUIRED_BLOCKS) \<and>
          commits_to L (view (h_parent_hash h) REQUIRED_BLOCKS) data)"
proof -
  have n: "h_number h < REQUIRED_BLOCKS \<longleftrightarrow> unat (h_number h) < 449"
    by (simp add: word_less_nat_alt required_blocks)
  show ?thesis
    by (cases actual) (auto simp: fork_detection_rule_def n Let_def result_simps calculate_Some not_less not_le)
qed

end
