(* ===== verification/Header_Rules.thy ===== *)
theory Header_Rules
  imports Validation
begin

text \<open>
  \<open>validation/header_rules.rs\<close>: the rules on a header alone (gas) and against its parent
  (number, hash, time, gas limit). The clock is a parameter: \<open>now = None\<close> is a system time
  before the epoch.
\<close>

definition gas_limit_as_u64 :: "u256 \<Rightarrow> u64 checked" where
  "gas_limit_as_u64 g = (if unat g < 2 ^ 64 then Inr (ucast g) else Inl GasLimitOverflow)"

definition block_number_rule :: parent_rule where
  "block_number_rule header parent =
     ensure (h_number header = h_number parent + 1)
       (InvalidBlockNumber (h_number parent + 1) (h_number header))"

definition parent_hash_rule :: "(header \<Rightarrow> b256) \<Rightarrow> parent_rule" where
  "parent_hash_rule hash header parent =
     ensure (h_parent_hash header = hash parent) (ParentHashMismatch (hash parent) (h_parent_hash header))"

definition timestamp_rule :: "u64 option \<Rightarrow> u64 \<Rightarrow> header_rule" where
  "timestamp_rule now max_future_offset header =
     bindE (of_option SystemTimeError now) (\<lambda>t.
       ensure (\<not> h_timestamp header > t + max_future_offset) (TimestampInFuture t (h_timestamp header)))"

definition timestamp_parent_rule :: "u64 option \<Rightarrow> u64 \<Rightarrow> parent_rule" where
  "timestamp_parent_rule now max_future_offset header parent =
     bindE (timestamp_rule now max_future_offset header) (\<lambda>_.
       ensure (\<not> h_timestamp header \<le> h_timestamp parent)
         (TimestampOlderThanParent (h_timestamp parent) (h_timestamp header)))"

definition gas_used_rule :: header_rule where
  "gas_used_rule header =
     bindE (gas_limit_as_u64 (h_gas_limit header)) (\<lambda>limit.
       ensure (\<not> h_gas_used header > limit) (GasUsedExceedsLimit (h_gas_used header) limit))"

definition gas_limit_bounds_rule :: "u64 \<Rightarrow> u64 \<Rightarrow> header_rule" where
  "gas_limit_bounds_rule lo hi header =
     bindE (gas_limit_as_u64 (h_gas_limit header)) (\<lambda>limit.
       ensure (\<not> (limit < lo \<or> limit > hi)) (GasLimitOutOfBounds lo hi limit))"

definition block_parent_gas_limit_rule :: "chain_config \<Rightarrow> parent_rule" where
  "block_parent_gas_limit_rule config header parent =
     bindE (gas_limit_as_u64 (h_gas_limit header)) (\<lambda>limit.
     bindE (gas_limit_as_u64 (h_gas_limit parent)) (\<lambda>parent_limit.
     bindE (ensure (gas_limit_bound_divisor config \<noteq> 0) PanicDivZero) (\<lambda>_.
     let delta = parent_limit div gas_limit_bound_divisor config in
       ensure (\<not> (limit < parent_limit - delta \<or> limit > parent_limit + delta))
         (GasLimitInvalid parent_limit limit))))"

section \<open>When a rule accepts\<close>

lemma gas_limit_as_u64_Inr [result_simps]:
  "gas_limit_as_u64 g = Inr l \<longleftrightarrow> unat g = unat l"
proof
  assume "gas_limit_as_u64 g = Inr l"
  then have "unat g < 2 ^ 64" "l = ucast g"
    by (auto simp: gas_limit_as_u64_def split: if_splits)
  then show "unat g = unat l" by (simp add: unat_ucast_u64)
next
  assume eq: "unat g = unat l"
  have "unat l < 2 ^ 64" using unat_less_exp [of l] by simp
  with eq have small: "unat g < 2 ^ 64" by simp
  have "unat (ucast g :: u64) = unat l" using small eq by (simp add: unat_ucast_u64)
  then have "(ucast g :: u64) = l" by (simp add: word_unat_eq_iff)
  with small show "gas_limit_as_u64 g = Inr l" by (simp add: gas_limit_as_u64_def)
qed

lemma block_number_rule_ok [simp]:
  "block_number_rule h p = Inr u \<longleftrightarrow> h_number h = h_number p + 1"
  by (simp add: block_number_rule_def)

lemma timestamp_rule_ok [simp]:
  "timestamp_rule now d h = Inr u \<longleftrightarrow> (\<exists>t. now = Some t \<and> h_timestamp h \<le> t + d)"
  by (auto simp: timestamp_rule_def result_simps not_less)

lemma timestamp_parent_rule_ok [simp]:
  "timestamp_parent_rule now d h p = Inr u \<longleftrightarrow>
     (\<exists>t. now = Some t \<and> h_timestamp h \<le> t + d) \<and> h_timestamp p < h_timestamp h"
  by (auto simp: timestamp_parent_rule_def result_simps not_le)

lemma gas_used_rule_ok [simp]:
  "gas_used_rule h = Inr u \<longleftrightarrow> unat (h_gas_limit h) < 2 ^ 64 \<and> unat (h_gas_used h) \<le> unat (h_gas_limit h)"
proof
  assume "gas_used_rule h = Inr u"
  then obtain l :: u64 where l: "unat (h_gas_limit h) = unat l" "h_gas_used h \<le> l"
    by (auto simp: gas_used_rule_def result_simps not_less)
  have "unat l < 2 ^ 64" using unat_less_exp [of l] by simp
  with l show "unat (h_gas_limit h) < 2 ^ 64 \<and> unat (h_gas_used h) \<le> unat (h_gas_limit h)"
    by (simp add: word_le_nat_alt)
next
  assume r: "unat (h_gas_limit h) < 2 ^ 64 \<and> unat (h_gas_used h) \<le> unat (h_gas_limit h)"
  then have "unat (h_gas_limit h) = unat (ucast (h_gas_limit h) :: u64)"
    by (simp add: unat_ucast_u64)
  moreover have "h_gas_used h \<le> ucast (h_gas_limit h)"
    using r calculation by (simp add: word_le_nat_alt)
  ultimately show "gas_used_rule h = Inr u"
    by (auto simp: gas_used_rule_def result_simps not_less)
qed

lemma gas_limit_bounds_rule_ok [simp]:
  "gas_limit_bounds_rule lo hi h = Inr u \<longleftrightarrow>
     unat lo \<le> unat (h_gas_limit h) \<and> unat (h_gas_limit h) \<le> unat hi"
proof
  assume "gas_limit_bounds_rule lo hi h = Inr u"
  then obtain l :: u64 where "unat (h_gas_limit h) = unat l" "lo \<le> l" "l \<le> hi"
    by (auto simp: gas_limit_bounds_rule_def result_simps not_less)
  then show "unat lo \<le> unat (h_gas_limit h) \<and> unat (h_gas_limit h) \<le> unat hi"
    by (simp add: word_le_nat_alt)
next
  assume r: "unat lo \<le> unat (h_gas_limit h) \<and> unat (h_gas_limit h) \<le> unat hi"
  have "unat hi < 2 ^ 64" using unat_less_exp [of hi] by simp
  with r have "unat (h_gas_limit h) = unat (ucast (h_gas_limit h) :: u64)"
    by (simp add: unat_ucast_u64)
  with r show "gas_limit_bounds_rule lo hi h = Inr u"
    by (auto simp: gas_limit_bounds_rule_def result_simps not_less word_le_nat_alt
        intro!: exI [of _ "ucast (h_gas_limit h) :: u64"])
qed

text \<open>The child's gas limit lies in a band around the parent's, in exact arithmetic as long as
  the parent's limit leaves room for the delta.\<close>

definition gas_limit_band :: "chain_config \<Rightarrow> header \<Rightarrow> header \<Rightarrow> bool" where
  "gas_limit_band config h p \<longleftrightarrow>
     (let l = unat (h_gas_limit h); pl = unat (h_gas_limit p);
          d = pl div unat (gas_limit_bound_divisor config)
      in pl \<le> l + d \<and> l \<le> pl + d)"

lemma block_parent_gas_limit_rule_ok:
  assumes "unat (h_gas_limit p) < 2 ^ 63" and "gas_limit_bound_divisor config \<noteq> 0"
    and "unat (h_gas_limit h) < 2 ^ 64"
  shows "block_parent_gas_limit_rule config h p = Inr () \<longleftrightarrow> gas_limit_band config h p"
proof -
  define l pl :: u64 where "l = ucast (h_gas_limit h)" and "pl = ucast (h_gas_limit p)"
  have l: "unat (h_gas_limit h) = unat l" and pl: "unat (h_gas_limit p) = unat pl"
    using assms by (simp_all add: l_def pl_def unat_ucast_u64)
  define d where "d = pl div gas_limit_bound_divisor config"
  have ud: "unat d = unat pl div unat (gas_limit_bound_divisor config)"
    by (simp add: d_def word_nat)
  have "unat (gas_limit_bound_divisor config) \<noteq> 0"
    using assms(2) by (simp add: unat_eq_0)
  then have le: "unat d \<le> unat pl" by (simp add: ud)
  have sub: "unat (pl - d) = unat pl - unat d"
    using le by (simp add: unat_sub_exact word_le_nat_alt)
  have "unat pl + unat d < 2 ^ LENGTH(64)" using le assms(1) pl by simp
  then have add: "unat (pl + d) = unat pl + unat d" by (rule unat_add_exact)
  have "block_parent_gas_limit_rule config h p = Inr () \<longleftrightarrow> \<not> (l < pl - d \<or> l > pl + d)"
  proof -
    have "gas_limit_as_u64 (h_gas_limit h) = Inr l" "gas_limit_as_u64 (h_gas_limit p) = Inr pl"
      using l pl by (simp_all add: gas_limit_as_u64_Inr)
    then show ?thesis using assms(2)
      by (simp add: block_parent_gas_limit_rule_def ensure_def Let_def d_def)
  qed
  also have "\<dots> \<longleftrightarrow> unat pl \<le> unat l + unat d \<and> unat l \<le> unat pl + unat d"
    using sub add le by (auto simp: word_less_nat_alt)
  finally show ?thesis by (simp add: gas_limit_band_def Let_def l pl ud)
qed

end
