(* ===== verification/Block_Rules.thy ===== *)
theory Block_Rules
  imports Header_Rules
begin

text \<open>
  \<open>validation/block_rules.rs\<close> and the \<open>BlockVerifier\<close> of \<open>validation/mod.rs\<close>: the rules on a
  block's transactions, its extra data and its minimum gas price.
\<close>

section \<open>The rules\<close>

text \<open>The address \<open>0x0000000000000000000000000000000001000008\<close> as its 20 bytes.\<close>

definition REMASC_ADDR :: bytes where
  "REMASC_ADDR = replicate 16 0 @ [1, 0, 0, 8]"

definition is_remasc_tx :: "transaction \<Rightarrow> bool" where
  "is_remasc_tx tx \<longleftrightarrow> t_v tx = 0 \<and> t_r tx = 0 \<and> t_s tx = 0 \<and> t_gas_limit tx = 0 \<and>
     length (t_to tx) = 20 \<and> t_to tx = REMASC_ADDR"

definition txs_min_gas_price_rule :: block_rule where
  "txs_min_gas_price_rule b =
    (let lo = h_minimum_gas_price (b_header b) in
     eachE (\<lambda>tx. if is_remasc_tx tx then Inr ()
       else ensure (\<not> t_gas_price tx < lo) (TxGasPriceBelowMinimum (t_gas_price tx) lo)) (b_transactions b))"

definition FOR_BLOCK_MULTIPLIER :: u64 where
  "FOR_BLOCK_MULTIPLIER = 100"

definition block_txs_max_gas_price_rule :: "u64 \<Rightarrow> block_rule" where
  "block_txs_max_gas_price_rule rskip252_height b =
    (if h_number (b_header b) < rskip252_height then Inr ()
     else
       let lo = h_minimum_gas_price (b_header b) in
       if lo = 0 then Inr ()
       else
         let cap = sat_mul lo (ucast FOR_BLOCK_MULTIPLIER) in
         eachE (\<lambda>tx. if is_remasc_tx tx then Inr ()
           else ensure (\<not> t_gas_price tx > cap) (TxGasPriceAboveCap (t_gas_price tx) cap)) (b_transactions b))"

definition remasc_validation_rule :: block_rule where
  "remasc_validation_rule b =
    (if b_transactions b = [] then Inl RemascTxMissing
     else ensure (is_remasc_tx (last (b_transactions b))) RemascTxMissing)"

definition extra_data_rule :: "nat \<Rightarrow> header_rule" where
  "extra_data_rule max_size header =
     ensure (\<not> length (h_extra_data header) > max_size)
       (ExtraDataTooLarge max_size (length (h_extra_data header)))"

definition extra_data_rule_default :: header_rule where
  "extra_data_rule_default = extra_data_rule 32"

definition prev_min_gas_price_range :: "u256 \<Rightarrow> u256 \<times> u256" where
  "prev_min_gas_price_range center =
    (let d = center div 100; delta = (if d = 0 then 1 else d)
     in (sat_sub center delta, sat_add center delta))"

definition prev_min_gas_price_rule :: parent_rule where
  "prev_min_gas_price_rule header parent =
    (if h_number header = 0 then Inr ()
     else
       let (lower, upper) = prev_min_gas_price_range (h_minimum_gas_price parent);
           got = h_minimum_gas_price header
       in ensure (\<not> (got < lower \<or> got > upper)) (MinGasPriceOutOfRange lower upper got))"

section \<open>The block verifier\<close>

type_synonym block_verifier = "block_rule list"

definition block_verifier_new :: block_verifier where
  "block_verifier_new = []"

definition with_rule :: "block_rule \<Rightarrow> block_verifier \<Rightarrow> block_verifier" where
  "with_rule r v = v @ [r]"

definition default_block_verifier :: "chain_config \<Rightarrow> block_verifier" where
  "default_block_verifier config =
     with_rule remasc_validation_rule
    (with_rule (block_txs_max_gas_price_rule (fingerroot500 (activations config)))
    (with_rule txs_min_gas_price_rule block_verifier_new))"

definition verify_block :: "block_verifier \<Rightarrow> block \<Rightarrow> unit checked" where
  "verify_block rules b = eachE (\<lambda>rule. rule b) rules"

section \<open>When a rule accepts\<close>

lemma txs_min_gas_price_rule_ok [simp]:
  "txs_min_gas_price_rule b = Inr u \<longleftrightarrow>
     (\<forall>tx \<in> set (b_transactions b). is_remasc_tx tx \<or> h_minimum_gas_price (b_header b) \<le> t_gas_price tx)"
  by (auto simp: txs_min_gas_price_rule_def Let_def not_less)

lemma cap_compare:
  "p \<le> sat_mul lo (ucast FOR_BLOCK_MULTIPLIER) \<longleftrightarrow> unat p \<le> unat lo * 100" for p lo :: u256
proof -
  have "unat (ucast FOR_BLOCK_MULTIPLIER :: u256) = 100"
    by (simp add: FOR_BLOCK_MULTIPLIER_def unat_ucast_small)
  then show ?thesis using unat_bound_u256 [of p]
    by (simp add: word_le_nat_alt unat_sat_mul)
qed

lemma block_txs_max_gas_price_rule_ok [simp]:
  "block_txs_max_gas_price_rule height b = Inr u \<longleftrightarrow>
     h_number (b_header b) < height \<or> h_minimum_gas_price (b_header b) = 0 \<or>
     (\<forall>tx \<in> set (b_transactions b). is_remasc_tx tx \<or>
        unat (t_gas_price tx) \<le> unat (h_minimum_gas_price (b_header b)) * 100)"
  by (auto simp: block_txs_max_gas_price_rule_def Let_def not_less cap_compare)

lemma remasc_validation_rule_ok [simp]:
  "remasc_validation_rule b = Inr u \<longleftrightarrow> b_transactions b \<noteq> [] \<and> is_remasc_tx (last (b_transactions b))"
  by (simp add: remasc_validation_rule_def)

lemma extra_data_rule_ok [simp]: "extra_data_rule m h = Inr u \<longleftrightarrow> length (h_extra_data h) \<le> m"
  by (simp add: extra_data_rule_def not_less)

text \<open>The band a child's minimum gas price may take, in exact arithmetic.\<close>

definition gas_price_band :: "header \<Rightarrow> header \<Rightarrow> bool" where
  "gas_price_band h p \<longleftrightarrow>
    (let got = unat (h_minimum_gas_price h); center = unat (h_minimum_gas_price p);
         delta = max 1 (center div 100)
     in center \<le> got + delta \<and> got \<le> center + delta)"

lemma range_compare:
  assumes "prev_min_gas_price_range center = (lower, upper)"
  shows "lower \<le> got \<longleftrightarrow> unat center \<le> unat got + max 1 (unat center div 100)"
    and "got \<le> upper \<longleftrightarrow> unat got \<le> unat center + max 1 (unat center div 100)"
proof -
  define delta :: u256 where "delta = (if center div 100 = 0 then 1 else center div 100)"
  have d: "unat delta = max 1 (unat center div 100)"
  proof -
    have "unat (center div 100) = unat center div 100" by (simp add: unat_word_div)
    moreover have "center div 100 = 0 \<longleftrightarrow> unat (center div 100) = 0" by (simp only: unat_eq_0)
    ultimately show ?thesis by (auto simp: delta_def max_def)
  qed
  have r: "lower = sat_sub center delta" "upper = sat_add center delta"
    using assms by (simp_all add: prev_min_gas_price_range_def Let_def delta_def)
  show "lower \<le> got \<longleftrightarrow> unat center \<le> unat got + max 1 (unat center div 100)"
    by (simp add: r word_le_nat_alt unat_sat_sub d le_diff_conv)
  show "got \<le> upper \<longleftrightarrow> unat got \<le> unat center + max 1 (unat center div 100)"
    using unat_bound_u256 [of got] by (simp add: r word_le_nat_alt unat_sat_add d)
qed

lemma prev_min_gas_price_rule_ok [simp]:
  "prev_min_gas_price_rule h p = Inr u \<longleftrightarrow> h_number h = 0 \<or> gas_price_band h p"
proof -
  obtain lower upper where r: "prev_min_gas_price_range (h_minimum_gas_price p) = (lower, upper)"
    by fastforce
  show ?thesis using range_compare [OF r, of "h_minimum_gas_price h"]
    by (simp add: prev_min_gas_price_rule_def r gas_price_band_def Let_def not_less)
qed

section \<open>What the default block verifier accepts\<close>

definition fair_prices :: "chain_config \<Rightarrow> block \<Rightarrow> bool" where
  "fair_prices config b \<longleftrightarrow>
    (let lo = unat (h_minimum_gas_price (b_header b)) in
     \<forall>tx \<in> set (b_transactions b). is_remasc_tx tx \<or>
       lo \<le> unat (t_gas_price tx) \<and>
       (fingerroot500 (activations config) \<le> h_number (b_header b) \<and> lo \<noteq> 0 \<longrightarrow> unat (t_gas_price tx) \<le> 100 * lo))"

text \<open>The prices that are refused: below the block's minimum, and above a hundred times it. The REMASC
  transaction is exempt.\<close>

definition too_cheap :: "block \<Rightarrow> transaction \<Rightarrow> bool" where
  "too_cheap b tx \<longleftrightarrow> \<not> is_remasc_tx tx \<and> unat (t_gas_price tx) < unat (h_minimum_gas_price (b_header b))"

definition too_dear :: "block \<Rightarrow> transaction \<Rightarrow> bool" where
  "too_dear b tx \<longleftrightarrow> \<not> is_remasc_tx tx \<and> 100 * unat (h_minimum_gas_price (b_header b)) < unat (t_gas_price tx)"

definition capped :: "chain_config \<Rightarrow> block \<Rightarrow> bool" where
  "capped config b \<longleftrightarrow> unat (fingerroot500 (activations config)) \<le> unat (h_number (b_header b)) \<and>
     unat (h_minimum_gas_price (b_header b)) \<noteq> 0"

lemma eachE_find:
  "(\<And>x. f x = (if P x then Inl (err x) else Inr ())) \<Longrightarrow>
     eachE f xs = (case List.find P xs of Some x \<Rightarrow> Inl (err x) | None \<Rightarrow> Inr ())"
  by (induction xs) simp_all

lemma min_rule_finds:
  "txs_min_gas_price_rule b = (case List.find (too_cheap b) (b_transactions b) of
     Some tx \<Rightarrow> Inl (TxGasPriceBelowMinimum (t_gas_price tx) (h_minimum_gas_price (b_header b)))
   | None \<Rightarrow> Inr ())"
  unfolding txs_min_gas_price_rule_def Let_def
  by (rule eachE_find) (simp add: too_cheap_def ensure_def word_less_nat_alt)

lemma max_rule_finds:
  "block_txs_max_gas_price_rule (fingerroot500 (activations config)) b =
     (case (if capped config b then List.find (too_dear b) (b_transactions b) else None) of
       Some tx \<Rightarrow> Inl (TxGasPriceAboveCap (t_gas_price tx) (sat_mul (h_minimum_gas_price (b_header b)) 100))
     | None \<Rightarrow> Inr ())"
proof -
  let ?lo = "h_minimum_gas_price (b_header b)"
  have m: "(ucast FOR_BLOCK_MULTIPLIER :: u256) = 100" by (simp add: FOR_BLOCK_MULTIPLIER_def)
  have c: "t_gas_price tx > sat_mul ?lo 100 \<longleftrightarrow> 100 * unat ?lo < unat (t_gas_price tx)" for tx
    using cap_compare [of "t_gas_price tx" ?lo] by (auto simp: m not_le [symmetric] mult.commute)
  have "eachE (\<lambda>tx. if is_remasc_tx tx then Inr ()
      else ensure (\<not> t_gas_price tx > sat_mul ?lo 100) (TxGasPriceAboveCap (t_gas_price tx) (sat_mul ?lo 100))) (b_transactions b)
    = (case List.find (too_dear b) (b_transactions b) of
        Some tx \<Rightarrow> Inl (TxGasPriceAboveCap (t_gas_price tx) (sat_mul ?lo 100)) | None \<Rightarrow> Inr ())"
    by (rule eachE_find) (simp add: too_dear_def ensure_def c)
  then show ?thesis
    unfolding block_txs_max_gas_price_rule_def Let_def m capped_def
    by (simp add: word_less_nat_alt unat_eq_0 not_less)
qed

text \<open>C28. The default block verifier accepts exactly the blocks that end with the REMASC transaction
  and whose other transactions all pay at least the block's minimum gas price and, from the
  fingerroot500 activation on and for a minimum that is not zero, at most a hundred times it. A
  rejection names the price of the first transaction below the minimum with that minimum; failing
  that, of the first one above the cap with that cap; and failing that the missing REMASC transaction.\<close>

theorem block_verifier_accepts:
  "(verify_block (default_block_verifier config) b = Inr () \<longleftrightarrow>
      b_transactions b \<noteq> [] \<and> is_remasc_tx (last (b_transactions b)) \<and> fair_prices config b)
   \<and> verify_block (default_block_verifier config) b =
      (case List.find (too_cheap b) (b_transactions b) of
         Some tx \<Rightarrow> Inl (TxGasPriceBelowMinimum (t_gas_price tx) (h_minimum_gas_price (b_header b)))
       | None \<Rightarrow> (case if capped config b then List.find (too_dear b) (b_transactions b) else None of
           Some tx \<Rightarrow> Inl (TxGasPriceAboveCap (t_gas_price tx) (sat_mul (h_minimum_gas_price (b_header b)) 100))
         | None \<Rightarrow> if b_transactions b \<noteq> [] \<and> is_remasc_tx (last (b_transactions b)) then Inr ()
             else Inl RemascTxMissing))"
proof
  show "verify_block (default_block_verifier config) b = Inr () \<longleftrightarrow>
      b_transactions b \<noteq> [] \<and> is_remasc_tx (last (b_transactions b)) \<and> fair_prices config b"
    by (auto simp: verify_block_def default_block_verifier_def with_rule_def block_verifier_new_def
        fair_prices_def Let_def word_le_nat_alt word_less_nat_alt unat_eq_0 unat_gt_0 mult.commute result_simps)
next
  have "verify_block (default_block_verifier config) b =
      bindE (txs_min_gas_price_rule b) (\<lambda>_. bindE (block_txs_max_gas_price_rule (fingerroot500 (activations config)) b)
        (\<lambda>_. bindE (remasc_validation_rule b) (\<lambda>_. Inr ())))"
    by (simp add: verify_block_def default_block_verifier_def with_rule_def block_verifier_new_def)
  then show "verify_block (default_block_verifier config) b =
      (case List.find (too_cheap b) (b_transactions b) of
         Some tx \<Rightarrow> Inl (TxGasPriceBelowMinimum (t_gas_price tx) (h_minimum_gas_price (b_header b)))
       | None \<Rightarrow> (case if capped config b then List.find (too_dear b) (b_transactions b) else None of
           Some tx \<Rightarrow> Inl (TxGasPriceAboveCap (t_gas_price tx) (sat_mul (h_minimum_gas_price (b_header b)) 100))
         | None \<Rightarrow> if b_transactions b \<noteq> [] \<and> is_remasc_tx (last (b_transactions b)) then Inr ()
             else Inl RemascTxMissing))"
    unfolding min_rule_finds max_rule_finds
    by (auto simp: remasc_validation_rule_def ensure_def split: option.splits)
qed

text \<open>Three transactions and REMASC: the second and the third pay too little.\<close>

definition demo_tx :: "u256 \<Rightarrow> transaction" where
  "demo_tx price = transaction_default\<lparr> t_gas_price := price, t_v := 27, t_to := [1] \<rparr>"

definition remasc_demo :: transaction where
  "remasc_demo = transaction_default\<lparr> t_to := REMASC_ADDR \<rparr>"

definition demo_block :: "u256 list \<Rightarrow> block" where
  "demo_block prices = \<lparr> b_header = header_default\<lparr> h_number := 9020001, h_minimum_gas_price := 60 \<rparr>,
     b_transactions = map demo_tx prices @ [remasc_demo], b_ommers = [] \<rparr>"

lemma block_verifier_accepts_witness:
  "verify_block (default_block_verifier mainnet) (demo_block [60, 7, 3]) = Inl (TxGasPriceBelowMinimum 7 60) \<and>
   verify_block (default_block_verifier mainnet) (demo_block [60, 6001, 6002]) = Inl (TxGasPriceAboveCap 6001 6000) \<and>
   verify_block (default_block_verifier mainnet) (demo_block [60, 6000]) = Inr ()"
  using block_verifier_accepts [of mainnet "demo_block [60, 7, 3]"]
    block_verifier_accepts [of mainnet "demo_block [60, 6001, 6002]"]
    block_verifier_accepts [of mainnet "demo_block [60, 6000]"]
  by (simp add: demo_block_def demo_tx_def remasc_demo_def transaction_default_def is_remasc_tx_def REMASC_ADDR_def
        too_cheap_def too_dear_def capped_def network_defs sat_mul_def)

end
