(* ===== verification/Btc_Store.thy ===== *)
theory Btc_Store
  imports Bitcoin_Lib
begin

text \<open>
  \<open>crates/core/src/store.rs\<close> and \<open>crates/core/src/store/btc.rs\<close>: the Bitcoin side of the store.
  The redb tables are maps; a write transaction is a store passed on, and dropping it without a
  commit leaves the caller's store as it was. Database and I/O errors are not modelled.\<close>

section \<open>Errors\<close>

text \<open>\<open>crates/core/src/error.rs\<close>, without the database errors. \<open>Panic\<close> stands for an \<open>expect\<close> or
  an index that fails, \<open>Diverges\<close> for a loop that does not end.\<close>

datatype core_error =
    Unseeded
  | AlreadySeeded
  | CheckpointFormat nat string
  | UnknownAncestor b256
  | BadPow u64
  | BadDifficulty u64 u32 u32
  | BadTimestamp u64 u32 u32
  | LinkBreak u64 b256
  | NetworkMismatch network network
  | ForkBelowFinalized u64 u64
  | Rootstock string
  | Internal string
  | Panic
  | Diverges

type_synonym 'a core = "core_error + 'a"

section \<open>Records and their encodings\<close>

definition DIFFICULTY_PERIOD :: u64 where
  "DIFFICULTY_PERIOD = 2016"

datatype meta = MU64 u64 | MText string

fun meta_as_u64 :: "meta \<Rightarrow> u64 option" where
  "meta_as_u64 (MU64 v) = Some v"
| "meta_as_u64 (MText t) = None"

fun meta_as_text :: "meta \<Rightarrow> string option" where
  "meta_as_text (MText t) = Some t"
| "meta_as_text (MU64 v) = None"

text \<open>Text is stored as its bytes; the code only stores ASCII network names.\<close>

definition meta_from_bytes :: "bytes \<Rightarrow> meta option" where
  "meta_from_bytes d = (case d of
     [] \<Rightarrow> None
   | tag # rest \<Rightarrow>
       if tag = 0 then (if length d \<ge> 9 then Some (MU64 (from_be (slice 1 9 d))) else None)
       else if tag = 1 then Some (MText (map (\<lambda>b. char_of (unat b)) rest))
       else None)"

fun meta_as_bytes :: "meta \<Rightarrow> bytes" where
  "meta_as_bytes (MU64 v) = 0 # to_be 8 v"
| "meta_as_bytes (MText t) = 1 # map (\<lambda>c. of_nat (of_char c)) t"

record btc_row =
  row_header :: btc_header
  row_work :: u256

definition row_as_bytes :: "btc_lib \<Rightarrow> btc_row \<Rightarrow> bytes" where
  "row_as_bytes L r = bl_encode L (row_header r) @ to_be 32 (row_work r)"

definition row_from_bytes :: "btc_lib \<Rightarrow> bytes \<Rightarrow> btc_row option" where
  "row_from_bytes L d = (case bl_decode L (slice 0 80 d) of
     None \<Rightarrow> None
   | Some h \<Rightarrow> Some \<lparr> row_header = h, row_work = from_be (slice 80 112 d) \<rparr>)"

definition spine_as_bytes :: "btc_lib \<Rightarrow> btc_header \<Rightarrow> bytes" where
  "spine_as_bytes L h = bl_encode L h"

definition spine_from_bytes :: "btc_lib \<Rightarrow> bytes \<Rightarrow> btc_header option" where
  "spine_from_bytes L d = bl_decode L (slice 0 80 d)"

record fork_meta =
  fm_forkpoint :: u64
  fm_parent :: "u64 option"
  fm_forkpoint_hash :: b256
  fm_tip_height :: u64
  fm_tip_hash :: b256
  fm_tip_work :: u256

definition NO_PARENT :: u64 where
  "NO_PARENT = max_val"

definition fork_as_bytes :: "fork_meta \<Rightarrow> bytes" where
  "fork_as_bytes m =
     to_be 8 (fm_forkpoint m)
   @ to_be 8 (case fm_parent m of Some p \<Rightarrow> p | None \<Rightarrow> NO_PARENT)
   @ to_be 32 (fm_forkpoint_hash m)
   @ to_be 8 (fm_tip_height m)
   @ to_be 32 (fm_tip_hash m)
   @ to_be 32 (fm_tip_work m)"

definition fork_from_bytes :: "bytes \<Rightarrow> fork_meta" where
  "fork_from_bytes d =
    (let p = from_be (slice 8 16 d) in
     \<lparr> fm_forkpoint = from_be (slice 0 8 d),
       fm_parent = (if p \<noteq> NO_PARENT then Some p else None),
       fm_forkpoint_hash = from_be (slice 16 48 d),
       fm_tip_height = from_be (slice 48 56 d),
       fm_tip_hash = from_be (slice 56 88 d),
       fm_tip_work = from_be (slice 80 112 d) \<rparr>)"

section \<open>The tables\<close>

text \<open>\<open>BTC_FORKS\<close> keeps encoded values, since a fork read back is not always the fork written;
  the other tables keep values, their encodings being lossless (\<open>row_round_trip\<close>,
  \<open>spine_round_trip\<close>, \<open>meta_round_trip\<close>).\<close>

record btc_store =
  bs_headers :: "u64 \<times> u64 \<Rightarrow> btc_row option"
  bs_hash_loc :: "b256 \<Rightarrow> (u64 \<times> u64) option"
  bs_forks :: "u64 \<Rightarrow> bytes option"
  bs_spine :: "u64 \<Rightarrow> btc_header option"
  bs_meta :: "string \<Rightarrow> meta option"

definition empty_btc_store :: btc_store where
  "empty_btc_store = \<lparr> bs_headers = (\<lambda>_. None), bs_hash_loc = (\<lambda>_. None), bs_forks = (\<lambda>_. None),
     bs_spine = (\<lambda>_. None), bs_meta = (\<lambda>_. None) \<rparr>"

abbreviation "META_SEED_HEIGHT \<equiv> ''seed_height''"
abbreviation "META_FINALIZED \<equiv> ''finalized_height''"
abbreviation "META_BEST_FORK \<equiv> ''best_fork''"
abbreviation "META_NEXT_FORK \<equiv> ''next_fork''"
abbreviation "META_NETWORK \<equiv> ''network''"

section \<open>Reads\<close>

definition meta_u64 :: "btc_store \<Rightarrow> string \<Rightarrow> u64 option" where
  "meta_u64 st k = Option.bind (bs_meta st k) meta_as_u64"

definition fork_meta_of :: "btc_store \<Rightarrow> u64 \<Rightarrow> fork_meta option" where
  "fork_meta_of st f = map_option fork_from_bytes (bs_forks st f)"

definition best_fork :: "btc_store \<Rightarrow> u64 option" where
  "best_fork st = meta_u64 st META_BEST_FORK"

definition fork_tip :: "btc_store \<Rightarrow> u64 \<Rightarrow> (u64 \<times> b256) option" where
  "fork_tip st f = map_option (\<lambda>m. (fm_tip_height m, fm_tip_hash m)) (fork_meta_of st f)"

definition locate :: "btc_store \<Rightarrow> b256 \<Rightarrow> (u64 \<times> u64) option" where
  "locate st h = bs_hash_loc st h"

text \<open>The loop of \<open>owner_fork\<close> follows parents and need not end: its value is \<open>None\<close> then.\<close>

partial_function (option) owner_loop :: "btc_store \<Rightarrow> u64 \<Rightarrow> u64 \<Rightarrow> u64 option option" where
  "owner_loop st height f =
    (case fork_meta_of st f of
       None \<Rightarrow> Some None
     | Some m \<Rightarrow>
         if height \<ge> fm_forkpoint m then Some (Some f)
         else (case fm_parent m of None \<Rightarrow> Some None | Some p \<Rightarrow> owner_loop st height p))"

definition owner_fork :: "btc_store \<Rightarrow> u64 \<Rightarrow> u64 \<Rightarrow> u64 option core" where
  "owner_fork st f height = of_option Diverges (owner_loop st height f)"

definition header_at :: "btc_store \<Rightarrow> u64 \<Rightarrow> u64 \<Rightarrow> btc_header option core" where
  "header_at st f height = bindE (owner_fork st f height) (\<lambda>ow. case ow of
     None \<Rightarrow> Inr None
   | Some owner \<Rightarrow> Inr (map_option row_header (bs_headers st (owner, height))))"

definition work_at :: "btc_store \<Rightarrow> u64 \<Rightarrow> u64 \<Rightarrow> u256 option core" where
  "work_at st f height = bindE (owner_fork st f height) (\<lambda>ow. case ow of
     None \<Rightarrow> Inr None
   | Some owner \<Rightarrow> Inr (map_option row_work (bs_headers st (owner, height))))"

definition fork_chainwork :: "btc_store \<Rightarrow> u64 \<Rightarrow> u256 option core" where
  "fork_chainwork st f = (case fork_meta_of st f of
     None \<Rightarrow> Inr None
   | Some m \<Rightarrow> work_at st f (fm_tip_height m))"

definition finalized_height :: "btc_store \<Rightarrow> u64 option" where
  "finalized_height st = meta_u64 st META_FINALIZED"

definition stored_network :: "btc_lib \<Rightarrow> btc_store \<Rightarrow> network option" where
  "stored_network L st =
     Option.bind (Option.bind (bs_meta st META_NETWORK) meta_as_text) (bl_network_parse L)"

section \<open>Writes\<close>

definition put_meta :: "string \<Rightarrow> meta \<Rightarrow> btc_store \<Rightarrow> btc_store" where
  "put_meta k v st = st\<lparr> bs_meta := (bs_meta st)(k \<mapsto> v) \<rparr>"

definition put_fork :: "u64 \<Rightarrow> fork_meta \<Rightarrow> btc_store \<Rightarrow> btc_store" where
  "put_fork f m st = st\<lparr> bs_forks := (bs_forks st)(f \<mapsto> fork_as_bytes m) \<rparr>"

definition set_best_fork :: "u64 \<Rightarrow> btc_store \<Rightarrow> btc_store" where
  "set_best_fork f = put_meta META_BEST_FORK (MU64 f)"

definition set_network :: "btc_lib \<Rightarrow> network \<Rightarrow> btc_store \<Rightarrow> btc_store" where
  "set_network L n = put_meta META_NETWORK (MText (bl_network_name L n))"

definition set_finalized :: "u64 \<Rightarrow> btc_store \<Rightarrow> btc_store" where
  "set_finalized h = put_meta META_FINALIZED (MU64 h)"

fun work_scaled_from :: "u256 \<Rightarrow> nat \<Rightarrow> u256 \<Rightarrow> u256" where
  "work_scaled_from acc 0 work = acc"
| "work_scaled_from acc (Suc n) work = work_scaled_from (acc + work) n work"

definition work_scaled :: "u256 \<Rightarrow> u64 \<Rightarrow> u256" where
  "work_scaled work n = work_scaled_from 0 (unat n) work"

definition put_row :: "btc_lib \<Rightarrow> u64 \<Rightarrow> u64 \<Rightarrow> btc_header \<Rightarrow> u256 \<Rightarrow> btc_store \<Rightarrow> btc_store" where
  "put_row L f height h cum st = st\<lparr>
     bs_headers := (bs_headers st)((f, height) \<mapsto> \<lparr> row_header = h, row_work = cum \<rparr>),
     bs_hash_loc := (bs_hash_loc st)(bl_block_hash L h \<mapsto> (f, height)) \<rparr>"

definition put_spine :: "u64 \<Rightarrow> btc_header \<Rightarrow> btc_store \<Rightarrow> btc_store" where
  "put_spine height h st = st\<lparr> bs_spine := (bs_spine st)(height \<mapsto> h) \<rparr>"

text \<open>The seeding loop, over the entries in height order: the first carries its own work, each
  later one the rest of the period before it and its own.\<close>

fun seed_loop :: "btc_lib \<Rightarrow> (u64 \<times> btc_header) list \<Rightarrow> bool \<Rightarrow> u256 \<Rightarrow> u256 \<Rightarrow> btc_store \<Rightarrow> u256 \<times> btc_store" where
  "seed_loop L [] first cum prev_w st = (cum, st)"
| "seed_loop L ((height, h) # es) first cum prev_w st =
    (let w = bl_to_work L h;
         cum' = (if first then w else cum + work_scaled prev_w (DIFFICULTY_PERIOD - 1) + w)
     in seed_loop L es False cum' w (put_row L 0 height h cum' (put_spine height h st)))"

fun contiguous :: "(u64 \<times> btc_header) list \<Rightarrow> bool" where
  "contiguous ((h1, a) # (h2, b) # es) \<longleftrightarrow> h2 = h1 + DIFFICULTY_PERIOD \<and> contiguous ((h2, b) # es)"
| "contiguous es \<longleftrightarrow> True"

definition seed_checkpoints_txn ::
  "btc_lib \<Rightarrow> (u64 \<times> btc_header) list \<Rightarrow> btc_store \<Rightarrow> btc_store core" where
  "seed_checkpoints_txn L entries st =
    bindE (ensure (fork_meta_of st 0 = None) AlreadySeeded) (\<lambda>_.
    bindE (ensure (entries \<noteq> []) (Internal ''no checkpoints to seed'')) (\<lambda>_.
    let sorted_entries = sort_key fst entries in
    bindE (ensure (contiguous sorted_entries)
        (Internal ''checkpoints must be contiguous difficulty periods'')) (\<lambda>_.
    let (cum, st1) = seed_loop L sorted_entries True 0 0 st;
        (last_height, last_header) = last sorted_entries;
        root = \<lparr> fm_forkpoint = 0, fm_parent = None,
                 fm_forkpoint_hash = bl_block_hash L (snd (hd sorted_entries)),
                 fm_tip_height = last_height, fm_tip_hash = bl_block_hash L last_header, fm_tip_work = cum \<rparr>
    in Inr (put_meta META_NEXT_FORK (MU64 1)
           (set_best_fork 0
           (set_finalized last_height
           (put_meta META_SEED_HEIGHT (MU64 (fst (hd sorted_entries)))
           (put_fork 0 root st1))))))))"

definition create_fork :: "u64 \<Rightarrow> u64 \<Rightarrow> b256 \<Rightarrow> btc_store \<Rightarrow> u64 \<times> btc_store" where
  "create_fork par fp fp_hash st =
    (let nxt = (case meta_u64 st META_NEXT_FORK of Some n \<Rightarrow> n | None \<Rightarrow> 1);
         st1 = put_meta META_NEXT_FORK (MU64 (nxt + 1)) st;
         m = \<lparr> fm_forkpoint = fp, fm_parent = Some par, fm_forkpoint_hash = fp_hash,
               fm_tip_height = sat_sub fp 1, fm_tip_hash = 0, fm_tip_work = 0 \<rparr>
     in (nxt, put_fork nxt m st1))"

fun put_headers_loop :: "btc_lib \<Rightarrow> u64 \<Rightarrow> (u64 \<times> btc_header \<times> u256) list \<Rightarrow> btc_store \<Rightarrow> btc_store" where
  "put_headers_loop L f [] st = st"
| "put_headers_loop L f ((height, h, cum) # es) st =
    (let st1 = put_row L f height h cum st;
         st2 = (if f = 0 \<and> height mod DIFFICULTY_PERIOD = 0 then put_spine height h st1 else st1)
     in put_headers_loop L f es st2)"

definition put_headers :: "btc_lib \<Rightarrow> u64 \<Rightarrow> (u64 \<times> btc_header \<times> u256) list \<Rightarrow> btc_store \<Rightarrow> btc_store core" where
  "put_headers L f entries st =
    (if entries = [] then Inr st
     else
       let st1 = put_headers_loop L f entries st;
           (last_height, last_header, last_cum) = last entries
       in (case fork_meta_of st1 f of
             None \<Rightarrow> Inl Panic
           | Some m \<Rightarrow> Inr (put_fork f (m\<lparr> fm_tip_height := last_height,
                 fm_tip_hash := bl_block_hash L last_header, fm_tip_work := last_cum \<rparr>) st1)))"

section \<open>Round trips of the encodings\<close>

lemma row_round_trip:
  assumes "btc_lib_ok L"
  shows "row_from_bytes L (row_as_bytes L r) = Some r"
proof -
  have "length (bl_encode L (row_header r)) = 80" "bl_decode L (bl_encode L (row_header r)) = Some (row_header r)"
    using assms by (auto simp: btc_lib_ok_def)
  then show ?thesis
    by (simp add: row_from_bytes_def row_as_bytes_def slice_def codec)
qed

lemma spine_round_trip:
  assumes "btc_lib_ok L"
  shows "spine_from_bytes L (spine_as_bytes L h) = Some h"
  using assms by (simp add: spine_from_bytes_def spine_as_bytes_def btc_lib_ok_def slice_def)

text \<open>What a stored fork reads back as: everything but the tip work, which is read from eight
  bytes too early and so mixes the end of the tip hash with the start of the work, and a parent
  equal to the sentinel.\<close>

definition tip_work_as_read :: "fork_meta \<Rightarrow> u256" where
  "tip_work_as_read m = from_be (drop 24 (to_be 32 (fm_tip_hash m)) @ take 24 (to_be 32 (fm_tip_work m)))"

lemma tip_work_as_read_eq:
  "unat (tip_work_as_read m) = unat (fm_tip_hash m) mod 2 ^ 64 * 2 ^ 192 + unat (fm_tip_work m) div 2 ^ 64"
proof -
  let ?h = "unat (fm_tip_hash m)" and ?w = "unat (fm_tip_work m)"
  have w: "?w div 2 ^ 64 < 2 ^ 192"
    using unat_bound_u256 [of "fm_tip_work m"] by (simp add: less_mult_imp_div_less)
  have "be_nat (drop 24 (to_be 32 (fm_tip_hash m)) @ take 24 (to_be 32 (fm_tip_work m))) =
      ?h mod 2 ^ 64 * 2 ^ 192 + ?w div 2 ^ 64"
    using w by (simp add: to_be_def nat_bytes_take nat_bytes_drop be_nat_append be_nat_nat_bytes)
  moreover have "?h mod 2 ^ 64 * 2 ^ 192 + ?w div 2 ^ 64 < 2 ^ 256"
  proof -
    have "?h mod 2 ^ 64 < 2 ^ 64" by simp
    then have "?h mod 2 ^ 64 \<le> 2 ^ 64 - 1" by linarith
    then have "?h mod 2 ^ 64 * 2 ^ 192 \<le> (2 ^ 64 - 1) * 2 ^ 192" by (rule mult_le_mono1)
    with w show ?thesis by simp
  qed
  ultimately show ?thesis unfolding tip_work_as_read_def from_be_def by (simp only: unat_of_nat_u256)
qed

lemma fork_round_trip:
  "fork_from_bytes (fork_as_bytes m) =
     m\<lparr> fm_parent := (if fm_parent m = Some NO_PARENT then None else fm_parent m),
        fm_tip_work := tip_work_as_read m \<rparr>"
proof -
  have fields:
    "slice 0 8 (fork_as_bytes m) = to_be 8 (fm_forkpoint m)"
    "slice 8 16 (fork_as_bytes m) = to_be 8 (case fm_parent m of Some p \<Rightarrow> p | None \<Rightarrow> NO_PARENT)"
    "slice 16 48 (fork_as_bytes m) = to_be 32 (fm_forkpoint_hash m)"
    "slice 48 56 (fork_as_bytes m) = to_be 8 (fm_tip_height m)"
    "slice 56 88 (fork_as_bytes m) = to_be 32 (fm_tip_hash m)"
    "slice 80 112 (fork_as_bytes m) = drop 24 (to_be 32 (fm_tip_hash m)) @ take 24 (to_be 32 (fm_tip_work m))"
    by (simp_all add: fork_as_bytes_def slice_def)
  show ?thesis
    unfolding fork_from_bytes_def fields
    by (cases m) (auto simp: Let_def codec tip_work_as_read_def split: option.splits)
qed

lemma fork_round_trip_simps [codec]:
  "fm_forkpoint (fork_from_bytes (fork_as_bytes m)) = fm_forkpoint m"
  "fm_forkpoint_hash (fork_from_bytes (fork_as_bytes m)) = fm_forkpoint_hash m"
  "fm_tip_height (fork_from_bytes (fork_as_bytes m)) = fm_tip_height m"
  "fm_tip_hash (fork_from_bytes (fork_as_bytes m)) = fm_tip_hash m"
  "fm_parent m \<noteq> Some NO_PARENT \<Longrightarrow> fm_parent (fork_from_bytes (fork_as_bytes m)) = fm_parent m"
  by (simp_all add: fork_round_trip)

lemma length_fork_as_bytes: "length (fork_as_bytes m) = 120"
  by (simp add: fork_as_bytes_def)

lemma char_byte: "char_of (unat (of_nat (of_char c) :: u8)) = c"
proof -
  have "(of_char c :: nat) < 256" using of_char_mod_256 [of c, where ?'a = nat] by (metis mod_less_divisor zero_less_numeral)
  then have "unat (of_nat (of_char c) :: u8) = of_char c"
    by (simp add: unat_of_nat take_bit_nat_eq_self)
  then show ?thesis by simp
qed

lemma meta_round_trip: "meta_from_bytes (meta_as_bytes m) = Some m"
  by (cases m) (simp_all add: meta_from_bytes_def slice_def codec char_byte map_idI comp_def)

end
