(* ===== verification/Btc_Validation.thy ===== *)
theory Btc_Validation
  imports Btc_Store
begin

text \<open>
  \<open>crates/core/src/btc/validation.rs\<close>: the header rules of the Bitcoin chain, and
  \<open>btc/checkpoints.rs\<close>: parsing the embedded spine. The hex decoder is a parameter.
\<close>

definition MEDIAN_TIME_PAST :: nat where
  "MEDIAN_TIME_PAST = 11"

definition enforces_difficulty :: "btc_lib \<Rightarrow> network \<Rightarrow> bool" where
  "enforces_difficulty L net \<longleftrightarrow> \<not> bl_no_pow_retargeting L net \<and> \<not> bl_allow_min_difficulty L net"

definition expected_bits ::
  "btc_lib \<Rightarrow> network \<Rightarrow> u64 \<Rightarrow> btc_header \<Rightarrow> btc_header option \<Rightarrow> u32 option" where
  "expected_bits L net height par period_start =
    (if height mod DIFFICULTY_PERIOD \<noteq> 0 then Some (bh_bits par)
     else (case period_start of None \<Rightarrow> None | Some fst_h \<Rightarrow> Some (bl_retarget L net fst_h par)))"

definition median_time_past :: "u32 list \<Rightarrow> u32" where
  "median_time_past ts = sort ts ! (MEDIAN_TIME_PAST div 2)"

lemma sort_nth_less_count:
  assumes "i < length xs"
  shows "length (filter (\<lambda>x. x < sort xs ! i) xs) \<le> i"
    and "length (filter (\<lambda>x. x > sort xs ! i) xs) \<le> length xs - Suc i"
proof -
  let ?s = "sort xs"
  have i: "i < length ?s" using assms by simp
  have perm: "length (filter P xs) = length (filter P ?s)" for P
    by (metis filter_sort length_sort)
  have split: "?s = take i ?s @ ?s ! i # drop (Suc i) ?s"
    using i by (rule id_take_nth_drop)
  have srt: "sorted ?s" by simp
  have lo: "\<forall>x \<in> set (take i ?s). x \<le> ?s ! i"
  proof
    fix x assume "x \<in> set (take i ?s)"
    then obtain j where "j < i" "x = ?s ! j" using i by (auto simp: in_set_conv_nth)
    then show "x \<le> ?s ! i" using srt i by (simp add: sorted_nth_mono)
  qed
  have hi: "\<forall>x \<in> set (drop (Suc i) ?s). ?s ! i \<le> x"
  proof
    fix x assume "x \<in> set (drop (Suc i) ?s)"
    then obtain j where "j < length (drop (Suc i) ?s)" "x = ?s ! (Suc i + j)"
      using i by (auto simp: in_set_conv_nth)
    then show "?s ! i \<le> x" using srt by (simp add: sorted_nth_mono)
  qed
  have "filter (\<lambda>x. x < ?s ! i) ?s = filter (\<lambda>x. x < ?s ! i) (take i ?s)"
    by (subst split) (use hi in \<open>auto simp: filter_empty_conv\<close>)
  then show "length (filter (\<lambda>x. x < ?s ! i) xs) \<le> i"
    unfolding perm using length_filter_le [of "\<lambda>x. x < ?s ! i" "take i ?s"] i by simp
  have "filter (\<lambda>x. x > ?s ! i) ?s = filter (\<lambda>x. x > ?s ! i) (drop (Suc i) ?s)"
    by (subst split) (use lo in \<open>auto simp: filter_empty_conv\<close>)
  then show "length (filter (\<lambda>x. x > ?s ! i) xs) \<le> length xs - Suc i"
    unfolding perm using length_filter_le [of "\<lambda>x. x > ?s ! i" "drop (Suc i) ?s"] i by simp
qed

section \<open>The embedded spine\<close>

definition is_space :: "char \<Rightarrow> bool" where
  "is_space c \<longleftrightarrow> (of_char c :: nat) \<in> {9, 10, 11, 12, 13, 32}"

definition trim :: "string \<Rightarrow> string" where
  "trim s = rev (dropWhile is_space (rev (dropWhile is_space s)))"

text \<open>The lines of the file are the argument; blank ones are skipped before numbering.\<close>

fun parse_lines ::
  "btc_lib \<Rightarrow> (string \<Rightarrow> bytes option) \<Rightarrow> nat \<Rightarrow> string list \<Rightarrow> (u64 \<times> btc_header) list core" where
  "parse_lines L hex i [] = Inr []"
| "parse_lines L hex i (l # ls) =
    bindE (of_option (CheckpointFormat i ''hex'') (hex (trim l))) (\<lambda>bs.
    bindE (ensure (length bs = 80) (CheckpointFormat i ''want 80 bytes'')) (\<lambda>_.
    bindE (of_option (CheckpointFormat i ''header'') (bl_decode L bs)) (\<lambda>h.
    bindE (parse_lines L hex (Suc i) ls) (\<lambda>rest.
      Inr ((of_nat i * DIFFICULTY_PERIOD, h) # rest)))))"

definition parse_spine :: "btc_lib \<Rightarrow> (string \<Rightarrow> bytes option) \<Rightarrow> string list \<Rightarrow> (u64 \<times> btc_header) list core" where
  "parse_spine L hex ls = parse_lines L hex 0 (filter (\<lambda>l. trim l \<noteq> []) ls)"

lemma parse_lines_heights:
  "parse_lines L hex i ls = Inr es \<Longrightarrow>
     map fst es = map (\<lambda>j. of_nat j * DIFFICULTY_PERIOD) [i..<i + length ls]"
proof (induction ls arbitrary: i es)
  case (Cons l ls)
  then obtain rest h where r: "parse_lines L hex (Suc i) ls = Inr rest"
    and es: "es = (of_nat i * DIFFICULTY_PERIOD, h) # rest"
    by (auto simp: result_simps)
  have "[i..<i + length (l # ls)] = i # [Suc i..<Suc i + length ls]"
    by (subst upt_conv_Cons) simp_all
  then show ?case using Cons.IH [OF r] es by (simp del: upt_Suc)
qed simp

lemma parse_lines_contiguous: "parse_lines L hex i ls = Inr es \<Longrightarrow> contiguous es"
proof (induction ls arbitrary: i es)
  case (Cons l ls)
  obtain rest h where r: "parse_lines L hex (Suc i) ls = Inr rest"
    and es: "es = (of_nat i * DIFFICULTY_PERIOD, h) # rest"
    using Cons.prems by (auto simp: result_simps)
  show ?case
  proof (cases ls)
    case Nil
    then show ?thesis using r es by auto
  next
    case (Cons l' ls')
    then obtain h' rest' where "rest = (of_nat (Suc i) * DIFFICULTY_PERIOD, h') # rest'"
      using r by (auto simp: result_simps)
    then show ?thesis using Cons.IH [OF r] es by (simp add: algebra_simps)
  qed
qed simp

end
