(* ===== verification/Btc_Chain.thy ===== *)
theory Btc_Chain
  imports Btc_Validation
begin

text \<open>
  \<open>crates/core/src/btc.rs\<close>: connecting headers to the fork tree, choosing the best chain by
  work, advancing the finalized checkpoint, and the queries on the canonical chain.
\<close>

definition FINALITY_MARGIN_BLOCKS :: u64 where
  "FINALITY_MARGIN_BLOCKS = DIFFICULTY_PERIOD"

record connect_outcome =
  co_connected :: nat
  co_prev_best :: "u64 option"
  co_best :: "u64 option"
  co_tip_height :: u64
  co_finalized :: "u64 option"

section \<open>Queries\<close>

definition tip_height_of :: "btc_store \<Rightarrow> u64 option" where
  "tip_height_of st = (case best_fork st of None \<Rightarrow> None | Some f \<Rightarrow> map_option fst (fork_tip st f))"

definition chainwork :: "btc_store \<Rightarrow> u256 option core" where
  "chainwork st = (case best_fork st of None \<Rightarrow> Inr None | Some b \<Rightarrow> fork_chainwork st b)"

definition chainwork_at :: "btc_store \<Rightarrow> u64 \<Rightarrow> u256 option core" where
  "chainwork_at st height = (case best_fork st of None \<Rightarrow> Inr None | Some b \<Rightarrow> work_at st b height)"

definition btc_tail_work :: "btc_store \<Rightarrow> u64 \<Rightarrow> u256 option core" where
  "btc_tail_work st tail_start = (case best_fork st of
     None \<Rightarrow> Inr None
   | Some b \<Rightarrow>
       bindE (work_at st b tail_start) (\<lambda>w1.
       bindE (work_at st b (sat_add tail_start DIFFICULTY_PERIOD)) (\<lambda>w2.
         case (w1, w2) of (Some begin_w, Some end_w) \<Rightarrow> Inr (Some (end_w - begin_w)) | _ \<Rightarrow> Inr None)))"

partial_function (option) checkpoints_loop ::
  "btc_store \<Rightarrow> u64 \<Rightarrow> u64 \<Rightarrow> u64 \<Rightarrow> (u64 \<times> btc_header) list core option" where
  "checkpoints_loop st b fin height =
    (if height \<le> fin then
       (case header_at st b height of
          Inl e \<Rightarrow> Some (Inl e)
        | Inr oh \<Rightarrow>
            Option.bind (checkpoints_loop st b fin (height + DIFFICULTY_PERIOD)) (\<lambda>rest.
              Some (bindE rest (\<lambda>hs. Inr (case oh of Some h \<Rightarrow> (height, h) # hs | None \<Rightarrow> hs)))))
     else Some (Inr []))"

definition finalized_checkpoints :: "btc_store \<Rightarrow> (u64 \<times> btc_header) list core" where
  "finalized_checkpoints st = (case finalized_height st of
     None \<Rightarrow> Inr []
   | Some fin \<Rightarrow> (case best_fork st of
       None \<Rightarrow> Inr []
     | Some b \<Rightarrow> (case checkpoints_loop st b fin 0 of None \<Rightarrow> Inl Diverges | Some r \<Rightarrow> r)))"

definition header_at_best :: "btc_store \<Rightarrow> u64 \<Rightarrow> btc_header option core" where
  "header_at_best st height = (case best_fork st of None \<Rightarrow> Inr None | Some b \<Rightarrow> header_at st b height)"

partial_function (option) canonical_loop :: "btc_store \<Rightarrow> u64 \<Rightarrow> u64 \<Rightarrow> u64 \<Rightarrow> bool option" where
  "canonical_loop st fork height f =
    (case fork_meta_of st f of
       None \<Rightarrow> Some False
     | Some m \<Rightarrow>
         if fork = f then Some (height \<ge> fm_forkpoint m)
         else (case fm_parent m of None \<Rightarrow> Some False | Some p \<Rightarrow> canonical_loop st fork height p))"

definition is_canonical_at :: "btc_store \<Rightarrow> u64 \<Rightarrow> u64 \<Rightarrow> bool core" where
  "is_canonical_at st fork height = (case best_fork st of
     None \<Rightarrow> Inr False
   | Some b \<Rightarrow> if fork = b then Inr True else of_option Diverges (canonical_loop st fork height b))"

definition height_of :: "btc_store \<Rightarrow> b256 \<Rightarrow> u64 option core" where
  "height_of st h = (case locate st h of
     None \<Rightarrow> Inr None
   | Some (fork, height) \<Rightarrow>
       bindE (is_canonical_at st fork height) (\<lambda>c. Inr (if c then Some height else None)))"

section \<open>Validating a run\<close>

definition at_height :: "btc_store \<Rightarrow> u64 \<Rightarrow> u64 \<Rightarrow> btc_header list \<Rightarrow> u64 \<Rightarrow> btc_header option core" where
  "at_height st target fp new height =
    (if height \<ge> fp \<and> unat (height - fp) < length new then Inr (Some (new ! unat (height - fp)))
     else header_at st target height)"

fun mtp_times :: "(u64 \<Rightarrow> btc_header option core) \<Rightarrow> u64 \<Rightarrow> nat list \<Rightarrow> u32 list option core" where
  "mtp_times at height [] = Inr (Some [])"
| "mtp_times at height (k # ks) =
    (if unat height < 1 + k then Inr None
     else bindE (at (height - of_nat (1 + k))) (\<lambda>oh. case oh of
       None \<Rightarrow> Inr None
     | Some h \<Rightarrow> bindE (mtp_times at height ks) (\<lambda>ts. Inr (map_option (\<lambda>t. bh_time h # t) ts))))"

definition median_time_past_at :: "(u64 \<Rightarrow> btc_header option core) \<Rightarrow> u64 \<Rightarrow> u32 option core" where
  "median_time_past_at at height =
     bindE (mtp_times at height [0..<MEDIAN_TIME_PAST]) (\<lambda>ts. Inr (map_option median_time_past ts))"

definition check_difficulty ::
  "btc_lib \<Rightarrow> network \<Rightarrow> (u64 \<Rightarrow> btc_header option core) \<Rightarrow> u64 \<Rightarrow> btc_header \<Rightarrow> unit core" where
  "check_difficulty L net at height h =
    (if enforces_difficulty L net then
       bindE (at (height - 1)) (\<lambda>op.
       bindE (of_option (Internal ''missing parent'') op) (\<lambda>par.
       bindE (if height \<ge> DIFFICULTY_PERIOD then at (height - DIFFICULTY_PERIOD) else Inr None) (\<lambda>ps.
         case expected_bits L net height par ps of
           None \<Rightarrow> Inr ()
         | Some e \<Rightarrow> ensure (bh_bits h = e) (BadDifficulty height e (bh_bits h)))))
     else Inr ())"

definition check_time :: "(u64 \<Rightarrow> btc_header option core) \<Rightarrow> u64 \<Rightarrow> btc_header \<Rightarrow> unit core" where
  "check_time at height h = bindE (median_time_past_at at height) (\<lambda>om. case om of
     None \<Rightarrow> Inr ()
   | Some median \<Rightarrow> ensure (\<not> bh_time h \<le> median) (BadTimestamp height median (bh_time h)))"

fun validate_run ::
  "btc_lib \<Rightarrow> network \<Rightarrow> (u64 \<Rightarrow> btc_header option core) \<Rightarrow> u64 \<Rightarrow> b256 \<Rightarrow> btc_header list \<Rightarrow> unit core" where
  "validate_run L net at height prev [] = Inr ()"
| "validate_run L net at height prev (h # hs) =
    bindE (ensure (bh_prev h = prev) (LinkBreak height prev)) (\<lambda>_.
    bindE (check_difficulty L net at height h) (\<lambda>_.
    bindE (check_time at height h) (\<lambda>_.
    bindE (ensure (bl_pow_ok L h) (BadPow height)) (\<lambda>_.
      validate_run L net at (height + 1) (bl_block_hash L h) hs))))"

section \<open>Connecting\<close>

fun run_entries :: "btc_lib \<Rightarrow> u64 \<Rightarrow> u256 \<Rightarrow> btc_header list \<Rightarrow> (u64 \<times> btc_header \<times> u256) list" where
  "run_entries L height cum [] = []"
| "run_entries L height cum (h # hs) =
    (let cum' = cum + bl_to_work L h in (height, h, cum') # run_entries L (height + 1) cum' hs)"

definition tip_or_zero :: "btc_store \<Rightarrow> u64 \<Rightarrow> u64" where
  "tip_or_zero st f = (case fork_tip st f of Some (h, _) \<Rightarrow> h | None \<Rightarrow> 0)"

definition choose_target ::
  "btc_lib \<Rightarrow> btc_store \<Rightarrow> u64 \<Rightarrow> u64 \<Rightarrow> btc_header \<Rightarrow> (u64 \<times> u64 \<times> btc_store) core" where
  "choose_target L st parent_fork parent_height first_new =
    (if parent_height = tip_or_zero st parent_fork then Inr (parent_fork, parent_height + 1, st)
     else
       let fp = parent_height + 1 in
       bindE (case finalized_height st of
           Some fin \<Rightarrow> ensure (\<not> fp \<le> fin) (ForkBelowFinalized fp fin)
         | None \<Rightarrow> Inr ()) (\<lambda>_.
         let (fork_id, st1) = create_fork parent_fork fp (bl_block_hash L first_new) st
         in Inr (fork_id, fp, st1)))"

definition work_or_zero :: "btc_store \<Rightarrow> u64 \<Rightarrow> u256 core" where
  "work_or_zero st f = bindE (fork_chainwork st f) (\<lambda>w. Inr (case w of Some v \<Rightarrow> v | None \<Rightarrow> 0))"

definition reselect :: "u64 \<Rightarrow> btc_store \<Rightarrow> (u64 \<times> btc_store) core" where
  "reselect target st =
    (let best = (case best_fork st of Some b \<Rightarrow> b | None \<Rightarrow> 0) in
     bindE (work_or_zero st best) (\<lambda>best_work.
     bindE (work_or_zero st target) (\<lambda>target_work.
       if target \<noteq> best \<and> target_work > best_work then Inr (target, set_best_fork target st)
       else Inr (best, st))))"

definition root_work :: "btc_store \<Rightarrow> u64 \<Rightarrow> u256 core" where
  "root_work st height =
     bindE (work_at st 0 height) (of_option (Internal ''no cumulative work at height''))"

definition finalize_in_txn :: "btc_store \<Rightarrow> (u64 option \<times> btc_store) core" where
  "finalize_in_txn st =
    (if best_fork st \<noteq> Some 0 then Inr (None, st)
     else (case fork_tip st 0 of
       None \<Rightarrow> Inr (None, st)
     | Some (tip, _) \<Rightarrow>
         if tip < FINALITY_MARGIN_BLOCKS then Inr (None, st)
         else
           let boundary = ((tip - FINALITY_MARGIN_BLOCKS) div DIFFICULTY_PERIOD) * DIFFICULTY_PERIOD;
               cur = (case finalized_height st of Some h \<Rightarrow> h | None \<Rightarrow> 0)
           in if boundary \<le> cur then Inr (None, st)
              else
                bindE (root_work st boundary) (\<lambda>wb.
                bindE (root_work st (boundary - DIFFICULTY_PERIOD)) (\<lambda>wp.
                bindE (root_work st tip) (\<lambda>wt.
                bindE (root_work st boundary) (\<lambda>wb2.
                  if wt - wb2 < wb - wp then Inr (None, st)
                  else Inr (Some boundary, set_finalized boundary st)))))))"

definition unchanged_outcome :: "btc_store \<Rightarrow> connect_outcome" where
  "unchanged_outcome st = \<lparr> co_connected = 0, co_prev_best = best_fork st, co_best = best_fork st,
     co_tip_height = (case best_fork st of Some f \<Rightarrow> tip_or_zero st f | None \<Rightarrow> 0),
     co_finalized = None \<rparr>"

definition known_prefix :: "btc_lib \<Rightarrow> btc_store \<Rightarrow> btc_header list \<Rightarrow> nat" where
  "known_prefix L st hs = length (takeWhile (\<lambda>h. locate st (bl_block_hash L h) \<noteq> None) hs)"

definition connect_txn ::
  "btc_lib \<Rightarrow> network \<Rightarrow> btc_header list \<Rightarrow> btc_store \<Rightarrow> (connect_outcome \<times> btc_store) core" where
  "connect_txn L net hs st =
    bindE (case stored_network L st of
        Some seeded \<Rightarrow> ensure (seeded = net) (NetworkMismatch seeded net)
      | None \<Rightarrow> Inr ()) (\<lambda>_.
    if hs = [] then Inr (unchanged_outcome st, st)
    else
      let start = known_prefix L st hs in
      if start = length hs then Inr (unchanged_outcome st, st)
      else
        let par = (if start = 0 then bh_prev (hs ! 0) else bl_block_hash L (hs ! (start - 1)));
            new = drop start hs in
        bindE (of_option (UnknownAncestor par) (locate st par)) (\<lambda>(parent_fork, parent_height).
        bindE (choose_target L st parent_fork parent_height (hs ! start)) (\<lambda>(target, fp, st1).
        bindE (validate_run L net (at_height st1 target fp new) fp par new) (\<lambda>_.
        bindE (bindE (work_at st1 parent_fork parent_height) (of_option (Internal ''no work''))) (\<lambda>base.
        bindE (put_headers L target (run_entries L fp base new) st1) (\<lambda>st2.
        bindE (reselect target st2) (\<lambda>(best, st3).
        let tip = (case best_fork st of
                     Some _ \<Rightarrow> tip_or_zero st3 best
                   | None \<Rightarrow> fp + of_nat (length new) - 1) in
        bindE (finalize_in_txn st3) (\<lambda>(fin, st4).
          Inr (\<lparr> co_connected = length new, co_prev_best = best_fork st, co_best = Some best,
                 co_tip_height = tip, co_finalized = fin \<rparr>, st4)))))))))"

text \<open>The transaction commits only on success; any error leaves the store as it was.\<close>

definition connect_headers ::
  "btc_lib \<Rightarrow> network \<Rightarrow> btc_header list \<Rightarrow> btc_store \<Rightarrow> connect_outcome core \<times> btc_store" where
  "connect_headers L net hs st = (case connect_txn L net hs st of
     Inl e \<Rightarrow> (Inl e, st)
   | Inr (out, st') \<Rightarrow> (Inr out, st'))"

definition connect_header ::
  "btc_lib \<Rightarrow> network \<Rightarrow> btc_header \<Rightarrow> btc_store \<Rightarrow> connect_outcome core \<times> btc_store" where
  "connect_header L net h st = connect_headers L net [h] st"

definition finalize_period :: "btc_store \<Rightarrow> u64 option core \<times> btc_store" where
  "finalize_period st = (case finalize_in_txn st of
     Inl e \<Rightarrow> (Inl e, st)
   | Inr (Some height, st') \<Rightarrow> (Inr (Some height), st')
   | Inr (None, _) \<Rightarrow> (Inr None, st))"

definition is_canonical :: "btc_lib \<Rightarrow> btc_store \<Rightarrow> u64 \<Rightarrow> b256 \<Rightarrow> bool core" where
  "is_canonical L st height hash = (case best_fork st of
     None \<Rightarrow> Inr False
   | Some b \<Rightarrow> bindE (header_at st b height) (\<lambda>h. Inr (case h of Some h \<Rightarrow> bl_block_hash L h = hash | None \<Rightarrow> False)))"

definition seed_checkpoints ::
  "btc_lib \<Rightarrow> network \<Rightarrow> (u64 \<times> btc_header) list \<Rightarrow> btc_store \<Rightarrow> unit core \<times> btc_store" where
  "seed_checkpoints L net entries st = (case seed_checkpoints_txn L entries st of
     Inl e \<Rightarrow> (Inl e, st)
   | Inr st' \<Rightarrow> (Inr (), set_network L net st'))"

definition header_work :: "btc_lib \<Rightarrow> btc_header \<Rightarrow> u256" where
  "header_work L h = bl_to_work L h"

end
