(* ===== verification/Btc_Invariant.thy ===== *)
theory Btc_Invariant
  imports Btc_Chain
begin

text \<open>
  The invariant of the fork tree and its preservation: parents have smaller ids and start
  lower, every row lies within its fork, every hash location points at a row with that hash, and
  every row above the seeded spine links to its predecessor, carries its work on top of it and
  meets its proof of work.
\<close>

section \<open>Frame lemmas\<close>

lemma meta_put_meta [simp]: "fork_meta_of (put_meta k v st) f = fork_meta_of st f"
  "bs_headers (put_meta k v st) = bs_headers st" "bs_hash_loc (put_meta k v st) = bs_hash_loc st"
  "bs_spine (put_meta k v st) = bs_spine st" "bs_forks (put_meta k v st) = bs_forks st"
  by (simp_all add: put_meta_def fork_meta_of_def)

lemma meta_u64_put_meta [simp]:
  "meta_u64 (put_meta k v st) k' = (if k' = k then meta_as_u64 v else meta_u64 st k')"
  by (simp add: meta_u64_def put_meta_def)

lemma put_row_frame [simp]:
  "fork_meta_of (put_row L f h bh c st) g = fork_meta_of st g"
  "bs_meta (put_row L f h bh c st) = bs_meta st" "bs_forks (put_row L f h bh c st) = bs_forks st"
  "bs_spine (put_row L f h bh c st) = bs_spine st"
  by (simp_all add: put_row_def fork_meta_of_def)

lemma put_spine_frame [simp]:
  "fork_meta_of (put_spine h bh st) g = fork_meta_of st g"
  "bs_meta (put_spine h bh st) = bs_meta st" "bs_forks (put_spine h bh st) = bs_forks st"
  "bs_headers (put_spine h bh st) = bs_headers st" "bs_hash_loc (put_spine h bh st) = bs_hash_loc st"
  by (simp_all add: put_spine_def fork_meta_of_def)

lemma put_fork_frame [simp]:
  "bs_meta (put_fork f m st) = bs_meta st" "bs_headers (put_fork f m st) = bs_headers st"
  "bs_hash_loc (put_fork f m st) = bs_hash_loc st" "bs_spine (put_fork f m st) = bs_spine st"
  by (simp_all add: put_fork_def)

lemma fork_meta_put_fork [simp]:
  "fork_meta_of (put_fork f m st) g =
     (if g = f then Some (fork_from_bytes (fork_as_bytes m)) else fork_meta_of st g)"
  by (simp add: put_fork_def fork_meta_of_def)

lemma meta_u64_frame [simp]:
  "meta_u64 (put_fork f m st) k = meta_u64 st k"
  "meta_u64 (put_row L f h bh c st) k = meta_u64 st k"
  "meta_u64 (put_spine h bh st) k = meta_u64 st k"
  by (simp_all add: meta_u64_def)

section \<open>The forest\<close>

definition forest_ok :: "btc_store \<Rightarrow> bool" where
  "forest_ok st \<longleftrightarrow>
     (\<exists>n. meta_u64 st META_NEXT_FORK = Some n \<and> (\<forall>f m. fork_meta_of st f = Some m \<longrightarrow> f < n)) \<and>
     (\<forall>f m. fork_meta_of st f = Some m \<longrightarrow>
        (case fm_parent m of
           None \<Rightarrow> f = 0 \<and> fm_forkpoint m = 0
         | Some p \<Rightarrow> p < f \<and> (\<exists>pm. fork_meta_of st p = Some pm \<and>
             fm_forkpoint pm < fm_forkpoint m \<and> fm_forkpoint m \<le> fm_tip_height pm)))"

lemma forest_root:
  assumes "forest_ok st" "fork_meta_of st f = Some m" "fm_parent m = None"
  shows "f = 0" "fm_forkpoint m = 0"
  using assms unfolding forest_ok_def by fastforce+

lemma forest_parent:
  assumes "forest_ok st" "fork_meta_of st f = Some m" "fm_parent m = Some p"
  obtains pm where "p < f" "fork_meta_of st p = Some pm" "fm_forkpoint pm < fm_forkpoint m"
    "fm_forkpoint m \<le> fm_tip_height pm"
  using assms unfolding forest_ok_def by fastforce

lemma owner_total:
  assumes "forest_ok st" and "fork_meta_of st f = Some m"
  shows "\<exists>ow mo. owner_loop st h f = Some (Some ow) \<and> fork_meta_of st ow = Some mo \<and>
    fm_forkpoint mo \<le> h \<and> ow \<le> f \<and>
    (ow \<noteq> f \<longrightarrow> h < fm_tip_height mo \<and> h < fm_forkpoint m)"
  using assms(2)
proof (induction "unat f" arbitrary: f m rule: less_induct)
  case less
  show ?case
  proof (cases "h \<ge> fm_forkpoint m")
    case True
    then show ?thesis using less.prems by (simp add: owner_loop.simps)
  next
    case low: False
    show ?thesis
    proof (cases "fm_parent m")
      case None
      then show ?thesis using forest_root [OF assms(1) less.prems None] low by simp
    next
      case (Some p)
      obtain pm where p: "p < f" "fork_meta_of st p = Some pm" "fm_forkpoint pm < fm_forkpoint m"
        "fm_forkpoint m \<le> fm_tip_height pm"
        using forest_parent [OF assms(1) less.prems Some] by blast
      have "unat p < unat f" using p(1) by (simp add: word_less_nat_alt)
      from less.hyps [OF this p(2)] obtain ow mo where o: "owner_loop st h p = Some (Some ow)"
        "fork_meta_of st ow = Some mo" "fm_forkpoint mo \<le> h" "ow \<le> p"
        "ow \<noteq> p \<longrightarrow> h < fm_tip_height mo \<and> h < fm_forkpoint pm" by blast
      have "h < fm_tip_height mo"
      proof (cases "ow = p")
        case True
        then show ?thesis using o(2) p(2,4) low by simp
      qed (use o in blast)
      moreover have "owner_loop st h f = Some (Some ow)"
        using less.prems low Some o(1) by (simp add: owner_loop.simps [of st h f])
      ultimately show ?thesis using o p(1) low by auto
    qed
  qed
qed

lemma owner_own: "fork_meta_of st f = Some m \<Longrightarrow> fm_forkpoint m \<le> h \<Longrightarrow> owner_loop st h f = Some (Some f)"
  by (simp add: owner_loop.simps)

text \<open>Two stores whose forks up to \<open>f\<close> have the same forkpoints and parents resolve heights on
  \<open>f\<close> alike.\<close>

definition fork_shape :: "btc_store \<Rightarrow> u64 \<Rightarrow> (u64 \<times> u64 option) option" where
  "fork_shape st f = map_option (\<lambda>m. (fm_forkpoint m, fm_parent m)) (fork_meta_of st f)"

lemma owner_cong:
  assumes "forest_ok st" and "fork_meta_of st f = Some m" and "\<And>g. g \<le> f \<Longrightarrow> fork_shape st' g = fork_shape st g"
  shows "owner_loop st' h f = owner_loop st h f"
  using assms(2,3)
proof (induction "unat f" arbitrary: f m rule: less_induct)
  case less
  have "fork_shape st' f = fork_shape st f" using less.prems(2) [of f] by simp
  then obtain m' where m': "fork_meta_of st' f = Some m'" "fm_forkpoint m' = fm_forkpoint m"
    "fm_parent m' = fm_parent m"
    using less.prems(1) by (auto simp: fork_shape_def)
  show ?case
  proof (cases "fm_parent m")
    case None
    then show ?thesis using m' less.prems(1) by (simp add: owner_loop.simps [of _ h f])
  next
    case (Some p)
    obtain pm where p: "p < f" "fork_meta_of st p = Some pm"
      using forest_parent [OF assms(1) less.prems(1) Some] by blast
    have "unat p < unat f" using p(1) by (simp add: word_less_nat_alt)
    moreover have "fork_shape st' g = fork_shape st g" if "g \<le> p" for g
      using less.prems(2) [of g] that p(1) by simp
    ultimately have "owner_loop st' h p = owner_loop st h p"
      using less.hyps p(2) by blast
    then show ?thesis using m' less.prems(1) Some by (simp add: owner_loop.simps [of _ h f])
  qed
qed

text \<open>The row of a chain at a height.\<close>

definition chain_row :: "btc_store \<Rightarrow> u64 \<Rightarrow> u64 \<Rightarrow> btc_row option" where
  "chain_row st f h = (case owner_loop st h f of Some (Some ow) \<Rightarrow> bs_headers st (ow, h) | _ \<Rightarrow> None)"

lemma header_at_chain_row:
  assumes "forest_ok st" "fork_meta_of st f = Some m"
  shows "header_at st f h = Inr (map_option row_header (chain_row st f h))"
    and "work_at st f h = Inr (map_option row_work (chain_row st f h))"
  using owner_total [OF assms, of h]
  by (auto simp: header_at_def work_at_def chain_row_def owner_fork_def of_option_def)

section \<open>The rows\<close>

definition rows_ok :: "btc_lib \<Rightarrow> u64 \<Rightarrow> btc_store \<Rightarrow> bool" where
  "rows_ok L base st \<longleftrightarrow>
     (\<forall>f h r. bs_headers st (f, h) = Some r \<longrightarrow>
        (\<exists>m. fork_meta_of st f = Some m \<and> fm_forkpoint m \<le> h \<and> h \<le> fm_tip_height m)) \<and>
     (\<forall>bh f h. bs_hash_loc st bh = Some (f, h) \<longrightarrow>
        (\<exists>r. bs_headers st (f, h) = Some r \<and> bl_block_hash L (row_header r) = bh)) \<and>
     (\<forall>f m. fork_meta_of st f = Some m \<longrightarrow>
        (\<exists>r. bs_headers st (f, fm_tip_height m) = Some r \<and> bl_block_hash L (row_header r) = fm_tip_hash m)) \<and>
     (\<forall>f h r. bs_headers st (f, h) = Some r \<and> (f \<noteq> 0 \<or> h > base) \<longrightarrow>
        0 < h \<and> bl_pow_ok L (row_header r) \<and>
        (\<exists>q. chain_row st f (h - 1) = Some q \<and> bh_prev (row_header r) = bl_block_hash L (row_header q) \<and>
             row_work r = row_work q + bl_to_work L (row_header r)))"

definition chain_inv :: "btc_lib \<Rightarrow> u64 \<Rightarrow> btc_store \<Rightarrow> bool" where
  "chain_inv L base st \<longleftrightarrow> forest_ok st \<and> rows_ok L base st \<and>
     (\<exists>b m. best_fork st = Some b \<and> fork_meta_of st b = Some m) \<and>
     (\<exists>m. fork_meta_of st 0 = Some m \<and> base \<le> fm_tip_height m)"

section \<open>Storing a run\<close>

definition run_work :: "btc_lib \<Rightarrow> u256 \<Rightarrow> btc_header list \<Rightarrow> nat \<Rightarrow> u256" where
  "run_work L bw new i = bw + sum_list (map (bl_to_work L) (take (Suc i) new))"

definition run_row :: "btc_lib \<Rightarrow> u256 \<Rightarrow> btc_header list \<Rightarrow> nat \<Rightarrow> btc_row" where
  "run_row L bw new i = \<lparr> row_header = new ! i, row_work = run_work L bw new i \<rparr>"

lemma run_work_0: "new \<noteq> [] \<Longrightarrow> run_work L bw new 0 = bw + bl_to_work L (new ! 0)"
  by (cases new) (simp_all add: run_work_def)

lemma run_work_Suc: "Suc i < length new \<Longrightarrow>
    run_work L bw new (Suc i) = run_work L bw new i + bl_to_work L (new ! Suc i)"
  by (simp add: run_work_def take_Suc_conv_app_nth add.assoc)

lemma run_entries_map:
  "run_entries L height cum hs =
     map (\<lambda>i. (height + of_nat i, hs ! i, run_work L cum hs i)) [0..<length hs]"
proof (induction hs arbitrary: height cum)
  case (Cons h hs)
  have "map (\<lambda>i. (height + of_nat i, (h # hs) ! i, run_work L cum (h # hs) i)) [0..<length (h # hs)]
      = (height, h, cum + bl_to_work L h) #
        map (\<lambda>i. (height + of_nat (Suc i), hs ! i, run_work L cum (h # hs) (Suc i))) [0..<length hs]"
    by (simp add: upt_conv_Cons map_Suc_upt [symmetric] run_work_def del: upt_Suc)
  then show ?case using Cons [of "height + 1" "cum + bl_to_work L h"]
    by (simp add: Let_def run_work_def add.assoc)
qed simp

lemma put_headers_loop_frame [simp]:
  "fork_meta_of (put_headers_loop L f es st) g = fork_meta_of st g"
  "bs_meta (put_headers_loop L f es st) = bs_meta st"
  by (induction L f es st rule: put_headers_loop.induct) (simp_all add: Let_def)

lemma put_headers_loop_headers:
  "bs_headers (put_headers_loop L f es st) =
     bs_headers st ++ map_of (rev (map (\<lambda>(ht, h, c). ((f, ht), \<lparr> row_header = h, row_work = c \<rparr>)) es))"
proof (induction L f es st rule: put_headers_loop.induct)
  case (2 L f height h cum es st)
  then show ?case by (auto simp: Let_def put_row_def map_add_def fun_eq_iff split: option.splits)
qed simp

lemma put_headers_loop_hash_loc:
  "bs_hash_loc (put_headers_loop L f es st) =
     bs_hash_loc st ++ map_of (rev (map (\<lambda>(ht, h, c). (bl_block_hash L h, (f, ht))) es))"
proof (induction L f es st rule: put_headers_loop.induct)
  case (2 L f height h cum es st)
  then show ?case by (auto simp: Let_def put_row_def map_add_def fun_eq_iff split: option.splits)
qed simp

text \<open>Heights of a run that stays below \<open>2 ^ 64\<close>.\<close>

lemma unat_height:
  assumes "unat fp + n \<le> 2 ^ 64" "i < n"
  shows "unat (fp + of_nat i :: u64) = unat fp + i"
proof -
  have "unat (of_nat i :: u64) = i" using assms by (intro unat_of_nat_u64) simp
  then show ?thesis using assms by (subst unat_add_exact) simp_all
qed

lemma height_index:
  assumes "unat fp + n \<le> 2 ^ 64" "i < n"
  shows "fp \<le> fp + of_nat i" "unat (fp + of_nat i - fp :: u64) = i"
proof -
  show "fp \<le> fp + of_nat i" using unat_height [OF assms] by (simp add: word_le_nat_alt)
  then show "unat (fp + of_nat i - fp) = i" using assms by (simp add: unat_of_nat_u64)
qed

lemma index_height:
  fixes fp k :: u64
  assumes "fp \<le> k"
  shows "fp + of_nat (unat (k - fp)) = k"
  by simp

lemma run_lookup:
  assumes "unat fp + length new \<le> 2 ^ 64"
  shows "map_of (rev (map (\<lambda>(ht, h, c). ((f, ht), \<lparr> row_header = h, row_work = c \<rparr>))
           (run_entries L fp bw new))) (g, k) =
    (if g = f \<and> fp \<le> k \<and> unat (k - fp) < length new then Some (run_row L bw new (unat (k - fp))) else None)"
proof -
  let ?ps = "map (\<lambda>i. ((f, fp + of_nat i :: u64), run_row L bw new i)) [0..<length new]"
  have ps: "map (\<lambda>(ht, h, c). ((f, ht), \<lparr> row_header = h, row_work = c \<rparr>)) (run_entries L fp bw new) = ?ps"
    by (simp add: run_entries_map run_row_def comp_def)
  have inj: "inj_on (\<lambda>i. (f, fp + of_nat i :: u64)) {0..<length new}"
  proof (rule inj_onI)
    fix i j assume ij: "i \<in> {0..<length new}" "j \<in> {0..<length new}"
      and eq: "(f, fp + of_nat i :: u64) = (f, fp + of_nat j)"
    have "unat (fp + of_nat i) = unat (fp + of_nat j)" by (rule arg_cong [OF Pair_inject [OF eq]])
    moreover have "unat (fp + of_nat i) = unat fp + i" "unat (fp + of_nat j) = unat fp + j"
      using ij by (auto intro!: unat_height [OF assms])
    ultimately show "i = j" by linarith
  qed
  then have dist: "distinct (map fst (rev ?ps))"
    by (simp add: rev_map [symmetric] comp_def distinct_map)
  show ?thesis
  proof (cases "g = f \<and> fp \<le> k \<and> unat (k - fp) < length new")
    case True
    then have "((g, k), run_row L bw new (unat (k - fp))) \<in> set (rev ?ps)"
      by (auto intro!: image_eqI [of _ _ "unat (k - fp)"] simp: index_height)
    then show ?thesis unfolding ps using dist True by (simp add: map_of_eq_Some_iff del: map_map)
  next
    case False
    have "(g, k) \<notin> fst ` set (rev ?ps)"
    proof
      assume "(g, k) \<in> fst ` set (rev ?ps)"
      then obtain i where "i < length new" "g = f" "k = fp + of_nat i" by auto
      then show False using False height_index [OF assms, of i] by simp
    qed
    then show ?thesis unfolding ps using False by (simp only: map_of_eq_None_iff [symmetric] if_False)
  qed
qed

lemma run_hash_lookup:
  assumes "map_of (rev (map (\<lambda>(ht, h, c). (bl_block_hash L h, (f, ht))) (run_entries L fp bw new))) bh = Some x"
  shows "\<exists>i < length new. bl_block_hash L (new ! i) = bh \<and> x = (f, fp + of_nat i)"
  using map_of_SomeD [OF assms] by (auto simp: run_entries_map)

text \<open>Room for the ids and heights a batch of \<open>n\<close> headers uses.\<close>

definition roomy :: "btc_store \<Rightarrow> nat \<Rightarrow> bool" where
  "roomy st n \<longleftrightarrow> (\<forall>i. meta_u64 st META_NEXT_FORK = Some i \<longrightarrow> i < max_val) \<and>
     (\<forall>f m. fork_meta_of st f = Some m \<longrightarrow> unat (fm_tip_height m) + n < 2 ^ 64 - 1)"

text \<open>The store after a run \<open>new\<close> was put on fork \<open>t\<close> on top of the row \<open>r\<close> at \<open>(pf, ph)\<close>:
  either \<open>t\<close> is \<open>pf\<close> and \<open>ph\<close> its tip, or \<open>t\<close> is a fresh fork starting just above \<open>ph\<close>.\<close>

definition run_appended ::
  "btc_lib \<Rightarrow> btc_store \<Rightarrow> u64 \<Rightarrow> u64 \<Rightarrow> btc_row \<Rightarrow> u64 \<Rightarrow> btc_header list \<Rightarrow> btc_store \<Rightarrow> bool" where
  "run_appended L st pf ph r t new st2 \<longleftrightarrow>
     new \<noteq> [] \<and> unat ph + 1 + length new \<le> 2 ^ 64 \<and>
     bs_headers st (pf, ph) = Some r \<and>
     (\<exists>pm. fork_meta_of st pf = Some pm \<and> fm_forkpoint pm \<le> ph \<and> ph \<le> fm_tip_height pm \<and>
        (t = pf \<and> ph = fm_tip_height pm \<and> fork_shape st2 t = fork_shape st t \<or>
         fork_meta_of st t = None \<and> (\<forall>g m. fork_meta_of st g = Some m \<longrightarrow> g < t) \<and>
         ph < fm_tip_height pm \<and> fork_shape st2 t = Some (ph + 1, Some pf))) \<and>
     (\<exists>m2. fork_meta_of st2 t = Some m2 \<and> fm_tip_height m2 = ph + 1 + of_nat (length new - 1) \<and>
        fm_tip_hash m2 = bl_block_hash L (last new)) \<and>
     (\<forall>g. g \<noteq> t \<longrightarrow> fork_meta_of st2 g = fork_meta_of st g) \<and>
     (\<forall>g k. bs_headers st2 (g, k) =
        (if g = t \<and> ph + 1 \<le> k \<and> unat (k - (ph + 1)) < length new
         then Some (run_row L (row_work r) new (unat (k - (ph + 1)))) else bs_headers st (g, k))) \<and>
     (\<forall>bh x. bs_hash_loc st2 bh = Some x \<longrightarrow> bs_hash_loc st bh = Some x \<or>
        (\<exists>i < length new. bl_block_hash L (new ! i) = bh \<and> x = (t, ph + 1 + of_nat i))) \<and>
     best_fork st2 = best_fork st \<and> finalized_height st2 = finalized_height st \<and>
     (\<exists>n. meta_u64 st2 META_NEXT_FORK = Some n \<and> (\<forall>f m. fork_meta_of st2 f = Some m \<longrightarrow> f < n))"

lemma chain_inv_row:
  assumes "chain_inv L base st" "locate st bh = Some (f, h)"
  obtains r m where "bs_headers st (f, h) = Some r" "bl_block_hash L (row_header r) = bh"
    "fork_meta_of st f = Some m" "fm_forkpoint m \<le> h" "h \<le> fm_tip_height m"
proof -
  obtain r where r: "bs_headers st (f, h) = Some r" "bl_block_hash L (row_header r) = bh"
    using assms unfolding chain_inv_def rows_ok_def locate_def by blast
  moreover obtain m where "fork_meta_of st f = Some m" "fm_forkpoint m \<le> h" "h \<le> fm_tip_height m"
    using assms(1) r(1) unfolding chain_inv_def rows_ok_def by blast
  ultimately show thesis by (rule that)
qed

lemma choose_target_cases:
  assumes "choose_target L st pf ph h0 = Inr (t, fp, st1)"
  shows "fp = ph + 1" and
    "(ph = tip_or_zero st pf \<and> t = pf \<and> st1 = st) \<or>
     (ph \<noteq> tip_or_zero st pf \<and> (\<forall>fin. finalized_height st = Some fin \<longrightarrow> fin < fp) \<and>
      (t, st1) = create_fork pf fp (bl_block_hash L h0) st)"
  using assms
  by (auto simp: choose_target_def Let_def result_simps not_le split: if_splits prod.splits option.splits)

lemma tip_or_zero_meta: "fork_meta_of st f = Some m \<Longrightarrow> tip_or_zero st f = fm_tip_height m"
  by (simp add: tip_or_zero_def fork_tip_def)

lemma put_headers_effect:
  assumes put: "put_headers L t (run_entries L fp bw new) st1 = Inr st2" and new: "new \<noteq> []"
    and m1: "fork_meta_of st1 t = Some m1" "fm_parent m1 \<noteq> Some NO_PARENT"
    and room: "unat fp + length new \<le> 2 ^ 64"
  shows "\<exists>m2. fork_meta_of st2 t = Some m2 \<and> fm_tip_height m2 = fp + of_nat (length new - 1) \<and>
        fm_tip_hash m2 = bl_block_hash L (last new)"
    and "fork_shape st2 t = fork_shape st1 t"
    and "\<forall>g. g \<noteq> t \<longrightarrow> fork_meta_of st2 g = fork_meta_of st1 g"
    and "\<forall>g k. bs_headers st2 (g, k) =
        (if g = t \<and> fp \<le> k \<and> unat (k - fp) < length new
         then Some (run_row L bw new (unat (k - fp))) else bs_headers st1 (g, k))"
    and "\<forall>bh x. bs_hash_loc st2 bh = Some x \<longrightarrow> bs_hash_loc st1 bh = Some x \<or>
        (\<exists>i < length new. bl_block_hash L (new ! i) = bh \<and> x = (t, fp + of_nat i))"
    and "bs_meta st2 = bs_meta st1"
proof -
  let ?es = "run_entries L fp bw new"
  have ne: "?es \<noteq> []" using new by (simp add: run_entries_map)
  have last: "last ?es = (fp + of_nat (length new - 1), last new, run_work L bw new (length new - 1))"
    using new by (simp add: run_entries_map last_map last_conv_nth)
  define m where "m = m1\<lparr> fm_tip_height := fp + of_nat (length new - 1),
      fm_tip_hash := bl_block_hash L (last new), fm_tip_work := run_work L bw new (length new - 1) \<rparr>"
  have st2: "st2 = put_fork t m (put_headers_loop L t ?es st1)"
    using put ne m1 by (simp add: put_headers_def last Let_def m_def)
  have par: "fm_parent m \<noteq> Some NO_PARENT" using m1(2) by (simp add: m_def)
  show "\<exists>m2. fork_meta_of st2 t = Some m2 \<and> fm_tip_height m2 = fp + of_nat (length new - 1) \<and>
        fm_tip_hash m2 = bl_block_hash L (last new)"
    unfolding st2 by (simp add: codec) (simp add: m_def)
  show "fork_shape st2 t = fork_shape st1 t"
    unfolding st2 fork_shape_def using m1 par by (simp add: codec) (simp add: m_def)
  show "\<forall>g. g \<noteq> t \<longrightarrow> fork_meta_of st2 g = fork_meta_of st1 g" unfolding st2 by simp
  show "\<forall>g k. bs_headers st2 (g, k) =
        (if g = t \<and> fp \<le> k \<and> unat (k - fp) < length new
         then Some (run_row L bw new (unat (k - fp))) else bs_headers st1 (g, k))"
    unfolding st2 by (simp add: put_headers_loop_headers map_add_def run_lookup [OF room])
  show "\<forall>bh x. bs_hash_loc st2 bh = Some x \<longrightarrow> bs_hash_loc st1 bh = Some x \<or>
        (\<exists>i < length new. bl_block_hash L (new ! i) = bh \<and> x = (t, fp + of_nat i))"
  proof (intro allI impI)
    fix bh x assume "bs_hash_loc st2 bh = Some x"
    then have "map_of (rev (map (\<lambda>(ht, h, c). (bl_block_hash L h, (t, ht))) ?es)) bh = Some x \<or>
        bs_hash_loc st1 bh = Some x"
      unfolding st2 by (simp add: put_headers_loop_hash_loc map_add_Some_iff) blast
    then show "bs_hash_loc st1 bh = Some x \<or>
        (\<exists>i < length new. bl_block_hash L (new ! i) = bh \<and> x = (t, fp + of_nat i))"
    proof (elim disjE)
      assume m: "map_of (rev (map (\<lambda>(ht, h, c). (bl_block_hash L h, (t, ht))) ?es)) bh = Some x"
      show ?thesis using run_hash_lookup [OF m] by (rule disjI2)
    qed (rule disjI1)
  qed
  show "bs_meta st2 = bs_meta st1" unfolding st2 by simp
qed

lemma connect_appends:
  assumes inv: "chain_inv L base st" and loc: "locate st par = Some (pf, ph)"
    and tgt: "choose_target L st pf ph h0 = Inr (t, fp, st1)"
    and wrk: "work_at st1 pf ph = Inr (Some bw)"
    and put: "put_headers L t (run_entries L fp bw new) st1 = Inr st2"
    and new: "new \<noteq> []" and room: "roomy st (length new)"
  shows "\<exists>r. run_appended L st pf ph r t new st2 \<and> fp = ph + 1 \<and> row_work r = bw \<and>
      bl_block_hash L (row_header r) = par"
proof -
  obtain r pm where r: "bs_headers st (pf, ph) = Some r" "bl_block_hash L (row_header r) = par"
    and pm: "fork_meta_of st pf = Some pm" "fm_forkpoint pm \<le> ph" "ph \<le> fm_tip_height pm"
    using chain_inv_row [OF inv loc] by blast
  have fok: "forest_ok st" using inv by (simp add: chain_inv_def)
  obtain n where n: "meta_u64 st META_NEXT_FORK = Some n" "\<forall>f m. fork_meta_of st f = Some m \<longrightarrow> f < n"
    using fok unfolding forest_ok_def by blast
  have nmax: "n < max_val" using room n(1) by (simp add: roomy_def)
  have hroom: "unat ph + 1 + length new \<le> 2 ^ 64"
  proof -
    have "unat (fm_tip_height pm) + length new < 2 ^ 64 - 1" using room pm(1) by (simp add: roomy_def)
    then show ?thesis using pm(3) by (simp add: word_le_nat_alt)
  qed
  have fp: "fp = ph + 1" using choose_target_cases(1) [OF tgt] .
  have ufp: "unat fp = unat ph + 1"
    unfolding fp using hroom new by (subst unat_add_exact) (cases new; simp)+
  have froom: "unat fp + length new \<le> 2 ^ 64" using ufp hroom by simp
  have tip: "tip_or_zero st pf = fm_tip_height pm" using pm(1) by (rule tip_or_zero_meta)
  have own: "owner_loop st ph pf = Some (Some pf)" using pm(1,2) by (rule owner_own)
  have pfn: "pf < n" using n(2) pm(1) by blast
  have pf_max: "Some pf \<noteq> Some NO_PARENT" using pfn nmax by (simp add: NO_PARENT_def)
  show ?thesis
  proof (cases "ph = tip_or_zero st pf")
    case True
    then have t: "t = pf" "st1 = st" using choose_target_cases(2) [OF tgt] by auto
    have par_ok: "fm_parent pm \<noteq> Some NO_PARENT"
    proof
      assume "fm_parent pm = Some NO_PARENT"
      then obtain pm' where "NO_PARENT < pf" using forest_parent [OF fok pm(1)] by blast
      then show False by (simp add: NO_PARENT_def not_less word_n1_ge)
    qed
    have bw: "row_work r = bw"
      using wrk own r(1) t by (simp add: work_at_def owner_fork_def of_option_def)
    note eff = put_headers_effect [OF put new, unfolded t, OF pm(1) par_ok froom]
    have nx: "meta_u64 st2 META_NEXT_FORK = Some n" "best_fork st2 = best_fork st"
        "finalized_height st2 = finalized_height st"
      using eff(6) n(1) by (simp_all add: meta_u64_def best_fork_def finalized_height_def)
    have lt: "\<forall>f m. fork_meta_of st2 f = Some m \<longrightarrow> f < n"
      using eff(3) n(2) pfn by metis
    show ?thesis
      unfolding run_appended_def
      using new hroom r pm True tip t eff nx lt bw fp by (intro exI [of _ r]) auto
  next
    case False
    have cf: "(t, st1) = create_fork pf fp (bl_block_hash L h0) st"
      using choose_target_cases(2) [OF tgt] False by blast
    define m1 where "m1 = \<lparr> fm_forkpoint = fp, fm_parent = Some pf, fm_forkpoint_hash = bl_block_hash L h0,
      fm_tip_height = sat_sub fp 1, fm_tip_hash = 0, fm_tip_work = 0 \<rparr>"
    have t: "t = n" and st1: "st1 = put_fork n m1 (put_meta META_NEXT_FORK (MU64 (n + 1)) st)"
      using cf n(1) by (simp_all add: create_fork_def Let_def m1_def)
    have fm1: "fork_meta_of st1 t = Some (fork_from_bytes (fork_as_bytes m1))"
      by (simp add: st1 t)
    have shape1: "fm_parent (fork_from_bytes (fork_as_bytes m1)) = Some pf"
        "fm_forkpoint (fork_from_bytes (fork_as_bytes m1)) = fp"
      using pf_max by (simp_all add: codec m1_def)
    have fresh: "fork_meta_of st n = None" using n(2) by (metis less_irrefl not_Some_eq)
    have pfn': "pf \<noteq> n" using pfn by simp
    have "owner_loop st1 ph pf = Some (Some pf)"
      by (rule owner_own [of _ _ pm]) (use pm pfn' in \<open>simp_all add: st1\<close>)
    then have bw: "row_work r = bw"
      using wrk r(1) by (simp add: work_at_def owner_fork_def of_option_def st1)
    have "fm_parent (fork_from_bytes (fork_as_bytes m1)) \<noteq> Some NO_PARENT" using shape1 pf_max by simp
    note eff = put_headers_effect [OF put new fm1 this froom]
    have shape: "fork_shape st2 t = Some (ph + 1, Some pf)"
      using eff(2) fm1 shape1 fp by (simp add: fork_shape_def)
    have nx: "meta_u64 st2 META_NEXT_FORK = Some (n + 1)" "best_fork st2 = best_fork st"
        "finalized_height st2 = finalized_height st"
      using eff(6) by (simp_all add: meta_u64_def best_fork_def finalized_height_def st1 put_meta_def put_fork_def)
    have nsuc: "n < n + 1"
    proof -
      have "unat n < 2 ^ 64 - 1" using nmax by (simp add: word_less_nat_alt unat_max_val)
      then have "unat (n + 1) = unat n + 1" by (subst unat_add_exact) simp_all
      then show ?thesis by (simp add: word_less_nat_alt)
    qed
    have metas: "\<forall>g. g \<noteq> t \<longrightarrow> fork_meta_of st2 g = fork_meta_of st g"
      using eff(3) by (simp add: st1 t)
    have lt: "\<forall>f m. fork_meta_of st2 f = Some m \<longrightarrow> f < n + 1"
      using metas n(2) nsuc t by (metis less_trans)
    have rows: "bs_headers st1 = bs_headers st" "bs_hash_loc st1 = bs_hash_loc st" by (simp_all add: st1)
    have phlt: "ph < fm_tip_height pm" using False tip pm(3) by simp
    show ?thesis
      unfolding run_appended_def
      using new hroom r pm phlt fresh n(2) shape eff(1,4,5) metas nx lt bw fp rows t
      by (intro exI [of _ r]) (simp add: Suc_le_eq)
  qed
qed

section \<open>A run keeps the invariant\<close>

lemma appended_height:
  assumes "run_appended L st pf ph r t new st2"
  shows "unat (ph + 1) = unat ph + 1" and "k \<le> ph \<Longrightarrow> \<not> ph + 1 \<le> k"
    and "unat (ph + 1) + length new \<le> 2 ^ 64"
proof -
  have a: "unat ph + 1 + length new \<le> 2 ^ 64" "new \<noteq> []" using assms by (auto simp: run_appended_def)
  then have "0 < length new" by simp
  with a(1) have "unat ph + 1 < 2 ^ 64" by linarith
  then show u: "unat (ph + 1) = unat ph + 1" by (subst unat_add_exact) simp_all
  then show "k \<le> ph \<Longrightarrow> \<not> ph + 1 \<le> k" by (simp add: word_le_nat_alt)
  show "unat (ph + 1) + length new \<le> 2 ^ 64" using a(1) u by simp
qed

lemma appended_shape:
  assumes "run_appended L st pf ph r t new st2"
  obtains (extend) pm where "t = pf" "fork_meta_of st pf = Some pm" "ph = fm_tip_height pm"
      "fm_forkpoint pm \<le> ph" "\<And>g. fork_shape st2 g = fork_shape st g"
  | (branch) pm where "fork_meta_of st t = None" "\<And>g m. fork_meta_of st g = Some m \<Longrightarrow> g < t"
      "fork_meta_of st pf = Some pm" "fm_forkpoint pm \<le> ph" "ph < fm_tip_height pm"
      "fork_shape st2 t = Some (ph + 1, Some pf)" "\<And>g. g \<noteq> t \<Longrightarrow> fork_shape st2 g = fork_shape st g"
proof -
  have same: "fork_shape st2 g = fork_shape st g" if "g \<noteq> t" for g
    using assms that by (simp add: run_appended_def fork_shape_def)
  obtain pm where pm: "fork_meta_of st pf = Some pm" "fm_forkpoint pm \<le> ph"
    "t = pf \<and> ph = fm_tip_height pm \<and> fork_shape st2 t = fork_shape st t \<or>
     fork_meta_of st t = None \<and> (\<forall>g m. fork_meta_of st g = Some m \<longrightarrow> g < t) \<and>
     ph < fm_tip_height pm \<and> fork_shape st2 t = Some (ph + 1, Some pf)"
    using assms by (auto simp: run_appended_def)
  show thesis
  proof (cases "t = pf \<and> ph = fm_tip_height pm \<and> fork_shape st2 t = fork_shape st t")
    case True
    then have "fork_shape st2 g = fork_shape st g" for g using same by metis
    then show thesis using True pm by (intro extend) auto
  next
    case False
    then show thesis using pm same by (intro branch) auto
  qed
qed

lemma appended_rows:
  assumes "run_appended L st pf ph r t new st2"
  shows "bs_headers st2 (g, k) =
        (if g = t \<and> ph + 1 \<le> k \<and> unat (k - (ph + 1)) < length new
         then Some (run_row L (row_work r) new (unat (k - (ph + 1)))) else bs_headers st (g, k))"
  using assms unfolding run_appended_def by blast

lemma appended_owner_old:
  assumes app: "run_appended L st pf ph r t new st2" and fok: "forest_ok st"
    and g: "fork_meta_of st g = Some m"
  shows "owner_loop st2 k g = owner_loop st k g"
  using app
proof (cases rule: appended_shape)
  case (extend pm)
  show ?thesis by (rule owner_cong [OF fok g]) (rule extend(5))
next
  case (branch pm)
  have "fork_shape st2 i = fork_shape st i" if "i \<le> g" for i
    using branch(2) [OF g] that by (intro branch(7)) auto
  then show ?thesis by (rule owner_cong [OF fok g])
qed

lemma appended_chain_row_old:
  assumes app: "run_appended L st pf ph r t new st2" and fok: "forest_ok st"
    and g: "fork_meta_of st g = Some m" and low: "g = t \<Longrightarrow> k \<le> ph"
  shows "chain_row st2 g k = chain_row st g k"
proof -
  obtain ow mo where o: "owner_loop st k g = Some (Some ow)" "fork_meta_of st ow = Some mo"
    "ow \<noteq> g \<longrightarrow> k < fm_tip_height mo"
    using owner_total [OF fok g, of k] by blast
  have "bs_headers st2 (ow, k) = bs_headers st (ow, k)"
  proof (cases "ow = t")
    case True
    have "k \<le> ph"
      using app
    proof (cases rule: appended_shape)
      case (extend pm)
      then show ?thesis using o True low by (cases "ow = g") auto
    next
      case (branch pm)
      then show ?thesis using True o(2) by simp
    qed
    then show ?thesis using appended_height(2) [OF app] by (simp add: appended_rows [OF app])
  qed (simp add: appended_rows [OF app])
  then show ?thesis using o(1) by (simp add: chain_row_def appended_owner_old [OF app fok g])
qed

lemma appended_chain_row_below:
  assumes app: "run_appended L st pf ph r t new st2" and fok: "forest_ok st" and low: "k \<le> ph"
  shows "chain_row st2 t k = chain_row st pf k"
  using app
proof (cases rule: appended_shape)
  case (extend pm)
  then show ?thesis using appended_chain_row_old [OF app fok extend(2)] low by simp
next
  case (branch pm)
  obtain m2 where m2: "fork_meta_of st2 t = Some m2" "fm_forkpoint m2 = ph + 1" "fm_parent m2 = Some pf"
    using branch(6) by (auto simp: fork_shape_def)
  have "\<not> k \<ge> fm_forkpoint m2" using appended_height(2) [OF app low] m2 by simp
  then have "owner_loop st2 k t = owner_loop st2 k pf"
    using m2 by (simp add: owner_loop.simps [of st2 k t])
  moreover have "chain_row st2 pf k = chain_row st pf k"
    using appended_chain_row_old [OF app fok branch(3)] low by simp
  ultimately show ?thesis by (simp add: chain_row_def)
qed

lemma appended_meta:
  assumes app: "run_appended L st pf ph r t new st2"
  obtains m2 where "fork_meta_of st2 t = Some m2" "fm_tip_height m2 = ph + 1 + of_nat (length new - 1)"
    "fm_tip_hash m2 = bl_block_hash L (last new)" "fm_forkpoint m2 \<le> ph + 1"
    "unat (fm_tip_height m2) = unat ph + length new"
proof -
  obtain m2 where m2: "fork_meta_of st2 t = Some m2" "fm_tip_height m2 = ph + 1 + of_nat (length new - 1)"
    "fm_tip_hash m2 = bl_block_hash L (last new)"
    using app by (auto simp: run_appended_def)
  have "fm_forkpoint m2 \<le> ph + 1"
    using app
  proof (cases rule: appended_shape)
    case (extend pm)
    have "fm_forkpoint m2 = fm_forkpoint pm"
      using extend(5) [of t] m2(1) extend(1,2) by (simp add: fork_shape_def)
    then show ?thesis using extend(4) appended_height(1) [OF app] by (simp add: word_le_nat_alt)
  next
    case (branch pm)
    then show ?thesis using m2(1) by (simp add: fork_shape_def)
  qed
  moreover have "0 < length new" using app by (simp add: run_appended_def)
  then have "unat (fm_tip_height m2) = unat ph + length new"
    using unat_height [OF appended_height(3) [OF app], of "length new - 1"] m2(2)
      appended_height(1) [OF app] by simp
  ultimately show thesis using m2 by (intro that) auto
qed

lemma appended_chain_row_new:
  assumes app: "run_appended L st pf ph r t new st2" and i: "i < length new"
  shows "chain_row st2 t (ph + 1 + of_nat i) = Some (run_row L (row_work r) new i)"
proof -
  obtain m2 where m2: "fork_meta_of st2 t = Some m2" "fm_forkpoint m2 \<le> ph + 1"
    using appended_meta [OF app] by blast
  note h = height_index [OF appended_height(3) [OF app] i]
  have "fm_forkpoint m2 \<le> ph + 1 + of_nat i" using m2(2) h(1) by (rule order_trans)
  then have "owner_loop st2 (ph + 1 + of_nat i) t = Some (Some t)" using m2(1) by (intro owner_own)
  then show ?thesis using h i by (simp add: chain_row_def appended_rows [OF app])
qed

lemma appended_forest:
  assumes app: "run_appended L st pf ph r t new st2" and fok: "forest_ok st"
  shows "forest_ok st2"
  unfolding forest_ok_def
proof (intro conjI allI impI)
  show "\<exists>n. meta_u64 st2 META_NEXT_FORK = Some n \<and> (\<forall>f m. fork_meta_of st2 f = Some m \<longrightarrow> f < n)"
    using app unfolding run_appended_def by blast
next
  fix f m assume fm: "fork_meta_of st2 f = Some m"
  obtain m2 where m2: "fork_meta_of st2 t = Some m2" "unat (fm_tip_height m2) = unat ph + length new"
    using appended_meta [OF app] by blast
  have other: "fork_meta_of st2 g = fork_meta_of st g" if "g \<noteq> t" for g
    using app that by (simp add: run_appended_def)
  have grown: "\<exists>pm'. fork_meta_of st2 p = Some pm' \<and> fm_forkpoint pm' = fm_forkpoint pm \<and>
      fm_tip_height pm \<le> fm_tip_height pm'" if "fork_meta_of st p = Some pm" for p pm
  proof (cases "p = t")
    case True
    from app show ?thesis
    proof (cases rule: appended_shape)
      case (extend pm')
      then show ?thesis using True that m2 extend(5) [of t]
        by (auto simp: fork_shape_def word_le_nat_alt)
    next
      case (branch pm')
      then show ?thesis using True that by simp
    qed
  qed (simp add: other that)
  have old: "case fm_parent m of None \<Rightarrow> f = 0 \<and> fm_forkpoint m = 0
      | Some p \<Rightarrow> p < f \<and> (\<exists>pm. fork_meta_of st2 p = Some pm \<and>
          fm_forkpoint pm < fm_forkpoint m \<and> fm_forkpoint m \<le> fm_tip_height pm)"
    if mo: "fork_meta_of st f = Some mo" "fm_parent m = fm_parent mo" "fm_forkpoint m = fm_forkpoint mo" for mo
  proof (cases "fm_parent mo")
    case None
    then show ?thesis using forest_root [OF fok mo(1)] mo by simp
  next
    case (Some p)
    then obtain pm where "p < f" "fork_meta_of st p = Some pm" "fm_forkpoint pm < fm_forkpoint mo"
      "fm_forkpoint mo \<le> fm_tip_height pm"
      using forest_parent [OF fok mo(1)] by blast
    then show ?thesis using grown [of p pm] Some mo by fastforce
  qed
  show "case fm_parent m of None \<Rightarrow> f = 0 \<and> fm_forkpoint m = 0
      | Some p \<Rightarrow> p < f \<and> (\<exists>pm. fork_meta_of st2 p = Some pm \<and>
          fm_forkpoint pm < fm_forkpoint m \<and> fm_forkpoint m \<le> fm_tip_height pm)"
  proof (cases "f = t")
    case False
    then show ?thesis using old [of m] other fm by simp
  next
    case True
    from app show ?thesis
    proof (cases rule: appended_shape)
      case (extend pm)
      then show ?thesis using old [of pm] fm True extend(5) [of t] by (simp add: fork_shape_def)
    next
      case (branch pm)
      then have "fm_forkpoint m = ph + 1" "fm_parent m = Some pf" using fm True by (simp_all add: fork_shape_def)
      moreover have "pf < t" using branch(2) branch(3) by blast
      moreover have "fork_meta_of st2 pf = Some pm" using other [of pf] branch(3) \<open>pf < t\<close> by simp
      ultimately show ?thesis using branch(4,5) True appended_height(1) [OF app]
        by (simp add: word_le_nat_alt word_less_nat_alt)
    qed
  qed
qed

lemma pred_le: "0 < h \<Longrightarrow> h - 1 \<le> h" for h :: u64
proof -
  assume "0 < h"
  then have "1 \<le> unat h" by (simp add: word_less_nat_alt)
  then have "unat (h - 1) = unat h - 1" by (subst unat_sub_exact) (simp_all add: word_le_nat_alt)
  then show ?thesis by (simp add: word_le_nat_alt)
qed

text \<open>What validation establishes of a run: it links, from the parent's hash on, and every header
  meets its proof of work.\<close>

definition run_linked :: "btc_lib \<Rightarrow> b256 \<Rightarrow> btc_header list \<Rightarrow> bool" where
  "run_linked L par new \<longleftrightarrow> (\<forall>i < length new.
     bh_prev (new ! i) = (if i = 0 then par else bl_block_hash L (new ! (i - 1))) \<and> bl_pow_ok L (new ! i))"

lemma validate_run_linked:
  assumes "validate_run L net at height prev new = Inr ()"
  shows "run_linked L prev new"
  using assms
proof (induction new arbitrary: height prev)
  case (Cons h hs)
  have "run_linked L (bl_block_hash L h) hs" "bh_prev h = prev" "bl_pow_ok L h"
    using Cons by (auto simp: result_simps)
  then show ?case unfolding run_linked_def by (auto simp: nth_Cons split: nat.splits)
qed (simp add: run_linked_def)

lemma appended_rows_ok:
  assumes app: "run_appended L st pf ph r t new st2" and fok: "forest_ok st" and ok: "rows_ok L base st"
    and linked: "run_linked L (bl_block_hash L (row_header r)) new"
  shows "rows_ok L base st2"
proof -
  obtain m2 where m2: "fork_meta_of st2 t = Some m2" "fm_tip_height m2 = ph + 1 + of_nat (length new - 1)"
      "fm_tip_hash m2 = bl_block_hash L (last new)" "fm_forkpoint m2 \<le> ph + 1"
      "unat (fm_tip_height m2) = unat ph + length new"
    using appended_meta [OF app] by blast
  note rows = appended_rows [OF app]
  have other: "fork_meta_of st2 g = fork_meta_of st g" if "g \<noteq> t" for g
    using app that by (simp add: run_appended_def)
  have ne: "new \<noteq> []" and r: "bs_headers st (pf, ph) = Some r" using app by (auto simp: run_appended_def)
  have old_low: "k \<le> ph" if row: "bs_headers st (t, k) = Some x" for k x
  proof -
    obtain m where m: "fork_meta_of st t = Some m" "k \<le> fm_tip_height m"
      using ok row unfolding rows_ok_def by blast
    from app show ?thesis
      by (cases rule: appended_shape) (use m in auto)
  qed
  have kept: "bs_headers st2 (g, k) = Some x" if "bs_headers st (g, k) = Some x" for g k x
    using that old_low appended_height(2) [OF app] by (cases "g = t") (auto simp: rows)
  have new_row: "bs_headers st2 (t, ph + 1 + of_nat i) = Some (run_row L (row_work r) new i)"
    if "i < length new" for i
    using height_index [OF appended_height(3) [OF app] that] that by (simp add: rows)
  have is_new: "\<exists>i < length new. k = ph + 1 + of_nat i \<and> x = run_row L (row_work r) new i"
    if "bs_headers st2 (g, k) = Some x" "\<not> bs_headers st (g, k) = Some x" for g k x
    using that index_height [of "ph + 1" k]
    by (auto simp: rows split: if_splits intro!: exI [of _ "unat (k - (ph + 1))"])
  have is_new_fork: "g = t" if "bs_headers st2 (g, k) = Some x" "\<not> bs_headers st (g, k) = Some x" for g k x
    using that by (auto simp: rows split: if_splits)
  have c1: "\<exists>m. fork_meta_of st2 f = Some m \<and> fm_forkpoint m \<le> h \<and> h \<le> fm_tip_height m"
    if x: "bs_headers st2 (f, h) = Some x" for f h x
  proof (cases "bs_headers st (f, h) = Some x")
    case True
    then obtain m where m: "fork_meta_of st f = Some m" "fm_forkpoint m \<le> h" "h \<le> fm_tip_height m"
      using ok unfolding rows_ok_def by blast
    show ?thesis
    proof (cases "f = t")
      case True
      have "fork_meta_of st t \<noteq> None" using m True by simp
      from app have "fm_forkpoint m2 = fm_forkpoint m \<and> h \<le> ph"
      proof (cases rule: appended_shape)
        case (extend pm)
        then show ?thesis using m True m2(1) extend(5) [of t] by (simp add: fork_shape_def)
      next
        case (branch pm)
        then show ?thesis using \<open>fork_meta_of st t \<noteq> None\<close> by simp
      qed
      then show ?thesis using m2 True m by (auto simp: word_le_nat_alt)
    qed (use m other in auto)
  next
    case False
    obtain i where i: "i < length new" "h = ph + 1 + of_nat i" using is_new [OF x False] by blast
    have "f = t" using is_new_fork [OF x False] .
    moreover have "fm_forkpoint m2 \<le> h"
      using m2(4) height_index(1) [OF appended_height(3) [OF app] i(1)] i(2) by (metis order_trans)
    moreover have "h \<le> fm_tip_height m2"
      using m2(5) i unat_height [OF appended_height(3) [OF app] i(1)] appended_height(1) [OF app]
      by (simp add: word_le_nat_alt)
    ultimately show ?thesis using m2(1) by blast
  qed
  have c2: "\<exists>x. bs_headers st2 (f, h) = Some x \<and> bl_block_hash L (row_header x) = bh"
    if "bs_hash_loc st2 bh = Some (f, h)" for bh f h
  proof -
    have "bs_hash_loc st bh = Some (f, h) \<or>
        (\<exists>i < length new. bl_block_hash L (new ! i) = bh \<and> (f, h) = (t, ph + 1 + of_nat i))"
      using app that unfolding run_appended_def by blast
    then show ?thesis
    proof
      assume "bs_hash_loc st bh = Some (f, h)"
      then obtain x where "bs_headers st (f, h) = Some x" "bl_block_hash L (row_header x) = bh"
        using ok unfolding rows_ok_def by blast
      then show ?thesis using kept by blast
    next
      assume "\<exists>i < length new. bl_block_hash L (new ! i) = bh \<and> (f, h) = (t, ph + 1 + of_nat i)"
      then show ?thesis using new_row by (auto simp: run_row_def)
    qed
  qed
  have c3: "\<exists>x. bs_headers st2 (f, fm_tip_height m) = Some x \<and> bl_block_hash L (row_header x) = fm_tip_hash m"
    if fm: "fork_meta_of st2 f = Some m" for f m
  proof (cases "f = t")
    case True
    then have "m = m2" using fm m2(1) by simp
    then show ?thesis using True m2(2,3) new_row [of "length new - 1"] ne
      by (simp add: run_row_def last_conv_nth)
  next
    case False
    then obtain x where "bs_headers st (f, fm_tip_height m) = Some x" "bl_block_hash L (row_header x) = fm_tip_hash m"
      using ok fm other unfolding rows_ok_def by metis
    then show ?thesis using kept by blast
  qed
  have c4: "0 < h \<and> bl_pow_ok L (row_header x) \<and>
      (\<exists>q. chain_row st2 f (h - 1) = Some q \<and> bh_prev (row_header x) = bl_block_hash L (row_header q) \<and>
           row_work x = row_work q + bl_to_work L (row_header x))"
    if x: "bs_headers st2 (f, h) = Some x" and above: "f \<noteq> 0 \<or> h > base" for f h x
  proof (cases "bs_headers st (f, h) = Some x")
    case True
    then obtain q m where q: "0 < h" "bl_pow_ok L (row_header x)" "chain_row st f (h - 1) = Some q"
        "bh_prev (row_header x) = bl_block_hash L (row_header q)"
        "row_work x = row_work q + bl_to_work L (row_header x)" "fork_meta_of st f = Some m"
      using ok above unfolding rows_ok_def by blast
    have "chain_row st2 f (h - 1) = chain_row st f (h - 1)"
    proof (rule appended_chain_row_old [OF app fok q(6)])
      assume "f = t"
      then have "h \<le> ph" using old_low True by blast
      moreover have "h - 1 \<le> h" using q(1) by (rule pred_le)
      ultimately show "h - 1 \<le> ph" by simp
    qed
    then show ?thesis using q by simp
  next
    case False
    obtain i where i: "i < length new" "h = ph + 1 + of_nat i" "x = run_row L (row_work r) new i"
      using is_new [OF x False] by blast
    have f: "f = t" using is_new_fork [OF x False] .
    have uh: "unat h = unat ph + 1 + i"
      using unat_height [OF appended_height(3) [OF app] i(1)] i(2) appended_height(1) [OF app] by simp
    have pos: "0 < h" using uh by (simp add: word_less_nat_alt)
    have "\<exists>q. chain_row st2 t (h - 1) = Some q \<and>
        bl_block_hash L (row_header q) = (if i = 0 then bl_block_hash L (row_header r) else bl_block_hash L (new ! (i - 1))) \<and>
        row_work x = row_work q + bl_to_work L (new ! i)"
    proof (cases i)
      case 0
      have "chain_row st2 t ph = chain_row st pf ph"
        by (rule appended_chain_row_below [OF app fok]) simp
      moreover have "chain_row st pf ph = Some r"
      proof -
        obtain pm where "fork_meta_of st pf = Some pm" "fm_forkpoint pm \<le> ph"
          using app by (auto simp: run_appended_def)
        then show ?thesis using r by (simp add: chain_row_def owner_own)
      qed
      moreover have "h - 1 = ph" using i(2) 0 by simp
      ultimately show ?thesis using 0 i(3) ne by (simp add: run_row_def run_work_0)
    next
      case (Suc j)
      have "h - 1 = ph + 1 + of_nat j" using i(2) Suc by simp
      then have "chain_row st2 t (h - 1) = Some (run_row L (row_work r) new j)"
        using appended_chain_row_new [OF app, of j] i(1) Suc by (simp only: Suc_lessD)
      then show ?thesis using Suc i(1,3) by (simp add: run_row_def run_work_Suc)
    qed
    moreover have "bh_prev (new ! i) = (if i = 0 then bl_block_hash L (row_header r) else bl_block_hash L (new ! (i - 1)))"
        "bl_pow_ok L (new ! i)"
      using linked i(1) by (auto simp: run_linked_def)
    moreover have "row_header x = new ! i" using i(3) by (simp add: run_row_def)
    ultimately show ?thesis using pos f by auto
  qed
  show ?thesis unfolding rows_ok_def using c1 c2 c3 c4 by blast
qed

lemma appended_inv:
  assumes app: "run_appended L st pf ph r t new st2" and inv: "chain_inv L base st"
    and linked: "run_linked L (bl_block_hash L (row_header r)) new"
  shows "chain_inv L base st2"
proof -
  have fok: "forest_ok st" and ok: "rows_ok L base st" using inv by (auto simp: chain_inv_def)
  obtain m2 where m2: "fork_meta_of st2 t = Some m2" "unat (fm_tip_height m2) = unat ph + length new"
    using appended_meta [OF app] by blast
  have other: "fork_meta_of st2 g = fork_meta_of st g" if "g \<noteq> t" for g
    using app that by (simp add: run_appended_def)
  obtain b mb where b: "best_fork st = Some b" "fork_meta_of st b = Some mb"
    using inv by (auto simp: chain_inv_def)
  have "best_fork st2 = Some b" using app b(1) by (simp add: run_appended_def)
  moreover have "\<exists>m. fork_meta_of st2 b = Some m" using other [of b] b(2) m2(1) by (cases "b = t") auto
  moreover obtain m0 where m0: "fork_meta_of st 0 = Some m0" "base \<le> fm_tip_height m0"
    using inv by (auto simp: chain_inv_def)
  have "\<exists>m. fork_meta_of st2 0 = Some m \<and> base \<le> fm_tip_height m"
  proof (cases "0 = t")
    case True
    from app have "fm_tip_height m0 = ph"
    proof (cases rule: appended_shape)
      case (extend pm)
      then show ?thesis using m0 True by simp
    next
      case (branch pm)
      then show ?thesis using m0 True by simp
    qed
    then show ?thesis using m0(2) m2 True by (auto simp: word_le_nat_alt)
  qed (use other [of 0] m0 in auto)
  ultimately show ?thesis
    using appended_forest [OF app fok] appended_rows_ok [OF app fok ok linked] by (simp add: chain_inv_def)
qed

end
