(* ===== verification/Btc_Properties.thy ===== *)
theory Btc_Properties
  imports Btc_Invariant
begin

text \<open>
  What connecting headers guarantees: the invariant of the fork tree, the validity of what was
  stored, the choice of the heaviest chain, the finalized checkpoint, and seeding.
\<close>

section \<open>Changes of the metadata\<close>

lemma owner_put_meta [simp]:
  assumes "forest_ok st"
  shows "owner_loop (put_meta k v st) h f = owner_loop st h f"
proof (cases "fork_meta_of st f")
  case None
  then show ?thesis by (simp add: owner_loop.simps [of _ h f])
next
  case (Some m)
  show ?thesis by (rule owner_cong [OF assms Some]) (simp add: fork_shape_def)
qed

lemma chain_row_put_meta [simp]: "forest_ok st \<Longrightarrow> chain_row (put_meta k v st) f h = chain_row st f h"
  by (simp add: chain_row_def cong: option.case_cong)

lemma rows_ok_put_meta:
  assumes "forest_ok st" "rows_ok L base st"
  shows "rows_ok L base (put_meta k v st)"
  using assms(2) unfolding rows_ok_def meta_put_meta chain_row_put_meta [OF assms(1)] .

lemma forest_ok_put_meta: "forest_ok st \<Longrightarrow> k \<noteq> META_NEXT_FORK \<Longrightarrow> forest_ok (put_meta k v st)"
  unfolding forest_ok_def meta_put_meta by simp

lemma reads_put_meta:
  assumes "forest_ok st"
  shows "header_at (put_meta k v st) f h = header_at st f h"
    and "work_at (put_meta k v st) f h = work_at st f h"
    and "fork_chainwork (put_meta k v st) f = fork_chainwork st f"
  using assms
  by (simp_all add: header_at_def work_at_def owner_fork_def fork_chainwork_def cong: option.case_cong)

lemma chain_inv_put_meta:
  assumes inv: "chain_inv L base st" and k: "k \<noteq> META_NEXT_FORK"
    and b: "k = META_BEST_FORK \<Longrightarrow> \<exists>f m. v = MU64 f \<and> fork_meta_of st f = Some m"
  shows "chain_inv L base (put_meta k v st)"
proof -
  have fok: "forest_ok st" using inv by (simp add: chain_inv_def)
  have "forest_ok (put_meta k v st)"
    using fok k by (rule forest_ok_put_meta)
  moreover have "rows_ok L base (put_meta k v st)"
    using inv rows_ok_put_meta [OF fok] by (simp add: chain_inv_def)
  moreover have "\<exists>b m. best_fork (put_meta k v st) = Some b \<and> fork_meta_of (put_meta k v st) b = Some m"
    using inv b by (auto simp: best_fork_def chain_inv_def)
  ultimately show ?thesis using inv by (simp add: chain_inv_def)
qed

lemma reselect_cases:
  assumes "reselect t st = Inr (best, st')"
  obtains (same) "st' = st" "best = (case best_fork st of Some b \<Rightarrow> b | None \<Rightarrow> 0)"
  | (switched) bw tw where "best = t" "st' = set_best_fork t st"
      "work_or_zero st (case best_fork st of Some b \<Rightarrow> b | None \<Rightarrow> 0) = Inr bw"
      "work_or_zero st t = Inr tw" "bw < tw" "t \<noteq> (case best_fork st of Some b \<Rightarrow> b | None \<Rightarrow> 0)"
  using assms by (auto simp: reselect_def Let_def result_simps split: if_splits)

lemma finalize_cases:
  assumes "finalize_in_txn st = Inr (fin, st')"
  obtains (none) "fin = None" "st' = st"
  | (advanced) b tip th wb wp wt where "fin = Some b" "st' = set_finalized b st" "best_fork st = Some 0"
      "fork_tip st 0 = Some (tip, th)" "DIFFICULTY_PERIOD \<le> tip"
      "b = ((tip - DIFFICULTY_PERIOD) div DIFFICULTY_PERIOD) * DIFFICULTY_PERIOD"
      "(case finalized_height st of Some h \<Rightarrow> h | None \<Rightarrow> 0) < b"
      "work_at st 0 b = Inr (Some wb)" "work_at st 0 (b - DIFFICULTY_PERIOD) = Inr (Some wp)"
      "work_at st 0 tip = Inr (Some wt)" "wb - wp \<le> wt - wb"
  using assms
  by (auto simp: finalize_in_txn_def FINALITY_MARGIN_BLOCKS_def Let_def root_work_def result_simps not_less not_le word_gt_0
      split: if_splits option.splits prod.splits)

lemma chain_inv_set_finalized: "chain_inv L base st \<Longrightarrow> chain_inv L base (set_finalized h st)"
  unfolding set_finalized_def by (rule chain_inv_put_meta) simp_all

lemma chain_inv_set_best:
  "chain_inv L base st \<Longrightarrow> fork_meta_of st f = Some m \<Longrightarrow> chain_inv L base (set_best_fork f st)"
  unfolding set_best_fork_def by (rule chain_inv_put_meta) simp_all

section \<open>The steps of a connect\<close>

text \<open>A successful connect either stored nothing, or went through these steps.\<close>

definition connect_steps ::
  "btc_lib \<Rightarrow> network \<Rightarrow> btc_header list \<Rightarrow> btc_store \<Rightarrow> connect_outcome \<Rightarrow> btc_store \<Rightarrow>
   btc_header list \<Rightarrow> b256 \<Rightarrow> u64 \<Rightarrow> u64 \<Rightarrow> u64 \<Rightarrow> btc_store \<Rightarrow> u256 \<Rightarrow> btc_store \<Rightarrow> u64 \<Rightarrow> btc_store \<Rightarrow> bool" where
  "connect_steps L net hs st out st' new par pf ph t st1 bw st2 best st3 \<longleftrightarrow>
     new = drop (known_prefix L st hs) hs \<and> new \<noteq> [] \<and>
     par = (if known_prefix L st hs = 0 then bh_prev (hs ! 0)
            else bl_block_hash L (hs ! (known_prefix L st hs - 1))) \<and>
     locate st par = Some (pf, ph) \<and>
     choose_target L st pf ph (hd new) = Inr (t, ph + 1, st1) \<and>
     validate_run L net (at_height st1 t (ph + 1) new) (ph + 1) par new = Inr () \<and>
     work_at st1 pf ph = Inr (Some bw) \<and>
     put_headers L t (run_entries L (ph + 1) bw new) st1 = Inr st2 \<and>
     reselect t st2 = Inr (best, st3) \<and>
     finalize_in_txn st3 = Inr (co_finalized out, st') \<and>
     co_connected out = length new \<and> co_prev_best out = best_fork st \<and> co_best out = Some best"

lemma connect_txn_cases:
  assumes "connect_txn L net hs st = Inr (out, st')"
  obtains (unchanged) "st' = st" "out = unchanged_outcome st"
  | (stored) new par pf ph t st1 bw st2 best st3 where
      "connect_steps L net hs st out st' new par pf ph t st1 bw st2 best st3"
proof (cases "hs = [] \<or> known_prefix L st hs = length hs")
  case True
  have "st' = st \<and> out = unchanged_outcome st"
    using assms True unfolding connect_txn_def Let_def bindE_Inr by (auto split: if_split_asm)
  then show thesis using unchanged by blast
next
  case False
  define start where "start = known_prefix L st hs"
  have "start \<le> length hs" by (simp add: start_def known_prefix_def length_takeWhile_le)
  then have lt: "start < length hs" using False by (simp add: start_def)
  then have hd: "hd (drop start hs) = hs ! start" by (rule hd_drop_conv_nth)
  have ne: "drop start hs \<noteq> []" using lt by simp
  from assms False obtain pf ph t fp st1 bw st2 best st3 fin where steps:
    "locate st (if start = 0 then bh_prev (hs ! 0) else bl_block_hash L (hs ! (start - 1))) = Some (pf, ph)"
    "choose_target L st pf ph (hs ! start) = Inr (t, fp, st1)"
    "validate_run L net (at_height st1 t fp (drop start hs)) fp
       (if start = 0 then bh_prev (hs ! 0) else bl_block_hash L (hs ! (start - 1))) (drop start hs) = Inr ()"
    "work_at st1 pf ph = Inr (Some bw)"
    "put_headers L t (run_entries L fp bw (drop start hs)) st1 = Inr st2"
    "reselect t st2 = Inr (best, st3)" "finalize_in_txn st3 = Inr (fin, st')"
    "co_connected out = length (drop start hs)" "co_prev_best out = best_fork st"
    "co_best out = Some best" "co_finalized out = fin"
    by (auto simp: connect_txn_def Let_def result_simps start_def [symmetric] split: prod.splits)
  have "fp = ph + 1" using choose_target_cases(1) [OF steps(2)] .
  with steps ne hd have "connect_steps L net hs st out st' (drop start hs)
      (if start = 0 then bh_prev (hs ! 0) else bl_block_hash L (hs ! (start - 1))) pf ph t st1 bw st2 best st3"
    by (simp add: connect_steps_def start_def [symmetric] del: length_drop)
  then show thesis by (rule stored)
qed

lemma known_prefix_le: "known_prefix L st hs \<le> length hs"
  by (simp add: known_prefix_def length_takeWhile_le)

lemma roomy_mono: "roomy st n \<Longrightarrow> k \<le> n \<Longrightarrow> roomy st k"
  by (auto simp: roomy_def) (meson add_left_mono le_less_trans)

lemma steps_append:
  assumes inv: "chain_inv L base st" and room: "roomy st (length hs)"
    and steps: "connect_steps L net hs st out st' new par pf ph t st1 bw st2 best st3"
  obtains r where "run_appended L st pf ph r t new st2" "row_work r = bw"
    "bl_block_hash L (row_header r) = par" "run_linked L par new" "chain_inv L base st2"
proof -
  have "roomy st (length new)" using steps by (intro roomy_mono [OF room]) (simp add: connect_steps_def)
  then obtain r where r: "run_appended L st pf ph r t new st2" "row_work r = bw"
      "bl_block_hash L (row_header r) = par"
    using connect_appends [OF inv] steps by (fastforce simp: connect_steps_def)
  have "validate_run L net (at_height st1 t (ph + 1) new) (ph + 1) par new = Inr ()"
    using steps unfolding connect_steps_def by blast
  then have lk: "run_linked L par new" by (rule validate_run_linked)
  have "chain_inv L base st2" using appended_inv [OF r(1) inv] r(3) lk by simp
  with r lk show thesis by (intro that)
qed

lemma steps_inv:
  assumes inv: "chain_inv L base st" and room: "roomy st (length hs)"
    and steps: "connect_steps L net hs st out st' new par pf ph t st1 bw st2 best st3"
  shows "chain_inv L base st3" and "chain_inv L base st'"
proof -
  obtain r where r: "run_appended L st pf ph r t new st2" and i2: "chain_inv L base st2"
    using steps_append [OF inv room steps] by blast
  obtain m2 where m2: "fork_meta_of st2 t = Some m2" using appended_meta [OF r] by blast
  have "reselect t st2 = Inr (best, st3)" using steps unfolding connect_steps_def by blast
  then show i3: "chain_inv L base st3"
    by (cases rule: reselect_cases) (use i2 m2 chain_inv_set_best in auto)
  have "finalize_in_txn st3 = Inr (co_finalized out, st')" using steps unfolding connect_steps_def by blast
  then show "chain_inv L base st'"
    by (cases rule: finalize_cases) (use i3 chain_inv_set_finalized in auto)
qed

section \<open>Validation against the stored chain\<close>

lemma at_height_stored:
  assumes inv: "chain_inv L base st" and room: "roomy st (length hs)"
    and steps: "connect_steps L net hs st out st' new par pf ph t st1 bw st2 best st3"
    and k: "k \<le> ph + of_nat (length new)"
  shows "at_height st1 t (ph + 1) new k = header_at st2 t k"
proof -
  obtain r where app: "run_appended L st pf ph r t new st2" and i2: "chain_inv L base st2"
    using steps_append [OF inv room steps] by blast
  have fok: "forest_ok st" "forest_ok st2" using inv i2 by (simp_all add: chain_inv_def)
  obtain m2 where m2: "fork_meta_of st2 t = Some m2" using appended_meta [OF app] by blast
  have len: "unat (ph + of_nat (length new)) = unat ph + length new"
  proof -
    have "new \<noteq> []" using app by (simp add: run_appended_def)
    moreover have "ph + 1 + of_nat (length new - 1) = ph + of_nat (length new)"
      using calculation by (cases new) simp_all
    ultimately show ?thesis
      using unat_height [OF appended_height(3) [OF app], of "length new - 1"] appended_height(1) [OF app]
      by (metis One_nat_def Suc_pred add.assoc diff_less length_greater_0_conv plus_1_eq_Suc zero_less_one)
  qed
  show ?thesis
  proof (cases "ph + 1 \<le> k")
    case True
    have "unat (k - (ph + 1)) < length new"
      using k True len appended_height(1) [OF app]
      by (simp add: unat_sub_exact word_le_nat_alt)
    then have "chain_row st2 t k = Some (run_row L (row_work r) new (unat (k - (ph + 1))))"
      using appended_chain_row_new [OF app, of "unat (k - (ph + 1))"] index_height [OF True] by simp
    then show ?thesis
      using True \<open>unat (k - (ph + 1)) < length new\<close> header_at_chain_row(1) [OF fok(2) m2, of k]
      by (simp add: at_height_def run_row_def)
  next
    case False
    have low: "k \<le> ph" using False appended_height(1) [OF app] by (simp add: word_le_nat_alt)
    have below: "header_at st2 t k = Inr (map_option row_header (chain_row st pf k))"
      using header_at_chain_row(1) [OF fok(2) m2] appended_chain_row_below [OF app fok(1) low] by simp
    have tgt: "choose_target L st pf ph (hd new) = Inr (t, ph + 1, st1)"
      using steps unfolding connect_steps_def by blast
    obtain pm where pm: "fork_meta_of st pf = Some pm" "fm_forkpoint pm \<le> ph"
      using app by (auto simp: run_appended_def)
    have "header_at st1 t k = Inr (map_option row_header (chain_row st pf k))"
    proof (cases "ph = tip_or_zero st pf")
      case True
      then have "t = pf" "st1 = st" using choose_target_cases(2) [OF tgt] by auto
      then show ?thesis using header_at_chain_row(1) [OF fok(1) pm(1)] by simp
    next
      case differs: False
      obtain n where n: "meta_u64 st META_NEXT_FORK = Some n" "\<forall>f m. fork_meta_of st f = Some m \<longrightarrow> f < n"
        using fok(1) unfolding forest_ok_def by blast
      have cf: "(t, st1) = create_fork pf (ph + 1) (bl_block_hash L (hd new)) st"
        using choose_target_cases(2) [OF tgt] differs by blast
      have pfn: "pf < n" using n(2) pm(1) by blast
      then have "Some pf \<noteq> Some NO_PARENT"
        by (metis NO_PARENT_def option.inject word_n1_ge leD)
      then obtain m1 where st1: "t = n" "bs_headers st1 = bs_headers st" "fork_meta_of st1 n = Some m1"
          "fm_parent m1 = Some pf" "fm_forkpoint m1 = ph + 1" "\<forall>g. g \<noteq> n \<longrightarrow> fork_meta_of st1 g = fork_meta_of st g"
        using cf n(1) by (auto simp: create_fork_def Let_def codec)
      have "owner_loop st1 k t = owner_loop st1 k pf"
        using st1 False by (simp add: owner_loop.simps [of st1 k n])
      also have "\<dots> = owner_loop st k pf"
      proof (rule owner_cong [OF fok(1) pm(1)])
        fix g assume "g \<le> pf"
        then have "g \<noteq> n" using pfn by auto
        then show "fork_shape st1 g = fork_shape st g" using st1(6) by (simp add: fork_shape_def)
      qed
      finally have "owner_loop st1 k t = owner_loop st k pf" .
      then show ?thesis
        using owner_total [OF fok(1) pm(1), of k]
        by (auto simp: header_at_def owner_fork_def of_option_def chain_row_def st1(2))
    qed
    then show ?thesis using False below by (simp add: at_height_def)
  qed
qed

lemma mtp_times_cong:
  assumes "\<And>k. k < height \<Longrightarrow> at1 k = at2 k"
  shows "mtp_times at1 height ks = mtp_times at2 height ks"
proof (induction ks)
  case (Cons k ks)
  show ?case
  proof (cases "unat height < 1 + k")
    case False
    have "unat (of_nat (1 + k) :: u64) = 1 + k"
      using False unat_bound_u64 [of height] by (intro unat_of_nat_u64) simp
    then have "unat (height - of_nat (1 + k)) = unat height - (1 + k)"
      using False by (subst unat_sub_exact) (simp_all add: word_le_nat_alt)
    then have "height - of_nat (1 + k) < height" using False by (simp add: word_less_nat_alt)
    then have "at1 (height - of_nat (1 + k)) = at2 (height - of_nat (1 + k))" by (rule assms)
    then show ?thesis by (simp only: mtp_times.simps Cons)
  qed (simp only: mtp_times.simps if_True)
qed simp

lemma checks_cong:
  assumes "\<And>k. k < height \<Longrightarrow> at1 k = at2 k" and "0 < height"
  shows "check_difficulty L net at1 height h = check_difficulty L net at2 height h"
    and "check_time at1 height h = check_time at2 height h"
proof -
  have "1 \<le> unat height" using assms(2) by (simp add: word_less_nat_alt)
  then have "unat (height - 1) = unat height - 1"
    by (subst unat_sub_exact) (simp_all add: word_le_nat_alt)
  then have "height - 1 < height" using \<open>1 \<le> unat height\<close> by (simp add: word_less_nat_alt)
  then have p: "at1 (height - 1) = at2 (height - 1)" by (rule assms(1))
  have q: "(if height \<ge> DIFFICULTY_PERIOD then at1 (height - DIFFICULTY_PERIOD) else Inr None) =
      (if height \<ge> DIFFICULTY_PERIOD then at2 (height - DIFFICULTY_PERIOD) else Inr None)"
  proof (cases "height \<ge> DIFFICULTY_PERIOD")
    case True
    then have "unat (height - DIFFICULTY_PERIOD) = unat height - 2016"
      by (simp add: unat_sub_exact DIFFICULTY_PERIOD_def)
    then have "height - DIFFICULTY_PERIOD < height"
      using \<open>1 \<le> unat height\<close> by (simp add: word_less_nat_alt)
    then show ?thesis using assms(1) by simp
  qed simp
  show "check_difficulty L net at1 height h = check_difficulty L net at2 height h"
    unfolding check_difficulty_def p q ..
  show "check_time at1 height h = check_time at2 height h"
    unfolding check_time_def median_time_past_at_def
    by (simp only: mtp_times_cong [of height at1 at2, OF assms(1)])
qed

lemma validate_run_checks:
  assumes "validate_run L net at height prev new = Inr ()" and "i < length new"
  shows "check_difficulty L net at (height + of_nat i) (new ! i) = Inr ()"
    and "check_time at (height + of_nat i) (new ! i) = Inr ()"
  using assms
proof (induction new arbitrary: height prev i)
  case (Cons h hs)
  {
    case 1
    then show ?case using Cons.IH(1) [of "height + 1"]
      by (cases i) (auto simp: result_simps algebra_simps)
  next
    case 2
    then show ?case using Cons.IH(2) [of "height + 1"]
      by (cases i) (auto simp: result_simps algebra_simps)
  }
qed simp_all

end
