(* ===== verification/Btc_Seed.thy ===== *)
theory Btc_Seed
  imports Btc_Properties
begin

text \<open>
  Seeding the checkpoint spine: the store it leaves satisfies the invariant, and carries at each
  spine height the work of the whole chain up to it.
\<close>

lemma work_scaled_from_eq: "work_scaled_from acc n w = acc + of_nat n * w"
  by (induction n arbitrary: acc) (simp_all add: algebra_simps)

lemma work_scaled_eq: "work_scaled w n = of_nat (unat n) * w"
  by (simp add: work_scaled_def work_scaled_from_eq)

text \<open>The work at the \<open>i\<close>-th spine height: a full period at each earlier boundary's
  difficulty, and the boundary block itself.\<close>

definition spine_work :: "u256 list \<Rightarrow> nat \<Rightarrow> u256" where
  "spine_work ws i = sum_list (map (\<lambda>w. 2016 * w) (take i ws)) + ws ! i"

fun seed_cums :: "btc_lib \<Rightarrow> bool \<Rightarrow> u256 \<Rightarrow> u256 \<Rightarrow> (u64 \<times> btc_header) list \<Rightarrow> u256 list" where
  "seed_cums L first cum prev_w [] = []"
| "seed_cums L first cum prev_w ((height, h) # es) =
    (let w = bl_to_work L h;
         cum' = (if first then w else cum + work_scaled prev_w (DIFFICULTY_PERIOD - 1) + w)
     in cum' # seed_cums L False cum' w es)"

lemma length_seed_cums [simp]: "length (seed_cums L first cum p es) = length es"
  by (induction L first cum p es rule: seed_cums.induct) (simp_all add: Let_def)

lemma seed_cums_nth_False:
  assumes "i < length es"
  shows "seed_cums L False (s + p) p es ! i =
    s + 2016 * p + spine_work (map (bl_to_work L \<circ> snd) es) i"
  using assms
proof (induction es arbitrary: i s p)
  case (Cons e es)
  obtain height h where e: "e = (height, h)" by (cases e)
  have c: "s + p + work_scaled p (DIFFICULTY_PERIOD - 1) = s + 2016 * p"
    by (simp add: work_scaled_eq DIFFICULTY_PERIOD_def)
  show ?case
  proof (cases i)
    case 0
    then show ?thesis using c by (simp add: e Let_def spine_work_def)
  next
    case (Suc j)
    have "seed_cums L False (s + p) p (e # es) ! i =
        seed_cums L False (s + 2016 * p + bl_to_work L h) (bl_to_work L h) es ! j"
      by (simp only: e Suc seed_cums.simps Let_def c nth_Cons_Suc if_False)
    also have "\<dots> = s + 2016 * p + 2016 * bl_to_work L h + spine_work (map (bl_to_work L \<circ> snd) es) j"
      using Cons.prems Suc by (intro Cons.IH) simp
    finally show ?thesis using Suc by (simp add: e spine_work_def add.assoc comp_def)
  qed
qed simp

lemma seed_cums_nth:
  assumes "i < length es"
  shows "seed_cums L True 0 0 es ! i = spine_work (map (bl_to_work L \<circ> snd) es) i"
proof (cases es)
  case (Cons e es')
  obtain height h where e: "e = (height, h)" by (cases e)
  show ?thesis
  proof (cases i)
    case 0
    then show ?thesis by (simp add: Cons e Let_def spine_work_def)
  next
    case (Suc j)
    have "seed_cums L False (0 + bl_to_work L h) (bl_to_work L h) es' ! j =
        0 + 2016 * bl_to_work L h + spine_work (map (bl_to_work L \<circ> snd) es') j"
      using assms Suc Cons by (intro seed_cums_nth_False) simp
    then show ?thesis using Suc by (simp add: Cons e Let_def spine_work_def add.assoc)
  qed
qed (use assms in simp)

definition seed_rows :: "u256 list \<Rightarrow> (u64 \<times> btc_header) list \<Rightarrow> ((u64 \<times> u64) \<times> btc_row) list" where
  "seed_rows cs es = map (\<lambda>(c, ht, h). ((0, ht), \<lparr> row_header = h, row_work = c \<rparr>)) (zip cs es)"

lemma seed_loop_frame:
  "fork_meta_of (snd (seed_loop L es first cum p st)) g = fork_meta_of st g"
  "bs_meta (snd (seed_loop L es first cum p st)) = bs_meta st"
  by (induction L es first cum p st rule: seed_loop.induct) (simp_all add: Let_def)

lemma seed_loop_rows:
  "bs_headers (snd (seed_loop L es first cum p st)) =
     bs_headers st ++ map_of (rev (seed_rows (seed_cums L first cum p es) es))"
proof (induction L es first cum p st rule: seed_loop.induct)
  case (2 L height h es first cum prev_w st)
  then show ?case
    by (auto simp: Let_def seed_rows_def put_row_def map_add_def fun_eq_iff split: option.splits)
qed (simp add: seed_rows_def)

lemma seed_loop_hash_loc:
  "bs_hash_loc (snd (seed_loop L es first cum p st)) =
     bs_hash_loc st ++ map_of (rev (map (\<lambda>(ht, h). (bl_block_hash L h, (0, ht))) es))"
proof (induction L es first cum p st rule: seed_loop.induct)
  case (2 L height h es first cum prev_w st)
  then show ?case
    by (auto simp: Let_def put_row_def map_add_def fun_eq_iff split: option.splits)
qed simp

lemma contiguous_distinct:
  assumes "sorted (map fst es)" "contiguous es"
  shows "distinct (map fst es)"
proof -
  have "sorted_wrt (<) (map fst es)"
    using assms
  proof (induction es rule: contiguous.induct)
    case (1 h1 a h2 b es)
    have le: "h1 \<le> h2" and h2: "h2 = h1 + DIFFICULTY_PERIOD" using 1 by auto
    have "h1 \<noteq> h2" by (simp add: h2 DIFFICULTY_PERIOD_def)
    with le have "h1 < h2" by simp
    moreover have "sorted_wrt (<) (map fst ((h2, b) # es))"
      by (rule "1.IH") (use "1.prems" in auto)
    ultimately show ?case by auto
  qed simp_all
  then show ?thesis by (simp add: strict_sorted_iff)
qed

lemma seed_rows_lookup:
  assumes "length cs = length es" "distinct (map fst es)" "i < length es"
  shows "map_of (rev (seed_rows cs es)) (0, fst (es ! i)) =
    Some \<lparr> row_header = snd (es ! i), row_work = cs ! i \<rparr>"
proof -
  have keys: "map fst (seed_rows cs es) = map (\<lambda>e. (0, fst e)) es"
    using assms(1) by (simp add: seed_rows_def case_prod_unfold comp_def map_zip_map2 map2_map_map [symmetric])
      (rule nth_equalityI; simp)
  have "distinct (map fst (rev (seed_rows cs es)))"
    using assms(2) by (simp add: rev_map [symmetric] keys distinct_map inj_on_def)
  moreover have "((0, fst (es ! i)), \<lparr> row_header = snd (es ! i), row_work = cs ! i \<rparr>) \<in> set (rev (seed_rows cs es))"
    using assms(1,3) by (auto simp: seed_rows_def set_zip case_prod_unfold image_iff intro!: exI [of _ "(cs ! i, es ! i)"])
  ultimately show ?thesis by (simp add: map_of_eq_Some_iff)
qed

lemma last_is_nth: "es \<noteq> [] \<Longrightarrow> last es = es ! (length es - 1)"
  by (rule last_conv_nth)

definition spine_entries :: "(u64 \<times> btc_header) list \<Rightarrow> (u64 \<times> btc_header) list" where
  "spine_entries entries = sort_key fst entries"

text \<open>The store after seeding an empty one, described.\<close>

lemma seeded_store:
  assumes seed: "seed_checkpoints_txn L entries empty_btc_store = Inr st'"
  defines "es \<equiv> spine_entries entries"
  shows "es \<noteq> []" and "sorted (map fst es)" and "distinct (map fst es)"
    and "\<And>i. i < length es \<Longrightarrow> bs_headers st' (0, fst (es ! i)) =
      Some \<lparr> row_header = snd (es ! i), row_work = spine_work (map (bl_to_work L \<circ> snd) es) i \<rparr>"
    and "\<And>f h r. bs_headers st' (f, h) = Some r \<Longrightarrow> f = 0 \<and> (\<exists>i < length es. h = fst (es ! i))"
    and "\<And>bh f h. bs_hash_loc st' bh = Some (f, h) \<Longrightarrow>
      f = 0 \<and> (\<exists>i < length es. h = fst (es ! i) \<and> bl_block_hash L (snd (es ! i)) = bh)"
    and "\<exists>m. fork_meta_of st' 0 = Some m \<and> fm_forkpoint m = 0 \<and> fm_parent m = None \<and>
      fm_tip_height m = fst (last es) \<and> fm_tip_hash m = bl_block_hash L (snd (last es))"
    and "\<And>f. f \<noteq> 0 \<Longrightarrow> fork_meta_of st' f = None"
    and "meta_u64 st' META_NEXT_FORK = Some 1" and "best_fork st' = Some 0"
    and "finalized_height st' = Some (fst (last es))"
proof -
  define cs where "cs = seed_cums L True 0 0 es"
  define st1 where "st1 = snd (seed_loop L es True 0 0 empty_btc_store)"
  define root where "root = \<lparr> fm_forkpoint = 0, fm_parent = None,
                 fm_forkpoint_hash = bl_block_hash L (snd (hd es)),
                 fm_tip_height = fst (last es), fm_tip_hash = bl_block_hash L (snd (last es)),
                 fm_tip_work = fst (seed_loop L es True 0 0 empty_btc_store) \<rparr>"
  have es: "sort_key fst entries = es" by (simp add: es_def spine_entries_def)
  have cont: "contiguous es" and "entries \<noteq> []"
    using seed unfolding seed_checkpoints_txn_def es by (auto simp: Let_def result_simps)
  then have ne: "es \<noteq> []" using es by (metis length_0_conv length_sort)
  have st': "st' = put_meta META_NEXT_FORK (MU64 1) (set_best_fork 0 (set_finalized (fst (last es))
           (put_meta META_SEED_HEIGHT (MU64 (fst (hd es))) (put_fork 0 root st1))))"
    using seed unfolding seed_checkpoints_txn_def es
    by (simp add: Let_def bindE_Inr case_prod_unfold root_def st1_def)
  have root: "fm_forkpoint root = 0" "fm_parent root = None" "fm_tip_height root = fst (last es)"
      "fm_tip_hash root = bl_block_hash L (snd (last es))"
    by (simp_all add: root_def)
  show "es \<noteq> []" by (rule ne)
  show srt: "sorted (map fst es)" by (simp add: es_def spine_entries_def)
  show dist: "distinct (map fst es)" using srt cont by (rule contiguous_distinct)
  have len: "length cs = length es" by (simp add: cs_def)
  have hd: "bs_headers st' = map_of (rev (seed_rows cs es))"
    by (simp add: st' st1_def seed_loop_rows cs_def empty_btc_store_def set_best_fork_def set_finalized_def
        map_add_def fun_eq_iff split: option.splits)
  have hl: "bs_hash_loc st' = map_of (rev (map (\<lambda>(ht, h). (bl_block_hash L h, (0, ht))) es))"
    by (simp add: st' st1_def seed_loop_hash_loc empty_btc_store_def set_best_fork_def set_finalized_def
        map_add_def fun_eq_iff split: option.splits)
  show "bs_headers st' (0, fst (es ! i)) =
      Some \<lparr> row_header = snd (es ! i), row_work = spine_work (map (bl_to_work L \<circ> snd) es) i \<rparr>"
    if "i < length es" for i
    unfolding hd using seed_rows_lookup [OF len dist that] seed_cums_nth [OF that, of L] by (simp add: cs_def)
  show "f = 0 \<and> (\<exists>i < length es. h = fst (es ! i))" if x: "bs_headers st' (f, h) = Some r" for f h r
  proof -
    have "((f, h), r) \<in> set (seed_rows cs es)" using map_of_SomeD [OF x [unfolded hd]] by simp
    then obtain c e where "(c, e) \<in> set (zip cs es)" "f = 0" "h = fst e"
      by (auto simp: seed_rows_def)
    then show ?thesis by (auto simp: set_zip)
  qed
  show "f = 0 \<and> (\<exists>i < length es. h = fst (es ! i) \<and> bl_block_hash L (snd (es ! i)) = bh)"
    if x: "bs_hash_loc st' bh = Some (f, h)" for bh f h
  proof -
    obtain e where e: "e \<in> set es" "bh = bl_block_hash L (snd e)" "f = 0" "h = fst e"
      using map_of_SomeD [OF x [unfolded hl]] by auto
    then show ?thesis by (metis in_set_conv_nth)
  qed
  show "\<exists>m. fork_meta_of st' 0 = Some m \<and> fm_forkpoint m = 0 \<and> fm_parent m = None \<and>
      fm_tip_height m = fst (last es) \<and> fm_tip_hash m = bl_block_hash L (snd (last es))"
    by (simp add: st' set_best_fork_def set_finalized_def codec root)
  show "fork_meta_of st' f = None" if "f \<noteq> 0" for f
    using that
    by (simp add: st' set_best_fork_def set_finalized_def st1_def seed_loop_frame)
      (simp add: fork_meta_of_def empty_btc_store_def)
  show "meta_u64 st' META_NEXT_FORK = Some 1" "best_fork st' = Some 0"
    "finalized_height st' = Some (fst (last es))"
    by (simp_all add: st' best_fork_def finalized_height_def set_best_fork_def set_finalized_def)
qed

lemma seeded_inv:
  assumes "seed_checkpoints_txn L entries empty_btc_store = Inr st'"
  shows "chain_inv L (fst (last (spine_entries entries))) st'"
proof -
  note S = seeded_store [OF assms]
  let ?es = "spine_entries entries"
  obtain m where m: "fork_meta_of st' 0 = Some m" "fm_forkpoint m = 0" "fm_parent m = None"
      "fm_tip_height m = fst (last ?es)" "fm_tip_hash m = bl_block_hash L (snd (last ?es))"
    using S(7) by blast
  have only0: "f = 0 \<and> m' = m" if "fork_meta_of st' f = Some m'" for f m'
    using that S(8) m(1) by (cases "f = 0") auto
  have forest: "forest_ok st'"
    unfolding forest_ok_def using S(9) only0 m(2,3) by fastforce
  have below: "fst (?es ! i) \<le> fst (last ?es)" if "i < length ?es" for i
    using sorted_nth_mono [OF S(2), of i "length ?es - 1"] that S(1) by (simp add: last_is_nth)
  have tip: "bs_headers st' (0, fst (last ?es)) = Some \<lparr> row_header = snd (last ?es),
      row_work = spine_work (map (bl_to_work L \<circ> snd) ?es) (length ?es - 1) \<rparr>"
    using S(4) [of "length ?es - 1"] S(1) by (simp add: last_is_nth)
  have "rows_ok L (fst (last ?es)) st'"
    unfolding rows_ok_def
  proof (intro conjI allI impI)
    show "\<exists>m. fork_meta_of st' f = Some m \<and> fm_forkpoint m \<le> h \<and> h \<le> fm_tip_height m"
      if "bs_headers st' (f, h) = Some r" for f h r
      using S(5) [OF that] m below by auto
    show "\<exists>r. bs_headers st' (f, h) = Some r \<and> bl_block_hash L (row_header r) = bh"
      if "bs_hash_loc st' bh = Some (f, h)" for bh f h
      using S(6) [OF that] S(4) by auto
    show "\<exists>r. bs_headers st' (f, fm_tip_height m') = Some r \<and> bl_block_hash L (row_header r) = fm_tip_hash m'"
      if "fork_meta_of st' f = Some m'" for f m'
      using only0 [OF that] m tip by auto
  next
    fix f h r assume a: "bs_headers st' (f, h) = Some r \<and> (f \<noteq> 0 \<or> h > fst (last ?es))"
    then obtain i where "f = 0" "i < length ?es" "h = fst (?es ! i)" using S(5) by blast
    then have False using a below [of i] by (simp add: leD)
    then show "0 < h" "bl_pow_ok L (row_header r)"
      "\<exists>q. chain_row st' f (h - 1) = Some q \<and> bh_prev (row_header r) = bl_block_hash L (row_header q) \<and>
           row_work r = row_work q + bl_to_work L (row_header r)" by blast+
  qed
  then show ?thesis
    unfolding chain_inv_def using forest S(10) m by auto
qed

end
