(* ===== verification/Btc_Claims.thy ===== *)
theory Btc_Claims
  imports Btc_Seed
begin

text \<open>
  The properties of the Bitcoin chain, each with a witness on a small concrete chain. The demo
  library identifies a header by its nonce and takes its bits as its work.
\<close>

section \<open>A concrete library and chain\<close>

definition demo_encode :: "btc_header \<Rightarrow> bytes" where
  "demo_encode h = to_be 4 (bh_version h) @ to_be 32 (bh_prev h) @ to_be 32 (bh_merkle_root h) @
     to_be 4 (bh_time h) @ to_be 4 (bh_bits h) @ to_be 4 (bh_nonce h)"

definition demo_decode :: "bytes \<Rightarrow> btc_header option" where
  "demo_decode d = (if length d \<ge> 80 then Some \<lparr> bh_version = from_be (slice 0 4 d),
     bh_prev = from_be (slice 4 36 d), bh_merkle_root = from_be (slice 36 68 d),
     bh_time = from_be (slice 68 72 d), bh_bits = from_be (slice 72 76 d),
     bh_nonce = from_be (slice 76 80 d) \<rparr> else None)"

fun demo_name :: "network \<Rightarrow> string" where
  "demo_name Bitcoin = ''bitcoin''"
| "demo_name Testnet = ''testnet''"
| "demo_name Testnet4 = ''testnet4''"
| "demo_name Signet = ''signet''"
| "demo_name Regtest = ''regtest''"

definition demo_parse :: "string \<Rightarrow> network option" where
  "demo_parse s = List.find (\<lambda>n. demo_name n = s) [Bitcoin, Testnet, Testnet4, Signet, Regtest]"

definition demo_lib :: btc_lib where
  "demo_lib = \<lparr> bl_block_hash = (\<lambda>h. ucast (bh_nonce h)), bl_to_work = (\<lambda>h. ucast (bh_bits h)),
     bl_pow_ok = (\<lambda>h. bh_nonce h \<noteq> 0), bl_retarget = (\<lambda>_ _ l. bh_bits l),
     bl_no_pow_retargeting = (\<lambda>_. False), bl_allow_min_difficulty = (\<lambda>n. n \<noteq> Bitcoin),
     bl_encode = demo_encode, bl_decode = demo_decode, bl_network_name = demo_name,
     bl_network_parse = demo_parse \<rparr>"

lemma demo_lib_ok: "btc_lib_ok demo_lib"
  unfolding btc_lib_ok_def
proof (intro conjI allI)
  fix h :: btc_header and n :: network
  show "length (bl_encode demo_lib h) = 80" by (simp add: demo_lib_def demo_encode_def)
  show "bl_decode demo_lib (bl_encode demo_lib h) = Some h"
    by (simp add: demo_lib_def demo_encode_def demo_decode_def slice_def codec)
  show "bl_decode demo_lib d = Some h \<longrightarrow> bl_decode demo_lib (d @ rest) = Some h" for d rest
    by (auto simp: demo_lib_def demo_decode_def slice_def split: if_splits)
  show "bl_network_parse demo_lib (bl_network_name demo_lib n) = Some n"
    by (cases n) (simp_all add: demo_lib_def demo_parse_def)
qed

definition demo_header :: "u32 \<Rightarrow> u32 \<Rightarrow> u32 \<Rightarrow> btc_header" where
  "demo_header prev bits nonce = \<lparr> bh_version = 1, bh_prev = ucast prev, bh_merkle_root = 0, bh_time = 100,
     bh_bits = bits, bh_nonce = nonce \<rparr>"

definition demo_entries :: "(u64 \<times> btc_header) list" where
  "demo_entries = [(0, demo_header 0 4 1)]"

definition demo_store :: btc_store where
  "demo_store = \<lparr> bs_headers = [(0, 0) \<mapsto> \<lparr> row_header = demo_header 0 4 1, row_work = 4 \<rparr>],
     bs_hash_loc = [1 \<mapsto> (0, 0)],
     bs_forks = [0 \<mapsto> fork_as_bytes \<lparr> fm_forkpoint = 0, fm_parent = None, fm_forkpoint_hash = 1,
                  fm_tip_height = 0, fm_tip_hash = 1, fm_tip_work = 4 \<rparr>],
     bs_spine = [0 \<mapsto> demo_header 0 4 1],
     bs_meta = [META_SEED_HEIGHT \<mapsto> MU64 0, META_FINALIZED \<mapsto> MU64 0, META_BEST_FORK \<mapsto> MU64 0,
                META_NEXT_FORK \<mapsto> MU64 1, META_NETWORK \<mapsto> MText ''regtest''] \<rparr>"

lemmas chain_eval = connect_headers_def connect_txn_def known_prefix_def locate_def
  stored_network_def best_fork_def finalized_height_def meta_u64_def choose_target_def tip_or_zero_def
  fork_tip_def fork_meta_of_def fork_round_trip create_fork_def at_height_def check_time_def
  check_difficulty_def enforces_difficulty_def median_time_past_at_def header_at_def work_at_def
  owner_fork_def owner_loop.simps put_headers_def reselect_def work_or_zero_def fork_chainwork_def
  finalize_in_txn_def put_row_def put_fork_def put_meta_def put_spine_def set_best_fork_def
  set_network_def set_finalized_def FINALITY_MARGIN_BLOCKS_def DIFFICULTY_PERIOD_def
  unchanged_outcome_def MEDIAN_TIME_PAST_def Let_def of_option_def ensure_def NO_PARENT_def sat_sub_def
  upt_rec
lemmas demo_defs = demo_lib_def demo_header_def demo_store_def demo_parse_def demo_entries_def

lemma demo_seeded: "seed_checkpoints demo_lib Regtest demo_entries empty_btc_store = (Inr (), demo_store)"
  by (simp add: seed_checkpoints_def seed_checkpoints_txn_def chain_eval demo_defs empty_btc_store_def
      fun_eq_iff)

text \<open>Two headers on the seeded block, then a heavier branch from it.\<close>

definition demo_store1 :: btc_store where
  "demo_store1 = snd (connect_headers demo_lib Regtest [demo_header 1 4 2, demo_header 2 4 3] demo_store)"

definition demo_store2 :: btc_store where
  "demo_store2 = snd (connect_headers demo_lib Regtest [demo_header 1 9 7] demo_store1)"

lemma demo_connect1:
  "fst (connect_headers demo_lib Regtest [demo_header 1 4 2, demo_header 2 4 3] demo_store) =
     Inr \<lparr> co_connected = 2, co_prev_best = Some 0, co_best = Some 0, co_tip_height = 2, co_finalized = None \<rparr>"
  by (simp add: chain_eval demo_defs)

lemma demo_connect2:
  "fst (connect_headers demo_lib Regtest [demo_header 1 9 7] demo_store1) =
     Inr \<lparr> co_connected = 1, co_prev_best = Some 0, co_best = Some 1, co_tip_height = 1, co_finalized = None \<rparr>"
  by (simp add: demo_store1_def chain_eval demo_defs)

lemma demo_inv: "chain_inv demo_lib 0 demo_store"
proof -
  have "seed_checkpoints_txn demo_lib demo_entries empty_btc_store \<noteq> Inl e" for e
    using demo_seeded by (auto simp: seed_checkpoints_def split: sum.splits)
  then obtain st' where st': "seed_checkpoints_txn demo_lib demo_entries empty_btc_store = Inr st'"
    by (meson sum.exhaust)
  then have "demo_store = set_network demo_lib Regtest st'"
    using demo_seeded by (simp add: seed_checkpoints_def)
  moreover have "chain_inv demo_lib (fst (last (spine_entries demo_entries))) st'"
    using st' by (rule seeded_inv)
  then have "chain_inv demo_lib 0 st'" by (simp add: spine_entries_def demo_entries_def)
  then have "chain_inv demo_lib 0 (set_network demo_lib Regtest st')"
    unfolding set_network_def by (rule chain_inv_put_meta) simp_all
  ultimately show ?thesis by simp
qed

lemma demo_roomy: "roomy demo_store n" if "n \<le> 5"
  using that by (auto simp: roomy_def chain_eval demo_defs word_less_nat_alt unat_max_val)

section \<open>Seeding\<close>

lemma seed_checkpoints_Inr:
  "seed_checkpoints L net entries st = (Inr (), st') \<longleftrightarrow>
     (\<exists>st1. seed_checkpoints_txn L entries st = Inr st1 \<and> st' = set_network L net st1)"
  by (auto simp: seed_checkpoints_def split: sum.splits)

lemma seeded_chain:
  assumes "seed_checkpoints L net entries empty_btc_store = (Inr (), st')"
  shows "chain_inv L (fst (last (spine_entries entries))) st'
    \<and> finalized_height st' = Some (fst (last (spine_entries entries)))
    \<and> best_fork st' = Some 0
    \<and> (\<forall>i < length (spine_entries entries).
          work_at st' 0 (fst (spine_entries entries ! i)) =
            Inr (Some (spine_work (map (bl_to_work L \<circ> snd) (spine_entries entries)) i))
        \<and> header_at st' 0 (fst (spine_entries entries ! i)) = Inr (Some (snd (spine_entries entries ! i))))"
proof -
  obtain st1 where seed: "seed_checkpoints_txn L entries empty_btc_store = Inr st1"
    and st': "st' = set_network L net st1"
    using assms by (auto simp: seed_checkpoints_Inr)
  note S = seeded_store [OF seed]
  have inv: "chain_inv L (fst (last (spine_entries entries))) st'"
    unfolding st' set_network_def using seeded_inv [OF seed] by (rule chain_inv_put_meta) simp_all
  have fok: "forest_ok st'" using inv by (simp add: chain_inv_def)
  obtain m where m: "fork_meta_of st' 0 = Some m" "fm_forkpoint m = 0"
    using S(7) by (auto simp: st' set_network_def)
  have row: "chain_row st' 0 h = bs_headers st1 (0, h)" for h
    using owner_own [OF m(1)] m(2) by (simp add: chain_row_def st' set_network_def)
  have "finalized_height st' = Some (fst (last (spine_entries entries)))" "best_fork st' = Some 0"
    using S(10,11) by (simp_all add: st' set_network_def finalized_height_def best_fork_def)
  then show ?thesis
    using inv S(4) header_at_chain_row [OF fok m(1)] row by simp
qed

text \<open>C6. Seeding an empty store establishes the fork-tree invariant, finalizes the last
  checkpoint, and makes the cumulative work of the whole chain readable at every spine height: a
  full period of each earlier checkpoint's work plus the boundary block's own.\<close>

theorem seeding_establishes_chain:
  assumes "seed_checkpoints L net entries empty_btc_store = (Inr (), st')"
  shows "chain_inv L (fst (last (spine_entries entries))) st'
    \<and> finalized_height st' = Some (fst (last (spine_entries entries)))
    \<and> best_fork st' = Some 0
    \<and> (\<forall>i < length (spine_entries entries).
          work_at st' 0 (fst (spine_entries entries ! i)) =
            Inr (Some (spine_work (map (bl_to_work L \<circ> snd) (spine_entries entries)) i))
        \<and> header_at st' 0 (fst (spine_entries entries ! i)) = Inr (Some (snd (spine_entries entries ! i))))"
  using assms by (rule seeded_chain)

lemma seeding_establishes_chain_witness:
  "chain_inv demo_lib 0 demo_store \<and> finalized_height demo_store = Some 0"
  using seeding_establishes_chain [OF demo_seeded] by (simp add: spine_entries_def demo_entries_def)

section \<open>Connecting headers\<close>

lemma connect_inv:
  assumes "chain_inv L base st" and "roomy st (length hs)"
  shows "chain_inv L base (snd (connect_headers L net hs st))"
proof (cases "connect_txn L net hs st")
  case (Inl e)
  then show ?thesis using assms(1) by (simp add: connect_headers_def)
next
  case (Inr r)
  obtain out st' where r: "r = (out, st')" by (cases r)
  have "chain_inv L base st'"
    using Inr [unfolded r]
    by (cases rule: connect_txn_cases) (use assms steps_inv(2) in auto)
  then show ?thesis using Inr r by (simp add: connect_headers_def)
qed

text \<open>C5. Connecting any batch of headers, whether it is stored, partly known or refused, keeps
  the invariant of the fork tree: every fork starts on a block of its parent, every stored hash is
  where the index says, and every header above the spine links to its predecessor, meets its proof of
  work and carries the sum of the work below it.\<close>

theorem connect_keeps_invariant:
  assumes "chain_inv L base st" and "roomy st (length hs)"
  shows "chain_inv L base (snd (connect_headers L net hs st))"
  using assms by (rule connect_inv)

lemma connect_keeps_invariant_witness: "chain_inv demo_lib 0 demo_store1"
  unfolding demo_store1_def
  using demo_inv by (rule connect_keeps_invariant) (simp add: demo_roomy)

lemma connect_headers_Inr:
  "connect_headers L net hs st = (Inr out, st') \<longleftrightarrow> connect_txn L net hs st = Inr (out, st')"
  by (auto simp: connect_headers_def split: sum.splits)

lemma final_meta_only:
  assumes "connect_steps L net hs st out st' new par pf ph t st1 bw st2 best st3"
    and "forest_ok st2" and "fork_meta_of st2 f = Some m"
  shows "header_at st' f h = header_at st2 f h" and "work_at st' f h = work_at st2 f h"
proof -
  have rs: "reselect t st2 = Inr (best, st3)" and fn: "finalize_in_txn st3 = Inr (co_finalized out, st')"
    using assms(1) unfolding connect_steps_def by blast+
  have "st3 = st2 \<or> st3 = set_best_fork t st2" using rs by (cases rule: reselect_cases) auto
  then have s3: "forest_ok st3" "header_at st3 f h = header_at st2 f h" "work_at st3 f h = work_at st2 f h"
    using assms(2) by (auto simp: set_best_fork_def forest_ok_put_meta reads_put_meta)
  from fn show "header_at st' f h = header_at st2 f h" "work_at st' f h = work_at st2 f h"
    by (cases rule: finalize_cases; use s3 in \<open>simp add: set_finalized_def reads_put_meta\<close>)+
qed

text \<open>The run a connect stored, read back from the chain afterwards.\<close>

definition valid_run_stored ::
  "btc_lib \<Rightarrow> network \<Rightarrow> btc_store \<Rightarrow> btc_store \<Rightarrow> btc_header list \<Rightarrow> u64 \<Rightarrow> u64 \<Rightarrow> u256 \<Rightarrow> b256 \<Rightarrow> bool" where
  "valid_run_stored L net st st' new t ph bw par \<longleftrightarrow>
     (\<exists>pf. locate st par = Some (pf, ph)) \<and> work_at st' t ph = Inr (Some bw) \<and>
     (\<forall>i < length new. let h = new ! i; height = ph + 1 + of_nat i in
        header_at st' t height = Inr (Some h) \<and>
        work_at st' t height = Inr (Some (bw + sum_list (map (bl_to_work L) (take (Suc i) new)))) \<and>
        bh_prev h = (if i = 0 then par else bl_block_hash L (new ! (i - 1))) \<and>
        bl_pow_ok L h \<and>
        check_difficulty L net (header_at st' t) height h = Inr () \<and>
        check_time (header_at st' t) height h = Inr ())"

lemma appended_end: "run_appended L st pf ph r t new st2 \<Longrightarrow> unat (ph + of_nat (length new)) = unat ph + length new"
proof -
  assume app: "run_appended L st pf ph r t new st2"
  then have "0 < length new" by (simp add: run_appended_def)
  then have "ph + of_nat (length new) = ph + 1 + of_nat (length new - 1)" by (cases new) simp_all
  then show ?thesis
    using unat_height [OF appended_height(3) [OF app], of "length new - 1"] \<open>0 < length new\<close> appended_height(1) [OF app]
    by simp
qed

text \<open>One header of the run: the checks saw the chain that is stored afterwards.\<close>

lemma run_header_stored:
  assumes inv: "chain_inv L base st" and room: "roomy st (length hs)"
    and steps: "connect_steps L net hs st out st' new par pf ph t st1 bw st2 best st3" and i: "i < length new"
  defines "height \<equiv> ph + 1 + of_nat i"
  shows "header_at st' t height = Inr (Some (new ! i)) \<and>
    work_at st' t height = Inr (Some (bw + sum_list (map (bl_to_work L) (take (Suc i) new)))) \<and>
    bh_prev (new ! i) = (if i = 0 then par else bl_block_hash L (new ! (i - 1))) \<and> bl_pow_ok L (new ! i) \<and>
    check_difficulty L net (header_at st' t) height (new ! i) = Inr () \<and> check_time (header_at st' t) height (new ! i) = Inr ()"
proof -
  obtain r where app: "run_appended L st pf ph r t new st2" and r: "row_work r = bw" "run_linked L par new" "chain_inv L base st2"
    using steps_append [OF inv room steps] by blast
  have fok: "forest_ok st2" using r(3) by (simp add: chain_inv_def)
  obtain m2 where m2: "fork_meta_of st2 t = Some m2" using appended_meta [OF app] by blast
  note final = final_meta_only [OF steps fok m2]
  have val: "validate_run L net (at_height st1 t (ph + 1) new) (ph + 1) par new = Inr ()"
    using steps unfolding connect_steps_def by blast
  have row: "chain_row st2 t height = Some (run_row L bw new i)"
    using appended_chain_row_new [OF app i] r(1) by (simp add: height_def)
  have uh: "unat height = unat ph + 1 + i"
    using unat_height [OF appended_height(3) [OF app] i] appended_height(1) [OF app] by (simp add: height_def)
  have "at_height st1 t (ph + 1) new k = header_at st' t k" if "k < height" for k
  proof -
    have "k \<le> ph + of_nat (length new)"
      using that uh i appended_end [OF app] by (simp add: word_le_nat_alt word_less_nat_alt)
    then show ?thesis using at_height_stored [OF inv room steps] final(1) by simp
  qed
  moreover have "0 < height" using uh by (simp add: word_less_nat_alt)
  ultimately have "check_difficulty L net (header_at st' t) height (new ! i) = Inr ()"
      "check_time (header_at st' t) height (new ! i) = Inr ()"
    using validate_run_checks [OF val i] checks_cong [of height "at_height st1 t (ph + 1) new" "header_at st' t"]
    unfolding height_def by simp_all
  moreover have "bh_prev (new ! i) = (if i = 0 then par else bl_block_hash L (new ! (i - 1)))" "bl_pow_ok L (new ! i)"
    using r(2) i by (auto simp: run_linked_def)
  ultimately show ?thesis
    using final header_at_chain_row [OF fok m2] row by (simp add: run_row_def run_work_def)
qed

text \<open>The parent keeps its work.\<close>

lemma run_base_work:
  assumes inv: "chain_inv L base st" and room: "roomy st (length hs)"
    and steps: "connect_steps L net hs st out st' new par pf ph t st1 bw st2 best st3"
  shows "work_at st' t ph = Inr (Some bw)"
proof -
  obtain r where app: "run_appended L st pf ph r t new st2" and r: "row_work r = bw" "chain_inv L base st2"
    using steps_append [OF inv room steps] by blast
  have fok: "forest_ok st" "forest_ok st2" using inv r(2) by (simp_all add: chain_inv_def)
  obtain m2 where m2: "fork_meta_of st2 t = Some m2" using appended_meta [OF app] by blast
  obtain pm where pm: "fork_meta_of st pf = Some pm" "fm_forkpoint pm \<le> ph" "bs_headers st (pf, ph) = Some r"
    using app by (auto simp: run_appended_def)
  have "chain_row st2 t ph = chain_row st pf ph" by (rule appended_chain_row_below [OF app fok(1)]) simp
  also have "\<dots> = Some r" using pm by (simp add: chain_row_def owner_own)
  finally show ?thesis
    using final_meta_only(2) [OF steps fok(2) m2] header_at_chain_row(2) [OF fok(2) m2] r(1) by simp
qed

text \<open>C2. When a connect stores headers, they are the suffix of the batch that was not known,
  they extend a stored block, and each is found on the chain afterwards at its height with the
  parent's work plus the work up to it; each links to the one before, meets its proof of work, and
  carries the bits and a timestamp the rules demand of that chain.\<close>

theorem connect_stores_valid_run:
  assumes inv: "chain_inv L base st" and room: "roomy st (length hs)"
    and conn: "connect_headers L net hs st = (Inr out, st')" and some: "0 < co_connected out"
  shows "\<exists>t ph bw par. valid_run_stored L net st st' (drop (length hs - co_connected out) hs) t ph bw par"
proof -
  have "out \<noteq> unchanged_outcome st" using some by (auto simp: unchanged_outcome_def)
  with conn obtain new par pf ph t st1 bw st2 best st3 where
    steps: "connect_steps L net hs st out st' new par pf ph t st1 bw st2 best st3"
    unfolding connect_headers_Inr by (elim connect_txn_cases) auto
  then have "locate st par = Some (pf, ph)" "new = drop (length hs - co_connected out) hs"
    using known_prefix_le [of L st hs] by (auto simp: connect_steps_def)
  then have "valid_run_stored L net st st' (drop (length hs - co_connected out) hs) t ph bw par"
    using run_header_stored [OF inv room steps] run_base_work [OF inv room steps]
    by (auto simp: valid_run_stored_def Let_def)
  then show ?thesis by blast
qed

lemma connect_stores_valid_run_witness:
  "\<exists>t ph bw par. valid_run_stored demo_lib Regtest demo_store demo_store1
     [demo_header 1 4 2, demo_header 2 4 3] t ph bw par"
proof -
  let ?hs = "[demo_header 1 4 2, demo_header 2 4 3]"
  have c: "connect_headers demo_lib Regtest ?hs demo_store =
     (Inr \<lparr> co_connected = 2, co_prev_best = Some 0, co_best = Some 0, co_tip_height = 2, co_finalized = None \<rparr>,
      demo_store1)"
    by (simp only: demo_connect1 [symmetric] demo_store1_def prod.collapse)
  show ?thesis
    using connect_stores_valid_run [OF demo_inv _ c] by (simp add: demo_roomy)
qed

section \<open>Chain selection\<close>

lemma fork_chainwork_tip:
  assumes "chain_inv L base st" and m: "fork_meta_of st f = Some m"
  obtains r where "bs_headers st (f, fm_tip_height m) = Some r" "fork_chainwork st f = Inr (Some (row_work r))"
proof -
  have fok: "forest_ok st" and ok: "rows_ok L base st" using assms(1) by (simp_all add: chain_inv_def)
  obtain r where r: "bs_headers st (f, fm_tip_height m) = Some r"
    using ok m unfolding rows_ok_def by blast
  obtain m' where "fork_meta_of st f = Some m'" "fm_forkpoint m' \<le> fm_tip_height m"
    using ok r unfolding rows_ok_def by blast
  then have "owner_loop st (fm_tip_height m) f = Some (Some f)" using m by (intro owner_own) auto
  then have "fork_chainwork st f = Inr (Some (row_work r))"
    using m r by (simp add: fork_chainwork_def work_at_def owner_fork_def of_option_def)
  with r show thesis by (rule that)
qed

lemma unat_work_sum:
  assumes "unat bw + sum_list (map (\<lambda>h. unat (bl_to_work L h)) hs) < 2 ^ 256"
  shows "unat (bw + sum_list (map (bl_to_work L) hs)) = unat bw + sum_list (map (\<lambda>h. unat (bl_to_work L h)) hs)"
  using assms
proof (induction hs arbitrary: bw)
  case (Cons h hs)
  have "unat (bw + bl_to_work L h) = unat bw + unat (bl_to_work L h)"
    using Cons.prems by (intro unat_add_exact) simp
  then show ?case using Cons.IH [of "bw + bl_to_work L h"] Cons.prems by (simp add: add.assoc)
qed simp

text \<open>The tip of the extended fork carries the work of its parent and of the run.\<close>

lemma appended_tip_work:
  assumes app: "run_appended L st pf ph r t new st2" and i2: "chain_inv L base st2"
    and small: "unat (row_work r) + sum_list (map (\<lambda>h. unat (bl_to_work L h)) new) < 2 ^ 256"
  shows "\<exists>tw. fork_chainwork st2 t = Inr (Some tw) \<and> row_work r \<le> tw"
proof -
  obtain m2 where m2: "fork_meta_of st2 t = Some m2" "fm_tip_height m2 = ph + 1 + of_nat (length new - 1)"
    using appended_meta [OF app] by blast
  have ne: "new \<noteq> []" using app by (simp add: run_appended_def)
  obtain r2 where r2: "bs_headers st2 (t, fm_tip_height m2) = Some r2" "fork_chainwork st2 t = Inr (Some (row_work r2))"
    using fork_chainwork_tip [OF i2 m2(1)] .
  have "length new - 1 < length new" using ne by simp
  from height_index [OF appended_height(3) [OF app] this]
  have "r2 = run_row L (row_work r) new (length new - 1)"
    using r2(1) ne by (simp add: m2(2) appended_rows [OF app])
  then have w2: "row_work r2 = row_work r + sum_list (map (bl_to_work L) new)"
    using ne by (simp add: run_row_def run_work_def)
  have "unat (row_work r2) = unat (row_work r) + sum_list (map (\<lambda>h. unat (bl_to_work L h)) new)"
    unfolding w2 using small by (rule unat_work_sum)
  then show ?thesis using r2(2) by (simp add: word_le_nat_alt)
qed

text \<open>Storing a run does not lower the work of any fork.\<close>

lemma appended_fork_work:
  assumes inv: "chain_inv L base st" and app: "run_appended L st pf ph r t new st2" and i2: "chain_inv L base st2"
    and small: "unat (row_work r) + sum_list (map (\<lambda>h. unat (bl_to_work L h)) new) < 2 ^ 256"
    and b: "fork_meta_of st b = Some mb" and w: "fork_chainwork st b = Inr (Some w)"
  shows "\<exists>w2. fork_chainwork st2 b = Inr (Some w2) \<and> w \<le> w2"
proof -
  obtain rb where rb: "bs_headers st (b, fm_tip_height mb) = Some rb" "w = row_work rb"
    using fork_chainwork_tip [OF inv b] w by auto
  show ?thesis
  proof (cases "b = t")
    case False
    have mb2: "fork_meta_of st2 b = Some mb" using app False b by (simp add: run_appended_def)
    obtain r2 where "bs_headers st2 (b, fm_tip_height mb) = Some r2" "fork_chainwork st2 b = Inr (Some (row_work r2))"
      using fork_chainwork_tip [OF i2 mb2] .
    moreover have "bs_headers st2 (b, fm_tip_height mb) = bs_headers st (b, fm_tip_height mb)"
      using False by (simp add: appended_rows [OF app])
    ultimately show ?thesis using rb by auto
  next
    case True
    from app obtain pm where pm: "t = pf" "fork_meta_of st pf = Some pm" "ph = fm_tip_height pm"
      by (cases rule: appended_shape) (use b True in auto)
    have "bs_headers st (pf, ph) = Some r" using app by (simp add: run_appended_def)
    then have "rb = r" using rb(1) pm True b by simp
    then show ?thesis using appended_tip_work [OF app i2 small] rb(2) True by auto
  qed
qed

text \<open>Choosing between the best fork and the extended one.\<close>

lemma reselect_heavier:
  assumes rs: "reselect t st2 = Inr (best, st3)" and fok: "forest_ok st2"
    and b: "best_fork st2 = Some b" "fork_chainwork st2 b = Inr (Some w2)" and t: "fork_chainwork st2 t = Inr (Some tw)"
  shows "\<exists>w'. chainwork st3 = Inr (Some w') \<and> w2 \<le> w' \<and> (best_fork st3 \<noteq> Some b \<longrightarrow> w2 < w')"
  using rs
proof (cases rule: reselect_cases)
  case same
  then show ?thesis using b by (simp add: chainwork_def)
next
  case (switched bw' tw')
  have "bw' = w2" "tw' = tw" using switched(3,4) b t by (simp_all add: work_or_zero_def)
  moreover have "chainwork st3 = Inr (Some tw)"
    using switched(2) t fok by (simp add: chainwork_def best_fork_def set_best_fork_def reads_put_meta)
  ultimately show ?thesis using switched(5) by auto
qed

text \<open>C3. Chain selection: as long as the works do not overflow, a connect never lowers the
  cumulative work of the best chain, and it changes the best chain only to a strictly heavier
  one.\<close>

theorem best_chain_never_lighter:
  assumes inv: "chain_inv L base st" and room: "roomy st (length hs)"
    and conn: "connect_headers L net hs st = (Inr out, st')"
    and w: "chainwork st = Inr (Some w)"
    and small: "\<forall>f h r. bs_headers st (f, h) = Some r \<longrightarrow>
      unat (row_work r) + sum_list (map (\<lambda>h. unat (bl_to_work L h)) hs) < 2 ^ 256"
  shows "\<exists>w'. chainwork st' = Inr (Some w') \<and> w \<le> w' \<and> (best_fork st' \<noteq> best_fork st \<longrightarrow> w < w')"
  using conn unfolding connect_headers_Inr
proof (cases rule: connect_txn_cases)
  case unchanged
  then show ?thesis using w by simp
next
  case (stored new par pf ph t st1 bw st2 best st3)
  obtain r where app: "run_appended L st pf ph r t new st2" and i2: "chain_inv L base st2"
    using steps_append [OF inv room stored] by blast
  have rs: "reselect t st2 = Inr (best, st3)" and fn: "finalize_in_txn st3 = Inr (co_finalized out, st')"
    and new: "hs = take (known_prefix L st hs) hs @ new"
    using stored unfolding connect_steps_def by auto
  have fok: "forest_ok st2" "forest_ok st3"
    using i2 steps_inv(1) [OF inv room stored] by (simp_all add: chain_inv_def)
  obtain b mb where b: "best_fork st = Some b" "fork_meta_of st b = Some mb" using inv by (auto simp: chain_inv_def)
  have b2: "best_fork st2 = Some b" and "bs_headers st (pf, ph) = Some r"
    using app b(1) by (auto simp: run_appended_def)
  moreover have "sum_list (map (\<lambda>h. unat (bl_to_work L h)) new) \<le> sum_list (map (\<lambda>h. unat (bl_to_work L h)) hs)"
    using new by (metis le_add2 map_append sum_list_append)
  ultimately have s: "unat (row_work r) + sum_list (map (\<lambda>h. unat (bl_to_work L h)) new) < 2 ^ 256"
    using small by (meson add_le_cancel_left le_less_trans)
  obtain w2 where w2: "fork_chainwork st2 b = Inr (Some w2)" "w \<le> w2"
    using appended_fork_work [OF inv app i2 s b(2)] w b(1) by (auto simp: chainwork_def)
  obtain tw where tw: "fork_chainwork st2 t = Inr (Some tw)" using appended_tip_work [OF app i2 s] by blast
  have "chainwork st' = chainwork st3 \<and> best_fork st' = best_fork st3"
    using fn
    by (cases rule: finalize_cases)
      (simp_all add: chainwork_def best_fork_def set_finalized_def reads_put_meta [OF fok(2)])
  then show ?thesis using reselect_heavier [OF rs fok(1) b2 w2(1) tw] w2(2) b(1) by fastforce
qed

lemma demo_inv1: "chain_inv demo_lib 0 demo_store1"
  unfolding demo_store1_def using demo_inv by (rule connect_inv) (simp add: demo_roomy)

lemma demo_store1_result:
  "connect_headers demo_lib Regtest [demo_header 1 4 2, demo_header 2 4 3] demo_store =
     (Inr \<lparr> co_connected = 2, co_prev_best = Some 0, co_best = Some 0, co_tip_height = 2, co_finalized = None \<rparr>,
      demo_store1)"
  by (simp only: demo_connect1 [symmetric] demo_store1_def prod.collapse)

lemma demo_rows0: "bs_headers demo_store (f, h) = Some r \<Longrightarrow> row_work r = 4"
  by (auto simp: demo_store_def split: if_splits)

lemma best_chain_never_lighter_witness: "\<exists>w'. chainwork demo_store1 = Inr (Some w') \<and> 4 \<le> w'"
proof -
  have "chainwork demo_store = Inr (Some 4)" by (simp add: chainwork_def chain_eval demo_defs)
  moreover have "\<forall>f h r. bs_headers demo_store (f, h) = Some r \<longrightarrow>
      unat (row_work r) + sum_list (map (\<lambda>h. unat (bl_to_work demo_lib h)) [demo_header 1 4 2, demo_header 2 4 3]) < 2 ^ 256"
    using demo_rows0 by (auto simp: demo_lib_def demo_header_def)
  moreover have "roomy demo_store (length [demo_header 1 4 2, demo_header 2 4 3])"
    by (rule demo_roomy) simp
  ultimately obtain w' where "chainwork demo_store1 = Inr (Some w')" "4 \<le> w'"
    using best_chain_never_lighter [OF demo_inv _ demo_store1_result, of 4] by metis
  then show ?thesis by blast
qed

end
