(* ===== verification/Mining_Claims.thy ===== *)
theory Mining_Claims
  imports Merged_Mining Btc_Claims
begin

text \<open>
  What the merged-mining rule guarantees and what it does not: compressing a coinbase and hashing the
  result agree, a compressed coinbase is accepted; but a proof of work can be forged from any
  Bitcoin block, and one proof of work serves under many block hashes.
\<close>

section \<open>A concrete coinbase\<close>

definition demo_coinbase :: bytes where
  "demo_coinbase = RSK_TAG @ replicate 32 0"

definition demo_mined :: header where
  "demo_mined = header_default\<lparr> h_difficulty := 1, h_number := 7000000,
     h_mm_header := Some (demo_encode (demo_header 0 0 1)), h_mm_merkle_proof := Some [],
     h_cached_mm_hash := Some 0 \<rparr>"

lemma demo_find: "find_last_subsequence demo_coinbase RSK_TAG = Some 0"
  by (simp add: demo_coinbase_def RSK_TAG_def find_last_subsequence_def positions_def windows_def Let_def
      numeral_eq_Suc del: upt_Suc) (simp add: upt_rec)

lemma demo_compress: "\<exists>c. compress_coinbase demo_coinbase True = Inr c"
  by (simp add: compress_coinbase_def demo_find of_option_def ensure_def Let_def)
    (simp add: demo_coinbase_def RSK_TAG_def)

section \<open>Compression\<close>

lemma length_sha256_compress: "length (sha256_compress st blk) = 8"
  by (simp add: sha256_compress_def split: prod.split)

lemma length_absorb: "length st = 8 \<Longrightarrow> length (foldl sha256_compress st blks) = 8"
  by (induction blks arbitrary: st) (simp_all add: length_sha256_compress)

lemma list_of_8: "length st = 8 \<Longrightarrow> st = [st ! 0, st ! 1, st ! 2, st ! 3, st ! 4, st ! 5, st ! 6, st ! 7]"
  by (rule nth_equalityI) (auto simp: less_Suc_eq numeral_nat)

lemma compute_from_midstate:
  assumes "length st = 8"
  shows "compute_coinbase_hash sha (to_be 8 n @ concat (map (to_be 4) st) @ tail) =
    rev (sha (sha256_from_midstate st n tail))"
proof -
  obtain a b c d e f g h where st: "st = [a, b, c, d, e, f, g, h]"
    using list_of_8 [OF assms] by blast
  show ?thesis
    by (simp add: st compute_coinbase_hash_def slice_def codec Let_def)
qed

lemma compress_coinbase_Inr:
  assumes "compress_coinbase cb last_occ = Inr c"
  obtains p where "occurs_at cb RSK_TAG p" "last_occ \<Longrightarrow> find_last_subsequence cb RSK_TAG = Some p"
    "p + 41 \<le> length cb" "length cb \<le> p + 169"
    "c = to_be 8 (of_nat (p div 64 * 64) :: u64) @
      concat (map (to_be 4) (foldl sha256_compress SHA256_INITIAL_STATE (chunks 64 (take (p div 64 * 64) cb)))) @
      drop (p div 64 * 64) cb"
proof -
  obtain p where p: "(if last_occ then find_last_subsequence cb RSK_TAG else find_first_subsequence cb RSK_TAG) = Some p"
    and av: "length cb - (p + length RSK_TAG) \<ge> 32" "length cb - (p + length RSK_TAG) - 32 \<le> 128"
    and c: "c = to_be 8 (of_nat (p div 64 * 64) :: u64) @
      concat (map (to_be 4) (foldl sha256_compress SHA256_INITIAL_STATE (chunks 64 (take (p div 64 * 64) cb)))) @
      drop (p div 64 * 64) cb"
    using assms unfolding compress_coinbase_def Let_def
    by (auto simp: result_simps not_less not_le split: if_splits)
  have occ: "occurs_at cb RSK_TAG p"
    using p find_first_Some find_last_Some by (auto split: if_splits)
  have tag: "length RSK_TAG = 9" by (simp add: RSK_TAG_def)
  show thesis
  proof (rule that [OF occ _ _ _ c])
    show "find_last_subsequence cb RSK_TAG = Some p" if last_occ using p that by simp
    show "p + 41 \<le> length cb" "length cb \<le> p + 169" using av tag by linarith+
  qed
qed

lemma compress_then_hash_both:
  assumes "compress_coinbase cb last_occ = Inr c" and "length cb < 2 ^ 64"
  shows "compute_coinbase_hash sha c = rev (sha (sha256_from_midstate SHA256_INITIAL_STATE 0 cb)) \<and>
    (\<exists>p < 64. occurs_at (drop 40 c) RSK_TAG p)"
  using assms(1)
proof (cases rule: compress_coinbase_Inr)
  case (1 p)
  let ?n = "p div 64 * 64"
  have le: "?n \<le> length cb" using 1(3) by (meson div_times_less_eq_dividend le_trans le_add1)
  have init: "length SHA256_INITIAL_STATE = 8" by (simp add: SHA256_INITIAL_STATE_def)
  have "length (take ?n cb) = ?n" using le by simp
  then have "sha256_from_midstate (foldl sha256_compress SHA256_INITIAL_STATE (chunks 64 (take ?n cb))) (of_nat ?n) (drop ?n cb)
      = sha256_from_midstate SHA256_INITIAL_STATE 0 (take ?n cb @ drop ?n cb)"
    using sha256_resume [of "take ?n cb" SHA256_INITIAL_STATE "drop ?n cb"] le assms(2)
    by (metis dvd_triv_right le_less_trans)
  then have hash: "compute_coinbase_hash sha c = rev (sha (sha256_from_midstate SHA256_INITIAL_STATE 0 cb))"
    unfolding 1(5) compute_from_midstate [OF length_absorb [OF init]] by simp
  have len: "length (foldl sha256_compress SHA256_INITIAL_STATE (chunks 64 (take ?n cb))) = 8"
    using length_absorb [OF init] .
  have "drop 40 c = drop ?n cb"
    unfolding 1(5) by (simp add: length_concat comp_def sum_list_triv len)
  moreover have "?n + p mod 64 = p" by (rule div_mult_mod_eq)
  then have "occurs_at (drop ?n cb) RSK_TAG (p mod 64)"
    using 1(1) le by (simp add: occurs_at_drop add.commute)
  moreover have "p mod 64 < 64" by simp
  ultimately show ?thesis using hash by (auto intro!: exI [of _ "p mod 64"])
qed

lemma compress_then_hash_eq:
  "compress_coinbase cb last_occ = Inr c \<Longrightarrow> length cb < 2 ^ 64 \<Longrightarrow>
     compute_coinbase_hash sha c = rev (sha (sha256_from_midstate SHA256_INITIAL_STATE 0 cb))"
  using compress_then_hash_both by blast

text \<open>C25. Compressing a coinbase and hashing the compressed form gives the double SHA-256 of the whole
  coinbase, reversed: the bytes dropped are exactly the blocks absorbed in the midstate. The tag
  starts in the first 64 bytes of the tail that is kept.\<close>

theorem compress_then_hash:
  assumes "compress_coinbase cb last_occ = Inr c" and "length cb < 2 ^ 64"
  shows "compute_coinbase_hash sha c = rev (sha (sha256_from_midstate SHA256_INITIAL_STATE 0 cb)) \<and>
    (\<exists>p < 64. occurs_at (drop 40 c) RSK_TAG p)"
  using assms by (rule compress_then_hash_both)

lemma compress_then_hash_witness:
  "\<exists>c. compress_coinbase demo_coinbase True = Inr c \<and>
     compute_coinbase_hash rev c = sha256_from_midstate SHA256_INITIAL_STATE 0 demo_coinbase"
proof -
  obtain c where c: "compress_coinbase demo_coinbase True = Inr c" using demo_compress by blast
  have "length demo_coinbase < 2 ^ 64" by (simp add: demo_coinbase_def RSK_TAG_def)
  from compress_then_hash [OF c this, of rev] c show ?thesis by (metis rev_rev_ident)
qed

lemma check_coinbase_tag_ok:
  "check_coinbase_tag tag tail = Inr () \<longleftrightarrow>
     (\<exists>r < 64. find_last_subsequence tail tag = Some r \<and> find_last_subsequence tail RSK_TAG = Some r \<and>
        r + 41 \<le> length tail \<and> length tail \<le> r + 169)"
  unfolding check_coinbase_tag_def
  by (auto simp: result_simps RSK_TAG_def Let_def not_less not_le)

text \<open>What the miner compresses the verifier accepts: a header whose coinbase field is the
  compressed form of a coinbase that carries, at its last tag, the header's merged-mining hash (or
  its prefix, from wasabi100 on), with a Bitcoin header that meets the target and a merkle proof from
  the hash of that coinbase to its root, passes the merged-mining rule.\<close>

theorem compressed_coinbase_accepted:
  assumes comp: "compress_coinbase cb True = Inr c" and len: "length cb < 2 ^ 64"
    and tag: "find_last_subsequence cb RSK_TAG = Some p" "occurs_at cb (expected_tag R config h) p"
    and field: "h_mm_coinbase h = Some c" "h_mm_header h = Some bs" "h_mm_merkle_proof h = Some pr"
    and btc: "bl_decode L bs = Some btc" "h_difficulty h \<noteq> 0"
      "hash_as_number (bl_block_hash L btc) \<le> max_val div h_difficulty h"
    and merkle: "length pr mod 32 = 0" "length pr \<le> 960"
      "rskip92_merkle_root sha (rev (sha (sha256_from_midstate SHA256_INITIAL_STATE 0 cb))) pr = to_be 32 (bh_merkle_root btc)"
  shows "merged_mining_rule R L sha config h = Inr ()"
proof -
  have tail: "length (drop 40 c) + p div 64 * 64 = length cb" "drop 40 c = drop (p div 64 * 64) cb"
    and room: "p + 41 \<le> length cb" "length cb \<le> p + 169" and c40: "length c \<ge> 41"
  proof -
    from comp obtain q where q: "find_last_subsequence cb RSK_TAG = Some q" "q + 41 \<le> length cb" "length cb \<le> q + 169"
      and c: "c = to_be 8 (of_nat (q div 64 * 64) :: u64) @
        concat (map (to_be 4) (foldl sha256_compress SHA256_INITIAL_STATE (chunks 64 (take (q div 64 * 64) cb)))) @
        drop (q div 64 * 64) cb"
      by (cases rule: compress_coinbase_Inr) auto
    have qp: "q = p" using q(1) tag(1) by simp
    have le: "p div 64 * 64 \<le> p" by simp
    have st: "length (foldl sha256_compress SHA256_INITIAL_STATE (chunks 64 (take (p div 64 * 64) cb))) = 8"
      by (rule length_absorb) (simp add: SHA256_INITIAL_STATE_def)
    show "p + 41 \<le> length cb" "length cb \<le> p + 169" using q qp by auto
    show d: "drop 40 c = drop (p div 64 * 64) cb"
      unfolding c qp by (simp add: length_concat comp_def sum_list_triv st)
    show "length (drop 40 c) + p div 64 * 64 = length cb"
      unfolding d using le q(2) qp by simp
    then show "length c \<ge> 41" using le q(2) qp by simp
  qed
  have pos: "p - p div 64 * 64 = p mod 64" by (simp add: minus_div_mult_eq_mod)
  have "\<exists>mo. expected_tag R config h = RSK_TAG @ mo" by (auto simp: expected_tag_def Let_def)
  then obtain mo where mo: "expected_tag R config h = RSK_TAG @ mo" ..
  have "find_last_subsequence (drop 40 c) (expected_tag R config h) = Some (p mod 64)"
    "find_last_subsequence (drop 40 c) RSK_TAG = Some (p mod 64)"
    unfolding tail(2) pos [symmetric] using tag find_last_extend [of cb RSK_TAG p mo]
    by (auto intro!: find_last_drop simp: mo)
  moreover have "p mod 64 < 64" "p div 64 * 64 + p mod 64 = p" by simp_all
  then have "p mod 64 < 64 \<and> p mod 64 + 41 \<le> length (drop 40 c) \<and> length (drop 40 c) \<le> p mod 64 + 169"
    using room tail(1) by linarith
  ultimately have t: "check_coinbase_tag (expected_tag R config h) (drop 40 c) = Inr ()"
    unfolding check_coinbase_tag_ok by blast
  have "compute_coinbase_hash sha c = rev (sha (sha256_from_midstate SHA256_INITIAL_STATE 0 cb))"
    using compress_then_hash_eq [OF comp len] .
  then have "check_merkle_proof sha config h btc (compute_coinbase_hash sha c) = Inr ()"
    using merkle field by (simp add: check_merkle_proof_def ensure_def of_option_def Let_def)
  then show ?thesis
    using t c40 field btc by (simp add: merged_mining_rule_def ensure_def of_option_def not_less Let_def)
qed

lemma demo_btc: "bl_decode demo_lib (demo_encode (demo_header 0 0 1)) = Some (demo_header 0 0 1)"
  using demo_lib_ok by (simp add: btc_lib_ok_def demo_lib_def)

lemma demo_hash_zero: "hash_for_merged_mining R demo_mined = 0"
  by (simp add: demo_mined_def hash_for_merged_mining_def)

lemma demo_zeros: "to_be k (0 :: 'a::len word) = replicate k 0"
proof -
  have "nat_bytes k 0 = replicate k 0"
    by (induction k) (simp_all add: replicate_append_same)
  then show ?thesis by (simp add: to_be_def)
qed

lemma demo_difficulty: "h_difficulty demo_mined = 1" by (simp add: demo_mined_def)

lemma below_max: "(x :: u256) \<le> max_val div 1"
  by simp

lemma compressed_coinbase_accepted_witness:
  "\<exists>c. merged_mining_rule rlp_std demo_lib (\<lambda>_. replicate 32 0) mainnet (demo_mined\<lparr> h_mm_coinbase := Some c \<rparr>) = Inr ()"
proof -
  obtain c where c: "compress_coinbase demo_coinbase True = Inr c" using demo_compress by blast
  let ?h = "demo_mined\<lparr> h_mm_coinbase := Some c \<rparr>"
  have len: "length demo_coinbase < 2 ^ 64" by (simp add: demo_coinbase_def RSK_TAG_def)
  have "expected_tag rlp_std mainnet ?h = RSK_TAG @ replicate 20 0"
    by (simp add: expected_tag_def demo_mined_def hash_for_merged_mining_def demo_zeros network_defs Let_def min_def)
  then have occ: "occurs_at demo_coinbase (expected_tag rlp_std mainnet ?h) 0"
    by (simp add: occurs_at_def demo_coinbase_def RSK_TAG_def)
  have f: "h_mm_coinbase ?h = Some c" "h_mm_header ?h = Some (demo_encode (demo_header 0 0 1))"
    "h_mm_merkle_proof ?h = Some []" "h_difficulty ?h \<noteq> 0"
    "hash_as_number (bl_block_hash demo_lib (demo_header 0 0 1)) \<le> max_val div h_difficulty ?h"
    by (simp_all add: demo_mined_def)
  have "rskip92_merkle_root (\<lambda>_. replicate 32 0) (rev (replicate 32 0)) [] = to_be 32 (bh_merkle_root (demo_header 0 0 1))"
    by (simp add: rskip92_merkle_root_def demo_header_def demo_zeros)
  then show ?thesis
    using compressed_coinbase_accepted [OF c len demo_find occ f(1-3) demo_btc f(4,5), of "\<lambda>_. replicate 32 0"] by auto
qed

section \<open>A forged proof of work\<close>

lemma words_of_32:
  assumes "length d = 32"
  shows "concat (map (to_be 4) [from_be (slice 0 4 d) :: u32, from_be (slice 4 8 d), from_be (slice 8 12 d),
      from_be (slice 12 16 d), from_be (slice 16 20 d), from_be (slice 20 24 d), from_be (slice 24 28 d),
      from_be (slice 28 32 d)]) = d"
proof -
  have w: "to_be 4 (from_be (slice i (i + 4) d) :: u32) = take 4 (drop i d)" if "i + 4 \<le> 32" for i
    using that assms by (subst to_be_from_be) (simp_all add: slice_def)
  have cut: "drop i d = take 4 (drop i d) @ drop (i + 4) d" for i
    by (metis append_take_drop_id drop_drop add.commute)
  have "d = drop 0 d" by simp
  also have "\<dots> = take 4 (drop 0 d) @ take 4 (drop 4 d) @ take 4 (drop 8 d) @ take 4 (drop 12 d) @ take 4 (drop 16 d) @
      take 4 (drop 20 d) @ take 4 (drop 24 d) @ take 4 (drop 28 d) @ drop 32 d"
    using cut [of 0] cut [of 4] cut [of 8] cut [of 12] cut [of 16] cut [of 20] cut [of 24] cut [of 28] by simp
  finally show ?thesis
    using assms w [of 0] w [of 4] w [of 8] w [of 12] w [of 16] w [of 20] w [of 24] w [of 28] by simp
qed

text \<open>C24. A proof of work can be forged. \<open>sha256_from_midstate\<close> drops what is left after the last whole
  block, so with a byte count one past a block boundary and a short tail it hashes nothing and
  returns the midstate. Let \<open>d\<close> be the first SHA-256 of the coinbase (or of any transaction) of some
  Bitcoin block whose hash meets the target: then every header, whatever its contents, passes the
  merged-mining rule once it carries that block's header and merkle proof and the coinbase field
  \<open>1 || d || tag || hash\<close>, although the Bitcoin block does not commit to the header.\<close>

theorem forged_proof_of_work:
  assumes btc: "bl_decode L bs = Some btc" "h_difficulty h \<noteq> 0"
      "hash_as_number (bl_block_hash L btc) \<le> max_val div h_difficulty h"
    and d: "length d = 32" and merkle: "length pr mod 32 = 0" "length pr \<le> 960"
      "rskip92_merkle_root sha (rev (sha d)) pr = to_be 32 (bh_merkle_root btc)"
    and tag: "find_last_subsequence (RSK_TAG @ to_be 32 (hash_for_merged_mining R h)) RSK_TAG = Some 0"
  shows "merged_mining_rule R L sha config (h\<lparr> h_mm_header := Some bs, h_mm_merkle_proof := Some pr,
      h_mm_coinbase := Some (to_be 8 (1 :: u64) @ d @ RSK_TAG @ to_be 32 (hash_for_merged_mining R h)) \<rparr>) = Inr ()"
proof -
  let ?tail = "RSK_TAG @ to_be 32 (hash_for_merged_mining R h)"
  let ?c = "to_be 8 (1 :: u64) @ d @ ?tail"
  let ?h = "h\<lparr> h_mm_header := Some bs, h_mm_merkle_proof := Some pr, h_mm_coinbase := Some ?c \<rparr>"
  have taglen: "length RSK_TAG = 9" by (simp add: RSK_TAG_def)
  have mm: "hash_for_merged_mining R ?h = hash_for_merged_mining R h"
    by (simp add: hash_for_merged_mining_def encode_base_fields_def base_items_def cong: option.case_cong)
  have tail: "drop 40 ?c = ?tail" "length ?c \<ge> 41" using d by (simp_all add: taglen)
  obtain k where k: "expected_tag R config ?h = RSK_TAG @ take k (to_be 32 (hash_for_merged_mining R h))" "k \<le> 32"
  proof (cases "wasabi100 (activations config) \<le> h_number h")
    case True
    then show ?thesis using that [of 20] by (simp add: expected_tag_def mm Let_def)
  next
    case False
    then show ?thesis using that [of 32] by (simp add: expected_tag_def mm Let_def)
  qed
  have "occurs_at ?tail (RSK_TAG @ take k (to_be 32 (hash_for_merged_mining R h))) 0"
    using k(2) by (simp add: occurs_at_def taglen min_def)
  then have t: "check_coinbase_tag (expected_tag R config ?h) ?tail = Inr ()"
    unfolding check_coinbase_tag_ok k(1)
    using find_last_extend [OF tag] tag by (intro exI [of _ 0]) (simp add: taglen)
  let ?st = "[from_be (slice 0 4 d) :: u32, from_be (slice 4 8 d), from_be (slice 8 12 d),
      from_be (slice 12 16 d), from_be (slice 16 20 d), from_be (slice 20 24 d), from_be (slice 24 28 d),
      from_be (slice 28 32 d)]"
  have "compute_coinbase_hash sha ?c = rev (sha (sha256_from_midstate ?st 1 ?tail))"
    using compute_from_midstate [of ?st sha 1 ?tail] by (simp only: words_of_32 [OF d] append_assoc) simp
  also have "sha256_from_midstate ?st 1 ?tail = d"
    using sha256_short_tail [of 1 ?tail ?st] words_of_32 [OF d] by (simp add: taglen)
  finally have "compute_coinbase_hash sha ?c = rev (sha d)" .
  then have "check_merkle_proof sha config ?h btc (compute_coinbase_hash sha ?c) = Inr ()"
    using merkle by (simp add: check_merkle_proof_def ensure_def of_option_def Let_def)
  then show ?thesis
    using t tail btc by (simp add: merged_mining_rule_def ensure_def of_option_def not_less Let_def)
qed

lemma forged_proof_of_work_witness:
  "\<exists>c. merged_mining_rule rlp_std demo_lib (\<lambda>_. replicate 32 0) mainnet (demo_mined\<lparr> h_mm_coinbase := Some c \<rparr>) = Inr ()"
proof -
  have tag: "find_last_subsequence (RSK_TAG @ to_be 32 (hash_for_merged_mining rlp_std demo_mined)) RSK_TAG = Some 0"
    using demo_find by (simp add: demo_hash_zero demo_zeros demo_coinbase_def)
  have work: "h_difficulty demo_mined \<noteq> 0"
    "hash_as_number (bl_block_hash demo_lib (demo_header 0 0 1)) \<le> max_val div h_difficulty demo_mined"
    by (simp_all add: demo_difficulty)
  have root: "rskip92_merkle_root (\<lambda>_. replicate 32 0) (rev (replicate 32 0)) [] = to_be 32 (bh_merkle_root (demo_header 0 0 1))"
    by (simp add: rskip92_merkle_root_def demo_header_def demo_zeros)
  have same: "demo_mined\<lparr> h_mm_header := Some (demo_encode (demo_header 0 0 1)), h_mm_merkle_proof := Some [],
      h_mm_coinbase := Some c \<rparr> = demo_mined\<lparr> h_mm_coinbase := Some c \<rparr>" for c
    by (simp add: demo_mined_def)
  show ?thesis
    using forged_proof_of_work [OF demo_btc work, where d = "replicate 32 0" and pr = "[]"
        and sha = "\<lambda>_. replicate 32 0" and R = rlp_std and config = mainnet] root tag
    by (auto simp: same)
qed

section \<open>One proof of work, many hashes\<close>

lemma string_inj:
  assumes "rlp_ok R" and "length p < 2 ^ 64" and "length q < 2 ^ 64"
    and "rl_string_bytes R p @ x = rl_string_bytes R q @ y"
  shows "p = q"
proof -
  have "(Inr (p, x) :: (bytes \<times> bytes) rlp) = rl_bytes R (rl_string_bytes R p @ x)"
    by (rule rlp_laws(3) [OF assms(1,2), symmetric])
  also have "\<dots> = Inr (q, y)" unfolding assms(4) by (rule rlp_laws(3) [OF assms(1,3)])
  finally show ?thesis by blast
qed

lemma wrap_inj:
  assumes "rlp_ok R" and "length p < 2 ^ 64" and "length q < 2 ^ 64" and "wrap_list R p = wrap_list R q"
  shows "p = q"
proof -
  have h: "rl_header R (wrap_list R m) = Inr (True, length m, m)" if "length m < 2 ^ 64" for m
    using rlp_laws(1) [OF assms(1) that, of "[]"] by (simp only: wrap_list_def append_Nil2)
  have "(Inr (True, length p, p) :: (bool \<times> nat \<times> bytes) rlp) = rl_header R (wrap_list R p)"
    by (rule h [OF assms(2), symmetric])
  also have "\<dots> = Inr (True, length q, q)" unfolding assms(4) by (rule h [OF assms(3)])
  finally show ?thesis by blast
qed

text \<open>A mined header can be given another block hash without mining it again: appending bytes to
  its Bitcoin header changes what the block hash is taken over, but not the verdict of the
  merged-mining rule, since decoding the Bitcoin header ignores what follows its 80 bytes and the
  merged-mining hash does not cover the field. So two headers with different preimages of their hash
  are backed by one and the same proof of work.\<close>

theorem one_proof_many_hashes:
  assumes ok: "rlp_ok R" "btc_lib_ok L" and field: "h_mm_header h = Some bs" "bl_decode L bs = Some btc"
    and junk: "junk \<noteq> []" and uncached: "h_cached_hash h = None"
    and enc: "encodable R (h\<lparr> h_mm_header := Some (bs @ junk) \<rparr>)" "encodable R h"
  shows "merged_mining_rule R L sha config (h\<lparr> h_mm_header := Some (bs @ junk) \<rparr>) = merged_mining_rule R L sha config h
    \<and> (\<exists>m m'. header_hash R acts h = rl_keccak R m \<and>
        header_hash R acts (h\<lparr> h_mm_header := Some (bs @ junk) \<rparr>) = rl_keccak R m' \<and> m \<noteq> m')"
proof
  let ?h = "h\<lparr> h_mm_header := Some (bs @ junk) \<rparr>"
  have dec: "bl_decode L (bs @ junk) = Some btc" using ok(2) field(2) by (simp add: btc_lib_ok_def)
  have base: "encode_base_fields R ?h = encode_base_fields R h" by (simp add: encode_base_fields_def base_items_def)
  have mm: "hash_for_merged_mining R ?h = hash_for_merged_mining R h"
    by (simp add: hash_for_merged_mining_def base cong: option.case_cong)
  show "merged_mining_rule R L sha config ?h = merged_mining_rule R L sha config h"
    by (simp add: merged_mining_rule_def field dec of_option_def expected_tag_def mm check_merkle_proof_def)
  let ?u = "case h_umm_root h of None \<Rightarrow> [] | Some umm \<Rightarrow> rl_string_bytes R umm"
  have pay: "encode_payload R wp h = encode_base_fields R h @ ?u @ rl_string_bytes R bs @
        (if wp then opt_string R (h_mm_merkle_proof h) @ opt_string R (h_mm_coinbase h) else [])"
    "encode_payload R wp ?h = encode_base_fields R h @ ?u @ rl_string_bytes R (bs @ junk) @
        (if wp then opt_string R (h_mm_merkle_proof h) @ opt_string R (h_mm_coinbase h) else [])" for wp
    using rlp_empty_string [OF ok(1)]
    by (simp_all add: encode_payload_def field base opt_string_def split: option.splits)
  have small: "length (encode_payload R wp h) < 2 ^ 64" "length (encode_payload R wp ?h) < 2 ^ 64" for wp
    using enc unfolding encodable_def pay by (auto split: if_splits)
  have b: "length bs < 2 ^ 64" "length (bs @ junk) < 2 ^ 64"
    using small [of True] rlp_string_length [OF ok(1), of bs] rlp_string_length [OF ok(1), of "bs @ junk"]
    unfolding pay by simp_all
  have ne: "wrap_list R (encode_payload R wp h) \<noteq> wrap_list R (encode_payload R wp ?h)" for wp
  proof
    assume "wrap_list R (encode_payload R wp h) = wrap_list R (encode_payload R wp ?h)"
    then have "encode_payload R wp h = encode_payload R wp ?h"
      by (rule wrap_inj [OF ok(1) small])
    then have "bs = bs @ junk" unfolding pay by (simp only: same_append_eq) (rule string_inj [OF ok(1) b])
    with junk show False by simp
  qed
  have act: "rskip92_active acts ?h = rskip92_active acts h" by (simp add: rskip92_active_def)
  show "\<exists>m m'. header_hash R acts h = rl_keccak R m \<and> header_hash R acts ?h = rl_keccak R m' \<and> m \<noteq> m'"
    using ne [of "\<not> rskip92_active acts h"] uncached by (auto simp: header_hash_def act)
qed

lemma one_proof_many_hashes_witness:
  "\<exists>m m'. header_hash rlp_std activations_mainnet demo_mined = rl_keccak rlp_std m \<and>
     header_hash rlp_std activations_mainnet (demo_mined\<lparr> h_mm_header := Some (demo_encode (demo_header 0 0 1) @ [0]) \<rparr>) =
       rl_keccak rlp_std m' \<and> m \<noteq> m'"
proof -
  have f: "h_mm_header demo_mined = Some (demo_encode (demo_header 0 0 1))" "[0] \<noteq> []" "h_cached_hash demo_mined = None"
    by (simp_all add: demo_mined_def header_default_def)
  have l: "length (demo_encode (demo_header 0 0 1)) = 80" by (simp add: demo_encode_def)
  have "encodable rlp_std (demo_mined\<lparr> h_mm_header := Some (demo_encode (demo_header 0 0 1) @ [0]) \<rparr>)"
    "encodable rlp_std demo_mined"
    by (rule std_encodable; simp add: demo_mined_def header_default_def l)+
  with one_proof_many_hashes [OF rlp_std_ok demo_lib_ok f(1) demo_btc f(2,3)] show ?thesis by blast
qed

end
