(* ===== verification/Verifier.thy ===== *)
theory Verifier
  imports Block_Rules Difficulty Mining_Claims
begin

text \<open>
  \<open>validation/mod.rs\<close>: the header verifier and the rules of an RSK node. The clock \<open>now\<close> is an
  argument, as are the libraries of the merged-mining rule.
\<close>

record header_verifier =
  static_rules :: "header_rule list"
  parent_rules :: "parent_rule list"

definition header_verifier_new :: header_verifier where
  "header_verifier_new = \<lparr> static_rules = [], parent_rules = [] \<rparr>"

definition with_static_rule :: "header_rule \<Rightarrow> header_verifier \<Rightarrow> header_verifier" where
  "with_static_rule r v = v\<lparr> static_rules := static_rules v @ [r] \<rparr>"

definition with_parent_rule :: "parent_rule \<Rightarrow> header_verifier \<Rightarrow> header_verifier" where
  "with_parent_rule r v = v\<lparr> parent_rules := parent_rules v @ [r] \<rparr>"

definition default_rsk ::
  "rlp_lib \<Rightarrow> btc_lib \<Rightarrow> (bytes \<Rightarrow> bytes) \<Rightarrow> u64 option \<Rightarrow> chain_config \<Rightarrow> header_verifier" where
  "default_rsk R L sha now config =
     with_parent_rule (difficulty_rule config)
    (with_parent_rule prev_min_gas_price_rule
    (with_parent_rule (block_parent_gas_limit_rule config)
    (with_parent_rule (timestamp_parent_rule now 15)
    (with_parent_rule block_number_rule
    (with_static_rule extra_data_rule_default
    (with_static_rule (merged_mining_rule R L sha config)
    (with_static_rule (gas_limit_bounds_rule (min_gas_limit config) (max_gas_limit config))
    (with_static_rule gas_used_rule header_verifier_new))))))))"

definition verify_against_parent :: "header_verifier \<Rightarrow> header \<Rightarrow> header \<Rightarrow> unit checked" where
  "verify_against_parent v h parent = eachE (\<lambda>rule. rule h parent) (parent_rules v)"

definition verify :: "header_verifier \<Rightarrow> header \<Rightarrow> header option \<Rightarrow> unit checked" where
  "verify v h parent =
     bindE (eachE (\<lambda>rule. rule h) (static_rules v)) (\<lambda>_.
       case parent of
         Some p \<Rightarrow> eachE (\<lambda>rule. rule h p) (parent_rules v)
       | None \<Rightarrow> Inr ())"

section \<open>What it accepts\<close>

definition well_formed_alone ::
  "rlp_lib \<Rightarrow> btc_lib \<Rightarrow> (bytes \<Rightarrow> bytes) \<Rightarrow> chain_config \<Rightarrow> header \<Rightarrow> bool" where
  "well_formed_alone R L sha config h \<longleftrightarrow>
     h_gas_used h \<le> ucast (h_gas_limit h) \<and>
     unat (min_gas_limit config) \<le> unat (h_gas_limit h) \<and> unat (h_gas_limit h) \<le> unat (max_gas_limit config) \<and>
     merged_mining_rule R L sha config h = Inr () \<and> length (h_extra_data h) \<le> 32"

definition follows_parent :: "u64 option \<Rightarrow> chain_config \<Rightarrow> header \<Rightarrow> header \<Rightarrow> bool" where
  "follows_parent now config h p \<longleftrightarrow>
     h_number h = h_number p + 1 \<and>
     (\<exists>t. now = Some t \<and> h_timestamp h \<le> t + 15) \<and> h_timestamp p < h_timestamp h \<and>
     gas_limit_band config h p \<and> (h_number h = 0 \<or> gas_price_band h p) \<and>
     difficulty_rule config h p = Inr ()"

lemma default_rsk_static:
  "eachE (\<lambda>rule. rule h) (static_rules (default_rsk R L sha now config)) = Inr u \<longleftrightarrow>
     well_formed_alone R L sha config h"
proof -
  have "h_gas_used h \<le> ucast (h_gas_limit h) \<longleftrightarrow> unat (h_gas_used h) \<le> unat (h_gas_limit h)"
    if "unat (h_gas_limit h) < 2 ^ 64" using that by (simp add: word_le_nat_alt unat_ucast_u64)
  moreover have "unat (h_gas_limit h) < 2 ^ 64" if "unat (h_gas_limit h) \<le> unat (max_gas_limit config)"
    using that unat_bound_u64 [of "max_gas_limit config"] by linarith
  ultimately show ?thesis
    by (auto simp: default_rsk_def with_static_rule_def with_parent_rule_def header_verifier_new_def
        well_formed_alone_def extra_data_rule_default_def result_simps)
qed


definition early_parent :: header where
  "early_parent = header_default\<lparr> h_number := 1, h_difficulty := 8000000000000000, h_timestamp := 1000,
     h_gas_limit := 6800000, h_minimum_gas_price := 500 \<rparr>"

definition early_child :: header where
  "early_child = header_default\<lparr> h_number := 2, h_difficulty := 8160000000000000, h_timestamp := 1010,
     h_gas_limit := 6806000, h_gas_used := 21000, h_minimum_gas_price := 495 \<rparr>"

lemma early_child_difficulty: "difficulty_rule mainnet early_child early_parent = Inr ()"
  by (simp add: difficulty_rule_def calculate_expected_difficulty_def early_child_def early_parent_def
      header_default_def network_defs TEN_MINUTES_def retarget_sign_def sat_sub_def ensure_def)


end
