(* ===== verification/Codec.thy ===== *)
theory Codec
  imports Btc_Store
begin

text \<open>
  The contract of a stored value's encoding (redb's \<open>Value\<close> trait): what is written reads back. A
  table that keeps encoded values then behaves as a table of values. Interpreted here on the
  Bitcoin tables' encodings and in \<open>Rsk_Store\<close> on the Rootstock ones; \<open>ForkMeta\<close>, whose encoding
  loses the tip work, has no interpretation.
\<close>

locale value_codec =
  fixes enc :: "'a \<Rightarrow> bytes" and dec :: "bytes \<Rightarrow> 'a option" and storable :: "'a \<Rightarrow> bool"
  assumes dec_enc: "storable v \<Longrightarrow> dec (enc v) = Some v"
begin

lemma enc_inj: "storable v \<Longrightarrow> storable w \<Longrightarrow> enc v = enc w \<Longrightarrow> v = w"
  by (metis dec_enc option.inject)

text \<open>Reading a table of encoded values after a write.\<close>

lemma get_put:
  "storable v \<Longrightarrow> Option.bind ((t(k \<mapsto> enc v)) k') dec = (if k' = k then Some v else Option.bind (t k') dec)"
  by (simp add: dec_enc)

text \<open>A table in which every encoded value is storable is the image of a table of values.\<close>

lemma decoded_table:
  assumes "\<And>k. Option.bind (t k) dec = m k" and "storable v"
  shows "Option.bind ((t(k \<mapsto> enc v)) k') dec = (m(k \<mapsto> v)) k'"
  using assms by (simp add: dec_enc)

end

interpretation meta_codec: value_codec meta_as_bytes meta_from_bytes "\<lambda>_. True"
  by unfold_locales (rule meta_round_trip)

end
