(* ===== verification/Rsk_Store.thy ===== *)
theory Rsk_Store
  imports Codec Header_Codec
begin

text \<open>
  \<open>crates/core/src/store/rsk.rs\<close>: the Rootstock side of the store. Headers are kept as their wire
  bytes and indexed by hash; the tree is the child lists; the proposed checkpoints are the roots,
  kept as the sorted list of keys that iterating the redb table yields.
\<close>

section \<open>Records and their encodings\<close>

record rsk_block =
  rb_number :: u64
  rb_parent :: b256
  rb_cumulative_difficulty :: u256

definition rsk_block_as_bytes :: "rsk_block \<Rightarrow> bytes" where
  "rsk_block_as_bytes b =
     to_be 8 (rb_number b) @ to_be 32 (rb_parent b) @ to_be 32 (rb_cumulative_difficulty b)"

definition rsk_block_from_bytes :: "bytes \<Rightarrow> rsk_block" where
  "rsk_block_from_bytes d = \<lparr> rb_number = from_be (slice 0 8 d), rb_parent = from_be (slice 8 40 d),
     rb_cumulative_difficulty = from_be (slice 40 72 d) \<rparr>"

definition hash_list_as_bytes :: "b256 list \<Rightarrow> bytes" where
  "hash_list_as_bytes hs = concat (map (to_be 32) hs)"

text \<open>\<open>data.chunks(32)\<close>, with a short last chunk filtered out.\<close>

definition hash_list_from_bytes :: "bytes \<Rightarrow> b256 list" where
  "hash_list_from_bytes d = map from_be (chunks 32 d)"

definition blob_list_as_bytes :: "bytes list \<Rightarrow> bytes" where
  "blob_list_as_bytes bs = to_be 4 (of_nat (length bs) :: u32) @
     concat (map (\<lambda>b. to_be 4 (of_nat (length b) :: u32) @ b) bs)"

text \<open>The loop over the announced count, on the rest of the data.\<close>

fun take_blobs :: "nat \<Rightarrow> bytes \<Rightarrow> bytes list" where
  "take_blobs 0 d = []"
| "take_blobs (Suc k) d =
    (if length d < 4 then []
     else
       let n = unat (from_be (take 4 d) :: u32); rest = drop 4 d in
       if length rest < n then [] else take n rest # take_blobs k (drop n rest))"

definition blob_list_from_bytes :: "bytes \<Rightarrow> bytes list" where
  "blob_list_from_bytes d =
    (if length d < 4 then [] else take_blobs (unat (from_be (take 4 d) :: u32)) (drop 4 d))"

section \<open>The tables\<close>

text \<open>A stored index whose bytes do not have the fixed width would panic; tables hold decoded
  values, as \<open>block_codec\<close>, \<open>hash_list_codec\<close> and \<open>blob_list_codec\<close> below allow.\<close>

record rsk_store =
  rs_headers :: "b256 \<Rightarrow> bytes option"
  rs_blocks :: "b256 \<Rightarrow> rsk_block option"
  rs_children :: "b256 \<Rightarrow> b256 list option"
  rs_uncles :: "b256 \<Rightarrow> bytes list option"
  rs_roots :: "b256 list"

definition empty_rsk_store :: rsk_store where
  "empty_rsk_store = \<lparr> rs_headers = (\<lambda>_. None), rs_blocks = (\<lambda>_. None), rs_children = (\<lambda>_. None),
     rs_uncles = (\<lambda>_. None), rs_roots = [] \<rparr>"

record rsk_uncle =
  ru_header :: header
  ru_raw :: bytes

record rsk_entry =
  re_header :: header
  re_raw :: bytes
  re_uncles :: "rsk_uncle list"

section \<open>Reads\<close>

definition rsk_raw_header :: "rsk_store \<Rightarrow> b256 \<Rightarrow> bytes option" where
  "rsk_raw_header st h = rs_headers st h"

definition rsk_block_of :: "rsk_store \<Rightarrow> b256 \<Rightarrow> rsk_block option" where
  "rsk_block_of st h = rs_blocks st h"

definition rsk_has_block :: "rsk_store \<Rightarrow> b256 \<Rightarrow> bool" where
  "rsk_has_block st h \<longleftrightarrow> rsk_block_of st h \<noteq> None"

definition rsk_children :: "rsk_store \<Rightarrow> b256 \<Rightarrow> b256 list" where
  "rsk_children st h = (case rs_children st h of Some cs \<Rightarrow> cs | None \<Rightarrow> [])"

definition rsk_uncle_raw :: "rsk_store \<Rightarrow> b256 \<Rightarrow> bytes list" where
  "rsk_uncle_raw st h = (case rs_uncles st h of Some us \<Rightarrow> us | None \<Rightarrow> [])"

definition rsk_roots :: "rsk_store \<Rightarrow> b256 list" where
  "rsk_roots st = rs_roots st"

text \<open>The depth-first walk of the subtree; the stack's top is the head of the list.\<close>

partial_function (option) subtree_loop ::
  "rsk_store \<Rightarrow> u256 \<Rightarrow> b256 list \<Rightarrow> b256 set \<Rightarrow> u256 option" where
  "subtree_loop st acc stack seen =
    (case stack of
       [] \<Rightarrow> Some acc
     | h # rest \<Rightarrow>
         if h \<in> seen then subtree_loop st acc rest seen
         else subtree_loop st
           (case rsk_block_of st h of Some b \<Rightarrow> sat_add acc (rb_cumulative_difficulty b) | None \<Rightarrow> acc)
           (rev (rsk_children st h) @ rest) (insert h seen))"

definition rsk_subtree_work :: "rsk_store \<Rightarrow> b256 \<Rightarrow> u256 option" where
  "rsk_subtree_work st root = subtree_loop st 0 [root] {}"

section \<open>Writes\<close>

definition cumulative_difficulty :: "rsk_entry \<Rightarrow> u256" where
  "cumulative_difficulty e =
     foldl (\<lambda>work u. sat_add work (h_difficulty (ru_header u))) (h_difficulty (re_header e)) (re_uncles e)"

definition rsk_put_block :: "b256 \<Rightarrow> bytes \<Rightarrow> rsk_block \<Rightarrow> rsk_store \<Rightarrow> rsk_store" where
  "rsk_put_block h raw b st = st\<lparr> rs_headers := (rs_headers st)(h \<mapsto> raw), rs_blocks := (rs_blocks st)(h \<mapsto> b) \<rparr>"

definition rsk_put_uncles :: "b256 \<Rightarrow> bytes list \<Rightarrow> rsk_store \<Rightarrow> rsk_store" where
  "rsk_put_uncles h raws st = st\<lparr> rs_uncles := (rs_uncles st)(h \<mapsto> raws) \<rparr>"

definition rsk_add_child :: "b256 \<Rightarrow> b256 \<Rightarrow> rsk_store \<Rightarrow> rsk_store" where
  "rsk_add_child par child st = st\<lparr> rs_children := (rs_children st)(par \<mapsto> rsk_children st par @ [child]) \<rparr>"

definition rsk_put_root :: "b256 \<Rightarrow> rsk_store \<Rightarrow> rsk_store" where
  "rsk_put_root h st = st\<lparr> rs_roots := (if h \<in> set (rs_roots st) then rs_roots st else insort h (rs_roots st)) \<rparr>"

definition rsk_put_entry ::
  "rlp_lib \<Rightarrow> activation_heights \<Rightarrow> rsk_entry \<Rightarrow> rsk_store \<Rightarrow> b256 \<times> rsk_store" where
  "rsk_put_entry R acts e st =
    (let header = re_header e; h = header_hash R acts header;
         b = \<lparr> rb_number = h_number header, rb_parent = h_parent_hash header,
               rb_cumulative_difficulty = cumulative_difficulty e \<rparr>;
         st1 = rsk_put_block h (re_raw e) b st;
         st2 = rsk_put_uncles h (map ru_raw (re_uncles e)) st1;
         st3 = (if rsk_has_block st2 (h_parent_hash header) then rsk_add_child (h_parent_hash header) h st2 else st2)
     in (h, st3))"

section \<open>Round trips\<close>

interpretation block_codec: value_codec rsk_block_as_bytes "\<lambda>d. Some (rsk_block_from_bytes d)" "\<lambda>_. True"
  by unfold_locales (simp add: rsk_block_as_bytes_def rsk_block_from_bytes_def slice_def codec)

interpretation hash_list_codec: value_codec hash_list_as_bytes "\<lambda>d. Some (hash_list_from_bytes d)" "\<lambda>_. True"
proof
  fix hs :: "b256 list"
  have "chunks 32 (concat (map (to_be 32) hs)) = map (to_be 32) hs"
    by (rule chunks_concat) auto
  then show "Some (hash_list_from_bytes (hash_list_as_bytes hs)) = Some hs"
    by (simp add: hash_list_as_bytes_def hash_list_from_bytes_def comp_def codec)
qed

definition blobs_fit :: "bytes list \<Rightarrow> bool" where
  "blobs_fit bs \<longleftrightarrow> length bs < 2 ^ 32 \<and> (\<forall>b \<in> set bs. length b < 2 ^ 32)"

lemma take_blobs_concat:
  "\<forall>b \<in> set bs. length b < 2 ^ 32 \<Longrightarrow>
     take_blobs (length bs) (concat (map (\<lambda>b. to_be 4 (of_nat (length b) :: u32) @ b) bs)) = bs"
proof (induction bs)
  case (Cons b bs)
  then have "unat (of_nat (length b) :: u32) = length b" by (simp add: unat_of_nat)
  with Cons show ?case by (simp add: Let_def codec)
qed simp

interpretation blob_list_codec: value_codec blob_list_as_bytes "\<lambda>d. Some (blob_list_from_bytes d)" blobs_fit
proof
  fix bs :: "bytes list"
  assume fit: "blobs_fit bs"
  then have "unat (of_nat (length bs) :: u32) = length bs" by (simp add: blobs_fit_def unat_of_nat)
  then show "Some (blob_list_from_bytes (blob_list_as_bytes bs)) = Some bs"
    using take_blobs_concat [of bs] fit
    by (simp add: blob_list_from_bytes_def blob_list_as_bytes_def codec blobs_fit_def)
qed

end
