(* ===== verification/Rsk_Ghost.thy ===== *)
theory Rsk_Ghost
  imports Rsk_Store
begin

text \<open>
  The GHOST weight of a subtree: the walk of \<open>rsk_subtree_work\<close> ends, visits every block reachable
  over child edges exactly once, and returns the sum of their work, saturated at \<open>2 ^ 256 - 1\<close>.
\<close>

definition child_rel :: "rsk_store \<Rightarrow> (b256 \<times> b256) set" where
  "child_rel st = {(p, c). c \<in> set (rsk_children st p)}"

definition subtree :: "rsk_store \<Rightarrow> b256 \<Rightarrow> b256 set" where
  "subtree st root = {h. (root, h) \<in> (child_rel st)\<^sup>*}"

definition work_of :: "rsk_store \<Rightarrow> b256 \<Rightarrow> nat" where
  "work_of st h = (case rsk_block_of st h of None \<Rightarrow> 0 | Some b \<Rightarrow> unat (rb_cumulative_difficulty b))"

definition ghost_weight :: "rsk_store \<Rightarrow> b256 \<Rightarrow> nat" where
  "ghost_weight st root = min (\<Sum>h \<in> subtree st root. work_of st h) (2 ^ 256 - 1)"

lemma root_in_subtree: "root \<in> subtree st root"
  by (simp add: subtree_def)

lemma subtree_closed: "h \<in> subtree st root \<Longrightarrow> set (rsk_children st h) \<subseteq> subtree st root"
  by (auto simp: subtree_def child_rel_def intro: rtrancl_into_rtrancl)

lemma subtree_least:
  assumes "root \<in> T" and "\<And>h. h \<in> T \<Longrightarrow> set (rsk_children st h) \<subseteq> T"
  shows "subtree st root \<subseteq> T"
proof
  fix h assume "h \<in> subtree st root"
  then have "(root, h) \<in> (child_rel st)\<^sup>*" by (simp add: subtree_def)
  then show "h \<in> T"
    by (induction rule: rtrancl_induct) (use assms in \<open>auto simp: child_rel_def\<close>)
qed

lemma subtree_finite: "finite (dom (rs_children st)) \<Longrightarrow> finite (subtree st root)"
proof -
  assume fin: "finite (dom (rs_children st))"
  let ?T = "insert root (\<Union>p \<in> dom (rs_children st). set (rsk_children st p))"
  have "subtree st root \<subseteq> ?T"
  proof (rule subtree_least)
    show "set (rsk_children st h) \<subseteq> ?T" for h
      by (cases "rs_children st h") (auto simp: rsk_children_def)
  qed simp
  with fin show ?thesis by (meson List.finite_set finite.insertI finite_UN_I finite_subset)
qed

lemma sat_add_sum:
  "unat acc = min s (2 ^ 256 - 1) \<Longrightarrow> unat (sat_add acc w) = min (s + unat w) (2 ^ 256 - 1)" for acc w :: u256
  by (simp add: unat_sat_add)

text \<open>The walk from any intermediate state: \<open>seen\<close> is closed up to what the stack still holds and
  \<open>acc\<close> is its work. The measure counts the unseen blocks with their edges and the stack.\<close>

lemma subtree_loop_ends:
  assumes fin: "finite R" and closed: "\<And>h. h \<in> R \<Longrightarrow> set (rsk_children st h) \<subseteq> R"
  shows "seen \<subseteq> R \<Longrightarrow> set stack \<subseteq> R \<Longrightarrow> (\<forall>h \<in> seen. set (rsk_children st h) \<subseteq> seen \<union> set stack) \<Longrightarrow>
    unat acc = min (\<Sum>h \<in> seen. work_of st h) (2 ^ 256 - 1) \<Longrightarrow>
    \<exists>w T. subtree_loop st acc stack seen = Some w \<and> seen \<union> set stack \<subseteq> T \<and> T \<subseteq> R \<and>
      (\<forall>h \<in> T. set (rsk_children st h) \<subseteq> T) \<and> unat w = min (\<Sum>h \<in> T. work_of st h) (2 ^ 256 - 1)"
proof (induction "(\<Sum>h \<in> R - seen. Suc (length (rsk_children st h))) + length stack" arbitrary: acc stack seen
    rule: less_induct)
  case less
  show ?case
  proof (cases stack)
    case Nil
    then show ?thesis using less.prems
      by (intro exI [of _ acc] exI [of _ seen]) (simp add: subtree_loop.simps)
  next
    case (Cons h rest)
    show ?thesis
    proof (cases "h \<in> seen")
      case True
      then have step: "subtree_loop st acc stack seen = subtree_loop st acc rest seen"
        by (simp add: Cons subtree_loop.simps [of st acc "h # rest" seen])
      have "\<exists>w T. subtree_loop st acc rest seen = Some w \<and> seen \<union> set rest \<subseteq> T \<and> T \<subseteq> R \<and>
          (\<forall>h \<in> T. set (rsk_children st h) \<subseteq> T) \<and> unat w = min (\<Sum>h \<in> T. work_of st h) (2 ^ 256 - 1)"
        using less.prems True by (intro less.hyps) (auto simp: Cons)
      with step True show ?thesis by (auto simp: Cons)
    next
      case False
      let ?acc = "case rsk_block_of st h of Some b \<Rightarrow> sat_add acc (rb_cumulative_difficulty b) | None \<Rightarrow> acc"
      let ?stack = "rev (rsk_children st h) @ rest"
      have step: "subtree_loop st acc stack seen = subtree_loop st ?acc ?stack (insert h seen)"
        using False by (simp add: Cons subtree_loop.simps [of st acc "h # rest" seen])
      have hR: "h \<in> R" and fs: "finite seen"
        using less.prems(1,2) fin by (auto simp: Cons intro: finite_subset)
      have "unat ?acc = min ((\<Sum>h \<in> seen. work_of st h) + work_of st h) (2 ^ 256 - 1)"
        using less.prems(4) by (auto simp: work_of_def sat_add_sum split: option.splits)
      then have acc: "unat ?acc = min (\<Sum>h \<in> insert h seen. work_of st h) (2 ^ 256 - 1)"
        using fs False by (simp add: add.commute)
      have "(\<Sum>h \<in> R - seen. Suc (length (rsk_children st h))) =
          Suc (length (rsk_children st h)) + (\<Sum>h \<in> R - insert h seen. Suc (length (rsk_children st h)))"
        using fin hR False by (subst sum.remove [of "R - seen" h]) (auto intro: sum.cong)
      then have "\<exists>w T. subtree_loop st ?acc ?stack (insert h seen) = Some w \<and>
          insert h seen \<union> set ?stack \<subseteq> T \<and> T \<subseteq> R \<and>
          (\<forall>h \<in> T. set (rsk_children st h) \<subseteq> T) \<and> unat w = min (\<Sum>h \<in> T. work_of st h) (2 ^ 256 - 1)"
        using less.prems closed [OF hR] acc by (intro less.hyps) (auto simp: Cons)
      then show ?thesis unfolding step by (auto simp: Cons)
    qed
  qed
qed

lemma subtree_work_is_weight:
  assumes "finite (dom (rs_children st))"
  shows "\<exists>w. rsk_subtree_work st root = Some w \<and> unat w = ghost_weight st root"
proof -
  have "\<exists>w T. subtree_loop st 0 [root] {} = Some w \<and> {} \<union> set [root] \<subseteq> T \<and> T \<subseteq> subtree st root \<and>
      (\<forall>h \<in> T. set (rsk_children st h) \<subseteq> T) \<and> unat w = min (\<Sum>h \<in> T. work_of st h) (2 ^ 256 - 1)"
    using subtree_finite [OF assms] subtree_closed
    by (intro subtree_loop_ends [of "subtree st root"]) (auto simp: root_in_subtree)
  then obtain w T where w: "subtree_loop st 0 [root] {} = Some w" "root \<in> T" "T \<subseteq> subtree st root"
    "\<forall>h \<in> T. set (rsk_children st h) \<subseteq> T" "unat w = min (\<Sum>h \<in> T. work_of st h) (2 ^ 256 - 1)" by auto
  then have "T = subtree st root" using subtree_least [of root T st] by blast
  with w show ?thesis by (simp add: rsk_subtree_work_def ghost_weight_def)
qed

end
