(* ===== verification/Uncles.thy ===== *)
theory Uncles
  imports Header_Rules
begin

text \<open>
  \<open>validation/uncles.rs\<close>: which headers a block may list as uncles. The trait \<open>AncestorSource\<close> is the
  pair of functions \<open>lookup\<close> and \<open>uncles_of\<close>, and \<open>hash\<close> is \<open>Header::hash\<close>. The walks over ancestors
  follow stored parents and need not end; their value is then \<open>None\<close>, and so is the rule's.
\<close>

definition UNCLE_LIST_LIMIT :: nat where
  "UNCLE_LIST_LIMIT = 10"

definition UNCLE_GENERATION_LIMIT :: u64 where
  "UNCLE_GENERATION_LIMIT = 7"

section \<open>Walking ancestors\<close>

partial_function (option) ancestors_loop ::
  "(b256 \<Rightarrow> header option) \<Rightarrow> u64 \<Rightarrow> b256 \<Rightarrow> b256 set \<Rightarrow> b256 set option" where
  "ancestors_loop lookup floor_n h out =
    (case lookup h of
       None \<Rightarrow> Some out
     | Some x \<Rightarrow>
         if h_number x < floor_n then Some out
         else if h_number x = 0 then Some (insert h out)
         else ancestors_loop lookup floor_n (h_parent_hash x) (insert h out))"

definition ancestors :: "(b256 \<Rightarrow> header option) \<Rightarrow> u64 \<Rightarrow> b256 \<Rightarrow> u64 \<Rightarrow> b256 set option" where
  "ancestors lookup block_number parent_hash limit =
     ancestors_loop lookup (sat_sub block_number limit) parent_hash {}"

partial_function (option) used_loop ::
  "(b256 \<Rightarrow> header option) \<Rightarrow> (b256 \<Rightarrow> header list) \<Rightarrow> (header \<Rightarrow> b256) \<Rightarrow> u64 \<Rightarrow> b256 \<Rightarrow> b256 set
     \<Rightarrow> b256 set option" where
  "used_loop lookup uncles_of hash floor_n h out =
    (case lookup h of
       None \<Rightarrow> Some out
     | Some x \<Rightarrow>
         if h_number x < floor_n then Some out
         else
           let out' = out \<union> set (map hash (uncles_of h)) in
           if h_number x = 0 then Some out'
           else used_loop lookup uncles_of hash floor_n (h_parent_hash x) out')"

definition used_uncles ::
  "(b256 \<Rightarrow> header option) \<Rightarrow> (b256 \<Rightarrow> header list) \<Rightarrow> (header \<Rightarrow> b256) \<Rightarrow> u64 \<Rightarrow> b256 \<Rightarrow> u64
     \<Rightarrow> b256 set option" where
  "used_uncles lookup uncles_of hash block_number parent_hash limit =
     used_loop lookup uncles_of hash (sat_sub block_number limit) parent_hash {}"

section \<open>The rule\<close>

definition uncle_step ::
  "(b256 \<Rightarrow> header option) \<Rightarrow> (header \<Rightarrow> b256) \<Rightarrow> u64 \<Rightarrow> header_rule list \<Rightarrow> parent_rule list \<Rightarrow> u64
     \<Rightarrow> b256 set \<Rightarrow> b256 set \<Rightarrow> b256 set \<Rightarrow> header \<Rightarrow> b256 set checked" where
  "uncle_step lookup hash gen_limit header_rules parent_rules number anc used seen uncle =
    bindE (eachE (\<lambda>rule. rule uncle) header_rules) (\<lambda>_.
    let uncle_hash = hash uncle in
    bindE (ensure (\<not> h_number uncle \<ge> number) (UncleIsSiblingOrDescendant uncle_hash)) (\<lambda>_.
    bindE (ensure (\<not> h_number uncle + gen_limit < number + 1) (UncleTooOld uncle_hash gen_limit)) (\<lambda>_.
    bindE (ensure (uncle_hash \<notin> seen) (UncleRepeated uncle_hash)) (\<lambda>_.
    bindE (ensure (uncle_hash \<notin> anc) (UncleIsAncestor uncle_hash)) (\<lambda>_.
    bindE (ensure (uncle_hash \<notin> used) (UncleAlreadyUsed uncle_hash)) (\<lambda>_.
    bindE (of_option (UncleHasNoCommonParent uncle_hash)
      (case lookup (h_parent_hash uncle) of
         Some p \<Rightarrow> if h_parent_hash uncle \<in> anc then Some p else None
       | None \<Rightarrow> None)) (\<lambda>parent.
    bindE (eachE (\<lambda>rule. rule uncle parent) parent_rules) (\<lambda>_.
      Inr (insert uncle_hash seen)))))))))"

definition uncles_rule ::
  "(b256 \<Rightarrow> header option) \<Rightarrow> (b256 \<Rightarrow> header list) \<Rightarrow> (header \<Rightarrow> b256) \<Rightarrow> nat \<Rightarrow> u64
     \<Rightarrow> header_rule list \<Rightarrow> parent_rule list \<Rightarrow> block \<Rightarrow> unit checked option" where
  "uncles_rule lookup uncles_of hash list_limit gen_limit header_rules parent_rules b =
    (if b_ommers b = [] then Some (Inr ())
     else
       let number = h_number (b_header b); parent_hash = h_parent_hash (b_header b) in
       Option.bind (ancestors lookup number parent_hash gen_limit) (\<lambda>anc.
       Option.bind (used_uncles lookup uncles_of hash number parent_hash gen_limit) (\<lambda>used.
         Some (bindE (ensure (\<not> length (b_ommers b) > list_limit)
             (TooManyUncles list_limit (length (b_ommers b)))) (\<lambda>_.
           bindE (foldE (uncle_step lookup hash gen_limit header_rules parent_rules number anc used) {} (b_ommers b))
             (\<lambda>_. Inr ()))))))"

section \<open>What it accepts\<close>

text \<open>An admissible uncle, given the ancestors of the block and the uncles they used.\<close>

definition admissible ::
  "(b256 \<Rightarrow> header option) \<Rightarrow> (header \<Rightarrow> b256) \<Rightarrow> u64 \<Rightarrow> header_rule list \<Rightarrow> parent_rule list \<Rightarrow> u64
     \<Rightarrow> b256 set \<Rightarrow> b256 set \<Rightarrow> header \<Rightarrow> bool" where
  "admissible lookup hash gen_limit header_rules parent_rules number anc used u \<longleftrightarrow>
     (\<forall>r \<in> set header_rules. r u = Inr ()) \<and> h_number u < number \<and> number + 1 \<le> h_number u + gen_limit \<and>
     hash u \<notin> anc \<and> hash u \<notin> used \<and> h_parent_hash u \<in> anc \<and>
     (\<exists>p. lookup (h_parent_hash u) = Some p \<and> (\<forall>r \<in> set parent_rules. r u p = Inr ()))"

lemma uncle_step_Inr:
  "uncle_step lookup hash g hr pr n anc used seen u = Inr seen' \<longleftrightarrow>
     admissible lookup hash g hr pr n anc used u \<and> hash u \<notin> seen \<and> seen' = insert (hash u) seen"
  unfolding uncle_step_def admissible_def Let_def
  by (auto simp: result_simps not_less not_le split: option.splits if_splits)

lemma uncle_fold_Inr:
  "foldE (uncle_step lookup hash g hr pr n anc used) seen us = Inr seen' \<longleftrightarrow>
     (\<forall>u \<in> set us. admissible lookup hash g hr pr n anc used u) \<and> distinct (map hash us) \<and>
     set (map hash us) \<inter> seen = {} \<and> seen' = seen \<union> set (map hash us)"
proof (induction us arbitrary: seen)
  case (Cons u us)
  show ?case by (auto simp: result_simps uncle_step_Inr Cons.IH)
qed auto

section \<open>Ancestries whose numbers decrease\<close>

text \<open>The contract between the rule and the store that answers its lookups: along stored parents the
  block numbers go down. Under it the walks end and collect no more hashes than the window has
  numbers.\<close>

locale ancestry =
  fixes lookup :: "'st \<Rightarrow> b256 \<Rightarrow> header option"
    and uncles_of :: "'st \<Rightarrow> b256 \<Rightarrow> header list"
    and wf_store :: "'st \<Rightarrow> bool"
  assumes numbers_decrease: "wf_store st \<Longrightarrow> lookup st h = Some x \<Longrightarrow> lookup st (h_parent_hash x) = Some y \<Longrightarrow>
    h_number y < h_number x"
begin

lemma walks_end:
  assumes "wf_store st"
  shows "\<exists>hs. (\<forall>out. ancestors_loop (lookup st) floor_n h out = Some (out \<union> set hs)) \<and>
    (\<forall>out. used_loop (lookup st) (uncles_of st) hash floor_n h out =
       Some (out \<union> (\<Union>a \<in> set hs. hash ` set (uncles_of st a)))) \<and>
    (\<forall>a \<in> set hs. \<exists>x. lookup st a = Some x \<and> floor_n \<le> h_number x) \<and>
    length hs \<le> (case lookup st h of None \<Rightarrow> 0 | Some x \<Rightarrow> Suc (unat (h_number x)) - unat floor_n)"
proof (induction "case lookup st h of None \<Rightarrow> 0 | Some x \<Rightarrow> Suc (unat (h_number x))" arbitrary: h rule: less_induct)
  case less
  show ?case
  proof (cases "lookup st h")
    case None
    then show ?thesis by (intro exI [of _ "[]"]) (simp add: ancestors_loop.simps used_loop.simps)
  next
    case (Some x)
    show ?thesis
    proof (cases "h_number x < floor_n")
      case True
      then show ?thesis using Some
        by (intro exI [of _ "[]"]) (simp add: ancestors_loop.simps used_loop.simps)
    next
      case above: False
      then have fl: "unat floor_n \<le> unat (h_number x)" by (simp add: word_less_nat_alt)
      show ?thesis
      proof (cases "h_number x = 0")
        case True
        then show ?thesis using Some above fl
          by (intro exI [of _ "[h]"]) (simp add: ancestors_loop.simps used_loop.simps not_less)
      next
        case False
        let ?p = "h_parent_hash x"
        have dec: "(case lookup st ?p of None \<Rightarrow> 0 | Some y \<Rightarrow> Suc (unat (h_number y))) \<le> unat (h_number x)"
          using numbers_decrease [OF assms Some] by (auto simp: word_less_nat_alt split: option.splits)
        with less [of ?p] Some obtain hs where hs:
          "\<And>out. ancestors_loop (lookup st) floor_n ?p out = Some (out \<union> set hs)"
          "\<And>out. used_loop (lookup st) (uncles_of st) hash floor_n ?p out =
             Some (out \<union> (\<Union>a \<in> set hs. hash ` set (uncles_of st a)))"
          "\<forall>a \<in> set hs. \<exists>x. lookup st a = Some x \<and> floor_n \<le> h_number x"
          "length hs \<le> (case lookup st ?p of None \<Rightarrow> 0 | Some y \<Rightarrow> Suc (unat (h_number y)) - unat floor_n)"
          by auto
        have "length hs \<le> unat (h_number x) - unat floor_n"
          using hs(4) dec by (auto split: option.splits)
        then have len: "length (h # hs) \<le> Suc (unat (h_number x)) - unat floor_n"
          using fl by (simp add: Suc_diff_le)
        have "ancestors_loop (lookup st) floor_n h out = Some (out \<union> set (h # hs))" for out
          using Some above False hs(1) by (subst ancestors_loop.simps) simp
        moreover have "used_loop (lookup st) (uncles_of st) hash floor_n h out =
            Some (out \<union> (\<Union>a \<in> set (h # hs). hash ` set (uncles_of st a)))" for out
          using Some above False hs(2) by (subst used_loop.simps) (simp add: Un_assoc Let_def)
        moreover have "\<forall>a \<in> set (h # hs). \<exists>x. lookup st a = Some x \<and> floor_n \<le> h_number x"
          using hs(3) Some above by (simp add: not_less)
        ultimately show ?thesis using len Some by (intro exI [of _ "h # hs"]) simp
      qed
    qed
  qed
qed

text \<open>The window: a parent below the block leaves at most \<open>limit\<close> ancestors.\<close>

lemma ancestors_window:
  assumes "wf_store st" and "\<And>x. lookup st parent_hash = Some x \<Longrightarrow> h_number x < number"
  shows "\<exists>anc. ancestors (lookup st) number parent_hash limit = Some anc \<and>
    used_uncles (lookup st) (uncles_of st) hash number parent_hash limit =
      Some (\<Union>a \<in> anc. hash ` set (uncles_of st a)) \<and>
    finite anc \<and> card anc \<le> unat limit \<and>
    (\<forall>a \<in> anc. \<exists>x. lookup st a = Some x \<and> unat number \<le> unat (h_number x) + unat limit)"
proof -
  let ?f = "sat_sub number limit"
  obtain hs where hs: "\<And>out. ancestors_loop (lookup st) ?f parent_hash out = Some (out \<union> set hs)"
    "\<And>out. used_loop (lookup st) (uncles_of st) hash ?f parent_hash out =
       Some (out \<union> (\<Union>a \<in> set hs. hash ` set (uncles_of st a)))"
    "\<forall>a \<in> set hs. \<exists>x. lookup st a = Some x \<and> ?f \<le> h_number x"
    "length hs \<le> (case lookup st parent_hash of None \<Rightarrow> 0 | Some x \<Rightarrow> Suc (unat (h_number x)) - unat ?f)"
    using walks_end [OF assms(1), of ?f parent_hash hash] by auto
  have "length hs \<le> unat number - unat ?f"
  proof (cases "lookup st parent_hash")
    case None
    with hs(4) show ?thesis by simp
  next
    case (Some x)
    then have "Suc (unat (h_number x)) \<le> unat number" using assms(2) by (simp add: word_less_nat_alt)
    moreover have "length hs \<le> Suc (unat (h_number x)) - unat ?f" using hs(4) Some by simp
    ultimately show ?thesis by linarith
  qed
  also have "\<dots> \<le> unat limit" by (simp add: unat_sat_sub)
  finally have "card (set hs) \<le> unat limit" using card_length le_trans by blast
  moreover have "unat number \<le> unat y + unat limit" if "?f \<le> y" for y :: u64
    using that by (simp add: word_le_nat_alt unat_sat_sub le_diff_conv)
  ultimately show ?thesis using hs(1) [of "{}"] hs(2) [of "{}"] hs(3)
    by (intro exI [of _ "set hs"]) (fastforce simp: ancestors_def used_uncles_def)
qed

text \<open>So the rule returns, and accepts exactly the lists of distinct admissible uncles within the
  limit.\<close>

lemma rule_decides:
  assumes "wf_store st"
    and "\<And>x. lookup st (h_parent_hash (b_header b)) = Some x \<Longrightarrow> h_number x < h_number (b_header b)"
  shows "\<exists>anc r. uncles_rule (lookup st) (uncles_of st) hash list_limit gen_limit hrules prules b = Some r \<and>
    finite anc \<and> card anc \<le> unat gen_limit \<and>
    (\<forall>a \<in> anc. \<exists>x. lookup st a = Some x \<and> unat (h_number (b_header b)) \<le> unat (h_number x) + unat gen_limit) \<and>
    (r = Inr () \<longleftrightarrow> b_ommers b = [] \<or> length (b_ommers b) \<le> list_limit \<and> distinct (map hash (b_ommers b)) \<and>
      (\<forall>u \<in> set (b_ommers b). admissible (lookup st) hash gen_limit hrules prules (h_number (b_header b)) anc
         (\<Union>a \<in> anc. hash ` set (uncles_of st a)) u))"
proof -
  obtain anc where anc: "ancestors (lookup st) (h_number (b_header b)) (h_parent_hash (b_header b)) gen_limit = Some anc"
    "used_uncles (lookup st) (uncles_of st) hash (h_number (b_header b)) (h_parent_hash (b_header b)) gen_limit =
      Some (\<Union>a \<in> anc. hash ` set (uncles_of st a))"
    "finite anc" "card anc \<le> unat gen_limit"
    "\<forall>a \<in> anc. \<exists>x. lookup st a = Some x \<and> unat (h_number (b_header b)) \<le> unat (h_number x) + unat gen_limit"
    using ancestors_window [OF assms] by blast
  have "\<exists>r. uncles_rule (lookup st) (uncles_of st) hash list_limit gen_limit hrules prules b = Some r \<and>
    (r = Inr () \<longleftrightarrow> b_ommers b = [] \<or> length (b_ommers b) \<le> list_limit \<and> distinct (map hash (b_ommers b)) \<and>
      (\<forall>u \<in> set (b_ommers b). admissible (lookup st) hash gen_limit hrules prules (h_number (b_header b)) anc
         (\<Union>a \<in> anc. hash ` set (uncles_of st a)) u))"
    by (cases "b_ommers b = []")
      (auto simp: uncles_rule_def anc(1,2) result_simps uncle_fold_Inr not_less)
  with anc(3-5) show ?thesis by blast
qed

end

end
