(* ===== verification/Rsk_Tree.thy ===== *)
theory Rsk_Tree
  imports Btc_Chain Uncles Verifier Rsk_Store
begin

text \<open>
  \<open>crates/core/src/rsk.rs\<close>, \<open>rsk/checkpoint.rs\<close> and \<open>core.rs\<close>: the Rootstock header tree on top of
  the Bitcoin chain. A \<open>Core\<close> is the pair of its two stores, in one database; what it is opened with
  and the libraries it calls are the record \<open>core_env\<close>. The texts of error messages are shortened.
\<close>

section \<open>The core\<close>

record core_env =
  ce_network :: network
  ce_now :: "u64 option"
  ce_acts :: activation_heights
  ce_rlp :: rlp_lib
  ce_btc :: btc_lib
  ce_sha :: "bytes \<Rightarrow> bytes"

record core_state =
  cs_btc :: btc_store
  cs_rsk :: rsk_store

definition chain_config_of :: "network \<Rightarrow> chain_config" where
  "chain_config_of n = (case n of
     Bitcoin \<Rightarrow> mainnet
   | Testnet \<Rightarrow> testnet
   | Testnet4 \<Rightarrow> testnet
   | Signet \<Rightarrow> testnet
   | Regtest \<Rightarrow> regtest)"

definition core_open :: core_state where
  "core_open = \<lparr> cs_btc = empty_btc_store, cs_rsk = empty_rsk_store \<rparr>"

definition core_verifier :: "core_env \<Rightarrow> header_verifier" where
  "core_verifier env =
     default_rsk (ce_rlp env) (ce_btc env) (ce_sha env) (ce_now env) (chain_config_of (ce_network env))"

record ephemeral_checkpoint =
  ec_hash :: b256
  ec_number :: u64
  ec_work :: u256
  ec_btc_tail_work :: u256
  ec_tail_start :: u64

record rsk_connect_outcome =
  ro_connected :: nat
  ro_checkpoint :: "ephemeral_checkpoint option"

section \<open>The checkpoint rules\<close>

definition ANCHOR_DEPTH :: u64 where
  "ANCHOR_DEPTH = 100"

definition CHECKPOINT_THRESHOLD_NUM :: u64 where
  "CHECKPOINT_THRESHOLD_NUM = 2"

definition CHECKPOINT_THRESHOLD_DEN :: u64 where
  "CHECKPOINT_THRESHOLD_DEN = 3"

definition merge_mining_header :: "btc_lib \<Rightarrow> header \<Rightarrow> btc_header option" where
  "merge_mining_header L h = Option.bind (h_mm_header h) (\<lambda>bs. if length bs \<noteq> 80 then None else bl_decode L bs)"

definition anchor_height :: "btc_lib \<Rightarrow> btc_store \<Rightarrow> header \<Rightarrow> u64 option core" where
  "anchor_height L btc h = (case merge_mining_header L h of
     None \<Rightarrow> Inr None
   | Some solution \<Rightarrow> height_of btc (bh_prev solution))"

definition in_tail :: "u64 \<Rightarrow> u64 \<Rightarrow> u64 \<Rightarrow> bool" where
  "in_tail anchor btc_tail_start btc_tip \<longleftrightarrow> anchor \<ge> btc_tail_start \<and> anchor + ANCHOR_DEPTH \<le> btc_tip"

definition clears_threshold :: "u256 \<Rightarrow> u256 \<Rightarrow> bool" where
  "clears_threshold rsk_work tail_work \<longleftrightarrow>
     rsk_work * ucast CHECKPOINT_THRESHOLD_DEN > tail_work * ucast CHECKPOINT_THRESHOLD_NUM"

section \<open>Validating an entry\<close>

definition encoded_uncles :: "rlp_lib \<Rightarrow> rsk_uncle list \<Rightarrow> bytes" where
  "encoded_uncles R uncles = wrap_list R (concat (map ru_raw uncles))"

definition decode_raw :: "core_env \<Rightarrow> bytes \<Rightarrow> header option" where
  "decode_raw env raw = (case decode_with_hash (ce_rlp env) (ce_acts env) raw of
     Inr (h, rest) \<Rightarrow> Some h
   | Inl e \<Rightarrow> None)"

definition stored_header :: "core_env \<Rightarrow> rsk_store \<Rightarrow> b256 \<Rightarrow> header option" where
  "stored_header env st h = Option.bind (rsk_raw_header st h) (decode_raw env)"

definition stored_uncles :: "core_env \<Rightarrow> rsk_store \<Rightarrow> b256 \<Rightarrow> header list" where
  "stored_uncles env st h = List.map_filter (decode_raw env) (rsk_uncle_raw st h)"

definition check_uncles :: "core_env \<Rightarrow> rsk_store \<Rightarrow> rsk_entry \<Rightarrow> unit core" where
  "check_uncles env st e =
    (if re_uncles e = [] then Inr ()
     else
       let b = \<lparr> b_header = re_header e, b_transactions = [], b_ommers = map ru_header (re_uncles e) \<rparr> in
       (case uncles_rule (stored_header env st) (stored_uncles env st) (header_hash (ce_rlp env) (ce_acts env))
              UNCLE_LIST_LIMIT UNCLE_GENERATION_LIMIT (static_rules (core_verifier env))
              (parent_rules (core_verifier env)) b of
          None \<Rightarrow> Inl Diverges
        | Some (Inl err) \<Rightarrow> Inl (Rootstock ''uncles'')
        | Some (Inr u) \<Rightarrow> Inr ()))"

definition validate_entry :: "core_env \<Rightarrow> rsk_store \<Rightarrow> rsk_entry \<Rightarrow> unit core" where
  "validate_entry env st e =
    (let header = re_header e in
     bindE (ensure (\<not> of_nat (length (re_uncles e)) \<noteq> h_uncle_count header) (Rootstock ''uncle count'')) (\<lambda>_.
     bindE (ensure (\<not> rl_keccak (ce_rlp env) (encoded_uncles (ce_rlp env) (re_uncles e)) \<noteq> h_ommers_hash header)
       (Rootstock ''ommers hash'')) (\<lambda>_.
     bindE (case verify (core_verifier env) header (stored_header env st (h_parent_hash header)) of
         Inl err \<Rightarrow> Inl (Rootstock ''header'') | Inr u \<Rightarrow> Inr ()) (\<lambda>_.
       check_uncles env st e))))"

section \<open>The operations\<close>

definition put_entry :: "core_env \<Rightarrow> rsk_entry \<Rightarrow> rsk_store \<Rightarrow> b256 \<times> rsk_store" where
  "put_entry env e st = rsk_put_entry (ce_rlp env) (ce_acts env) e st"

definition propose_checkpoint :: "core_env \<Rightarrow> rsk_entry \<Rightarrow> core_state \<Rightarrow> b256 core \<times> core_state" where
  "propose_checkpoint env e cs =
    (case tip_height_of (cs_btc cs) of
       None \<Rightarrow> (Inl Unseeded, cs)
     | Some btc_tip \<Rightarrow>
         let btc_tail_start = (case finalized_height (cs_btc cs) of Some f \<Rightarrow> f | None \<Rightarrow> 0) in
         (case bindE (anchor_height (ce_btc env) (cs_btc cs) (re_header e))
                 (of_option (Rootstock ''anchor is not a canonical bitcoin block'')) of
            Inl err \<Rightarrow> (Inl err, cs)
          | Inr anchor \<Rightarrow>
              if \<not> in_tail anchor btc_tail_start btc_tip
              then (Inl (Rootstock ''anchor is not in the bitcoin tail''), cs)
              else
                let (h, st) = put_entry env e (cs_rsk cs)
                in (Inr h, cs\<lparr> cs_rsk := rsk_put_root h st \<rparr>)))"

definition checkpoint_tail :: "btc_store \<Rightarrow> (u64 \<times> u256) option core" where
  "checkpoint_tail btc = (case finalized_height btc of
     None \<Rightarrow> Inr None
   | Some tail_start \<Rightarrow>
       bindE (btc_tail_work btc tail_start) (\<lambda>w. Inr (map_option (\<lambda>work. (tail_start, work)) w)))"

definition better_checkpoint ::
  "rsk_store \<Rightarrow> u64 \<Rightarrow> u256 \<Rightarrow> ephemeral_checkpoint option \<Rightarrow> b256 \<Rightarrow> ephemeral_checkpoint option core" where
  "better_checkpoint st tail_start tail_work best root =
    bindE (of_option Diverges (rsk_subtree_work st root)) (\<lambda>work.
      if \<not> clears_threshold work tail_work then Inr best
      else case rsk_block_of st root of
        None \<Rightarrow> Inr best
      | Some b \<Rightarrow>
          let candidate = \<lparr> ec_hash = root, ec_number = rb_number b, ec_work = work,
                ec_btc_tail_work = tail_work, ec_tail_start = tail_start \<rparr>
          in Inr (case best of
               None \<Rightarrow> Some candidate
             | Some c \<Rightarrow> if ec_work candidate > ec_work c then Some candidate else best))"

definition attempt_checkpoint :: "rsk_store \<Rightarrow> u64 \<Rightarrow> u256 \<Rightarrow> ephemeral_checkpoint option core" where
  "attempt_checkpoint st tail_start tail_work =
     foldE (better_checkpoint st tail_start tail_work) None (rsk_roots st)"

definition rsk_best_checkpoint :: "rsk_store \<Rightarrow> (b256 \<times> u256) option core" where
  "rsk_best_checkpoint st =
     foldE (\<lambda>best root. bindE (of_option Diverges (rsk_subtree_work st root)) (\<lambda>work.
       Inr (case best of None \<Rightarrow> Some (root, work) | Some (_, w) \<Rightarrow> if w < work then Some (root, work) else best)))
       None (rsk_roots st)"

definition connect_entries :: "core_env \<Rightarrow> rsk_store \<Rightarrow> rsk_entry list \<Rightarrow> rsk_store core" where
  "connect_entries env = foldE (\<lambda>st e. bindE (validate_entry env st e) (\<lambda>_. Inr (snd (put_entry env e st))))"

definition connect_rsk_headers ::
  "core_env \<Rightarrow> rsk_entry list \<Rightarrow> core_state \<Rightarrow> rsk_connect_outcome core \<times> core_state" where
  "connect_rsk_headers env entries cs =
    (case bindE (checkpoint_tail (cs_btc cs)) (\<lambda>tail.
          bindE (connect_entries env (cs_rsk cs) entries) (\<lambda>st.
          bindE (case tail of
              Some (tail_start, tail_work) \<Rightarrow> attempt_checkpoint st tail_start tail_work
            | None \<Rightarrow> Inr None) (\<lambda>cp.
            Inr (\<lparr> ro_connected = length entries, ro_checkpoint = cp \<rparr>, st)))) of
       Inl err \<Rightarrow> (Inl err, cs)
     | Inr (out, st) \<Rightarrow> (Inr out, cs\<lparr> cs_rsk := st \<rparr>))"

text \<open>The Bitcoin operations on the same database.\<close>

definition core_seed :: "core_env \<Rightarrow> (u64 \<times> btc_header) list \<Rightarrow> core_state \<Rightarrow> unit core \<times> core_state" where
  "core_seed env entries cs =
    (let (r, st) = seed_checkpoints (ce_btc env) (ce_network env) entries (cs_btc cs) in (r, cs\<lparr> cs_btc := st \<rparr>))"

definition core_connect :: "core_env \<Rightarrow> btc_header list \<Rightarrow> core_state \<Rightarrow> connect_outcome core \<times> core_state" where
  "core_connect env hs cs =
    (let (r, st) = connect_headers (ce_btc env) (ce_network env) hs (cs_btc cs) in (r, cs\<lparr> cs_btc := st \<rparr>))"

definition core_connect_header :: "core_env \<Rightarrow> btc_header \<Rightarrow> core_state \<Rightarrow> connect_outcome core \<times> core_state" where
  "core_connect_header env h cs =
    (let (r, st) = connect_header (ce_btc env) (ce_network env) h (cs_btc cs) in (r, cs\<lparr> cs_btc := st \<rparr>))"

definition core_finalize :: "core_state \<Rightarrow> u64 option core \<times> core_state" where
  "core_finalize cs = (let (r, st) = finalize_period (cs_btc cs) in (r, cs\<lparr> cs_btc := st \<rparr>))"

end
