(* ===== verification/Btc_Finality.thy ===== *)
theory Btc_Finality
  imports Btc_Claims
begin

text \<open>
  The finalized checkpoint and the queries on the canonical chain: what holds, and the three
  places where the code and its comments part (a branch below the finalized height can be extended,
  an orphaned block is reported canonical, and the stored tip work is read from the wrong bytes).
\<close>

section \<open>Finality\<close>

lemma period_multiple: "x div DIFFICULTY_PERIOD * DIFFICULTY_PERIOD mod DIFFICULTY_PERIOD = 0"
  for x :: u64
proof -
  have "unat (x div DIFFICULTY_PERIOD * DIFFICULTY_PERIOD) = unat x div 2016 * 2016"
  proof -
    have "unat x div 2016 * 2016 \<le> unat x" by simp
    then have "unat x div 2016 * 2016 < 2 ^ 64" using unat_bound_u64 [of x] by simp
    then show ?thesis
      by (subst unat_mult_exact) (simp_all add: DIFFICULTY_PERIOD_def word_nat)
  qed
  then have "unat (x div DIFFICULTY_PERIOD * DIFFICULTY_PERIOD mod DIFFICULTY_PERIOD) = 0"
    by (simp add: unat_mod DIFFICULTY_PERIOD_def)
  then show ?thesis by (simp add: unat_eq_0)
qed

lemma boundary_below:
  assumes "DIFFICULTY_PERIOD \<le> tip"
  shows "unat (((tip - DIFFICULTY_PERIOD) div DIFFICULTY_PERIOD) * DIFFICULTY_PERIOD) + 2016 \<le> unat tip"
proof -
  have "unat (tip - DIFFICULTY_PERIOD) = unat tip - 2016" "2016 \<le> unat tip"
    using assms by (simp_all add: unat_sub_exact DIFFICULTY_PERIOD_def word_le_nat_alt)
  moreover have "unat (tip - DIFFICULTY_PERIOD) div 2016 * 2016 \<le> unat (tip - DIFFICULTY_PERIOD)"
    by simp
  moreover have "unat (((tip - DIFFICULTY_PERIOD) div DIFFICULTY_PERIOD) * DIFFICULTY_PERIOD) =
      unat (tip - DIFFICULTY_PERIOD) div 2016 * 2016"
    using calculation unat_bound_u64 [of tip]
    by (subst unat_mult_exact) (simp_all add: DIFFICULTY_PERIOD_def word_nat)
  ultimately show ?thesis by linarith
qed

lemma finality_step:
  assumes inv: "chain_inv L base st" and room: "roomy st (length hs)"
    and conn: "connect_headers L net hs st = (Inr out, st')"
  shows "case co_finalized out of
      None \<Rightarrow> finalized_height st' = finalized_height st
    | Some b \<Rightarrow> finalized_height st' = Some b \<and> b mod DIFFICULTY_PERIOD = 0 \<and>
        (\<forall>old. finalized_height st = Some old \<longrightarrow> old < b) \<and> best_fork st' = Some 0 \<and>
        (\<exists>tip th wb wp wt. fork_tip st' 0 = Some (tip, th) \<and> unat b + 2016 \<le> unat tip \<and>
           work_at st' 0 b = Inr (Some wb) \<and> work_at st' 0 (b - DIFFICULTY_PERIOD) = Inr (Some wp) \<and>
           work_at st' 0 tip = Inr (Some wt) \<and> wb - wp \<le> wt - wb)"
  using conn unfolding connect_headers_Inr
proof (cases rule: connect_txn_cases)
  case unchanged
  then show ?thesis by (simp add: unchanged_outcome_def)
next
  case (stored new par pf ph t st1 bw st2 best st3)
  obtain r where app: "run_appended L st pf ph r t new st2"
    using steps_append [OF inv room stored] by blast
  have i3: "chain_inv L base st3" using steps_inv(1) [OF inv room stored] .
  then have fok: "forest_ok st3" by (simp add: chain_inv_def)
  have rs: "reselect t st2 = Inr (best, st3)" and fn: "finalize_in_txn st3 = Inr (co_finalized out, st')"
    using stored unfolding connect_steps_def by blast+
  have "finalized_height st2 = finalized_height st" using app by (simp add: run_appended_def)
  with rs have fin3: "finalized_height st3 = finalized_height st"
    by (cases rule: reselect_cases) (simp_all add: finalized_height_def set_best_fork_def)
  from fn show ?thesis
  proof (cases rule: finalize_cases)
    case none
    then show ?thesis using fin3 by simp
  next
    case (advanced b tip th wb wp wt)
    have "finalized_height st' = Some b" "best_fork st' = Some 0" "fork_tip st' 0 = Some (tip, th)"
      using advanced by (simp_all add: set_finalized_def finalized_height_def best_fork_def fork_tip_def)
    moreover have "\<forall>old. finalized_height st = Some old \<longrightarrow> old < b"
      using advanced(7) fin3 by auto
    moreover have "b mod DIFFICULTY_PERIOD = 0" unfolding advanced(6) by (rule period_multiple)
    moreover have "unat b + 2016 \<le> unat tip" unfolding advanced(6) using advanced(5) by (rule boundary_below)
    moreover have "work_at st' 0 h = work_at st3 0 h" for h
      unfolding advanced(2) set_finalized_def using fok by (rule reads_put_meta)
    ultimately show ?thesis using advanced(1,8-11) by auto
  qed
qed

text \<open>C4. The finalized checkpoint moves only forward, to a period boundary at least a full period
  below the tip of the root chain, only while the root chain is the best one, and only when the work
  above the boundary is at least that of the period before it.\<close>

theorem finality_advances_safely:
  assumes inv: "chain_inv L base st" and room: "roomy st (length hs)"
    and conn: "connect_headers L net hs st = (Inr out, st')"
  shows "case co_finalized out of
      None \<Rightarrow> finalized_height st' = finalized_height st
    | Some b \<Rightarrow> finalized_height st' = Some b \<and> b mod DIFFICULTY_PERIOD = 0 \<and>
        (\<forall>old. finalized_height st = Some old \<longrightarrow> old < b) \<and> best_fork st' = Some 0 \<and>
        (\<exists>tip th wb wp wt. fork_tip st' 0 = Some (tip, th) \<and> unat b + 2016 \<le> unat tip \<and>
           work_at st' 0 b = Inr (Some wb) \<and> work_at st' 0 (b - DIFFICULTY_PERIOD) = Inr (Some wp) \<and>
           work_at st' 0 tip = Inr (Some wt) \<and> wb - wp \<le> wt - wb)"
  using assms by (rule finality_step)

lemma finality_advances_safely_witness: "finalized_height demo_store1 = finalized_height demo_store"
proof -
  have "roomy demo_store (length [demo_header 1 4 2, demo_header 2 4 3])"
    by (rule demo_roomy) simp
  from finality_advances_safely [OF demo_inv this demo_store1_result] show ?thesis by simp
qed

section \<open>Lookups end\<close>

lemma canonical_loop_total:
  assumes "forest_ok st" and "fork_meta_of st f = Some m"
  shows "canonical_loop st fork height f \<noteq> None"
  using assms(2)
proof (induction "unat f" arbitrary: f m rule: less_induct)
  case less
  show ?case
  proof (cases "fork = f \<or> fm_parent m = None")
    case True
    then show ?thesis using less.prems by (auto simp: canonical_loop.simps [of st fork height f])
  next
    case False
    then obtain p where p: "fm_parent m = Some p" by auto
    obtain pm where "p < f" "fork_meta_of st p = Some pm"
      using forest_parent [OF assms(1) less.prems p] by blast
    then have "canonical_loop st fork height p \<noteq> None"
      using less.hyps by (simp add: word_less_nat_alt)
    then show ?thesis using less.prems False p by (simp add: canonical_loop.simps [of st fork height f])
  qed
qed



section \<open>Where code and comments part\<close>

definition demo_light :: btc_store where
  "demo_light = set_finalized 1 (snd (connect_headers demo_lib Regtest [demo_header 1 2 8] demo_store1))"

definition demo_reorg :: "connect_outcome core \<times> btc_store" where
  "demo_reorg = connect_headers demo_lib Regtest [demo_header 8 50 9] demo_light"

text \<open>A branch can replace a finalized block: the finality floor is only checked when a fork
  is created, so headers extending an existing fork that starts below the finalized height are
  accepted, and win the best chain when heavier. Here the block at the finalized height 1 of a
  well-formed store is gone from the best chain after one connect.\<close>

theorem finalized_block_is_replaced:
  "finalized_height demo_light = Some 1 \<and>
   header_at_best demo_light 1 = Inr (Some (demo_header 1 4 2)) \<and>
   fst demo_reorg = Inr \<lparr> co_connected = 1, co_prev_best = Some 0, co_best = Some 1, co_tip_height = 2,
     co_finalized = None \<rparr> \<and>
   finalized_height (snd demo_reorg) = Some 1 \<and>
   header_at_best (snd demo_reorg) 1 = Inr (Some (demo_header 1 2 8))"
proof (intro conjI)
  show "finalized_height demo_light = Some 1"
    by (simp add: demo_light_def demo_store1_def chain_eval demo_defs)
  show "header_at_best demo_light 1 = Inr (Some (demo_header 1 4 2))"
    by (simp add: header_at_best_def demo_light_def demo_store1_def chain_eval demo_defs)
  show "fst demo_reorg = Inr \<lparr> co_connected = 1, co_prev_best = Some 0, co_best = Some 1, co_tip_height = 2,
     co_finalized = None \<rparr>"
    by (simp add: demo_reorg_def demo_light_def demo_store1_def chain_eval demo_defs)
  show "finalized_height (snd demo_reorg) = Some 1"
    by (simp add: demo_reorg_def demo_light_def demo_store1_def chain_eval demo_defs)
  show "header_at_best (snd demo_reorg) 1 = Inr (Some (demo_header 1 2 8))"
    by (simp add: header_at_best_def demo_reorg_def demo_light_def demo_store1_def chain_eval demo_defs)
qed

text \<open>An orphaned block is reported canonical: when the best fork branched off a fork \<open>p\<close>,
  a block of \<open>p\<close> at or above the branch point still gets its height from \<open>height_of\<close>, although the
  best chain holds a block of the other fork, or none, at that height.\<close>

theorem orphaned_block_has_height:
  assumes "best_fork st = Some t" and "fork_meta_of st t = Some m" and "fm_parent m = Some p"
    and "fork_meta_of st p = Some pm" and "fm_forkpoint pm \<le> k" and "fm_forkpoint m \<le> k" and "t \<noteq> p"
    and "locate st bh = Some (p, k)"
  shows "height_of st bh = Inr (Some k)
    \<and> header_at_best st k = Inr (map_option row_header (bs_headers st (t, k)))"
proof -
  have "canonical_loop st p k p = Some True"
    using assms by (simp add: canonical_loop.simps [of st p k p])
  then have "canonical_loop st p k t = Some True"
    using assms by (simp add: canonical_loop.simps [of st p k t])
  then have "height_of st bh = Inr (Some k)"
    using assms by (simp add: height_of_def is_canonical_at_def of_option_def)
  moreover have "owner_loop st k t = Some (Some t)" using assms(2,6) by (rule owner_own)
  ultimately show ?thesis
    using assms(1) by (simp add: header_at_best_def header_at_def owner_fork_def of_option_def)
qed

lemma orphaned_block_has_height_witness:
  "height_of demo_store2 3 = Inr (Some 2) \<and> tip_height_of demo_store2 = Some 1"
proof -
  have best: "best_fork demo_store2 = Some 1"
    by (simp add: demo_store2_def demo_store1_def chain_eval demo_defs)
  obtain m where m: "fork_meta_of demo_store2 1 = Some m" "fm_parent m = Some 0" "fm_forkpoint m = 1"
    by (simp add: demo_store2_def demo_store1_def chain_eval demo_defs)
  obtain pm where pm: "fork_meta_of demo_store2 0 = Some pm" "fm_forkpoint pm = 0"
    by (simp add: demo_store2_def demo_store1_def chain_eval demo_defs)
  have loc: "locate demo_store2 3 = Some (0, 2)"
    by (simp add: demo_store2_def demo_store1_def chain_eval demo_defs)
  have "tip_height_of demo_store2 = Some 1"
    by (simp add: tip_height_of_def demo_store2_def demo_store1_def chain_eval demo_defs)
  then show ?thesis
    using orphaned_block_has_height [OF best m(1,2) pm(1) _ _ _ loc] m(3) pm(2) by simp
qed

text \<open>C23. A stored fork reads back with every field as written except its tip work, which is taken
  from eight bytes too early: it holds the last eight bytes of the tip hash and the first 24 of the
  work. The row, spine and meta encodings are lossless.\<close>

theorem fork_meta_round_trip:
  assumes "btc_lib_ok L" and "fm_parent m \<noteq> Some NO_PARENT"
  shows "fork_from_bytes (fork_as_bytes m) = m\<lparr> fm_tip_work := of_nat
      (unat (fm_tip_hash m) mod 2 ^ 64 * 2 ^ 192 + unat (fm_tip_work m) div 2 ^ 64) \<rparr>
    \<and> row_from_bytes L (row_as_bytes L r) = Some r
    \<and> spine_from_bytes L (spine_as_bytes L h) = Some h
    \<and> meta_from_bytes (meta_as_bytes v) = Some v"
proof -
  have "tip_work_as_read m = of_nat (unat (tip_work_as_read m))" by simp
  then have "tip_work_as_read m = of_nat
      (unat (fm_tip_hash m) mod 2 ^ 64 * 2 ^ 192 + unat (fm_tip_work m) div 2 ^ 64)"
    by (simp only: tip_work_as_read_eq)
  then show ?thesis
    using assms by (simp only: fork_round_trip row_round_trip spine_round_trip meta_round_trip if_False simp_thms)
      simp
qed

lemma fork_meta_round_trip_witness:
  "fm_tip_work (fork_from_bytes (fork_as_bytes
     \<lparr> fm_forkpoint = 0, fm_parent = None, fm_forkpoint_hash = 0, fm_tip_height = 0, fm_tip_hash = 0,
       fm_tip_work = 256 \<rparr>)) = 0"
proof -
  let ?m = "\<lparr> fm_forkpoint = 0, fm_parent = None, fm_forkpoint_hash = 0, fm_tip_height = 0, fm_tip_hash = 0,
       fm_tip_work = 256 \<rparr>"
  show ?thesis using fork_meta_round_trip [OF demo_lib_ok, of ?m] by simp
qed

section \<open>Median time past and the embedded spine\<close>

text \<open>The median-time-past of eleven timestamps is their median: one of them, with at most five
  of them below it and at most five above.\<close>

theorem median_time_past_is_median:
  assumes "length ts = MEDIAN_TIME_PAST"
  shows "median_time_past ts \<in> set ts
    \<and> length (filter (\<lambda>t. t < median_time_past ts) ts) \<le> 5
    \<and> length (filter (\<lambda>t. t > median_time_past ts) ts) \<le> 5"
proof -
  have len: "length ts = 11" using assms by (simp add: MEDIAN_TIME_PAST_def)
  have "sort ts ! 5 \<in> set (sort ts)" using len by (intro nth_mem) simp
  then show ?thesis
    using sort_nth_less_count [of 5 ts] len by (simp add: median_time_past_def MEDIAN_TIME_PAST_def)
qed

lemma median_time_past_is_median_witness:
  "median_time_past [11, 3, 5, 7, 9, 1, 2, 4, 6, 8, 10] \<in> set [11, 3, 5, 7, 9, 1, 2, 4, 6, 8, 10]"
  using median_time_past_is_median [of "[11, 3, 5, 7, 9, 1, 2, 4, 6, 8, 10]"]
  unfolding MEDIAN_TIME_PAST_def by (simp del: set_simps(2))

text \<open>The spine file always seeds: if it parses to at least one header, and its heights do not
  reach \<open>2 ^ 64\<close>, seeding an empty store with the result succeeds and finalizes the height of the last line.\<close>

theorem parsed_spine_seeds:
  assumes "parse_spine L hex ls = Inr es" and "es \<noteq> []" and "length ls * 2016 < 2 ^ 64"
  shows "\<exists>st'. seed_checkpoints L net es empty_btc_store = (Inr (), st')
    \<and> finalized_height st' = Some (of_nat (length es - 1) * DIFFICULTY_PERIOD)"
proof -
  let ?ls = "filter (\<lambda>l. trim l \<noteq> []) ls"
  have p: "parse_lines L hex 0 ?ls = Inr es" using assms(1) by (simp add: parse_spine_def)
  have hts: "map fst es = map (\<lambda>j. of_nat j * DIFFICULTY_PERIOD) [0..<length ?ls]"
    using parse_lines_heights [OF p] by simp
  have len: "length es = length ?ls" using arg_cong [OF hts, of length] by simp
  have "length ?ls \<le> length ls" by simp
  then have bound: "length es * 2016 < 2 ^ 64"
    using assms(3) len by (metis le_less_trans mult_le_mono1)
  have uh: "unat (of_nat j * DIFFICULTY_PERIOD) = j * 2016" if "j < length es" for j
  proof -
    have "j * 2016 < 2 ^ 64" using that bound by linarith
    moreover have "of_nat j * DIFFICULTY_PERIOD = of_nat (j * 2016)" by (simp add: DIFFICULTY_PERIOD_def)
    ultimately show ?thesis by (simp only: unat_of_nat_u64)
  qed
  have srt: "sorted (map fst es)"
    unfolding hts len [symmetric]
    by (auto simp: sorted_iff_nth_mono word_le_nat_alt uh)
  then have es: "sort_key fst es = es" by (rule sort_key_id_if_sorted)
  have cont: "contiguous es" using p by (rule parse_lines_contiguous)
  have lst: "fst (last es) = of_nat (length es - 1) * DIFFICULTY_PERIOD"
  proof -
    have "0 < length ?ls" using len assms(2) by (metis length_greater_0_conv)
    then have "last (map fst es) = of_nat (length es - 1) * DIFFICULTY_PERIOD"
      unfolding hts using len by (simp add: last_map)
    then show ?thesis using assms(2) by (simp add: last_map)
  qed
  have "\<exists>st1. seed_checkpoints_txn L es empty_btc_store = Inr st1"
    using assms(2) cont
    by (simp add: seed_checkpoints_txn_def es Let_def ensure_def fork_meta_of_def empty_btc_store_def
        split: prod.splits)
  then obtain st1 where st1: "seed_checkpoints_txn L es empty_btc_store = Inr st1" by blast
  then have "finalized_height (set_network L net st1) = Some (fst (last es))"
    using seeded_store(11) [OF st1]
    by (simp add: spine_entries_def es set_network_def finalized_height_def)
  then show ?thesis using st1 lst by (auto simp: seed_checkpoints_def)
qed

lemma parsed_spine_seeds_witness:
  "\<exists>st'. seed_checkpoints demo_lib Regtest [(0, demo_header 0 4 1)] empty_btc_store = (Inr (), st')
    \<and> finalized_height st' = Some 0"
proof -
  have "parse_spine demo_lib (\<lambda>_. Some (demo_encode (demo_header 0 4 1))) [''x''] = Inr [(0, demo_header 0 4 1)]"
  proof -
    have "bl_decode demo_lib (demo_encode (demo_header 0 4 1)) = Some (demo_header 0 4 1)"
      using demo_lib_ok by (simp add: btc_lib_ok_def demo_lib_def)
    moreover have "length (demo_encode (demo_header 0 4 1)) = 80" by (simp add: demo_encode_def)
    moreover have "trim ''x'' = ''x''" by (simp add: trim_def is_space_def)
    ultimately show ?thesis by (simp add: parse_spine_def of_option_def ensure_def)
  qed
  from parsed_spine_seeds [OF this, of Regtest] show ?thesis by simp
qed

end
