(* ===== verification/Rsk_Invariant.thy ===== *)
theory Rsk_Invariant
  imports Rsk_Ghost Rsk_Tree Btc_Finality
begin

text \<open>
  The well-formedness of the Rootstock tables, what storing an entry does to the weights of the
  trees, and the ancestry contract of the uncle rule on this store.
\<close>

section \<open>What storing an entry changes\<close>

abbreviation entry_hash :: "core_env \<Rightarrow> rsk_entry \<Rightarrow> b256" where
  "entry_hash env e \<equiv> header_hash (ce_rlp env) (ce_acts env) (re_header e)"

definition entry_block :: "rsk_entry \<Rightarrow> rsk_block" where
  "entry_block e = \<lparr> rb_number = h_number (re_header e), rb_parent = h_parent_hash (re_header e),
     rb_cumulative_difficulty = cumulative_difficulty e \<rparr>"

lemma put_entry_fst [simp]: "fst (put_entry env e st) = entry_hash env e"
  by (simp add: put_entry_def rsk_put_entry_def Let_def)

lemma put_entry_tables:
  fixes env e st
  defines "st' \<equiv> snd (put_entry env e st)" and "h \<equiv> entry_hash env e" and "p \<equiv> h_parent_hash (re_header e)"
  shows "rs_headers st' = (rs_headers st)(h \<mapsto> re_raw e)"
    and "rs_blocks st' = (rs_blocks st)(h \<mapsto> entry_block e)"
    and "rs_uncles st' = (rs_uncles st)(h \<mapsto> map ru_raw (re_uncles e))"
    and "rs_roots st' = rs_roots st"
    and "rsk_children st' q = (if q = p \<and> (p = h \<or> rs_blocks st p \<noteq> None) then rsk_children st q @ [h]
      else rsk_children st q)"
    and "dom (rs_children st') \<subseteq> insert p (dom (rs_children st))"
  unfolding st'_def h_def p_def
  by (auto simp: put_entry_def rsk_put_entry_def rsk_put_block_def rsk_put_uncles_def rsk_add_child_def
      rsk_has_block_def rsk_block_of_def rsk_children_def entry_block_def Let_def split: if_splits)

section \<open>Well-formed tables\<close>

text \<open>Finitely many blocks and edges, an edge only between stored blocks, and every root stored.\<close>

definition rsk_inv :: "rsk_store \<Rightarrow> bool" where
  "rsk_inv st \<longleftrightarrow> finite (dom (rs_children st)) \<and> dom (rs_headers st) = dom (rs_blocks st) \<and>
     (\<forall>p. \<forall>c \<in> set (rsk_children st p). rs_blocks st p \<noteq> None \<and> rs_blocks st c \<noteq> None) \<and>
     set (rs_roots st) \<subseteq> dom (rs_blocks st) \<and> sorted (rs_roots st) \<and> distinct (rs_roots st)"

lemma rsk_inv_empty: "rsk_inv empty_rsk_store"
  by (simp add: rsk_inv_def empty_rsk_store_def rsk_children_def)

lemma rsk_inv_put_entry: "rsk_inv st \<Longrightarrow> rsk_inv (snd (put_entry env e st))"
proof -
  assume i: "rsk_inv st"
  note t = put_entry_tables [of env e st]
  have "finite (dom (rs_children (snd (put_entry env e st))))"
    using i t(6) by (auto simp: rsk_inv_def intro: finite_subset)
  with i show ?thesis
    unfolding rsk_inv_def t(1,2,4,5) by (auto split: if_splits)
qed

lemma rsk_inv_put_root: "rsk_inv st \<Longrightarrow> rs_blocks st h \<noteq> None \<Longrightarrow> rsk_inv (rsk_put_root h st)"
  by (auto simp: rsk_inv_def rsk_put_root_def rsk_children_def sorted_insort distinct_insort set_insort_key
      cong: option.case_cong)

lemma connect_entries_inv:
  assumes "connect_entries env st es = Inr st'" and "rsk_inv st"
  shows "rsk_inv st'"
  using assms(1) [unfolded connect_entries_def] assms(2)
  by (rule foldE_invariant) (auto simp: result_simps rsk_inv_put_entry)

section \<open>Weights\<close>

lemma child_rel_put_entry:
  assumes "rs_blocks st (h_parent_hash (re_header e)) \<noteq> None"
  shows "child_rel (snd (put_entry env e st)) =
    insert (h_parent_hash (re_header e), entry_hash env e) (child_rel st)"
  using assms by (auto simp: child_rel_def put_entry_tables(5) split: if_splits)

lemma edge_stored: "rsk_inv st \<Longrightarrow> (p, c) \<in> child_rel st \<Longrightarrow> rs_blocks st p \<noteq> None \<and> rs_blocks st c \<noteq> None"
  by (auto simp: child_rel_def rsk_inv_def)

lemma not_in_subtree: "rsk_inv st \<Longrightarrow> rs_blocks st h = None \<Longrightarrow> h \<noteq> root \<Longrightarrow> h \<notin> subtree st root"
  unfolding subtree_def mem_Collect_eq by (metis edge_stored rtranclE)

lemma subtree_put_entry:
  assumes inv: "rsk_inv st" and par: "rs_blocks st (h_parent_hash (re_header e)) \<noteq> None"
    and fresh: "rs_blocks st (entry_hash env e) = None"
  shows "subtree (snd (put_entry env e st)) root =
    (if h_parent_hash (re_header e) \<in> subtree st root then insert (entry_hash env e) (subtree st root)
     else subtree st root)"
proof -
  let ?h = "entry_hash env e" and ?p = "h_parent_hash (re_header e)"
  have leaf: "(?h, b) \<in> (child_rel st)\<^sup>* \<longleftrightarrow> b = ?h" for b
    using edge_stored [OF inv] fresh by (metis converse_rtranclE rtrancl.rtrancl_refl)
  show ?thesis
    unfolding subtree_def child_rel_put_entry [OF par] rtrancl_insert by (auto simp: leaf)
qed

text \<open>The work of the tree of \<open>root\<close>, before saturation.\<close>

definition tree_work :: "rsk_store \<Rightarrow> b256 \<Rightarrow> nat" where
  "tree_work st root = (\<Sum>h \<in> subtree st root. work_of st h)"

lemma ghost_weight_tree: "ghost_weight st root = min (tree_work st root) (2 ^ 256 - 1)"
  by (simp add: ghost_weight_def tree_work_def)

lemma tree_work_put_entry:
  assumes inv: "rsk_inv st" and par: "rs_blocks st (h_parent_hash (re_header e)) \<noteq> None"
    and fresh: "rs_blocks st (entry_hash env e) = None" and root: "root \<noteq> entry_hash env e"
  shows "tree_work (snd (put_entry env e st)) root =
    tree_work st root + (if h_parent_hash (re_header e) \<in> subtree st root then unat (cumulative_difficulty e) else 0)"
proof -
  let ?h = "entry_hash env e" and ?st = "snd (put_entry env e st)"
  have nin: "?h \<notin> subtree st root" using not_in_subtree [OF inv fresh] root by metis
  have fin: "finite (subtree st root)" using inv by (simp add: rsk_inv_def subtree_finite)
  have old: "work_of ?st x = work_of st x" if "x \<in> subtree st root" for x
  proof -
    have "x \<noteq> ?h" using that nin by metis
    then show ?thesis by (simp add: work_of_def rsk_block_of_def put_entry_tables(2))
  qed
  have new: "work_of ?st ?h = unat (cumulative_difficulty e)"
    by (simp add: work_of_def rsk_block_of_def put_entry_tables(2) entry_block_def)
  show ?thesis
    using fin nin old new
    by (simp add: tree_work_def subtree_put_entry [OF inv par fresh] cong: sum.cong)
qed

text \<open>An uncle's difficulty is part of the work of the block that includes it.\<close>

lemma cumulative_difficulty_sum:
  "unat (cumulative_difficulty e) =
     min (unat (h_difficulty (re_header e)) + (\<Sum>u\<leftarrow>re_uncles e. unat (h_difficulty (ru_header u)))) (2 ^ 256 - 1)"
proof -
  have "unat (foldl (\<lambda>work u. sat_add work (h_difficulty (ru_header u))) d us) =
      min (unat d + (\<Sum>u\<leftarrow>us. unat (h_difficulty (ru_header u)))) (2 ^ 256 - 1)" for us and d :: u256
  proof (induction us arbitrary: d)
    case Nil
    then show ?case using unat_bound_u256 [of d] by simp
  next
    case (Cons u us)
    then show ?case by (simp add: unat_sat_add)
  qed
  then show ?thesis by (simp add: cumulative_difficulty_def)
qed

end
