(* ===== verification/Rsk_Claims.thy ===== *)
theory Rsk_Claims
  imports Rsk_Invariant Mining_Claims
begin

text \<open>
  The properties of the Rootstock tree: weights, the choice of the checkpoint, what connecting
  validates, and where the trust in a checkpoint is misplaced.
\<close>

section \<open>Weights and the checkpoint\<close>

definition tree_weight :: "rsk_store \<Rightarrow> b256 \<Rightarrow> u256" where
  "tree_weight st root = of_nat (ghost_weight st root)"

lemma unat_tree_weight: "unat (tree_weight st root) = ghost_weight st root"
  by (simp add: tree_weight_def ghost_weight_def unat_of_nat)

lemma subtree_work_total: "rsk_inv st \<Longrightarrow> rsk_subtree_work st root = Some (tree_weight st root)"
  using subtree_work_is_weight [of st root] unat_tree_weight [of st root]
  by (auto simp: rsk_inv_def word_unat_eq_iff)

text \<open>C29. The work of a tree is what its blocks add up to: on a well-formed store the walk always
  returns, with the sum over every block reachable from the root, saturated at 256 bits; and
  storing a new entry under a stored parent raises the weight of exactly the trees that hold the
  parent, by the block's difficulty plus its uncles'.\<close>

theorem storing_adds_work:
  assumes inv: "rsk_inv st" and par: "rs_blocks st (h_parent_hash (re_header e)) \<noteq> None"
    and fresh: "rs_blocks st (entry_hash env e) = None" and root: "root \<noteq> entry_hash env e"
  shows "\<exists>w w'. rsk_subtree_work st root = Some w \<and> rsk_subtree_work (snd (put_entry env e st)) root = Some w' \<and>
    unat w = min (tree_work st root) (2 ^ 256 - 1) \<and>
    unat w' = min (tree_work st root + (if h_parent_hash (re_header e) \<in> subtree st root
        then unat (cumulative_difficulty e) else 0)) (2 ^ 256 - 1)"
proof -
  have "rsk_inv (snd (put_entry env e st))" using inv by (rule rsk_inv_put_entry)
  then show ?thesis
    using inv by (simp add: subtree_work_total unat_tree_weight ghost_weight_tree
        tree_work_put_entry [OF inv par fresh root])
qed

definition plain_entry :: "header \<Rightarrow> rsk_entry" where
  "plain_entry h = \<lparr> re_header = h, re_raw = [], re_uncles = [] \<rparr>"

definition demo_env :: core_env where
  "demo_env = \<lparr> ce_network = Bitcoin, ce_now = Some 1000, ce_acts = activations_mainnet, ce_rlp = rlp_std,
     ce_btc = demo_lib, ce_sha = (\<lambda>_. []) \<rparr>"

definition rooted_header :: "u64 \<Rightarrow> b256 \<Rightarrow> b256 \<Rightarrow> u256 \<Rightarrow> header" where
  "rooted_header n par h d = header_default\<lparr> h_number := n, h_parent_hash := par, h_difficulty := d,
     h_cached_hash := Some h \<rparr>"

definition demo_tree :: rsk_store where
  "demo_tree = rsk_put_root 1 (snd (put_entry demo_env (plain_entry (rooted_header 1 0 1 10)) empty_rsk_store))"

lemma demo_tree_inv: "rsk_inv demo_tree"
  unfolding demo_tree_def
  by (intro rsk_inv_put_root rsk_inv_put_entry rsk_inv_empty)
    (simp add: put_entry_tables(2) plain_entry_def rooted_header_def header_hash_def)

lemma demo_tree_blocks: "rs_blocks demo_tree = [1 \<mapsto> \<lparr> rb_number = 1, rb_parent = 0, rb_cumulative_difficulty = 10 \<rparr>]"
  by (simp add: demo_tree_def rsk_put_root_def put_entry_tables(2) entry_block_def plain_entry_def
      rooted_header_def header_hash_def cumulative_difficulty_def empty_rsk_store_def)

lemma demo_tree_work: "tree_work demo_tree 1 = 10" "subtree demo_tree 1 = {1}"
proof -
  have "rsk_children demo_tree p = []" for p
    by (simp add: demo_tree_def rsk_put_root_def rsk_children_def put_entry_def rsk_put_entry_def Let_def
        rsk_put_block_def rsk_put_uncles_def rsk_has_block_def rsk_block_of_def plain_entry_def rooted_header_def
        header_hash_def empty_rsk_store_def)
  then show s: "subtree demo_tree 1 = {1}"
    using subtree_least [of 1 "{1}" demo_tree] root_in_subtree [of 1 demo_tree] by auto
  show "tree_work demo_tree 1 = 10"
    by (simp add: tree_work_def s work_of_def rsk_block_of_def demo_tree_blocks)
qed

lemma storing_adds_work_witness:
  "\<exists>w'. rsk_subtree_work (snd (put_entry demo_env (plain_entry (rooted_header 2 1 2 5)) demo_tree)) 1 = Some w' \<and> unat w' = 15"
proof -
  let ?e = "plain_entry (rooted_header 2 1 2 5)"
  have e: "h_parent_hash (re_header ?e) = 1" "entry_hash demo_env ?e = 2" "unat (cumulative_difficulty ?e) = 5"
    by (simp_all add: plain_entry_def rooted_header_def header_hash_def cumulative_difficulty_def)
  have "rs_blocks demo_tree (h_parent_hash (re_header ?e)) \<noteq> None" "rs_blocks demo_tree (entry_hash demo_env ?e) = None"
    "(1 :: b256) \<noteq> entry_hash demo_env ?e" by (simp_all add: e demo_tree_blocks)
  from storing_adds_work [OF demo_tree_inv this] show ?thesis
    by (auto simp: e demo_tree_work)
qed

text \<open>More than two thirds of the tail's work, multiplied out at 256 bits as the code does.\<close>

definition clearing :: "rsk_store \<Rightarrow> u256 \<Rightarrow> b256 \<Rightarrow> bool" where
  "clearing st tail_work r \<longleftrightarrow> 2 * unat tail_work mod 2 ^ 256 < 3 * ghost_weight st r mod 2 ^ 256"

lemma clears_threshold_clearing: "clears_threshold (tree_weight st r) tail_work = clearing st tail_work r"
  by (simp add: clears_threshold_def clearing_def word_less_nat_alt unat_word_ariths unat_tree_weight
      CHECKPOINT_THRESHOLD_DEN_def CHECKPOINT_THRESHOLD_NUM_def mult.commute)

definition heaviest_of :: "rsk_store \<Rightarrow> u64 \<Rightarrow> u256 \<Rightarrow> b256 set \<Rightarrow> ephemeral_checkpoint option \<Rightarrow> bool" where
  "heaviest_of st tail_start tail_work rs best \<longleftrightarrow> (case best of
     None \<Rightarrow> \<forall>r \<in> rs. \<not> clearing st tail_work r
   | Some c \<Rightarrow> ec_hash c \<in> rs \<and> clearing st tail_work (ec_hash c) \<and> ec_work c = tree_weight st (ec_hash c) \<and>
       ec_btc_tail_work c = tail_work \<and> ec_tail_start c = tail_start \<and>
       (\<exists>b. rs_blocks st (ec_hash c) = Some b \<and> ec_number c = rb_number b) \<and>
       (\<forall>r \<in> rs. clearing st tail_work r \<longrightarrow> ghost_weight st r \<le> ghost_weight st (ec_hash c)))"

lemma attempt_fold:
  assumes inv: "rsk_inv st" and "set rs \<subseteq> dom (rs_blocks st)" and "heaviest_of st ts tw done_set best"
  shows "\<exists>cp. foldE (better_checkpoint st ts tw) best rs = Inr cp \<and> heaviest_of st ts tw (done_set \<union> set rs) cp"
  using assms(2,3)
proof (induction rs arbitrary: best done_set)
  case (Cons r rs)
  obtain b where b: "rs_blocks st r = Some b" using Cons.prems(1) by auto
  have le: "tree_weight st x < tree_weight st y \<longleftrightarrow> ghost_weight st x < ghost_weight st y" for x y
    by (simp add: word_less_nat_alt unat_tree_weight)
  have "\<exists>best'. better_checkpoint st ts tw best r = Inr best' \<and> heaviest_of st ts tw (insert r done_set) best'"
    using Cons.prems(2) b
    by (cases best; cases "clearing st tw r")
      (auto simp: better_checkpoint_def subtree_work_total [OF inv] clears_threshold_clearing heaviest_of_def
        rsk_block_of_def of_option_def Let_def le not_less)
  then obtain best' where step: "better_checkpoint st ts tw best r = Inr best'"
    "heaviest_of st ts tw (insert r done_set) best'" by blast
  with Cons.IH [OF _ step(2)] Cons.prems(1) show ?case by auto
qed simp

text \<open>C7. The checkpoint a batch establishes is the heaviest: on a well-formed store the attempt
  always returns, either a proposed root whose tree clears the threshold and is at least as heavy as
  that of every other root that clears it, or nothing when none does. The threshold compares three
  times the tree's weight with twice the Bitcoin tail's work, both modulo \<open>2 ^ 256\<close>; when neither
  product leaves 256 bits, the root found carries strictly more than two thirds of the tail's work and
  is the heaviest of all roots, and when none is found no root carries more than two thirds.\<close>

theorem checkpoint_is_heaviest:
  assumes "rsk_inv st"
  shows "\<exists>cp. attempt_checkpoint st tail_start tail_work = Inr cp \<and>
    heaviest_of st tail_start tail_work (set (rsk_roots st)) cp \<and>
    (2 * unat tail_work < 2 ^ 256 \<and> (\<forall>r \<in> set (rsk_roots st). 3 * ghost_weight st r < 2 ^ 256) \<longrightarrow>
      (case cp of
         None \<Rightarrow> \<forall>r \<in> set (rsk_roots st). 3 * ghost_weight st r \<le> 2 * unat tail_work
       | Some c \<Rightarrow> ec_hash c \<in> set (rsk_roots st) \<and> unat (ec_work c) = ghost_weight st (ec_hash c) \<and>
           2 * unat tail_work < 3 * ghost_weight st (ec_hash c) \<and>
           (\<forall>r \<in> set (rsk_roots st). ghost_weight st r \<le> ghost_weight st (ec_hash c))))"
proof -
  obtain cp where cp: "attempt_checkpoint st tail_start tail_work = Inr cp"
      "heaviest_of st tail_start tail_work (set (rsk_roots st)) cp"
    using attempt_fold [OF assms, of "rsk_roots st" tail_start tail_work "{}" None] assms
    by (auto simp: attempt_checkpoint_def heaviest_of_def rsk_inv_def rsk_roots_def)
  show ?thesis
  proof (intro exI [of _ cp] conjI cp impI)
    assume room: "2 * unat tail_work < 2 ^ 256 \<and> (\<forall>r \<in> set (rsk_roots st). 3 * ghost_weight st r < 2 ^ 256)"
    have c: "clearing st tail_work r \<longleftrightarrow> 2 * unat tail_work < 3 * ghost_weight st r"
      if "r \<in> set (rsk_roots st)" for r
      using room that by (simp add: clearing_def)
    show "case cp of
         None \<Rightarrow> \<forall>r \<in> set (rsk_roots st). 3 * ghost_weight st r \<le> 2 * unat tail_work
       | Some c \<Rightarrow> ec_hash c \<in> set (rsk_roots st) \<and> unat (ec_work c) = ghost_weight st (ec_hash c) \<and>
           2 * unat tail_work < 3 * ghost_weight st (ec_hash c) \<and>
           (\<forall>r \<in> set (rsk_roots st). ghost_weight st r \<le> ghost_weight st (ec_hash c))"
    proof (cases cp)
      case None
      then show ?thesis using cp(2) c by (simp add: heaviest_of_def not_less)
    next
      case (Some k)
      have "ghost_weight st r \<le> ghost_weight st (ec_hash k)" if "r \<in> set (rsk_roots st)" for r
      proof (cases "clearing st tail_work r")
        case False
        have "2 * unat tail_work < 3 * ghost_weight st (ec_hash k)"
          using cp(2) c Some by (auto simp: heaviest_of_def)
        moreover have "3 * ghost_weight st r \<le> 2 * unat tail_work" using False c [OF that] by simp
        ultimately show ?thesis by linarith
      qed (use cp(2) Some that in \<open>auto simp: heaviest_of_def\<close>)
      then show ?thesis using cp(2) c Some by (auto simp: heaviest_of_def unat_tree_weight)
    qed
  qed
qed

text \<open>A tree of work 10 clears two thirds of a tail of work 14, but not of one of work 15.\<close>

lemma checkpoint_is_heaviest_witness:
  "(\<exists>cp. attempt_checkpoint demo_tree 0 14 = Inr (Some cp) \<and> ec_hash cp = 1)
   \<and> attempt_checkpoint demo_tree 0 15 = Inr None"
proof -
  have roots: "rsk_roots demo_tree = [1]"
    by (simp add: demo_tree_def rsk_roots_def rsk_put_root_def put_entry_tables(4) empty_rsk_store_def)
  have w: "ghost_weight demo_tree 1 = 10" by (simp add: ghost_weight_tree demo_tree_work)
  obtain cp where cp: "attempt_checkpoint demo_tree 0 14 = Inr cp"
      "case cp of None \<Rightarrow> False | Some c \<Rightarrow> ec_hash c = 1"
    using checkpoint_is_heaviest [OF demo_tree_inv, of 0 14] by (auto simp: roots w split: option.splits)
  obtain cp' where cp': "attempt_checkpoint demo_tree 0 15 = Inr cp'" "case cp' of None \<Rightarrow> True | Some c \<Rightarrow> False"
    using checkpoint_is_heaviest [OF demo_tree_inv, of 0 15] by (auto simp: roots w split: option.splits)
  show ?thesis using cp cp' by (auto split: option.splits)
qed

lemma best_checkpoint_fold:
  assumes "rsk_inv st"
  shows "foldE (\<lambda>best root. bindE (of_option Diverges (rsk_subtree_work st root)) (\<lambda>work.
      Inr (case best of None \<Rightarrow> Some (root, work) | Some (_, w) \<Rightarrow> if w < work then Some (root, work) else best))) best roots =
    Inr (foldl (\<lambda>best root. case best of None \<Rightarrow> Some (root, tree_weight st root)
      | Some (_, w) \<Rightarrow> if w < tree_weight st root then Some (root, tree_weight st root) else best) best roots)"
  by (induction roots arbitrary: best) (simp_all add: subtree_work_total [OF assms] of_option_def)

text \<open>The heaviest root, without any threshold, and the first of several.\<close>

lemma best_checkpoint_heaviest:
  assumes "rsk_inv st"
  shows "\<exists>best. rsk_best_checkpoint st = Inr best \<and> (best = None \<longleftrightarrow> rsk_roots st = []) \<and>
    (\<forall>root w. best = Some (root, w) \<longrightarrow> root \<in> set (rsk_roots st) \<and> w = tree_weight st root \<and>
      (\<forall>other \<in> set (rsk_roots st). tree_weight st other \<le> w))"
proof -
  let ?f = "foldl (\<lambda>best root. case best of None \<Rightarrow> Some (root, tree_weight st root)
      | Some (_, w) \<Rightarrow> if w < tree_weight st root then Some (root, tree_weight st root) else best)"
  have "(?f None roots = None \<longleftrightarrow> roots = []) \<and> (\<forall>root w. ?f None roots = Some (root, w) \<longrightarrow> root \<in> set roots \<and> w = tree_weight st root \<and>
      (\<forall>other \<in> set roots. tree_weight st other \<le> w))" for roots
    by (induction roots rule: rev_induct) (force split: option.splits)+
  then show ?thesis using best_checkpoint_fold [OF assms, of None "rsk_roots st"]
    by (simp add: rsk_best_checkpoint_def)
qed

section \<open>What connecting validates\<close>

definition entry_valid :: "core_env \<Rightarrow> rsk_store \<Rightarrow> rsk_entry \<Rightarrow> bool" where
  "entry_valid env st e \<longleftrightarrow>
     of_nat (length (re_uncles e)) = h_uncle_count (re_header e) \<and>
     rl_keccak (ce_rlp env) (encoded_uncles (ce_rlp env) (re_uncles e)) = h_ommers_hash (re_header e) \<and>
     well_formed_alone (ce_rlp env) (ce_btc env) (ce_sha env) (chain_config_of (ce_network env)) (re_header e) \<and>
     (\<forall>p. stored_header env st (h_parent_hash (re_header e)) = Some p \<longrightarrow>
        verify_against_parent (core_verifier env) (re_header e) p = Inr ()) \<and>
     check_uncles env st e = Inr ()"

lemma verify_Inr:
  "verify (core_verifier env) h op = Inr u \<longleftrightarrow>
     well_formed_alone (ce_rlp env) (ce_btc env) (ce_sha env) (chain_config_of (ce_network env)) h \<and>
     (\<forall>p. op = Some p \<longrightarrow> verify_against_parent (core_verifier env) h p = Inr ())"
  by (cases op) (auto simp: verify_def core_verifier_def result_simps default_rsk_static verify_against_parent_def
      simp del: eachE_Inr)

lemma validate_entry_Inr: "validate_entry env st e = Inr u \<longleftrightarrow> entry_valid env st e"
proof -
  let ?v = "verify (core_verifier env) (re_header e) (stored_header env st (h_parent_hash (re_header e)))"
  have v: "(case ?v of Inl err \<Rightarrow> Inl (Rootstock ''header'') | Inr u \<Rightarrow> Inr ()) = Inr u' \<longleftrightarrow> ?v = Inr ()" for u'
    by (cases ?v) auto
  show ?thesis
    unfolding validate_entry_def Let_def entry_valid_def
    by (auto simp: result_simps v verify_Inr)
qed

lemma connect_entries_steps:
  "connect_entries env st es = Inr st' \<Longrightarrow>
     \<exists>sts. length sts = Suc (length es) \<and> sts ! 0 = st \<and> sts ! length es = st' \<and>
       (\<forall>i < length es. entry_valid env (sts ! i) (es ! i) \<and> sts ! Suc i = snd (put_entry env (es ! i) (sts ! i)))"
proof (induction es arbitrary: st)
  case Nil
  then show ?case by (intro exI [of _ "[st]"]) (simp add: connect_entries_def)
next
  case (Cons e es)
  then have v: "entry_valid env st e" and r: "connect_entries env (snd (put_entry env e st)) es = Inr st'"
    by (auto simp: connect_entries_def result_simps validate_entry_Inr)
  from Cons.IH [OF r] obtain sts where sts: "length sts = Suc (length es)" "sts ! 0 = snd (put_entry env e st)"
    "sts ! length es = st'"
    "\<forall>i < length es. entry_valid env (sts ! i) (es ! i) \<and> sts ! Suc i = snd (put_entry env (es ! i) (sts ! i))"
    by blast
  then show ?case using v
    by (intro exI [of _ "st # sts"]) (auto simp: nth_Cons split: nat.splits)
qed

text \<open>C8. What \<open>connect_rsk_headers\<close> stores it has validated: on success the store is reached by storing
  the entries one by one, each valid in the store before it (uncle count and commitment, the rules
  on the header alone, the rules against its parent whenever the parent is stored, the uncle rule);
  the Bitcoin side is untouched, the store stays well formed and the checkpoint reported is the
  heaviest of the new store. On an error nothing changes.\<close>

theorem connect_rsk_stores_validated:
  assumes inv: "rsk_inv (cs_rsk cs)" and conn: "connect_rsk_headers env es cs = (r, cs')"
  shows "case r of
      Inl err \<Rightarrow> cs' = cs
    | Inr out \<Rightarrow> cs_btc cs' = cs_btc cs \<and> ro_connected out = length es \<and> rsk_inv (cs_rsk cs') \<and>
        (\<exists>sts. sts ! 0 = cs_rsk cs \<and> sts ! length es = cs_rsk cs' \<and>
          (\<forall>i < length es. entry_valid env (sts ! i) (es ! i) \<and> sts ! Suc i = snd (put_entry env (es ! i) (sts ! i)))) \<and>
        (case checkpoint_tail (cs_btc cs) of
           Inr (Some (tail_start, tail_work)) \<Rightarrow>
             heaviest_of (cs_rsk cs') tail_start tail_work (set (rsk_roots (cs_rsk cs'))) (ro_checkpoint out)
         | _ \<Rightarrow> ro_checkpoint out = None)"
proof (cases r)
  case (Inl err)
  then show ?thesis using conn by (auto simp: connect_rsk_headers_def split: sum.splits)
next
  case (Inr out)
  then obtain tail st cp where t: "checkpoint_tail (cs_btc cs) = Inr tail"
    and st: "connect_entries env (cs_rsk cs) es = Inr st"
    and cp: "(case tail of Some (tail_start, tail_work) \<Rightarrow> attempt_checkpoint st tail_start tail_work
            | None \<Rightarrow> Inr None) = Inr cp"
    and out: "out = \<lparr> ro_connected = length es, ro_checkpoint = cp \<rparr>" "cs' = cs\<lparr> cs_rsk := st \<rparr>"
    using conn by (auto simp: connect_rsk_headers_def result_simps split: sum.splits)
  have i: "rsk_inv st" using connect_entries_inv [OF st inv] .
  have "heaviest_of st a b (set (rsk_roots st)) cp" if "tail = Some (a, b)" for a b
    using attempt_fold [OF i, of "rsk_roots st" a b "{}" None] i cp that
    by (auto simp: attempt_checkpoint_def heaviest_of_def rsk_inv_def rsk_roots_def)
  with t cp i connect_entries_steps [OF st] show ?thesis
    by (cases tail) (auto simp: Inr out)
qed

lemma connect_rsk_stores_validated_witness:
  "snd (connect_rsk_headers demo_env [plain_entry (rooted_header 2 1 2 5)] \<lparr> cs_btc = empty_btc_store, cs_rsk = demo_tree \<rparr>) =
     \<lparr> cs_btc = empty_btc_store, cs_rsk = demo_tree \<rparr>"
proof -
  let ?cs = "\<lparr> cs_btc = empty_btc_store, cs_rsk = demo_tree \<rparr>"
  let ?e = "plain_entry (rooted_header 2 1 2 5)"
  obtain r cs' where c: "connect_rsk_headers demo_env [?e] ?cs = (r, cs')" by fastforce
  have "\<not> entry_valid demo_env st ?e" for st
    by (simp add: entry_valid_def well_formed_alone_def plain_entry_def rooted_header_def header_default_def
        demo_env_def chain_config_of_def network_defs)
  then have "r \<noteq> Inr out" for out
    using connect_rsk_stores_validated [OF _ c] demo_tree_inv by (cases r) force+
  then have "cs' = ?cs" using connect_rsk_stores_validated [OF _ c] demo_tree_inv by (cases r) auto
  with c show ?thesis by simp
qed

end
