(* ===== verification/Rsk_Trust.thy ===== *)
theory Rsk_Trust
  imports Rsk_Claims
begin

text \<open>
  The ancestry contract of the uncle rule on the Rootstock store, and the places where a checkpoint
  rests on work nobody proved.
\<close>

section \<open>Ancestries\<close>

text \<open>Along stored parents the numbers go down. Nothing else is needed for the walks of the uncle
  rule to end.\<close>

definition numbers_ok :: "core_env \<Rightarrow> rsk_store \<Rightarrow> bool" where
  "numbers_ok env st \<longleftrightarrow> (\<forall>h x y. stored_header env st h = Some x \<longrightarrow>
     stored_header env st (h_parent_hash x) = Some y \<longrightarrow> h_number y < h_number x)"

interpretation rsk_ancestry: ancestry "stored_header env" "stored_uncles env" "numbers_ok env" for env
  by unfold_locales (auto simp: numbers_ok_def)

lemma stored_header_put_entry:
  "stored_header env (snd (put_entry env e st)) h =
     (if h = entry_hash env e then decode_raw env (re_raw e) else stored_header env st h)"
  by (simp add: stored_header_def rsk_raw_header_def put_entry_tables(1))

lemma parent_number:
  assumes "verify_against_parent (core_verifier env) h p = Inr ()"
  shows "h_number h = h_number p + 1"
  using assms
  by (simp add: verify_against_parent_def core_verifier_def default_rsk_def with_parent_rule_def
      with_static_rule_def header_verifier_new_def result_simps)

lemma parent_below:
  assumes "entry_valid env st e" and "stored_header env st (h_parent_hash (re_header e)) = Some p"
    and "h_number (re_header e) \<noteq> 0"
  shows "h_number p < h_number (re_header e)"
proof -
  have "h_number (re_header e) = h_number p + 1"
    using assms(1,2) parent_number by (auto simp: entry_valid_def)
  moreover have "unat (h_number p + 1) = Suc (unat (h_number p))" if "h_number p + 1 \<noteq> 0"
    using that unatSuc [of "h_number p"] by (simp add: add.commute)
  ultimately show ?thesis using assms(3) by (simp add: word_less_nat_alt)
qed


text \<open>A header from before the merged-mining activation, well formed alone, with no uncles.\<close>

definition early_entry :: rsk_entry where
  "early_entry = plain_entry (early_child\<lparr> h_ommers_hash := 448, h_parent_hash := 77, h_cached_hash := Some 9 \<rparr>)"

lemma early_entry_alone:
  "re_uncles early_entry = []" "h_uncle_count (re_header early_entry) = 0"
  "rl_keccak rlp_std (encoded_uncles rlp_std []) = h_ommers_hash (re_header early_entry)"
  "well_formed_alone rlp_std demo_lib sha mainnet (re_header early_entry)"
  "h_parent_hash (re_header early_entry) = 77" "h_number (re_header early_entry) = 2"
  "header_hash R acts (re_header early_entry) = 9"
  by (simp_all add: early_entry_def plain_entry_def early_child_def header_default_def encoded_uncles_def wrap_list_def
      rlp_std_def std_header_bytes_def be_nat_def well_formed_alone_def network_defs merged_mining_rule_def
      header_hash_def)

lemma not_stored: "stored_header env demo_tree 77 = None"
  by (simp add: stored_header_def rsk_raw_header_def demo_tree_def rsk_put_root_def put_entry_tables(1)
      plain_entry_def rooted_header_def header_hash_def empty_rsk_store_def)

lemma early_entry_valid: "entry_valid demo_env demo_tree early_entry"
  using early_entry_alone not_stored
  by (simp add: entry_valid_def check_uncles_def demo_env_def chain_config_of_def)

lemma demo_tree_numbers: "numbers_ok demo_env demo_tree"
proof -
  have "decode_raw demo_env [] = None"
    by (simp add: decode_raw_def decode_with_hash_def decode_header_def demo_env_def rlp_std_def std_header_def)
  then have "stored_header demo_env demo_tree h = None" for h
    by (simp add: stored_header_def rsk_raw_header_def demo_tree_def rsk_put_root_def put_entry_tables(1)
      plain_entry_def rooted_header_def header_hash_def empty_rsk_store_def)
  then show ?thesis by (simp add: numbers_ok_def)
qed


section \<open>Orphans\<close>

lemma attempt_returns: "rsk_inv st \<Longrightarrow> \<exists>cp. attempt_checkpoint st tail_start tail_work = Inr cp"
  using attempt_fold [of st "rsk_roots st" tail_start tail_work "{}" None]
  by (auto simp: attempt_checkpoint_def heaviest_of_def rsk_inv_def rsk_roots_def)

text \<open>A header need not link to a stored block: when the parent is unknown none of the rules against
  the parent run, so an entry without uncles that is well formed alone is stored whatever number,
  time, gas limit or difficulty it claims, although the documentation of \<open>connect_rsk_headers\<close> requires
  a link.\<close>

theorem orphans_are_stored:
  assumes inv: "rsk_inv (cs_rsk cs)" and tail: "checkpoint_tail (cs_btc cs) = Inr tail"
    and orphan: "stored_header env (cs_rsk cs) (h_parent_hash (re_header e)) = None"
    and none: "re_uncles e = []" "h_uncle_count (re_header e) = 0"
      "rl_keccak (ce_rlp env) (encoded_uncles (ce_rlp env) []) = h_ommers_hash (re_header e)"
    and alone: "well_formed_alone (ce_rlp env) (ce_btc env) (ce_sha env) (chain_config_of (ce_network env)) (re_header e)"
  shows "\<exists>out cs'. connect_rsk_headers env [e] cs = (Inr out, cs') \<and> ro_connected out = 1 \<and>
    rs_blocks (cs_rsk cs') (entry_hash env e) = Some (entry_block e)"
proof -
  have "entry_valid env (cs_rsk cs) e"
    using orphan none alone by (simp add: entry_valid_def check_uncles_def)
  then have "validate_entry env (cs_rsk cs) e = Inr ()" using validate_entry_Inr by blast
  then have c: "connect_entries env (cs_rsk cs) [e] = Inr (snd (put_entry env e (cs_rsk cs)))"
    by (simp add: connect_entries_def)
  have i: "rsk_inv (snd (put_entry env e (cs_rsk cs)))" using inv by (rule rsk_inv_put_entry)
  have "\<exists>cp. (case tail of Some (a, b) \<Rightarrow> attempt_checkpoint (snd (put_entry env e (cs_rsk cs))) a b | None \<Rightarrow> Inr None) = Inr cp"
    using attempt_returns [OF i] by (cases tail) auto
  then show ?thesis
    by (auto simp: connect_rsk_headers_def tail c put_entry_tables(2))
qed

lemma orphans_are_stored_witness:
  "\<exists>out cs'. connect_rsk_headers demo_env [early_entry] \<lparr> cs_btc = empty_btc_store, cs_rsk = demo_tree \<rparr> = (Inr out, cs') \<and>
     rs_blocks (cs_rsk cs') 9 = Some (entry_block early_entry)"
proof -
  let ?cs = "\<lparr> cs_btc = empty_btc_store, cs_rsk = demo_tree \<rparr>"
  have "checkpoint_tail (cs_btc ?cs) = Inr None"
    by (simp add: checkpoint_tail_def finalized_height_def meta_u64_def empty_btc_store_def)
  moreover have "rl_keccak (ce_rlp demo_env) (encoded_uncles (ce_rlp demo_env) []) = h_ommers_hash (re_header early_entry)"
    "well_formed_alone (ce_rlp demo_env) (ce_btc demo_env) (ce_sha demo_env) (chain_config_of (ce_network demo_env)) (re_header early_entry)"
    using early_entry_alone by (simp_all add: demo_env_def chain_config_of_def)
  ultimately show ?thesis
    using orphans_are_stored [of ?cs None demo_env early_entry] demo_tree_inv not_stored early_entry_alone by auto
qed

section \<open>Work nobody proved\<close>

lemma lone_root_work:
  assumes "rs_children st = (\<lambda>_. None)" and "rs_blocks st = (\<lambda>_. None)"
  shows "rsk_subtree_work (rsk_put_root h (snd (put_entry env e st))) (entry_hash env e) = Some (cumulative_difficulty e)"
proof -
  let ?h = "entry_hash env e" and ?st = "rsk_put_root h (snd (put_entry env e st))"
  have ch: "set (rsk_children ?st q) \<subseteq> {?h}" for q
    using assms put_entry_tables(5) [of env e st q]
    by (auto simp: rsk_put_root_def rsk_children_def cong: option.case_cong split: if_splits)
  then have sub: "subtree ?st ?h = {?h}"
    using subtree_least [of ?h "{?h}" ?st] root_in_subtree [of ?h ?st] by blast
  have "finite (dom (rs_children ?st))"
    using put_entry_tables(6) [of env e st] assms(1) by (auto simp: rsk_put_root_def intro: finite_subset)
  then obtain w where w: "rsk_subtree_work ?st ?h = Some w" "unat w = ghost_weight ?st ?h"
    using subtree_work_is_weight by blast
  have "rsk_block_of ?st ?h = Some (entry_block e)"
    by (simp add: rsk_block_of_def rsk_put_root_def put_entry_tables(2))
  then have "work_of ?st ?h = unat (cumulative_difficulty e)" by (simp add: work_of_def entry_block_def)
  then have "ghost_weight ?st ?h = unat (cumulative_difficulty e)"
    using unat_bound_u256 [of "cumulative_difficulty e"] by (simp only: ghost_weight_def sub) simp
  with w show ?thesis by (simp add: word_unat_eq_iff)
qed

text \<open>C31. A checkpoint can be trusted on claimed work alone: \<open>propose_checkpoint\<close> checks only that the
  parent of the entry's Bitcoin header is canonical and in the tail, and stores the entry without
  any proof of work or commitment check; its claimed difficulty counts at once. On an empty tree, any
  entry so anchored whose claimed difficulty clears two thirds of the tail's work is the established
  checkpoint after connecting an empty batch.\<close>

theorem unproven_checkpoint_trusted:
  assumes tip: "tip_height_of (cs_btc cs) = Some tip"
    and anchor: "merge_mining_header (ce_btc env) (re_header e) = Some solution"
      "height_of (cs_btc cs) (bh_prev solution) = Inr (Some a)"
      "in_tail a (case finalized_height (cs_btc cs) of Some f \<Rightarrow> f | None \<Rightarrow> 0) tip"
    and tail: "checkpoint_tail (cs_btc cs) = Inr (Some (tail_start, tail_work))"
    and claim: "clears_threshold (cumulative_difficulty e) tail_work" and none: "cs_rsk cs = empty_rsk_store"
  shows "\<exists>cs'. propose_checkpoint env e cs = (Inr (entry_hash env e), cs') \<and>
    connect_rsk_headers env [] cs' = (Inr \<lparr> ro_connected = 0, ro_checkpoint = Some \<lparr> ec_hash = entry_hash env e,
      ec_number = h_number (re_header e), ec_work = cumulative_difficulty e, ec_btc_tail_work = tail_work,
      ec_tail_start = tail_start \<rparr> \<rparr>, cs')"
proof -
  let ?h = "entry_hash env e"
  let ?st = "rsk_put_root ?h (snd (put_entry env e empty_rsk_store))"
  let ?cs = "cs\<lparr> cs_rsk := ?st \<rparr>"
  have proposed: "propose_checkpoint env e cs = (Inr ?h, ?cs)"
    using tip anchor
    by (simp add: propose_checkpoint_def anchor_height_def of_option_def none Let_def split_beta)
  have work: "rsk_subtree_work ?st ?h = Some (cumulative_difficulty e)"
    by (rule lone_root_work) (simp_all add: empty_rsk_store_def)
  have "rsk_roots ?st = [?h]" "rsk_block_of ?st ?h = Some (entry_block e)"
    by (simp_all add: rsk_roots_def rsk_put_root_def rsk_block_of_def put_entry_tables(2,4) empty_rsk_store_def)
  then have "attempt_checkpoint ?st tail_start tail_work = Inr (Some \<lparr> ec_hash = ?h,
      ec_number = h_number (re_header e), ec_work = cumulative_difficulty e, ec_btc_tail_work = tail_work,
      ec_tail_start = tail_start \<rparr>)"
    using claim by (simp add: attempt_checkpoint_def better_checkpoint_def work of_option_def entry_block_def Let_def)
  then have "connect_rsk_headers env [] ?cs = (Inr \<lparr> ro_connected = 0, ro_checkpoint = Some \<lparr> ec_hash = ?h,
      ec_number = h_number (re_header e), ec_work = cumulative_difficulty e, ec_btc_tail_work = tail_work,
      ec_tail_start = tail_start \<rparr> \<rparr>, ?cs)"
    by (simp add: connect_rsk_headers_def tail connect_entries_def)
  with proposed show ?thesis by blast
qed

definition demo_spine :: btc_store where
  "demo_spine = \<lparr> bs_headers = [(0, 0) \<mapsto> \<lparr> row_header = demo_header 0 4 1, row_work = 4 \<rparr>,
       (0, 2016) \<mapsto> \<lparr> row_header = demo_header 0 4 2, row_work = 1004 \<rparr>],
     bs_hash_loc = [1 \<mapsto> (0, 0), 2 \<mapsto> (0, 2016)],
     bs_forks = [0 \<mapsto> fork_as_bytes \<lparr> fm_forkpoint = 0, fm_parent = None, fm_forkpoint_hash = 1,
                  fm_tip_height = 2016, fm_tip_hash = 2, fm_tip_work = 1004 \<rparr>],
     bs_spine = [0 \<mapsto> demo_header 0 4 1, 2016 \<mapsto> demo_header 0 4 2],
     bs_meta = [''best_fork'' \<mapsto> MU64 0, ''finalized_height'' \<mapsto> MU64 0] \<rparr>"

definition claimed_header :: header where
  "claimed_header = header_default\<lparr> h_number := 7000000, h_difficulty := 700,
     h_mm_header := Some (demo_encode (demo_header 1 0 5)), h_cached_hash := Some 7 \<rparr>"

lemma demo_spine_reads:
  "tip_height_of demo_spine = Some 2016" "height_of demo_spine 1 = Inr (Some 0)"
  "finalized_height demo_spine = Some 0" "checkpoint_tail demo_spine = Inr (Some (0, 1000))"
proof -
  have f: "fork_meta_of demo_spine 0 = Some (fork_from_bytes (fork_as_bytes \<lparr> fm_forkpoint = 0, fm_parent = None,
      fm_forkpoint_hash = 1, fm_tip_height = 2016, fm_tip_hash = 2, fm_tip_work = 1004 \<rparr>))"
    by (simp add: fork_meta_of_def demo_spine_def)
  have b: "best_fork demo_spine = Some 0" and fin: "finalized_height demo_spine = Some 0"
    by (simp_all add: best_fork_def finalized_height_def meta_u64_def demo_spine_def)
  show "tip_height_of demo_spine = Some 2016"
    by (simp add: tip_height_of_def b fork_tip_def f fork_round_trip_simps)
  show "height_of demo_spine 1 = Inr (Some 0)"
  proof -
    have "locate demo_spine 1 = Some (0, 0)" by (simp add: locate_def demo_spine_def)
    then show ?thesis by (simp add: height_of_def is_canonical_at_def b)
  qed
  show "finalized_height demo_spine = Some 0" by (rule fin)
  have "owner_loop demo_spine h 0 = Some (Some 0)" for h
    by (simp add: owner_loop.simps [of demo_spine h 0] f fork_round_trip_simps)
  then have w: "work_at demo_spine 0 h = Inr (map_option row_work (bs_headers demo_spine (0, h)))" for h
    by (simp add: work_at_def owner_fork_def of_option_def)
  show "checkpoint_tail demo_spine = Inr (Some (0, 1000))"
    by (simp add: checkpoint_tail_def fin btc_tail_work_def b w sat_add_def DIFFICULTY_PERIOD_def)
      (simp add: demo_spine_def)
qed

lemma unproven_checkpoint_trusted_witness:
  "merged_mining_rule rlp_std demo_lib (\<lambda>_. []) mainnet claimed_header \<noteq> Inr () \<and>
   (\<exists>cs'. fst (propose_checkpoint demo_env (plain_entry claimed_header) \<lparr> cs_btc = demo_spine, cs_rsk = empty_rsk_store \<rparr>) = Inr 7 \<and>
      snd (propose_checkpoint demo_env (plain_entry claimed_header) \<lparr> cs_btc = demo_spine, cs_rsk = empty_rsk_store \<rparr>) = cs' \<and>
      (\<exists>out. fst (connect_rsk_headers demo_env [] cs') = Inr out \<and> ro_checkpoint out \<noteq> None))"
proof
  have "bl_decode demo_lib (demo_encode h) = Some h" for h
    using demo_lib_ok by (simp add: btc_lib_ok_def demo_lib_def)
  moreover have "length (demo_encode h) = 80" for h by (simp add: demo_encode_def)
  ultimately have mm: "merge_mining_header (ce_btc demo_env) (re_header (plain_entry claimed_header)) = Some (demo_header 1 0 5)"
    by (simp add: merge_mining_header_def plain_entry_def claimed_header_def demo_env_def)
  show "merged_mining_rule rlp_std demo_lib (\<lambda>_. []) mainnet claimed_header \<noteq> Inr ()"
    by (simp add: merged_mining_rule_def claimed_header_def header_default_def network_defs of_option_def
        result_simps Let_def)
  let ?cs = "\<lparr> cs_btc = demo_spine, cs_rsk = empty_rsk_store \<rparr>"
  have h: "entry_hash demo_env (plain_entry claimed_header) = 7"
    by (simp add: plain_entry_def claimed_header_def header_hash_def)
  have "height_of (cs_btc ?cs) (bh_prev (demo_header 1 0 5)) = Inr (Some 0)"
    using demo_spine_reads(2) by (simp add: demo_header_def)
  moreover have "in_tail 0 (case finalized_height (cs_btc ?cs) of Some f \<Rightarrow> f | None \<Rightarrow> 0) 2016"
    by (simp add: demo_spine_reads in_tail_def ANCHOR_DEPTH_def)
  moreover have "clears_threshold (cumulative_difficulty (plain_entry claimed_header)) 1000"
    by (simp add: clears_threshold_def CHECKPOINT_THRESHOLD_DEN_def CHECKPOINT_THRESHOLD_NUM_def
        cumulative_difficulty_def plain_entry_def claimed_header_def)
  ultimately show "\<exists>cs'. fst (propose_checkpoint demo_env (plain_entry claimed_header) ?cs) = Inr 7 \<and>
      snd (propose_checkpoint demo_env (plain_entry claimed_header) ?cs) = cs' \<and>
      (\<exists>out. fst (connect_rsk_headers demo_env [] cs') = Inr out \<and> ro_checkpoint out \<noteq> None)"
    using unproven_checkpoint_trusted [of ?cs 2016 demo_env "plain_entry claimed_header", OF _ mm] demo_spine_reads h
    by fastforce
qed

text \<open>An uncle's work counts twice: when a block that includes an uncle is stored in a tree that also
  holds the uncle as a block of its own, the uncle's difficulty is in the tree's work once as that
  block and once more as part of the including block.\<close>

theorem uncle_work_counts_twice:
  assumes inv: "rsk_inv st" and par: "h_parent_hash (re_header e) \<in> subtree st root"
      "rs_blocks st (h_parent_hash (re_header e)) \<noteq> None"
    and fresh: "rs_blocks st (entry_hash env e) = None" and root: "root \<noteq> entry_hash env e"
    and uncle: "re_uncles e = [u]" "hu \<in> subtree st root"
      "rs_blocks st hu = Some b" "rb_cumulative_difficulty b = h_difficulty (ru_header u)"
    and small: "unat (h_difficulty (re_header e)) + unat (h_difficulty (ru_header u)) < 2 ^ 256"
  shows "\<exists>others. tree_work st root = others + unat (h_difficulty (ru_header u)) \<and>
    tree_work (snd (put_entry env e st)) root =
      others + unat (h_difficulty (re_header e)) + 2 * unat (h_difficulty (ru_header u))"
proof -
  have fin: "finite (subtree st root)" using inv by (simp add: rsk_inv_def subtree_finite)
  have "work_of st hu = unat (h_difficulty (ru_header u))"
    using uncle by (simp add: work_of_def rsk_block_of_def)
  then have "tree_work st root = (\<Sum>h \<in> subtree st root - {hu}. work_of st h) + unat (h_difficulty (ru_header u))"
    using fin uncle(2) by (simp add: tree_work_def sum.remove add.commute)
  moreover have "unat (cumulative_difficulty e) = unat (h_difficulty (re_header e)) + unat (h_difficulty (ru_header u))"
    using small by (simp add: cumulative_difficulty_sum uncle(1))
  ultimately show ?thesis
    using tree_work_put_entry [OF inv par(2) fresh root] par(1) by auto
qed

lemma uncle_work_counts_twice_witness:
  "\<exists>others. tree_work (snd (put_entry demo_env
      \<lparr> re_header = rooted_header 3 1 3 20, re_raw = [], re_uncles = [\<lparr> ru_header = rooted_header 1 0 1 10, ru_raw = [] \<rparr>] \<rparr>
      demo_tree)) 1 = others + 20 + 2 * 10"
proof -
  let ?u = "\<lparr> ru_header = rooted_header 1 0 1 10, ru_raw = [] \<rparr>"
  let ?e = "\<lparr> re_header = rooted_header 3 1 3 20, re_raw = [], re_uncles = [?u] \<rparr>"
  have "h_parent_hash (re_header ?e) = 1" "entry_hash demo_env ?e = 3" "h_difficulty (re_header ?e) = 20"
    "h_difficulty (ru_header ?u) = 10"
    by (simp_all add: rooted_header_def header_hash_def)
  then show ?thesis
    using uncle_work_counts_twice [OF demo_tree_inv, of ?e 1 demo_env ?u 1 "\<lparr> rb_number = 1, rb_parent = 0, rb_cumulative_difficulty = 10 \<rparr>"]
    by (auto simp: demo_tree_blocks demo_tree_work)
qed

end
