(* ===== verification/Wire.thy ===== *)
theory Wire
  imports Header_Wire
begin

text \<open>
  The steps the decoders of messages and transactions share: opening a list or string, reading a
  hash, and the loop that reads items until a body is empty; the contract of a codec whose decoder
  reads back what its encoder wrote, and that of a reader that no input makes panic or loop.
\<close>

section \<open>Steps\<close>

text \<open>\<open>RlpHeader::decode\<close> and the slice of the payload it announces.\<close>

definition open_item :: "rlp_lib \<Rightarrow> bytes \<Rightarrow> (bool \<times> bytes \<times> bytes) rlp" where
  "open_item R buf =
     bindE (rl_header R buf) (\<lambda>(is_list, n, rest).
     bindE (ensure (n \<le> length rest) RlpPanic) (\<lambda>_.
       Inr (is_list, take n rest, drop n rest)))"

definition rl_b256_bytes :: "rlp_lib \<Rightarrow> b256 \<Rightarrow> bytes" where
  "rl_b256_bytes R h = rl_string_bytes R (to_be 32 h)"

definition decode_b256 :: "rlp_lib \<Rightarrow> bytes \<Rightarrow> (b256 \<times> bytes) rlp" where
  "decode_b256 R buf = bindE (rl_fixed R 32 buf) (\<lambda>(v, rest). Inr (from_be v, rest))"

text \<open>\<open>while !body.is_empty() { out.push(read(&mut body)?) }\<close>\<close>

partial_function (option) read_while :: "(bytes \<Rightarrow> ('a \<times> bytes) rlp) \<Rightarrow> bytes \<Rightarrow> 'a list rlp option" where
  "read_while dec body =
    (if body = [] then Some (Inr [])
     else case dec body of
       Inl e \<Rightarrow> Some (Inl e)
     | Inr (v, rest) \<Rightarrow> Option.bind (read_while dec rest) (\<lambda>r. Some (bindE r (\<lambda>vs. Inr (v # vs)))))"

definition read_all :: "(bytes \<Rightarrow> ('a \<times> bytes) rlp) \<Rightarrow> bytes \<Rightarrow> 'a list rlp" where
  "read_all dec body = (case read_while dec body of None \<Rightarrow> Inl RlpDiverges | Some r \<Rightarrow> r)"

section \<open>Codecs\<close>

text \<open>What a decoder returns need not be the value that was encoded: a header gains its cached
  hashes, a transaction its bytes. \<open>norm\<close> is the value read back.\<close>

locale wire_codec =
  fixes enc :: "'a \<Rightarrow> bytes" and dec :: "bytes \<Rightarrow> ('b \<times> bytes) rlp" and ok :: "'a \<Rightarrow> bool" and norm :: "'a \<Rightarrow> 'b"
  assumes dec_enc: "ok v \<Longrightarrow> dec (enc v @ rest) = Inr (norm v, rest)"
    and enc_ne: "ok v \<Longrightarrow> enc v \<noteq> []"
begin

lemma dec_enc_end: "ok v \<Longrightarrow> dec (enc v) = Inr (norm v, [])"
  using dec_enc [of v "[]"] by simp

lemma read_while_enc:
  "\<forall>v \<in> set vs. ok v \<Longrightarrow> read_while dec (concat (map enc vs)) = Some (Inr (map norm vs))"
proof (induction vs)
  case (Cons v vs)
  then have "enc v @ concat (map enc vs) \<noteq> []" by (simp add: enc_ne)
  with Cons show ?case by (simp add: read_while.simps [of dec "enc v @ concat (map enc vs)"] dec_enc)
qed (simp add: read_while.simps)

lemma read_all_enc: "\<forall>v \<in> set vs. ok v \<Longrightarrow> read_all dec (concat (map enc vs)) = Inr (map norm vs)"
  by (simp add: read_all_def read_while_enc)

lemma enc_inj: "ok v \<Longrightarrow> ok w \<Longrightarrow> enc v = enc w \<Longrightarrow> norm v = norm w"
  using dec_enc_end [of v] dec_enc_end [of w] by simp

end

lemma open_list [codec]:
  "rlp_ok R \<Longrightarrow> length p < 2 ^ 64 \<Longrightarrow> open_item R (wrap_list R p @ rest) = Inr (True, p, rest)"
  by (simp add: open_item_def wrap_list_def rlp_laws(1) ensure_def)

lemma open_list_end [codec]: "rlp_ok R \<Longrightarrow> length p < 2 ^ 64 \<Longrightarrow> open_item R (wrap_list R p) = Inr (True, p, [])"
  using open_list [of R p "[]"] by simp

lemma open_string [codec]:
  "rlp_ok R \<Longrightarrow> length p < 2 ^ 64 \<Longrightarrow> open_item R (rl_string_bytes R p @ rest) = Inr (False, p, rest)"
  by (simp add: open_item_def rlp_laws(2) ensure_def)

lemma decode_b256_bytes [codec]: "rlp_ok R \<Longrightarrow> decode_b256 R (rl_b256_bytes R h @ rest) = Inr (h, rest)"
  by (simp add: decode_b256_def rl_b256_bytes_def rlp_laws(4) from_be_to_be)

text \<open>Decoders at the end of their body.\<close>

lemma decode_end [codec]:
  assumes "rlp_ok R"
  shows "decode_b256 R (rl_b256_bytes R h) = Inr (h, [])"
    and "decode_u8_lenient R (rl_u8_bytes R x) = Inr (x, [])"
    and "decode_u32_lenient R (rl_u32_bytes R y) = Inr (y, [])"
    and "decode_u64_lenient R (rl_u64_bytes R z) = Inr (z, [])"
    and "decode_u256_lenient R (rl_u256_bytes R w) = Inr (w, [])"
    and "decode_u256_lenient R (rl_string_bytes R (java_signed_bytes w)) = Inr (w, [])"
  using decode_b256_bytes [OF assms, of h "[]"] decode_u8_bytes [OF assms, of x "[]"]
    decode_u32_bytes [OF assms, of y "[]"] decode_u64_bytes [OF assms, of z "[]"]
    decode_u256_bytes [OF assms, of w "[]"] decode_java_signed [OF assms, of w "[]"] by simp_all

lemma wrap_list_ne: "rlp_ok R \<Longrightarrow> length p < 2 ^ 64 \<Longrightarrow> wrap_list R p \<noteq> []"
proof
  assume ok: "rlp_ok R" "length p < 2 ^ 64" and e: "wrap_list R p = []"
  then have "rl_header R [] = Inr (True, length p, [])"
    using rlp_laws(1) [OF ok, of "[]"] by (auto simp: wrap_list_def)
  then show False using rlp_header_bound [OF ok(1)] by force
qed

lemma string_ne: "rlp_ok R \<Longrightarrow> rl_string_bytes R p \<noteq> []"
  using rlp_string_length [of R p] rlp_empty_string [of R] by (cases p) auto

lemma encoded_ne [simp]:
  "rlp_ok R \<Longrightarrow> rl_b256_bytes R h \<noteq> []" "rlp_ok R \<Longrightarrow> rl_u64_bytes R z \<noteq> []" "rlp_ok R \<Longrightarrow> rl_u8_bytes R x \<noteq> []"
  by (simp_all add: rl_b256_bytes_def rl_u64_bytes_def rl_u8_bytes_def string_ne)

section \<open>Readers that no input crashes\<close>

named_theorems safe \<open>crash freedom of readers\<close>

lemma crash_free_Inr [safe]: "crash_free (Inr v)"
  by (simp add: crash_free_def)

lemma crash_free_Inl [safe]: "e \<noteq> RlpPanic \<Longrightarrow> e \<noteq> RlpDiverges \<Longrightarrow> crash_free (Inl e)"
  by (simp add: crash_free_def)

lemma crash_free_bindE [safe]:
  "crash_free r \<Longrightarrow> (\<And>v. r = Inr v \<Longrightarrow> crash_free (f v)) \<Longrightarrow> crash_free (bindE r f)"
  by (cases r) (auto simp: crash_free_def)

lemma crash_free_ensure [safe]: "(e = RlpPanic \<or> e = RlpDiverges \<Longrightarrow> c) \<Longrightarrow> crash_free (ensure c e)"
  by (auto simp: crash_free_def ensure_def)

lemma crash_free_of_option [safe]: "(e = RlpPanic \<or> e = RlpDiverges \<Longrightarrow> r \<noteq> None) \<Longrightarrow> crash_free (of_option e r)"
  by (auto simp: crash_free_def of_option_def split: option.splits)

lemma crash_free_cases [safe]:
  "(c \<Longrightarrow> crash_free x) \<Longrightarrow> (\<not> c \<Longrightarrow> crash_free y) \<Longrightarrow> crash_free (if c then x else y)"
  "(\<And>a b. p = (a, b) \<Longrightarrow> crash_free (f a b)) \<Longrightarrow> crash_free (case p of (a, b) \<Rightarrow> f a b)"
  "(ov = None \<Longrightarrow> crash_free x) \<Longrightarrow> (\<And>v. ov = Some v \<Longrightarrow> crash_free (g v)) \<Longrightarrow> crash_free (case ov of None \<Rightarrow> x | Some v \<Rightarrow> g v)"
  "(\<And>l. s = Inl l \<Longrightarrow> crash_free (h l)) \<Longrightarrow> (\<And>r. s = Inr r \<Longrightarrow> crash_free (k r)) \<Longrightarrow> crash_free (case s of Inl l \<Rightarrow> h l | Inr r \<Rightarrow> k r)"
  by (auto split: prod.splits option.splits sum.splits)

lemma crash_free_indexing [safe]:
  "n \<le> length bs \<Longrightarrow> crash_free (slice_to n bs)"
  "b \<le> a \<Longrightarrow> crash_free (usize_sub a b)"
  "i < length xs \<Longrightarrow> crash_free (at_index xs i)"
  by (simp_all add: crash_free_def)

text \<open>A reader fails without a crash, or leaves less than its input.\<close>

definition safe_reader :: "(bytes \<Rightarrow> ('a \<times> bytes) rlp) \<Rightarrow> bool" where
  "safe_reader dec \<longleftrightarrow> (\<forall>d. crash_free (dec d) \<and> (\<forall>v rest. dec d = Inr (v, rest) \<longrightarrow> length rest < length d))"

lemma safe_readerD:
  "safe_reader dec \<Longrightarrow> crash_free (dec d)"
  "safe_reader dec \<Longrightarrow> dec d = Inr (v, rest) \<Longrightarrow> length rest < length d"
  by (auto simp: safe_reader_def)

lemma read_while_ends: "safe_reader dec \<Longrightarrow> \<exists>r. read_while dec body = Some r \<and> crash_free r"
proof (induction "length body" arbitrary: body rule: less_induct)
  case less
  show ?case
  proof (cases "dec body")
    case (Inl e)
    then show ?thesis using safe_readerD(1) [OF less.prems, of body]
      by (auto simp: read_while.simps [of dec body] crash_free_def)
  next
    case (Inr p)
    obtain v rest where p: "p = (v, rest)" by (cases p)
    then have "length rest < length body" using safe_readerD(2) [OF less.prems] Inr by blast
    then obtain r where "read_while dec rest = Some r" "crash_free r" using less by blast
    then show ?thesis by (auto simp: read_while.simps [of dec body] Inr p intro!: safe)
  qed
qed

lemma read_all_safe [safe]: "safe_reader dec \<Longrightarrow> crash_free (read_all dec body)"
  using read_while_ends [of dec body] by (auto simp: read_all_def)

end
