(* ===== verification/Transactions.thy ===== *)
theory Transactions
  imports Wire
begin

text \<open>
  \<open>types/transaction.rs\<close>: the encoding of transactions, the hash that is signed, and the sender
  that a signature names. A decoded transaction keeps the bytes it was read from, because rskj
  writes integers with leading zeros and hashes are taken over what was sent.
\<close>

section \<open>Encoding\<close>

text \<open>The six fields that are signed, and the whole list.\<close>

definition signed_fields :: "rlp_lib \<Rightarrow> transaction \<Rightarrow> bytes" where
  "signed_fields R t =
     rl_u64_bytes R (t_nonce t) @ rl_u256_bytes R (t_gas_price t) @ rl_u256_bytes R (t_gas_limit t) @
     rl_string_bytes R (t_to t) @ rl_u256_bytes R (t_value t) @ rl_string_bytes R (t_input t)"

definition transaction_fields :: "rlp_lib \<Rightarrow> transaction \<Rightarrow> bytes" where
  "transaction_fields R t =
     signed_fields R t @ rl_u64_bytes R (t_v t) @ rl_u256_bytes R (t_r t) @ rl_u256_bytes R (t_s t)"

definition encode_transaction :: "rlp_lib \<Rightarrow> transaction \<Rightarrow> bytes" where
  "encode_transaction R t = wrap_list R (transaction_fields R t)"

definition decode_transaction :: "rlp_lib \<Rightarrow> bytes \<Rightarrow> (transaction \<times> bytes) rlp" where
  "decode_transaction R original =
     bindE (rl_header R original) (\<lambda>(is_list, n, buf).
     bindE (ensure is_list UnexpectedString) (\<lambda>_.
     bindE (ensure (n \<le> length buf) RlpPanic) (\<lambda>_.
     let body = take n buf; buf = drop n buf in
     bindE (usize_sub (length original) (length buf)) (\<lambda>consumed.
     bindE (slice_to consumed original) (\<lambda>cached.
     bindE (decode_u64_lenient R body) (\<lambda>(nonce, body).
     bindE (decode_u256_lenient R body) (\<lambda>(gas_price, body).
     bindE (decode_u256_lenient R body) (\<lambda>(gas_limit, body).
     bindE (rl_bytes R body) (\<lambda>(to, body).
     bindE (decode_u256_lenient R body) (\<lambda>(val, body).
     bindE (rl_bytes R body) (\<lambda>(input, body).
     bindE (decode_u64_lenient R body) (\<lambda>(v, body).
     bindE (decode_u256_lenient R body) (\<lambda>(r, body).
     bindE (decode_u256_lenient R body) (\<lambda>(s, body).
       Inr (\<lparr> t_nonce = nonce, t_gas_price = gas_price, t_gas_limit = gas_limit, t_to = to, t_value = val,
              t_input = input, t_v = v, t_r = r, t_s = s, t_cached_rlp = Some cached \<rparr>, buf)))))))))))))))"

definition rlp_for_trie :: "rlp_lib \<Rightarrow> transaction \<Rightarrow> bytes" where
  "rlp_for_trie R t = (case t_cached_rlp t of Some cached \<Rightarrow> cached | None \<Rightarrow> encode_transaction R t)"

definition tx_hash :: "rlp_lib \<Rightarrow> transaction \<Rightarrow> b256" where
  "tx_hash R t = rl_keccak R (rlp_for_trie R t)"

section \<open>The hash that is signed\<close>

definition is_eip155 :: "transaction \<Rightarrow> u64 \<Rightarrow> bool" where
  "is_eip155 t cid \<longleftrightarrow> t_v t \<noteq> 27 \<and> t_v t \<noteq> 28 \<and> t_v t \<ge> cid * 2 + 35"

definition rlp_wrap_and_hash :: "rlp_lib \<Rightarrow> bytes \<Rightarrow> b256" where
  "rlp_wrap_and_hash R inner = rl_keccak R (wrap_list R inner)"

text \<open>What an EIP-155 signature covers beyond the six fields.\<close>

definition chain_suffix :: "rlp_lib \<Rightarrow> u64 \<Rightarrow> bytes" where
  "chain_suffix R cid = rl_u64_bytes R cid @ rl_u8_bytes R 0 @ rl_u8_bytes R 0"

definition signing_hash_eip155 :: "rlp_lib \<Rightarrow> transaction \<Rightarrow> u64 \<Rightarrow> b256" where
  "signing_hash_eip155 R t cid = rlp_wrap_and_hash R (signed_fields R t @ chain_suffix R cid)"

definition signing_hash_legacy :: "rlp_lib \<Rightarrow> transaction \<Rightarrow> b256" where
  "signing_hash_legacy R t = rlp_wrap_and_hash R (signed_fields R t)"

definition take_rlp_item :: "rlp_lib \<Rightarrow> bytes \<Rightarrow> (bytes \<times> bytes) option" where
  "take_rlp_item R start = (case rl_header R start of
     Inl e \<Rightarrow> None
   | Inr (is_list, n, peek) \<Rightarrow>
       let tot = (length start - length peek) + n in
       if length start < tot then None else Some (take tot start, drop tot start))"

text \<open>\<open>for _ in 0..k { inner.extend(take_rlp_item(&mut rest)?) }\<close>\<close>

fun take_items :: "rlp_lib \<Rightarrow> nat \<Rightarrow> bytes \<Rightarrow> bytes option" where
  "take_items R 0 rest = Some []"
| "take_items R (Suc k) rest =
     Option.bind (take_rlp_item R rest) (\<lambda>(it, rest). map_option (\<lambda>inner. it @ inner) (take_items R k rest))"

definition signing_hash_from_cached :: "rlp_lib \<Rightarrow> transaction \<Rightarrow> u64 \<Rightarrow> b256 option" where
  "signing_hash_from_cached R t cid =
     Option.bind (t_cached_rlp t) (\<lambda>cached. case rl_header R cached of
       Inl e \<Rightarrow> None
     | Inr (is_list, n, buf) \<Rightarrow>
         if \<not> is_list \<or> length buf < n then None
         else map_option (\<lambda>inner. rlp_wrap_and_hash R
             (inner @ (if is_eip155 t cid then chain_suffix R cid else [])))
           (take_items R 6 (take n buf)))"

definition signing_hash :: "rlp_lib \<Rightarrow> transaction \<Rightarrow> u64 \<Rightarrow> b256" where
  "signing_hash R t cid = (case signing_hash_from_cached R t cid of
     Some h \<Rightarrow> h
   | None \<Rightarrow> if is_eip155 t cid then signing_hash_eip155 R t cid else signing_hash_legacy R t)"

section \<open>Senders\<close>

text \<open>The \<open>k256\<close>, \<open>sha2\<close> and \<open>ripemd\<close> crates: parsing a signature and a recovery id, recovering the
  key, and its encoded point, compressed or not.\<close>

record ('sig, 'key) sig_lib =
  sg_from_slice :: "bytes \<Rightarrow> 'sig option"
  sg_recid :: "u8 \<Rightarrow> bool"
  sg_recover :: "b256 \<Rightarrow> 'sig \<Rightarrow> u8 \<Rightarrow> 'key option"
  sg_point :: "bool \<Rightarrow> 'key \<Rightarrow> bytes"
  sg_sha256 :: "bytes \<Rightarrow> bytes"
  sg_ripemd :: "bytes \<Rightarrow> bytes"

datatype sender_error = InvalidEip155V | InvalidLegacyV | InvalidSignature | InvalidRecoveryId | RecoveryFailed

text \<open>The 64-bit arithmetic of the recovery id is signed and wraps.\<close>

definition recovery_id :: "transaction \<Rightarrow> u64 \<Rightarrow> sender_error + u8" where
  "recovery_id t cid =
    (if is_eip155 t cid then
       let rid = t_v t - cid * 2 - 35 in
       if \<not> (0 \<le> sint rid \<and> sint rid \<le> 1) then Inl InvalidEip155V else Inr (ucast rid)
     else if t_v t \<noteq> 27 \<and> t_v t \<noteq> 28 then Inl InvalidLegacyV
     else Inr (ucast (t_v t - 27)))"

definition recover_key :: "rlp_lib \<Rightarrow> ('sig, 'key) sig_lib \<Rightarrow> transaction \<Rightarrow> u64 \<Rightarrow> sender_error + 'key" where
  "recover_key R G t cid =
    (let hash = signing_hash R t cid in
     bindE (recovery_id t cid) (\<lambda>recovery_id.
     bindE (of_option InvalidSignature (sg_from_slice G (to_be 32 (t_r t) @ to_be 32 (t_s t)))) (\<lambda>signature.
     bindE (ensure (sg_recid G recovery_id) InvalidRecoveryId) (\<lambda>_.
       of_option RecoveryFailed (sg_recover G hash signature recovery_id)))))"

definition recover_sender :: "rlp_lib \<Rightarrow> ('sig, 'key) sig_lib \<Rightarrow> transaction \<Rightarrow> u64 \<Rightarrow> sender_error + address" where
  "recover_sender R G t cid =
     bindE (recover_key R G t cid) (\<lambda>vk. Inr (ucast (rl_keccak R (drop 1 (sg_point G False vk)))))"

definition recover_compressed_pubkey :: "rlp_lib \<Rightarrow> ('sig, 'key) sig_lib \<Rightarrow> transaction \<Rightarrow> u64 \<Rightarrow> bytes option" where
  "recover_compressed_pubkey R G t cid = (case recover_key R G t cid of
     Inl e \<Rightarrow> None | Inr vk \<Rightarrow> Some (sg_point G True vk))"

definition btc_sender_hash160 :: "rlp_lib \<Rightarrow> ('sig, 'key) sig_lib \<Rightarrow> transaction \<Rightarrow> u64 \<Rightarrow> bytes option" where
  "btc_sender_hash160 R G t cid =
     map_option (\<lambda>compressed. sg_ripemd G (sg_sha256 G compressed)) (recover_compressed_pubkey R G t cid)"

end
