(* ===== verification/Snap.thy ===== *)
theory Snap
  imports Transactions
begin

text \<open>
  \<open>crates/rsk-p2p/src/protocol/snap.rs\<close>: the snapshot-sync messages and their bodies, with blocks and
  difficulties on the wire. The texts of custom RLP errors are the code's. A body decoder consumes its
  whole input, so it returns the message alone.
\<close>

section \<open>Difficulties on the wire\<close>

definition difficulty_bytes :: "u256 \<Rightarrow> bytes" where
  "difficulty_bytes d =
    (let magnitude = strip_zeros (to_be 32 d) in
     if magnitude = [] then [0]
     else if hd magnitude \<ge> 0x80 then 0 # magnitude
     else magnitude)"

definition encode_difficulty :: "rlp_lib \<Rightarrow> u256 \<Rightarrow> bytes" where
  "encode_difficulty R d = rl_string_bytes R (difficulty_bytes d)"

definition difficulty_length :: "rlp_lib \<Rightarrow> u256 \<Rightarrow> nat" where
  "difficulty_length R d = length (rl_string_bytes R (difficulty_bytes d))"

section \<open>Opening items\<close>

text \<open>A header whose payload must fit, and must be a list where the code asks for one.\<close>

definition open_checked :: "rlp_lib \<Rightarrow> bool \<Rightarrow> string \<Rightarrow> bytes \<Rightarrow> (bool \<times> bytes \<times> bytes) rlp" where
  "open_checked R must_list err buf =
     bindE (rl_header R buf) (\<lambda>(is_list, n, rest).
       if must_list \<and> \<not> is_list \<or> length rest < n then Inl (RlpOther err)
       else Inr (is_list, take n rest, drop n rest))"

text \<open>\<open>&p[..h.payload_length.min(p.len())]\<close>\<close>

definition open_min :: "rlp_lib \<Rightarrow> bytes \<Rightarrow> bytes rlp" where
  "open_min R p = bindE (rl_header R p) (\<lambda>(is_list, n, rest). Inr (take n rest))"

section \<open>Messages\<close>

record snap_status_request =
  ssq_id :: u64

record snap_status_response =
  ssp_id :: u64
  ssp_blocks :: "block list"
  ssp_difficulties :: "u256 list"
  ssp_trie_size :: u64
  ssp_chunk_grid :: u64

record snap_chunk_request =
  scq_id :: u64
  scq_block_number :: u64
  scq_from :: u64
  scq_chunk_size :: u64
  scq_state_root :: "b256 option"

record snap_entry =
  se_message :: bytes
  se_long_values :: "bytes list"

datatype chunk_payload = Proved "snap_entry list" "bytes list" | Legacy bytes

datatype refusal = NoRefusal | UnknownBlock | StateRootMismatch | StateNotStored | PastTheEnd | OffsetNotOnGrid

fun refusal_code :: "refusal \<Rightarrow> u8" where
  "refusal_code NoRefusal = 0"
| "refusal_code UnknownBlock = 1"
| "refusal_code StateRootMismatch = 2"
| "refusal_code StateNotStored = 3"
| "refusal_code PastTheEnd = 4"
| "refusal_code OffsetNotOnGrid = 5"

definition refusal_from_code :: "u64 \<Rightarrow> refusal" where
  "refusal_from_code code =
    (if code = 1 then UnknownBlock
     else if code = 2 then StateRootMismatch
     else if code = 3 then StateNotStored
     else if code = 4 then PastTheEnd
     else if code = 5 then OffsetNotOnGrid
     else NoRefusal)"

definition worth_asking_again :: "refusal \<Rightarrow> bool" where
  "worth_asking_again r \<longleftrightarrow> r = NoRefusal \<or> r = OffsetNotOnGrid \<or> r = PastTheEnd"

record snap_chunk_response =
  scp_id :: u64
  scp_payload :: chunk_payload
  scp_block_number :: u64
  scp_from :: u64
  scp_to :: u64
  scp_complete :: bool
  scp_refusal :: refusal

record snap_blocks_request =
  sbq_id :: u64
  sbq_block_number :: u64

record snap_blocks_response =
  sbp_id :: u64
  sbp_blocks :: "block list"
  sbp_difficulties :: "u256 list"

section \<open>Blocks\<close>

definition encode_block :: "rlp_lib \<Rightarrow> block \<Rightarrow> bytes" where
  "encode_block R b =
     wrap_list R (encode_header R (b_header b) @
       wrap_list R (concat (map (rlp_for_trie R) (b_transactions b))) @
       wrap_list R (concat (map (encode_header R) (b_ommers b))))"

definition decode_block :: "rlp_lib \<Rightarrow> activation_heights \<Rightarrow> bytes \<Rightarrow> (block \<times> bytes) rlp" where
  "decode_block R acts buf =
     bindE (open_checked R True ''malformed block'' buf) (\<lambda>(_, body, buf).
     bindE (decode_with_hash R acts body) (\<lambda>(header, body).
     bindE (open_checked R False ''malformed block transactions'' body) (\<lambda>(_, txs_body, body).
     bindE (read_all (decode_transaction R) txs_body) (\<lambda>transactions.
     bindE (open_checked R False ''malformed block uncles'' body) (\<lambda>(_, uncles_body, _).
     bindE (read_all (decode_with_hash R acts) uncles_body) (\<lambda>ommers.
       Inr (\<lparr> b_header = header, b_transactions = transactions, b_ommers = ommers \<rparr>, buf)))))))"

definition encode_blocks_and_difficulties :: "rlp_lib \<Rightarrow> block list \<Rightarrow> u256 list \<Rightarrow> bytes" where
  "encode_blocks_and_difficulties R blocks difficulties =
     wrap_list R (concat (map (\<lambda>b. rl_string_bytes R (encode_block R b)) blocks)) @
     wrap_list R (concat (map (encode_difficulty R) difficulties))"

text \<open>A block in a list is a string; what follows the block inside the string is ignored.\<close>

definition decode_block_blob :: "rlp_lib \<Rightarrow> activation_heights \<Rightarrow> bytes \<Rightarrow> (block \<times> bytes) rlp" where
  "decode_block_blob R acts body =
     bindE (rl_bytes R body) (\<lambda>(encoded, body).
     bindE (decode_block R acts encoded) (\<lambda>(b, _). Inr (b, body)))"

definition decode_blocks_and_difficulties ::
  "rlp_lib \<Rightarrow> activation_heights \<Rightarrow> bytes \<Rightarrow> ((block list \<times> u256 list) \<times> bytes) rlp" where
  "decode_blocks_and_difficulties R acts buf =
     bindE (open_checked R False ''malformed block list'' buf) (\<lambda>(_, blocks_body, buf).
     bindE (read_all (decode_block_blob R acts) blocks_body) (\<lambda>blocks.
     bindE (open_checked R False ''malformed difficulty list'' buf) (\<lambda>(_, diffs_body, buf).
     bindE (read_all (decode_u256_lenient R) diffs_body) (\<lambda>difficulties.
       Inr ((blocks, difficulties), buf)))))"

section \<open>Bodies\<close>

definition with_id :: "rlp_lib \<Rightarrow> u64 \<Rightarrow> bytes \<Rightarrow> bytes" where
  "with_id R msg_id params = wrap_list R (rl_u64_bytes R msg_id @ params)"

text \<open>The identifier and the parameters as one item: a list as it is, or the content of a string.\<close>

definition split_id :: "rlp_lib \<Rightarrow> bytes \<Rightarrow> (u64 \<times> bytes) rlp" where
  "split_id R buf =
     bindE (open_checked R True ''malformed snap message'' buf) (\<lambda>(_, body, _).
     bindE (decode_u64_lenient R body) (\<lambda>(id, rest).
     bindE (rl_header R rest) (\<lambda>(is_list, n, peek).
       if is_list then Inr (id, rest)
       else if length peek < n then Inl (RlpOther ''truncated snap params'')
       else Inr (id, take n peek))))"

text \<open>An optional trailing integer that reads as zero when the body is empty.\<close>

definition trailing_u64 :: "rlp_lib \<Rightarrow> bytes \<Rightarrow> (u64 \<times> bytes) rlp" where
  "trailing_u64 R body = (if body = [] then Inr (0, body) else decode_u64_lenient R body)"

definition encode_snap_status_request :: "rlp_lib \<Rightarrow> snap_status_request \<Rightarrow> bytes" where
  "encode_snap_status_request R m = with_id R (ssq_id m) (wrap_list R [])"

definition decode_snap_status_request :: "rlp_lib \<Rightarrow> bytes \<Rightarrow> snap_status_request rlp" where
  "decode_snap_status_request R buf = bindE (split_id R buf) (\<lambda>(id, _). Inr \<lparr> ssq_id = id \<rparr>)"

definition encode_snap_status_response :: "rlp_lib \<Rightarrow> snap_status_response \<Rightarrow> bytes" where
  "encode_snap_status_response R m =
     with_id R (ssp_id m) (wrap_list R (encode_blocks_and_difficulties R (ssp_blocks m) (ssp_difficulties m) @
       rl_u64_bytes R (ssp_trie_size m) @
       (if ssp_chunk_grid m \<noteq> 0 then rl_u64_bytes R (ssp_chunk_grid m) else [])))"

definition decode_snap_status_response ::
  "rlp_lib \<Rightarrow> activation_heights \<Rightarrow> bytes \<Rightarrow> snap_status_response rlp" where
  "decode_snap_status_response R acts buf =
     bindE (split_id R buf) (\<lambda>(id, params).
     bindE (open_min R params) (\<lambda>body.
     bindE (decode_blocks_and_difficulties R acts body) (\<lambda>((blocks, difficulties), body).
     bindE (trailing_u64 R body) (\<lambda>(trie_size, body).
     bindE (trailing_u64 R body) (\<lambda>(chunk_grid, _).
       Inr \<lparr> ssp_id = id, ssp_blocks = blocks, ssp_difficulties = difficulties, ssp_trie_size = trie_size,
             ssp_chunk_grid = chunk_grid \<rparr>)))))"

definition encode_snap_chunk_request :: "rlp_lib \<Rightarrow> snap_chunk_request \<Rightarrow> bytes" where
  "encode_snap_chunk_request R m =
     with_id R (scq_id m) (wrap_list R (rl_u64_bytes R (scq_block_number m) @ rl_u64_bytes R (scq_from m) @
       rl_u64_bytes R (scq_chunk_size m) @
       (case scq_state_root m of Some root \<Rightarrow> rl_b256_bytes R root | None \<Rightarrow> [])))"

definition decode_snap_chunk_request :: "rlp_lib \<Rightarrow> bytes \<Rightarrow> snap_chunk_request rlp" where
  "decode_snap_chunk_request R buf =
     bindE (split_id R buf) (\<lambda>(id, params).
     bindE (open_min R params) (\<lambda>body.
     bindE (decode_u64_lenient R body) (\<lambda>(block_number, body).
     bindE (decode_u64_lenient R body) (\<lambda>(from_offset, body).
     bindE (trailing_u64 R body) (\<lambda>(chunk_size, body).
     bindE (if body = [] then Inr None else bindE (decode_b256 R body) (\<lambda>(root, _). Inr (Some root))) (\<lambda>state_root.
       Inr \<lparr> scq_id = id, scq_block_number = block_number, scq_from = from_offset, scq_chunk_size = chunk_size,
             scq_state_root = state_root \<rparr>))))))"

section \<open>Chunks\<close>

definition encode_snap_entry :: "rlp_lib \<Rightarrow> snap_entry \<Rightarrow> bytes" where
  "encode_snap_entry R e =
     wrap_list R (rl_string_bytes R (se_message e) @
       wrap_list R (concat (map (rl_string_bytes R) (se_long_values e))))"

fun encode_chunk_payload :: "rlp_lib \<Rightarrow> chunk_payload \<Rightarrow> bytes" where
  "encode_chunk_payload R (Legacy blob) = rl_string_bytes R blob"
| "encode_chunk_payload R (Proved entries witness) =
     wrap_list R (wrap_list R (concat (map (encode_snap_entry R) entries)) @
       wrap_list R (concat (map (rl_string_bytes R) witness)))"

definition decode_snap_entry :: "rlp_lib \<Rightarrow> bytes \<Rightarrow> (snap_entry \<times> bytes) rlp" where
  "decode_snap_entry R entries_body =
     bindE (open_checked R True ''malformed chunk entry'' entries_body) (\<lambda>(_, e, entries_body).
     bindE (rl_bytes R e) (\<lambda>(message, e).
     bindE (open_checked R True ''malformed long value list'' e) (\<lambda>(_, values_body, _).
     bindE (read_all (rl_bytes R) values_body) (\<lambda>long_values.
       Inr (\<lparr> se_message = message, se_long_values = long_values \<rparr>, entries_body)))))"

definition decode_chunk_payload :: "rlp_lib \<Rightarrow> bytes \<Rightarrow> (chunk_payload \<times> bytes) rlp" where
  "decode_chunk_payload R buf =
     bindE (open_checked R False ''malformed chunk payload'' buf) (\<lambda>(is_list, body, buf).
       if \<not> is_list then Inr (Legacy body, buf)
       else
         bindE (open_checked R True ''malformed chunk entries'' body) (\<lambda>(_, entries_body, body).
         bindE (read_all (decode_snap_entry R) entries_body) (\<lambda>entries.
         bindE (open_checked R True ''malformed witness'' body) (\<lambda>(_, witness_body, _).
         bindE (read_all (rl_bytes R) witness_body) (\<lambda>witness.
           Inr (Proved entries witness, buf))))))"

definition encode_bytes :: "rlp_lib \<Rightarrow> chunk_payload \<Rightarrow> bytes" where
  "encode_bytes R p = encode_chunk_payload R p"

definition decode_bytes :: "rlp_lib \<Rightarrow> bytes \<Rightarrow> chunk_payload rlp" where
  "decode_bytes R bs = bindE (decode_chunk_payload R bs) (\<lambda>(p, _). Inr p)"

definition encode_snap_chunk_response :: "rlp_lib \<Rightarrow> snap_chunk_response \<Rightarrow> bytes" where
  "encode_snap_chunk_response R m =
     with_id R (scp_id m) (wrap_list R (encode_chunk_payload R (scp_payload m) @
       rl_u64_bytes R (scp_block_number m) @ rl_u64_bytes R (scp_from m) @ rl_u64_bytes R (scp_to m) @
       rl_u8_bytes R (of_bool (scp_complete m)) @
       (if scp_refusal m \<noteq> NoRefusal then rl_u8_bytes R (refusal_code (scp_refusal m)) else [])))"

definition decode_snap_chunk_response :: "rlp_lib \<Rightarrow> bytes \<Rightarrow> snap_chunk_response rlp" where
  "decode_snap_chunk_response R buf =
     bindE (split_id R buf) (\<lambda>(id, params).
     bindE (open_min R params) (\<lambda>body.
     bindE (decode_chunk_payload R body) (\<lambda>(payload, body).
     bindE (decode_u64_lenient R body) (\<lambda>(block_number, body).
     bindE (decode_u64_lenient R body) (\<lambda>(from_offset, body).
     bindE (decode_u64_lenient R body) (\<lambda>(to_offset, body).
     bindE (trailing_u64 R body) (\<lambda>(complete, body).
     bindE (trailing_u64 R body) (\<lambda>(code, _).
       Inr \<lparr> scp_id = id, scp_payload = payload, scp_block_number = block_number, scp_from = from_offset,
             scp_to = to_offset, scp_complete = (complete \<noteq> 0), scp_refusal = refusal_from_code code \<rparr>))))))))"

definition encode_snap_blocks_request :: "rlp_lib \<Rightarrow> snap_blocks_request \<Rightarrow> bytes" where
  "encode_snap_blocks_request R m = with_id R (sbq_id m) (wrap_list R (rl_u64_bytes R (sbq_block_number m)))"

definition decode_snap_blocks_request :: "rlp_lib \<Rightarrow> bytes \<Rightarrow> snap_blocks_request rlp" where
  "decode_snap_blocks_request R buf =
     bindE (split_id R buf) (\<lambda>(id, params).
     bindE (open_min R params) (\<lambda>body.
     bindE (decode_u64_lenient R body) (\<lambda>(block_number, _).
       Inr \<lparr> sbq_id = id, sbq_block_number = block_number \<rparr>)))"

definition encode_snap_blocks_response :: "rlp_lib \<Rightarrow> snap_blocks_response \<Rightarrow> bytes" where
  "encode_snap_blocks_response R m =
     with_id R (sbp_id m) (wrap_list R (encode_blocks_and_difficulties R (sbp_blocks m) (sbp_difficulties m)))"

definition decode_snap_blocks_response ::
  "rlp_lib \<Rightarrow> activation_heights \<Rightarrow> bytes \<Rightarrow> snap_blocks_response rlp" where
  "decode_snap_blocks_response R acts buf =
     bindE (split_id R buf) (\<lambda>(id, params).
     bindE (open_min R params) (\<lambda>body.
     bindE (decode_blocks_and_difficulties R acts body) (\<lambda>((blocks, difficulties), _).
       Inr \<lparr> sbp_id = id, sbp_blocks = blocks, sbp_difficulties = difficulties \<rparr>)))"

end
