(* ===== verification/Rsk_Protocol.thy ===== *)
theory Rsk_Protocol
  imports Snap
begin

text \<open>
  \<open>crates/rsk-p2p/src/protocol/rsk.rs\<close>: the messages of the \<open>rsk\<close> subprotocol, their encoding and
  decoding. Records stand for the structs, and \<open>rsk_sub_message\<close> for the enum; the boxes around
  the larger payloads carry no meaning.
\<close>

section \<open>Status and block range\<close>

record rsk_status =
  st_best_block_number :: u64
  st_best_block_hash :: b256
  st_best_block_parent_hash :: "b256 option"
  st_total_difficulty :: "u256 option"
  st_earliest_block :: "u64 option"

definition status_fields :: "rlp_lib \<Rightarrow> rsk_status \<Rightarrow> bytes" where
  "status_fields R s =
     rl_u64_bytes R (st_best_block_number s) @ rl_b256_bytes R (st_best_block_hash s) @
     (case (st_best_block_parent_hash s, st_total_difficulty s) of
        (Some parent, Some td) \<Rightarrow>
          rl_b256_bytes R parent @ encode_difficulty R td @
          (case st_earliest_block s of Some earliest \<Rightarrow> rl_u64_bytes R earliest | None \<Rightarrow> [])
      | _ \<Rightarrow> [])"

definition encode_status :: "rlp_lib \<Rightarrow> rsk_status \<Rightarrow> bytes" where
  "encode_status R s = wrap_list R (status_fields R s)"

definition status_length :: "rlp_lib \<Rightarrow> rsk_status \<Rightarrow> nat" where
  "status_length R s =
    (let len = length (rl_u64_bytes R (st_best_block_number s)) + length (rl_b256_bytes R (st_best_block_hash s)) +
           (case (st_best_block_parent_hash s, st_total_difficulty s) of
              (Some parent, Some td) \<Rightarrow> length (rl_b256_bytes R parent) + difficulty_length R td
            | _ \<Rightarrow> 0)
     in length (rl_header_bytes R True len) + len)"

text \<open>The fields of a status, whichever of the two decoders opened its list.\<close>

definition decode_status_fields :: "rlp_lib \<Rightarrow> bytes \<Rightarrow> rsk_status rlp" where
  "decode_status_fields R body =
     bindE (decode_u64_lenient R body) (\<lambda>(best_block_number, body).
     bindE (decode_b256 R body) (\<lambda>(best_block_hash, body).
     bindE (if body \<noteq> [] then
         bindE (decode_b256 R body) (\<lambda>(parent, body).
         bindE (decode_u256_lenient R body) (\<lambda>(td, body). Inr (Some parent, Some td, body)))
       else Inr (None, None, body)) (\<lambda>(parent, td, body).
     bindE (if body \<noteq> [] then bindE (decode_u64_lenient R body) (\<lambda>(e, _). Inr (Some e)) else Inr None) (\<lambda>earliest.
       Inr \<lparr> st_best_block_number = best_block_number, st_best_block_hash = best_block_hash,
             st_best_block_parent_hash = parent, st_total_difficulty = td, st_earliest_block = earliest \<rparr>))))"

definition decode_status :: "rlp_lib \<Rightarrow> bytes \<Rightarrow> (rsk_status \<times> bytes) rlp" where
  "decode_status R buf =
     bindE (open_item R buf) (\<lambda>(_, body, buf).
     bindE (decode_status_fields R body) (\<lambda>s. Inr (s, buf)))"

definition RSK_RANGE_VERSION :: u64 where
  "RSK_RANGE_VERSION = 63"

record block_range =
  br_earliest_block :: u64
  br_latest_block :: u64
  br_latest_block_hash :: b256

definition encode_block_range :: "rlp_lib \<Rightarrow> block_range \<Rightarrow> bytes" where
  "encode_block_range R r =
     wrap_list R (rl_u64_bytes R (br_earliest_block r) @ rl_u64_bytes R (br_latest_block r) @
       rl_b256_bytes R (br_latest_block_hash r))"

definition decode_block_range :: "rlp_lib \<Rightarrow> bytes \<Rightarrow> (block_range \<times> bytes) rlp" where
  "decode_block_range R buf =
     bindE (open_item R buf) (\<lambda>(_, body, buf).
     bindE (decode_u64_lenient R body) (\<lambda>(earliest, body).
     bindE (decode_u64_lenient R body) (\<lambda>(latest, body).
     bindE (decode_b256 R body) (\<lambda>(latest_hash, _).
       Inr (\<lparr> br_earliest_block = earliest, br_latest_block = latest, br_latest_block_hash = latest_hash \<rparr>, buf)))))"

section \<open>Requests and responses\<close>

record block_headers_query =
  bhq_hash :: b256
  bhq_count :: u32

record block_headers_request =
  bhr_id :: u64
  bhr_query :: block_headers_query

record block_headers_response =
  bhp_id :: u64
  bhp_headers :: "header list"
  bhp_raw :: "bytes list"

record headers_with_uncles_request =
  hur_id :: u64
  hur_query :: block_headers_query

record header_with_uncles =
  hu_header :: header
  hu_uncles :: "header list"

record headers_with_uncles_response =
  hup_id :: u64
  hup_entries :: "header_with_uncles list"

record block_identifier =
  bi_hash :: b256
  bi_number :: u64

record body_request =
  boq_id :: u64
  boq_hash :: b256

record body_response =
  bop_id :: u64
  bop_transactions :: "transaction list"
  bop_uncles :: "header list"

record block_hash_request =
  bqh_id :: u64
  bqh_height :: u64

record block_hash_response =
  bph_id :: u64
  bph_hash :: b256

record skeleton_request =
  skq_id :: u64
  skq_start_number :: u64

record skeleton_response =
  skp_id :: u64
  skp_block_identifiers :: "block_identifier list"

definition hu_encoded_uncles :: "rlp_lib \<Rightarrow> header_with_uncles \<Rightarrow> bytes" where
  "hu_encoded_uncles R e = wrap_list R (concat (map (encode_header R) (hu_uncles e)))"

definition commitment_matches :: "rlp_lib \<Rightarrow> header_with_uncles \<Rightarrow> bool" where
  "commitment_matches R e \<longleftrightarrow>
     of_nat (length (hu_uncles e)) = h_uncle_count (hu_header e) \<and>
     rl_keccak R (hu_encoded_uncles R e) = h_ommers_hash (hu_header e)"

definition hu_cumulative_difficulty :: "header_with_uncles \<Rightarrow> u256" where
  "hu_cumulative_difficulty e =
     foldl (\<lambda>tot u. sat_add tot (h_difficulty u)) (h_difficulty (hu_header e)) (hu_uncles e)"

section \<open>Messages\<close>

datatype rsk_message_type =
    T_Status
  | T_NewBlockHashes
  | T_Transactions
  | T_BlockHashRequest
  | T_BlockHeadersRequest
  | T_BlockHeadersResponse
  | T_SkeletonResponse
  | T_BodyRequest
  | T_BodyResponse
  | T_SkeletonRequest
  | T_BlockHashResponse
  | T_SnapStateChunkRequest
  | T_SnapStateChunkResponse
  | T_SnapStatusRequest
  | T_SnapStatusResponse
  | T_SnapBlocksRequest
  | T_SnapBlocksResponse
  | T_BlockRangeUpdate
  | T_BlockHeadersWithUnclesRequest
  | T_BlockHeadersWithUnclesResponse

fun type_code :: "rsk_message_type \<Rightarrow> u8" where
  "type_code T_Status = 1"
| "type_code T_NewBlockHashes = 6"
| "type_code T_Transactions = 7"
| "type_code T_BlockHashRequest = 8"
| "type_code T_BlockHeadersRequest = 9"
| "type_code T_BlockHeadersResponse = 10"
| "type_code T_SkeletonResponse = 13"
| "type_code T_BodyRequest = 14"
| "type_code T_BodyResponse = 15"
| "type_code T_SkeletonRequest = 16"
| "type_code T_BlockHashResponse = 18"
| "type_code T_SnapStateChunkRequest = 20"
| "type_code T_SnapStateChunkResponse = 21"
| "type_code T_SnapStatusRequest = 22"
| "type_code T_SnapStatusResponse = 23"
| "type_code T_SnapBlocksRequest = 24"
| "type_code T_SnapBlocksResponse = 25"
| "type_code T_BlockRangeUpdate = 26"
| "type_code T_BlockHeadersWithUnclesRequest = 27"
| "type_code T_BlockHeadersWithUnclesResponse = 28"

datatype rsk_sub_message =
    Status rsk_status
  | BlockHashRequest block_hash_request
  | BlockHeadersRequest block_headers_request
  | BlockHeadersResponse block_headers_response
  | SkeletonRequest skeleton_request
  | SkeletonResponse skeleton_response
  | BlockHashResponse block_hash_response
  | BodyRequest body_request
  | BodyResponse body_response
  | NewBlockHashes "block_identifier list"
  | Transactions "bytes list"
  | SnapStatusRequest snap_status_request
  | SnapStatusResponse snap_status_response
  | SnapChunkRequest snap_chunk_request
  | SnapChunkResponse snap_chunk_response
  | SnapBlocksRequest snap_blocks_request
  | SnapBlocksResponse snap_blocks_response
  | BlockRangeUpdate block_range
  | BlockHeadersWithUnclesRequest headers_with_uncles_request
  | BlockHeadersWithUnclesResponse headers_with_uncles_response
  | Unknown u8

fun message_type :: "rsk_sub_message \<Rightarrow> rsk_message_type" where
  "message_type (Status _) = T_Status"
| "message_type (BlockHashRequest _) = T_BlockHashRequest"
| "message_type (BlockHeadersRequest _) = T_BlockHeadersRequest"
| "message_type (BlockHeadersResponse _) = T_BlockHeadersResponse"
| "message_type (SkeletonRequest _) = T_SkeletonRequest"
| "message_type (SkeletonResponse _) = T_SkeletonResponse"
| "message_type (BlockHashResponse _) = T_BlockHashResponse"
| "message_type (BodyRequest _) = T_BodyRequest"
| "message_type (BodyResponse _) = T_BodyResponse"
| "message_type (NewBlockHashes _) = T_NewBlockHashes"
| "message_type (Transactions _) = T_Transactions"
| "message_type (SnapStatusRequest _) = T_SnapStatusRequest"
| "message_type (SnapStatusResponse _) = T_SnapStatusResponse"
| "message_type (SnapChunkRequest _) = T_SnapStateChunkRequest"
| "message_type (SnapChunkResponse _) = T_SnapStateChunkResponse"
| "message_type (SnapBlocksRequest _) = T_SnapBlocksRequest"
| "message_type (SnapBlocksResponse _) = T_SnapBlocksResponse"
| "message_type (BlockRangeUpdate _) = T_BlockRangeUpdate"
| "message_type (BlockHeadersWithUnclesRequest _) = T_BlockHeadersWithUnclesRequest"
| "message_type (BlockHeadersWithUnclesResponse _) = T_BlockHeadersWithUnclesResponse"
| "message_type (Unknown _) = T_Status"

section \<open>Encoding\<close>

text \<open>\<open>RLP([id, RLP([...])])\<close>, the shape of every request and response.\<close>

definition id_list :: "rlp_lib \<Rightarrow> u64 \<Rightarrow> bytes \<Rightarrow> bytes" where
  "id_list R msg_id inner = wrap_list R (rl_u64_bytes R msg_id @ wrap_list R inner)"

definition encode_query :: "rlp_lib \<Rightarrow> block_headers_query \<Rightarrow> bytes" where
  "encode_query R q = rl_b256_bytes R (bhq_hash q) @ rl_u32_bytes R (bhq_count q)"

definition encode_identifier :: "rlp_lib \<Rightarrow> block_identifier \<Rightarrow> bytes" where
  "encode_identifier R b = wrap_list R (rl_b256_bytes R (bi_hash b) @ rl_u64_bytes R (bi_number b))"

definition encode_with_uncles :: "rlp_lib \<Rightarrow> header_with_uncles \<Rightarrow> bytes" where
  "encode_with_uncles R e = wrap_list R (encode_header R (hu_header e) @ hu_encoded_uncles R e)"

text \<open>One definition per branch of \<open>encode_params\<close>.\<close>

definition encode_headers_request :: "rlp_lib \<Rightarrow> block_headers_request \<Rightarrow> bytes" where
  [simp]: "encode_headers_request R r = id_list R (bhr_id r) (encode_query R (bhr_query r))"

definition encode_with_uncles_request :: "rlp_lib \<Rightarrow> headers_with_uncles_request \<Rightarrow> bytes" where
  [simp]: "encode_with_uncles_request R r = id_list R (hur_id r) (encode_query R (hur_query r))"

definition encode_with_uncles_response :: "rlp_lib \<Rightarrow> headers_with_uncles_response \<Rightarrow> bytes" where
  [simp]: "encode_with_uncles_response R r =
     id_list R (hup_id r) (concat (map (encode_with_uncles R) (hup_entries r)))"

definition encode_headers_response :: "rlp_lib \<Rightarrow> block_headers_response \<Rightarrow> bytes" where
  [simp]: "encode_headers_response R r =
     id_list R (bhp_id r) (wrap_list R (concat (map (encode_header R) (bhp_headers r))))"

definition encode_block_hash_request :: "rlp_lib \<Rightarrow> block_hash_request \<Rightarrow> bytes" where
  [simp]: "encode_block_hash_request R r = id_list R (bqh_id r) (rl_u64_bytes R (bqh_height r))"

definition encode_block_hash_response :: "rlp_lib \<Rightarrow> block_hash_response \<Rightarrow> bytes" where
  [simp]: "encode_block_hash_response R r = id_list R (bph_id r) (rl_b256_bytes R (bph_hash r))"

definition encode_skeleton_request :: "rlp_lib \<Rightarrow> skeleton_request \<Rightarrow> bytes" where
  [simp]: "encode_skeleton_request R r = id_list R (skq_id r) (rl_u64_bytes R (skq_start_number r))"

definition encode_skeleton_response :: "rlp_lib \<Rightarrow> skeleton_response \<Rightarrow> bytes" where
  [simp]: "encode_skeleton_response R r =
     id_list R (skp_id r) (wrap_list R (concat (map (encode_identifier R) (skp_block_identifiers r))))"

definition encode_body_request :: "rlp_lib \<Rightarrow> body_request \<Rightarrow> bytes" where
  [simp]: "encode_body_request R r = id_list R (boq_id r) (rl_b256_bytes R (boq_hash r))"

definition encode_body_response :: "rlp_lib \<Rightarrow> body_response \<Rightarrow> bytes" where
  [simp]: "encode_body_response R r =
     id_list R (bop_id r) (wrap_list R (concat (map (rlp_for_trie R) (bop_transactions r))) @
       wrap_list R (concat (map (encode_header R) (bop_uncles r))))"

definition encode_transactions :: "rlp_lib \<Rightarrow> bytes list \<Rightarrow> bytes" where
  [simp]: "encode_transactions R txs = wrap_list R (concat txs)"

fun encode_params :: "rlp_lib \<Rightarrow> rsk_sub_message \<Rightarrow> bytes" where
  "encode_params R (Status s) = wrap_list R (status_fields R s)"
| "encode_params R (BlockRangeUpdate r) = encode_block_range R r"
| "encode_params R (BlockHeadersRequest r) = encode_headers_request R r"
| "encode_params R (BlockHeadersWithUnclesRequest r) = encode_with_uncles_request R r"
| "encode_params R (BlockHeadersWithUnclesResponse r) = encode_with_uncles_response R r"
| "encode_params R (BlockHeadersResponse r) = encode_headers_response R r"
| "encode_params R (BlockHashRequest r) = encode_block_hash_request R r"
| "encode_params R (BlockHashResponse r) = encode_block_hash_response R r"
| "encode_params R (SkeletonRequest r) = encode_skeleton_request R r"
| "encode_params R (SkeletonResponse r) = encode_skeleton_response R r"
| "encode_params R (BodyRequest r) = encode_body_request R r"
| "encode_params R (BodyResponse r) = encode_body_response R r"
| "encode_params R (Transactions txs) = encode_transactions R txs"
| "encode_params R (SnapStatusRequest m) = encode_snap_status_request R m"
| "encode_params R (SnapStatusResponse m) = encode_snap_status_response R m"
| "encode_params R (SnapChunkRequest m) = encode_snap_chunk_request R m"
| "encode_params R (SnapChunkResponse m) = encode_snap_chunk_response R m"
| "encode_params R (SnapBlocksRequest m) = encode_snap_blocks_request R m"
| "encode_params R (SnapBlocksResponse m) = encode_snap_blocks_response R m"
| "encode_params R (NewBlockHashes _) = []"
| "encode_params R (Unknown _) = []"

text \<open>\<open>RLP([RLP([type, RLP_String(params)])])\<close>. The string header is written without looking at the
  parameters.\<close>

definition MESSAGE_ID :: u8 where
  "MESSAGE_ID = 8"

definition encode_message :: "rlp_lib \<Rightarrow> rsk_sub_message \<Rightarrow> bytes" where
  "encode_message R m =
    (let params = encode_params R m in
     wrap_list R (wrap_list R (rl_u8_bytes R (type_code (message_type m)) @
       rl_header_bytes R False (length params) @ params)))"

section \<open>Decoding\<close>

text \<open>The identifier of a request or response and the list inside it.\<close>

definition open_id :: "rlp_lib \<Rightarrow> bytes \<Rightarrow> (u64 \<times> bytes) rlp" where
  "open_id R params =
     bindE (open_item R params) (\<lambda>(_, list_body, _).
     bindE (decode_u64_lenient R list_body) (\<lambda>(msg_id, list_body).
     bindE (open_item R list_body) (\<lambda>(_, inner, _). Inr (msg_id, inner))))"

definition decode_query :: "rlp_lib \<Rightarrow> bytes \<Rightarrow> (u64 \<times> block_headers_query) rlp" where
  "decode_query R params =
     bindE (open_id R params) (\<lambda>(msg_id, query_body).
     bindE (decode_b256 R query_body) (\<lambda>(hash, query_body).
     bindE (decode_u32_lenient R query_body) (\<lambda>(count, _).
       Inr (msg_id, \<lparr> bhq_hash = hash, bhq_count = count \<rparr>))))"

text \<open>A header with the bytes it was read from.\<close>

definition decode_raw_header :: "rlp_lib \<Rightarrow> activation_heights \<Rightarrow> bytes \<Rightarrow> ((header \<times> bytes) \<times> bytes) rlp" where
  "decode_raw_header R acts start =
     bindE (decode_with_hash R acts start) (\<lambda>(h, rest).
     bindE (usize_sub (length start) (length rest)) (\<lambda>consumed.
     bindE (slice_to consumed start) (\<lambda>raw. Inr ((h, raw), rest))))"

definition decode_headers_response :: "rlp_lib \<Rightarrow> activation_heights \<Rightarrow> bytes \<Rightarrow> block_headers_response rlp" where
  "decode_headers_response R acts params =
     bindE (open_id R params) (\<lambda>(msg_id, outer_body).
     bindE (open_item R outer_body) (\<lambda>(_, inner_body, _).
     bindE (read_all (decode_raw_header R acts) inner_body) (\<lambda>hs.
       Inr \<lparr> bhp_id = msg_id, bhp_headers = map fst hs, bhp_raw = map snd hs \<rparr>)))"

definition decode_identifier :: "rlp_lib \<Rightarrow> bytes \<Rightarrow> (block_identifier \<times> bytes) rlp" where
  "decode_identifier R body =
     bindE (open_item R body) (\<lambda>(_, bid_body, body).
     bindE (decode_b256 R bid_body) (\<lambda>(hash, bid_body).
     bindE (decode_u64_lenient R bid_body) (\<lambda>(number, _).
       Inr (\<lparr> bi_hash = hash, bi_number = number \<rparr>, body))))"

definition decode_skeleton_response :: "rlp_lib \<Rightarrow> bytes \<Rightarrow> skeleton_response rlp" where
  "decode_skeleton_response R params =
     bindE (open_id R params) (\<lambda>(msg_id, outer_body).
     bindE (open_item R outer_body) (\<lambda>(_, inner_body, _).
     bindE (read_all (decode_identifier R) inner_body) (\<lambda>bids.
       Inr \<lparr> skp_id = msg_id, skp_block_identifiers = bids \<rparr>)))"

definition decode_body_response :: "rlp_lib \<Rightarrow> activation_heights \<Rightarrow> bytes \<Rightarrow> body_response rlp" where
  "decode_body_response R acts params =
     bindE (open_id R params) (\<lambda>(msg_id, body_data).
     bindE (open_item R body_data) (\<lambda>(_, txs_body, body_data).
     bindE (read_all (decode_transaction R) txs_body) (\<lambda>transactions.
     bindE (open_item R body_data) (\<lambda>(_, uncles_body, _).
     bindE (read_all (decode_with_hash R acts) uncles_body) (\<lambda>uncles.
       Inr \<lparr> bop_id = msg_id, bop_transactions = transactions, bop_uncles = uncles \<rparr>)))))"

definition decode_new_block_hashes :: "rlp_lib \<Rightarrow> bytes \<Rightarrow> block_identifier list rlp" where
  "decode_new_block_hashes R params =
     bindE (open_item R params) (\<lambda>(_, list_body, _). read_all (decode_identifier R) list_body)"

text \<open>A transaction handed on whole, header included.\<close>

definition take_whole :: "rlp_lib \<Rightarrow> bytes \<Rightarrow> (bytes \<times> bytes) rlp" where
  "take_whole R before =
     bindE (rl_header R before) (\<lambda>(_, n, list_body).
     bindE (usize_sub (length before) (length list_body)) (\<lambda>header_len.
     let tot = header_len + n in
     bindE (slice_to tot before) (\<lambda>tx. Inr (tx, drop tot before))))"

definition decode_transactions :: "rlp_lib \<Rightarrow> bytes \<Rightarrow> bytes list rlp" where
  "decode_transactions R params =
     bindE (open_item R params) (\<lambda>(_, list_body, _). read_all (take_whole R) list_body)"

text \<open>An entry is refused unless its uncle list, as it arrived, is the one its header commits to.\<close>

definition decode_with_uncles :: "rlp_lib \<Rightarrow> activation_heights \<Rightarrow> bytes \<Rightarrow> (header_with_uncles \<times> bytes) rlp" where
  "decode_with_uncles R acts entries_body =
     bindE (open_checked R True ''malformed headers-with-uncles entry'' entries_body) (\<lambda>(_, entry_body, entries_body).
     bindE (decode_with_hash R acts entry_body) (\<lambda>(header, uncles_raw).
     bindE (rl_header R uncles_raw) (\<lambda>(is_list, n, entry_body).
     bindE (ensure (\<not> (\<not> is_list \<or> length entry_body < n)) (RlpOther ''malformed uncle list'')) (\<lambda>_.
     bindE (usize_sub (length uncles_raw) (length entry_body)) (\<lambda>header_len.
     bindE (slice_to (header_len + n) uncles_raw) (\<lambda>list_raw.
     let committed = rl_keccak R list_raw in
     bindE (ensure (\<not> committed \<noteq> h_ommers_hash header)
       (RlpOther ''uncle list does not match the header's ommers hash'')) (\<lambda>_.
     bindE (read_all (decode_with_hash R acts) (take n entry_body)) (\<lambda>uncles.
     bindE (ensure (\<not> of_nat (length uncles) \<noteq> h_uncle_count header)
       (RlpOther ''uncle count does not match the header'')) (\<lambda>_.
       Inr (\<lparr> hu_header = header, hu_uncles = uncles \<rparr>, entries_body))))))))))"

definition decode_with_uncles_response :: "rlp_lib \<Rightarrow> activation_heights \<Rightarrow> bytes \<Rightarrow> headers_with_uncles_response rlp" where
  "decode_with_uncles_response R acts params =
     bindE (open_item R params) (\<lambda>(_, list_body, _).
     bindE (decode_u64_lenient R list_body) (\<lambda>(msg_id, list_body).
     bindE (open_checked R False ''malformed headers-with-uncles list'' list_body) (\<lambda>(_, entries_body, _).
     bindE (read_all (decode_with_uncles R acts) entries_body) (\<lambda>entries.
       Inr \<lparr> hup_id = msg_id, hup_entries = entries \<rparr>))))"

definition decode_sub_message :: "rlp_lib \<Rightarrow> activation_heights \<Rightarrow> u8 \<Rightarrow> bytes \<Rightarrow> rsk_sub_message rlp" where
  "decode_sub_message R acts ty params =
    (if ty = 1 then
       bindE (open_item R params) (\<lambda>(_, list_body, _).
       bindE (decode_status_fields R list_body) (\<lambda>s. Inr (Status s)))
     else if ty = 9 then
       bindE (decode_query R params) (\<lambda>(i, q). Inr (BlockHeadersRequest \<lparr> bhr_id = i, bhr_query = q \<rparr>))
     else if ty = 10 then
       bindE (decode_headers_response R acts params) (\<lambda>r. Inr (BlockHeadersResponse r))
     else if ty = 8 then
       bindE (open_id R params) (\<lambda>(i, inner).
       bindE (decode_u64_lenient R inner) (\<lambda>(height, _). Inr (BlockHashRequest \<lparr> bqh_id = i, bqh_height = height \<rparr>)))
     else if ty = 13 then
       bindE (decode_skeleton_response R params) (\<lambda>r. Inr (SkeletonResponse r))
     else if ty = 16 then
       bindE (open_id R params) (\<lambda>(i, inner).
       bindE (decode_u64_lenient R inner) (\<lambda>(start, _). Inr (SkeletonRequest \<lparr> skq_id = i, skq_start_number = start \<rparr>)))
     else if ty = 18 then
       bindE (open_id R params) (\<lambda>(i, inner).
       bindE (decode_b256 R inner) (\<lambda>(hash, _). Inr (BlockHashResponse \<lparr> bph_id = i, bph_hash = hash \<rparr>)))
     else if ty = 14 then
       bindE (open_id R params) (\<lambda>(i, inner).
       bindE (decode_b256 R inner) (\<lambda>(hash, _). Inr (BodyRequest \<lparr> boq_id = i, boq_hash = hash \<rparr>)))
     else if ty = 15 then bindE (decode_body_response R acts params) (\<lambda>r. Inr (BodyResponse r))
     else if ty = 6 then bindE (decode_new_block_hashes R params) (\<lambda>ids. Inr (NewBlockHashes ids))
     else if ty = 7 then bindE (decode_transactions R params) (\<lambda>txs. Inr (Transactions txs))
     else if ty = 22 then bindE (decode_snap_status_request R params) (\<lambda>m. Inr (SnapStatusRequest m))
     else if ty = 23 then bindE (decode_snap_status_response R acts params) (\<lambda>m. Inr (SnapStatusResponse m))
     else if ty = 20 then bindE (decode_snap_chunk_request R params) (\<lambda>m. Inr (SnapChunkRequest m))
     else if ty = 21 then bindE (decode_snap_chunk_response R params) (\<lambda>m. Inr (SnapChunkResponse m))
     else if ty = 24 then bindE (decode_snap_blocks_request R params) (\<lambda>m. Inr (SnapBlocksRequest m))
     else if ty = 25 then bindE (decode_snap_blocks_response R acts params) (\<lambda>m. Inr (SnapBlocksResponse m))
     else if ty = 26 then bindE (decode_block_range R params) (\<lambda>(r, _). Inr (BlockRangeUpdate r))
     else if ty = 27 then
       bindE (decode_query R params) (\<lambda>(i, q). Inr (BlockHeadersWithUnclesRequest \<lparr> hur_id = i, hur_query = q \<rparr>))
     else if ty = 28 then
       bindE (decode_with_uncles_response R acts params) (\<lambda>r. Inr (BlockHeadersWithUnclesResponse r))
     else Inr (Unknown ty))"

definition decode_message :: "rlp_lib \<Rightarrow> activation_heights \<Rightarrow> bytes \<Rightarrow> (rsk_sub_message \<times> bytes) rlp" where
  "decode_message R acts buf =
     bindE (open_item R buf) (\<lambda>(_, b1, buf).
     bindE (open_item R b1) (\<lambda>(_, b2, _).
     bindE (decode_u8_lenient R b2) (\<lambda>(ty, b2).
     bindE (rl_header R b2) (\<lambda>(is_list, n, b2).
     bindE (ensure (\<not> is_list) (RlpOther ''Expected RLP string for body blob'')) (\<lambda>_.
     bindE (ensure (n \<le> length b2) RlpPanic) (\<lambda>_.
     bindE (decode_sub_message R acts ty (take n b2)) (\<lambda>m. Inr (m, buf))))))))"

end
