(* ===== verification/Transaction_Claims.thy ===== *)
theory Transaction_Claims
  imports Transactions
begin

text \<open>
  Transactions read back, what of them a signature covers, and which senders are recovered.
\<close>

definition tx_encodable :: "rlp_lib \<Rightarrow> transaction \<Rightarrow> bool" where
  "tx_encodable R t \<longleftrightarrow> length (transaction_fields R t) < 2 ^ 64"

lemma tx_encodable_fields:
  assumes "rlp_ok R" and "tx_encodable R t"
  shows "length (t_to t) < 2 ^ 64" and "length (t_input t) < 2 ^ 64"
proof -
  have "length (rl_string_bytes R (t_to t)) + length (rl_string_bytes R (t_input t)) < 2 ^ 64"
    using assms(2) by (simp add: tx_encodable_def transaction_fields_def signed_fields_def)
  with rlp_string_length [OF assms(1), of "t_to t"] rlp_string_length [OF assms(1), of "t_input t"]
  show "length (t_to t) < 2 ^ 64" "length (t_input t) < 2 ^ 64" by linarith+
qed

text \<open>The nine fields are read from the front of the list; what follows them is ignored.\<close>

lemma decode_transaction_fields:
  assumes ok: "rlp_ok R" and enc: "tx_encodable R t" and len: "length (transaction_fields R t @ junk) < 2 ^ 64"
  shows "decode_transaction R (wrap_list R (transaction_fields R t @ junk) @ rest) =
    Inr (t\<lparr> t_cached_rlp := Some (wrap_list R (transaction_fields R t @ junk)) \<rparr>, rest)"
proof -
  let ?p = "transaction_fields R t @ junk"
  have h: "rl_header R (wrap_list R ?p @ rest) = Inr (True, length ?p, ?p @ rest)"
    using rlp_laws(1) [OF ok len, of rest] by (simp add: wrap_list_def)
  have "usize_sub (length (wrap_list R ?p @ rest)) (length rest) = Inr (length (wrap_list R ?p))"
      "slice_to (length (wrap_list R ?p)) (wrap_list R ?p @ rest) = Inr (wrap_list R ?p)"
    by simp_all
  moreover have "take (length ?p) (?p @ rest) = ?p" "drop (length ?p) (?p @ rest) = rest" by simp_all
  ultimately show ?thesis
    unfolding decode_transaction_def h bindE_simps prod.case Let_def ensure_def
    using tx_encodable_fields [OF ok enc]
    by (cases t) (simp add: transaction_fields_def signed_fields_def codec ok)
qed

lemma take_item: "rlp_ok R \<Longrightarrow> item R it \<Longrightarrow> take_rlp_item R (it @ rest) = Some (it, rest)"
proof -
  assume ok: "rlp_ok R" and it: "item R it"
  obtain n temp where t: "rl_header R (it @ rest) = Inr (False, n, temp)" "n \<le> length temp" "drop n temp = rest"
    using it unfolding item_def by blast
  from rlp_header_bound [OF ok t(1)] obtain k where "temp = drop k (it @ rest)" "k \<le> length (it @ rest)" by blast
  then have "length temp \<le> length (it @ rest)" by simp
  moreover have "length rest = length temp - n" using t(3) by (metis length_drop)
  ultimately have "(length (it @ rest) - length temp) + n = length it" using t(2) by simp
  then show ?thesis by (simp add: take_rlp_item_def t(1))
qed

lemma take_items_concat:
  "rlp_ok R \<Longrightarrow> \<forall>it \<in> set its. item R it \<Longrightarrow> take_items R (length its) (concat its @ rest) = Some (concat its)"
  by (induction its) (simp_all add: take_item)

definition signed_items :: "rlp_lib \<Rightarrow> transaction \<Rightarrow> bytes list" where
  "signed_items R t = [rl_u64_bytes R (t_nonce t), rl_u256_bytes R (t_gas_price t), rl_u256_bytes R (t_gas_limit t),
     rl_string_bytes R (t_to t), rl_u256_bytes R (t_value t), rl_string_bytes R (t_input t)]"

lemma signed_items:
  assumes "rlp_ok R" and "tx_encodable R t"
  shows "concat (signed_items R t) = signed_fields R t" and "length (signed_items R t) = 6"
    and "\<forall>it \<in> set (signed_items R t). item R it"
  using tx_encodable_fields [OF assms] assms(1)
  by (simp_all add: signed_items_def signed_fields_def item_fixed item_string)

lemma is_eip155_cached [simp]: "is_eip155 (t\<lparr> t_cached_rlp := c \<rparr>) cid = is_eip155 t cid"
  by (simp add: is_eip155_def)

lemma signing_hash_wire:
  assumes ok: "rlp_ok R" and enc: "tx_encodable R t" and len: "length (transaction_fields R t @ junk) < 2 ^ 64"
  shows "signing_hash R (t\<lparr> t_cached_rlp := Some (wrap_list R (transaction_fields R t @ junk)) \<rparr>) cid =
    signing_hash R (t\<lparr> t_cached_rlp := None \<rparr>) cid"
proof -
  let ?p = "transaction_fields R t @ junk"
  have "rl_header R (wrap_list R ?p) = Inr (True, length ?p, ?p)"
    using rlp_laws(1) [OF ok len, of "[]"] by (simp add: wrap_list_def)
  moreover have "take_items R 6 ?p = Some (signed_fields R t)"
    using take_items_concat [OF ok signed_items(3) [OF ok enc]] signed_items(1,2) [OF ok enc]
    by (simp add: transaction_fields_def)
  ultimately show ?thesis
    by (simp add: signing_hash_def signing_hash_from_cached_def signing_hash_eip155_def signing_hash_legacy_def)
      (simp add: signed_fields_def)
qed

lemma recover_key_wire:
  assumes "signing_hash R t cid = signing_hash R t' cid" and "transaction_eq t t'"
  shows "recover_key R G t cid = recover_key R G t' cid"
proof -
  have "t_v t = t_v t'" "t_r t = t_r t'" "t_s t = t_s t'" using assms(2) by (simp_all add: transaction_eq_def)
  then show ?thesis by (simp add: recover_key_def assms(1) recovery_id_def is_eip155_def)
qed

section \<open>Received transactions\<close>

text \<open>How the six signed fields are spelled at the front of a list body.\<close>

definition read_signed :: "rlp_lib \<Rightarrow> bytes \<Rightarrow> ((u64 \<times> u256 \<times> u256 \<times> bytes \<times> u256 \<times> bytes) \<times> bytes) rlp" where
  "read_signed R body =
     bindE (decode_u64_lenient R body) (\<lambda>(nonce, body).
     bindE (decode_u256_lenient R body) (\<lambda>(gas_price, body).
     bindE (decode_u256_lenient R body) (\<lambda>(gas_limit, body).
     bindE (rl_bytes R body) (\<lambda>(to, body).
     bindE (decode_u256_lenient R body) (\<lambda>(val, body).
     bindE (rl_bytes R body) (\<lambda>(input, body).
       Inr ((nonce, gas_price, gas_limit, to, val, input), body)))))))"

definition signed_values :: "transaction \<Rightarrow> u64 \<times> u256 \<times> u256 \<times> bytes \<times> u256 \<times> bytes" where
  "signed_values t = (t_nonce t, t_gas_price t, t_gas_limit t, t_to t, t_value t, t_input t)"

text \<open>The bytes a signature covers: of a transaction built from fields their encoding, of a received
  one the bytes its six signed fields arrived in.\<close>

definition signed_bytes :: "rlp_lib \<Rightarrow> transaction \<Rightarrow> bytes \<Rightarrow> bool" where
  "signed_bytes R t six \<longleftrightarrow> (case t_cached_rlp t of
     None \<Rightarrow> six = signed_fields R t
   | Some cached \<Rightarrow> \<exists>tail. open_item R cached = Inr (True, six @ tail, []) \<and>
       read_signed R (six @ tail) = Inr (signed_values t, tail))"

text \<open>Reading one field takes exactly the item at the front.\<close>

definition fronts_item :: "rlp_lib \<Rightarrow> bytes \<Rightarrow> bytes \<Rightarrow> bytes \<Rightarrow> bool" where
  "fronts_item R body it rest \<longleftrightarrow> body = it @ rest \<and> take_rlp_item R body = Some (it, rest)"

lemma header_item:
  assumes "rlp_ok R" and "rl_header R body = Inr (l, n, r)"
  shows "\<exists>it. fronts_item R body it (drop n r)"
proof -
  obtain k where k: "r = drop k body" "k \<le> length body" "n \<le> length r"
    using rlp_header_bound [OF assms] by metis
  then have "length body - length r + n = k + n" "k + n \<le> length body" by auto
  then have "take_rlp_item R body = Some (take (k + n) body, drop (k + n) body)"
    by (simp add: take_rlp_item_def assms(2) Let_def)
  moreover have "drop n r = drop (k + n) body" by (simp add: k(1) add.commute)
  ultimately show ?thesis by (intro exI [of _ "take (k + n) body"]) (simp add: fronts_item_def)
qed

lemma payload_item:
  assumes "rlp_ok R" and "lenient_payload R body = Inr (p, rest)"
  shows "\<exists>it. fronts_item R body it rest"
  using assms(2) header_item [OF assms(1), of body]
  by (auto simp: lenient_payload_def result_simps)

lemma field_item:
  assumes "rlp_ok R"
  shows "decode_u64_lenient R body = Inr (v, rest) \<Longrightarrow> \<exists>it. fronts_item R body it rest"
    and "decode_u256_lenient R body = Inr (w, rest) \<Longrightarrow> \<exists>it. fronts_item R body it rest"
    and "rlp_exact R \<Longrightarrow> rl_bytes R body = Inr (p, rest) \<Longrightarrow> \<exists>it. fronts_item R body it rest"
proof -
  show "decode_u64_lenient R body = Inr (v, rest) \<Longrightarrow> \<exists>it. fronts_item R body it rest"
    "decode_u256_lenient R body = Inr (w, rest) \<Longrightarrow> \<exists>it. fronts_item R body it rest"
    using payload_item [OF assms, of body]
    by (auto simp: decode_u64_lenient_def decode_u256_lenient_def result_simps split: if_splits)
  assume "rlp_exact R" "rl_bytes R body = Inr (p, rest)"
  then obtain n r where "rl_header R body = Inr (False, n, r)" "rest = drop n r"
    unfolding rlp_exact_def by blast
  then show "\<exists>it. fronts_item R body it rest" using header_item [OF assms] by blast
qed

lemma read_signed_items:
  assumes ok: "rlp_ok R" and ex: "rlp_exact R" and r: "read_signed R body = Inr (vs, tail)"
  shows "\<exists>six. body = six @ tail \<and> take_items R 6 body = Some six"
proof -
  obtain a b c d e f b1 b2 b3 b4 b5 where
    "decode_u64_lenient R body = Inr (a, b1)" "decode_u256_lenient R b1 = Inr (b, b2)"
    "decode_u256_lenient R b2 = Inr (c, b3)" "rl_bytes R b3 = Inr (d, b4)"
    "decode_u256_lenient R b4 = Inr (e, b5)" "rl_bytes R b5 = Inr (f, tail)"
    using r by (auto simp: read_signed_def result_simps)
  then obtain i1 i2 i3 i4 i5 i6 where
    "fronts_item R body i1 b1" "fronts_item R b1 i2 b2" "fronts_item R b2 i3 b3"
    "fronts_item R b3 i4 b4" "fronts_item R b4 i5 b5" "fronts_item R b5 i6 tail"
    using field_item [OF ok] field_item(3) [OF ok ex] by metis
  then show ?thesis
    by (intro exI [of _ "i1 @ i2 @ i3 @ i4 @ i5 @ i6"]) (auto simp: fronts_item_def eval_nat_numeral)
qed

text \<open>Decoding opens a list and reads the nine fields at the front of its body.\<close>

definition read_nine :: "rlp_lib \<Rightarrow> bytes \<Rightarrow> bytes \<Rightarrow> transaction rlp" where
  "read_nine R cached body =
     bindE (read_signed R body) (\<lambda>((nonce, gas_price, gas_limit, to, val, input), body).
     bindE (decode_u64_lenient R body) (\<lambda>(v, body).
     bindE (decode_u256_lenient R body) (\<lambda>(r, body).
     bindE (decode_u256_lenient R body) (\<lambda>(s, body).
       Inr \<lparr> t_nonce = nonce, t_gas_price = gas_price, t_gas_limit = gas_limit, t_to = to, t_value = val,
             t_input = input, t_v = v, t_r = r, t_s = s, t_cached_rlp = Some cached \<rparr>))))"

lemma decode_opens:
  "decode_transaction R bs = Inr (t, rest) \<longleftrightarrow> (\<exists>n buf. rl_header R bs = Inr (True, n, buf) \<and> n \<le> length buf \<and>
     rest = drop n buf \<and> length rest \<le> length bs \<and>
     read_nine R (take (length bs - length rest) bs) (take n buf) = Inr t)"
  unfolding decode_transaction_def read_nine_def read_signed_def Let_def
  by (auto simp: result_simps indexing_Inr simp del: length_drop)

lemma read_nine_signed:
  "read_nine R cached body = Inr t \<Longrightarrow> t_cached_rlp t = Some cached \<and> (\<exists>tail. read_signed R body = Inr (signed_values t, tail))"
  by (auto simp: read_nine_def signed_values_def result_simps)

text \<open>A decoded transaction keeps one list item, whose body starts with its signed fields.\<close>

lemma decoded_cached:
  assumes ok: "rlp_ok R" and ex: "rlp_exact R" and dec: "decode_transaction R bs = Inr (t, rest)"
  shows "\<exists>cached n parse tail. t_cached_rlp t = Some cached \<and> cached @ rest = bs \<and>
    rl_header R cached = Inr (True, n, parse) \<and> n = length parse \<and>
    read_signed R parse = Inr (signed_values t, tail) \<and> decode_transaction R cached = Inr (t, [])"
proof -
  let ?c = "take (length bs - length rest) bs"
  obtain n buf where h: "rl_header R bs = Inr (True, n, buf)" and n: "n \<le> length buf"
    and r: "rest = drop n buf" and nine: "read_nine R ?c (take n buf) = Inr t"
    using dec unfolding decode_opens by blast
  obtain k where k: "buf = drop k bs" "k \<le> length bs" using rlp_header_bound [OF ok h] by metis
  have "length bs - (length buf - n) = length bs - length rest" by (simp add: r)
  then have hc: "rl_header R ?c = Inr (True, n, take n buf)"
    using ex h unfolding rlp_exact_def by metis
  have all: "?c @ rest = bs"
  proof -
    have "rest = drop (n + k) bs" by (simp add: r k)
    then have "rest = drop (length bs - length rest) bs" by (cases "n + k \<le> length bs") simp_all
    then show ?thesis by (metis append_take_drop_id)
  qed
  have "decode_transaction R ?c = Inr (t, [])"
    unfolding decode_opens
    using hc n nine by (intro exI [of _ n] exI [of _ "take n buf"]) simp
  moreover obtain tail where "read_signed R (take n buf) = Inr (signed_values t, tail)" "t_cached_rlp t = Some ?c"
    using read_nine_signed [OF nine] by blast
  ultimately show ?thesis using all hc n
    by (intro exI [of _ ?c] exI [of _ n] exI [of _ "take n buf"] exI [of _ tail]) simp
qed

text \<open>The hash to sign covers those bytes, and the chain of an EIP-155 signature.\<close>

lemma signing_hash_bytes:
  assumes "rlp_ok R" and "rlp_exact R"
    and "t_cached_rlp t = None \<or> (\<exists>bs rest. decode_transaction R bs = Inr (t, rest))"
  shows "\<exists>six. signed_bytes R t six \<and> (\<forall>cid. signing_hash R t cid =
    rlp_wrap_and_hash R (six @ (if is_eip155 t cid then chain_suffix R cid else [])))"
proof (cases "t_cached_rlp t")
  case None
  then show ?thesis
    by (simp add: signed_bytes_def signing_hash_def signing_hash_from_cached_def signing_hash_eip155_def
        signing_hash_legacy_def)
next
  case (Some c)
  then obtain bs rest where "decode_transaction R bs = Inr (t, rest)" using assms(3) by auto
  from decoded_cached [OF assms(1,2) this] Some obtain n parse tail where
    h: "rl_header R c = Inr (True, n, parse)" "n = length parse" and sig: "read_signed R parse = Inr (signed_values t, tail)"
    by auto
  obtain six where six: "parse = six @ tail" "take_items R 6 parse = Some six"
    using read_signed_items [OF assms(1,2) sig] by blast
  have "open_item R c = Inr (True, six @ tail, [])" using h six(1) by (simp add: open_item_def ensure_def)
  moreover have "signing_hash R t cid =
      rlp_wrap_and_hash R (six @ (if is_eip155 t cid then chain_suffix R cid else []))" for cid
    using h six(2) by (simp add: signing_hash_def signing_hash_from_cached_def Some)
  ultimately show ?thesis using sig six(1) by (intro exI [of _ six]) (auto simp: signed_bytes_def Some)
qed

text \<open>C33. Transactions read back. Decoding the encoding of any transaction returns its fields, the rest
  of the input, and as its hash that of the encoding; when the transaction was built from fields, or
  received in just that encoding, also its own hash, its hash to sign and its sender on every chain.
  A received transaction is passed on in the bytes it arrived in, and those read back as itself, hash
  and signature included, where encoding its fields again may write other bytes.\<close>

theorem transaction_round_trip:
  assumes "rlp_ok R" and "rlp_exact R" and "tx_encodable R t"
  shows "(\<exists>t'. decode_transaction R (encode_transaction R t @ rest) = Inr (t', rest) \<and> transaction_eq t' t \<and>
      tx_hash R t' = rl_keccak R (encode_transaction R t) \<and>
      (t_cached_rlp t = None \<or> t_cached_rlp t = Some (encode_transaction R t) \<longrightarrow>
        tx_hash R t' = tx_hash R t \<and> signing_hash R t' cid = signing_hash R t cid \<and>
        recover_sender R G t' cid = recover_sender R G t cid \<and>
        recover_compressed_pubkey R G t' cid = recover_compressed_pubkey R G t cid)) \<and>
    (\<forall>bs left. decode_transaction R bs = Inr (t, left) \<longrightarrow>
      rlp_for_trie R t @ left = bs \<and> decode_transaction R (rlp_for_trie R t) = Inr (t, []))"
proof (intro conjI allI impI)
  let ?t = "t\<lparr> t_cached_rlp := Some (encode_transaction R t) \<rparr>"
  have len: "length (transaction_fields R t @ []) < 2 ^ 64" using assms(3) by (simp add: tx_encodable_def)
  have eq: "transaction_eq ?t t" by (simp add: transaction_eq_def)
  have sig: "signing_hash R ?t cid = signing_hash R t cid"
    if "t_cached_rlp t = None \<or> t_cached_rlp t = Some (encode_transaction R t)"
    using that
  proof
    assume "t_cached_rlp t = None"
    then have "t\<lparr> t_cached_rlp := None \<rparr> = t" by (cases t) simp
    then show ?thesis using signing_hash_wire [OF assms(1,3) len, of cid] by (simp add: encode_transaction_def)
  next
    assume "t_cached_rlp t = Some (encode_transaction R t)"
    then have "?t = t" by (cases t) simp
    then show ?thesis by simp
  qed
  have dec: "decode_transaction R (encode_transaction R t @ rest) = Inr (?t, rest)"
    using decode_transaction_fields [OF assms(1,3) len] by (simp add: encode_transaction_def)
  have hash: "tx_hash R ?t = rl_keccak R (encode_transaction R t)" by (simp add: tx_hash_def rlp_for_trie_def)
  show "\<exists>t'. decode_transaction R (encode_transaction R t @ rest) = Inr (t', rest) \<and> transaction_eq t' t \<and>
      tx_hash R t' = rl_keccak R (encode_transaction R t) \<and>
      (t_cached_rlp t = None \<or> t_cached_rlp t = Some (encode_transaction R t) \<longrightarrow>
        tx_hash R t' = tx_hash R t \<and> signing_hash R t' cid = signing_hash R t cid \<and>
        recover_sender R G t' cid = recover_sender R G t cid \<and>
        recover_compressed_pubkey R G t' cid = recover_compressed_pubkey R G t cid)"
  proof (intro exI [of _ ?t] conjI impI dec eq hash)
    assume c: "t_cached_rlp t = None \<or> t_cached_rlp t = Some (encode_transaction R t)"
    show "tx_hash R ?t = tx_hash R t" using c by (auto simp: tx_hash_def rlp_for_trie_def)
    show "signing_hash R ?t cid = signing_hash R t cid" using c by (rule sig)
    show "recover_sender R G ?t cid = recover_sender R G t cid"
      "recover_compressed_pubkey R G ?t cid = recover_compressed_pubkey R G t cid"
      using recover_key_wire [OF sig [OF c] eq, of G]
      by (simp_all add: recover_sender_def recover_compressed_pubkey_def)
  qed
next
  fix bs left assume "decode_transaction R bs = Inr (t, left)"
  from decoded_cached [OF assms(1,2) this]
  show "rlp_for_trie R t @ left = bs" "decode_transaction R (rlp_for_trie R t) = Inr (t, [])"
    by (auto simp: rlp_for_trie_def)
qed

lemma std_tx_encodable:
  assumes "length (t_to t) \<le> 256" and "length (t_input t) \<le> 256"
  shows "length (transaction_fields rlp_std t) \<le> 9 * 265" and "tx_encodable rlp_std t"
proof -
  have "length (strip_zeros (to_be 8 (x :: u64))) \<le> 256" "length (strip_zeros (to_be 32 (y :: u256))) \<le> 256" for x y
    using length_strip_zeros [of "to_be 8 x"] length_strip_zeros [of "to_be 32 y"] by simp_all
  then have b: "length (rl_u64_bytes rlp_std x) \<le> 265" "length (rl_u256_bytes rlp_std y) \<le> 265" for x y
    by (simp_all add: rl_u64_bytes_def rl_u256_bytes_def std_string_bound)
  show "length (transaction_fields rlp_std t) \<le> 9 * 265"
    using b(1) [of "t_nonce t"] b(1) [of "t_v t"] b(2) [of "t_gas_price t"] b(2) [of "t_gas_limit t"]
      b(2) [of "t_value t"] b(2) [of "t_r t"] b(2) [of "t_s t"] std_string_bound [OF assms(1)] std_string_bound [OF assms(2)]
    by (simp add: transaction_fields_def signed_fields_def)
  then show "tx_encodable rlp_std t" by (simp add: tx_encodable_def)
qed

text \<open>Whatever spelling a transaction arrives in is kept: after any successful decode the bytes the
  transactions root and the transaction hash are computed from are exactly the bytes consumed, even
  where encoding the fields again would write others.\<close>

theorem transaction_bytes_kept:
  assumes "rlp_ok R" and "decode_transaction R bs = Inr (t, rest)"
  shows "rlp_for_trie R t @ rest = bs \<and> tx_hash R t = rl_keccak R (take (length bs - length rest) bs)"
proof -
  obtain l n buf where h: "rl_header R bs = Inr (l, n, buf)" and n: "n \<le> length buf"
    and r: "rest = drop n buf" and c: "t_cached_rlp t = Some (take (length bs - length rest) bs)"
    using assms(2) by (auto simp: decode_transaction_def result_simps indexing_Inr Let_def split: prod.splits)
  obtain k where "buf = drop k bs" using rlp_header_bound [OF assms(1) h] by blast
  then have "rest = drop (n + k) bs" by (simp add: r)
  then have "rest = drop (length bs - length rest) bs" by (cases "n + k \<le> length bs") simp_all
  then have "take (length bs - length rest) bs @ rest = bs" by (metis append_take_drop_id)
  then show ?thesis by (simp add: tx_hash_def rlp_for_trie_def c)
qed

text \<open>A REMASC transaction as rskj writes it, zeros as literal zero bytes.\<close>

definition remasc_wire :: bytes where
  "remasc_wire = wrap_list rlp_std ([0x83, 0x8d, 0x5a, 0xd7, 0x00, 0x00, 0x94] @ replicate 19 0 @ [8, 0x00, 0x80, 0x00, 0x00, 0x00])"

lemma transaction_bytes_kept_witness:
  "\<exists>t. decode_transaction rlp_std remasc_wire = Inr (t, []) \<and> rlp_for_trie rlp_std t = remasc_wire"
proof -
  have "case decode_transaction rlp_std remasc_wire of Inr (t, rest) \<Rightarrow> rest = [] | Inl e \<Rightarrow> False"
    by code_simp
  then obtain t where t: "decode_transaction rlp_std remasc_wire = Inr (t, [])" by (auto split: sum.splits)
  with transaction_bytes_kept [OF rlp_std_ok t] show ?thesis by auto
qed

text \<open>A received transaction whose zeros are literal zero bytes, signed for chain 30: it reads back as
  itself from its own bytes, while the encoding of its fields is another.\<close>

definition signed_body :: bytes where
  "signed_body = [0x00, 0x00, 0x00, 0x94] @ replicate 19 0 @ [8, 0x00, 0x80, 0x5f, 0x01, 0x01]"

definition signed_wire :: bytes where
  "signed_wire = wrap_list rlp_std signed_body"

lemma signed_wire_open: "open_item rlp_std signed_wire = Inr (True, signed_body, [])"
  unfolding signed_wire_def by (rule open_list_end [OF rlp_std_ok]) (simp add: signed_body_def)

lemma signed_wire_decodes:
  obtains t where "decode_transaction rlp_std signed_wire = Inr (t, [])" "t_v t = 95"
    "length (t_to t) \<le> 256" "length (t_input t) \<le> 256" "hd (signed_fields rlp_std t) = 0x80"
    "signed_fields rlp_std t \<noteq> []"
proof -
  have "case decode_transaction rlp_std signed_wire of
      Inr (t, rest) \<Rightarrow> rest = [] \<and> t_v t = 95 \<and> t_nonce t = 0 \<and> length (t_to t) \<le> 256 \<and> length (t_input t) \<le> 256
    | Inl e \<Rightarrow> False"
    by code_simp
  then obtain t where t: "decode_transaction rlp_std signed_wire = Inr (t, [])" "t_v t = 95" "t_nonce t = 0"
      "length (t_to t) \<le> 256" "length (t_input t) \<le> 256"
    by (auto split: sum.splits)
  have "rl_u64_bytes rlp_std 0 = [0x80]" by code_simp
  then show thesis using t by (intro that [of t]) (simp_all add: signed_fields_def)
qed

lemma transaction_round_trip_witness:
  "(\<exists>t'. decode_transaction rlp_std (encode_transaction rlp_std transaction_default) = Inr (t', []) \<and>
     tx_hash rlp_std t' = tx_hash rlp_std transaction_default) \<and>
   (\<exists>t. decode_transaction rlp_std signed_wire = Inr (t, []) \<and>
     decode_transaction rlp_std (rlp_for_trie rlp_std t) = Inr (t, []) \<and> encode_transaction rlp_std t \<noteq> signed_wire)"
proof (rule conjI)
  show "\<exists>t'. decode_transaction rlp_std (encode_transaction rlp_std transaction_default) = Inr (t', []) \<and>
     tx_hash rlp_std t' = tx_hash rlp_std transaction_default"
  proof -
    have "length (t_to transaction_default) \<le> 256" "length (t_input transaction_default) \<le> 256"
      and c: "t_cached_rlp transaction_default = None" by (simp_all add: transaction_default_def)
    then show ?thesis
      using transaction_round_trip [OF rlp_std_ok rlp_std_exact std_tx_encodable(2), where rest = "[]"] c by fastforce
  qed
  obtain t where t: "decode_transaction rlp_std signed_wire = Inr (t, [])"
      "length (t_to t) \<le> 256" "length (t_input t) \<le> 256" "hd (signed_fields rlp_std t) = 0x80"
      "signed_fields rlp_std t \<noteq> []"
    by (rule signed_wire_decodes)
  note enc = std_tx_encodable(2) [OF t(2,3)]
  have "encode_transaction rlp_std t \<noteq> signed_wire"
  proof
    assume "encode_transaction rlp_std t = signed_wire"
    then have "transaction_fields rlp_std t = signed_body"
      using open_list_end [OF rlp_std_ok, of "transaction_fields rlp_std t"] enc signed_wire_open
      by (simp add: encode_transaction_def tx_encodable_def)
    then have "hd (signed_fields rlp_std t) = hd signed_body"
      using t(5) by (metis hd_append transaction_fields_def)
    then show False by (simp add: t(4) signed_body_def)
  qed
  then show "\<exists>t. decode_transaction rlp_std signed_wire = Inr (t, []) \<and>
     decode_transaction rlp_std (rlp_for_trie rlp_std t) = Inr (t, []) \<and> encode_transaction rlp_std t \<noteq> signed_wire"
    using transaction_round_trip [OF rlp_std_ok rlp_std_exact enc] t(1) by blast
qed

section \<open>Senders\<close>

text \<open>The recovery ids, for chain ids below \<open>2 ^ 61\<close>, where the arithmetic does not wrap.\<close>

lemma chain_v:
  fixes cid :: u64
  assumes "unat cid < 2 ^ 61"
  shows "unat (cid * 2 + 35) = 2 * unat cid + 35" and "unat (cid * 2 + 36) = 2 * unat cid + 36"
    and "cid * 2 + 35 \<noteq> 27" and "cid * 2 + 35 \<noteq> 28" and "cid * 2 + 36 \<noteq> 27" and "cid * 2 + 36 \<noteq> 28"
    and "cid * 2 + 35 \<le> cid * 2 + 36" and "cid * 2 + 35 \<le> 36 + cid * 2"
proof -
  show u: "unat (cid * 2 + 35) = 2 * unat cid + 35" "unat (cid * 2 + 36) = 2 * unat cid + 36"
    using assms by (simp_all add: unat_add_exact unat_mult_exact)
  have n: "unat (27 :: u64) = 27" "unat (28 :: u64) = 28" by simp_all
  show "cid * 2 + 35 \<noteq> 27"
  proof
    assume "cid * 2 + 35 = 27"
    then have "unat (cid * 2 + 35) = unat (27 :: u64)" by (rule arg_cong)
    then have "2 * unat cid + 35 = unat (27 :: u64)" by (simp only: u(1))
    then show False unfolding n by linarith
  qed
  show "cid * 2 + 35 \<noteq> 28"
  proof
    assume "cid * 2 + 35 = 28"
    then have "unat (cid * 2 + 35) = unat (28 :: u64)" by (rule arg_cong)
    then have "2 * unat cid + 35 = unat (28 :: u64)" by (simp only: u(1))
    then show False unfolding n by linarith
  qed
  show "cid * 2 + 36 \<noteq> 27"
  proof
    assume "cid * 2 + 36 = 27"
    then have "unat (cid * 2 + 36) = unat (27 :: u64)" by (rule arg_cong)
    then have "2 * unat cid + 36 = unat (27 :: u64)" by (simp only: u(2))
    then show False unfolding n by linarith
  qed
  show "cid * 2 + 36 \<noteq> 28"
  proof
    assume "cid * 2 + 36 = 28"
    then have "unat (cid * 2 + 36) = unat (28 :: u64)" by (rule arg_cong)
    then have "2 * unat cid + 36 = unat (28 :: u64)" by (simp only: u(2))
    then show False unfolding n by linarith
  qed
  show "cid * 2 + 35 \<le> cid * 2 + 36" using u by (simp only: word_le_nat_alt)
  then show "cid * 2 + 35 \<le> 36 + cid * 2" by (simp only: add.commute)
qed

lemma small_signed: "0 \<le> sint x \<and> sint x \<le> 1 \<longleftrightarrow> x = 0 \<or> x = 1" for x :: u64
proof
  assume "0 \<le> sint x \<and> sint x \<le> 1"
  then have "sint x = 0 \<or> sint x = 1" by auto
  then have "of_int (sint x) = (of_int 0 :: u64) \<or> of_int (sint x) = (of_int 1 :: u64)" by (elim disjE) simp_all
  then show "x = 0 \<or> x = 1" by simp
next
  assume "x = 0 \<or> x = 1"
  then show "0 \<le> sint x \<and> sint x \<le> 1" by (elim disjE) simp_all
qed

lemma recovery_id_Inr:
  assumes small: "unat cid < 2 ^ 61"
  shows "recovery_id t cid = Inr b \<longleftrightarrow>
    t_v t = 27 \<and> b = 0 \<or> t_v t = 28 \<and> b = 1 \<or> t_v t = cid * 2 + 35 \<and> b = 0 \<or> t_v t = cid * 2 + 36 \<and> b = 1"
proof -
  define a where "a = cid * 2 + 35"
  have b: "cid * 2 + 36 = a + 1" by (simp add: a_def)
  note n = chain_v(3-7) [OF small, folded a_def, unfolded b]
  have rid: "t_v t - cid * 2 - 35 = t_v t - a" by (simp add: a_def diff_diff_add)
  have v: "t_v t - a = 0 \<longleftrightarrow> t_v t = a" "t_v t - a = 1 \<longleftrightarrow> t_v t = a + 1"
    by (simp_all add: diff_eq_eq add.commute)
  show ?thesis
  proof (cases "t_v t = 27 \<or> t_v t = 28")
    case True
    then have "recovery_id t cid = Inr (ucast (t_v t - 27))" by (auto simp: recovery_id_def is_eip155_def)
    with True n show ?thesis unfolding b a_def [symmetric] by (elim disjE) (auto simp: eq_commute [of 27] eq_commute [of 28])
  next
    case False
    then have "recovery_id t cid = (if a \<le> t_v t then
        if t_v t = a \<or> t_v t = a + 1 then Inr (ucast (t_v t - a)) else Inl InvalidEip155V else Inl InvalidLegacyV)"
      unfolding recovery_id_def is_eip155_def Let_def rid small_signed v a_def [symmetric] by simp
    moreover consider "t_v t = a" | "t_v t = a + 1" | "t_v t \<noteq> a" "t_v t \<noteq> a + 1" by blast
    ultimately show ?thesis
      using False n(5) unfolding b a_def [symmetric] by cases auto
  qed
qed

text \<open>A sender is recovered from one of the four values of \<open>v\<close>, over what that value says was signed.\<close>

lemma recover_sender_Inr:
  assumes "unat cid < 2 ^ 61"
    and hash: "signing_hash R t cid = rlp_wrap_and_hash R (six @ (if is_eip155 t cid then chain_suffix R cid else []))"
  shows "recover_sender R G t cid = Inr a \<longleftrightarrow>
     (\<exists>i sig key. (i = 0 \<or> i = 1) \<and> (t_v t = 27 + i \<or> t_v t = cid * 2 + 35 + i) \<and>
        sg_from_slice G (to_be 32 (t_r t) @ to_be 32 (t_s t)) = Some sig \<and> sg_recid G (ucast i) \<and>
        sg_recover G (rlp_wrap_and_hash R (six @
          (if t_v t = 27 + i then [] else chain_suffix R cid))) sig (ucast i) = Some key \<and>
        a = ucast (rl_keccak R (drop 1 (sg_point G False key))))" (is "?l \<longleftrightarrow> ?r")
proof -
  show ?thesis
  proof
    assume ?l
    then obtain b sig key where k: "recovery_id t cid = Inr b" "sg_recid G b"
      "sg_from_slice G (to_be 32 (t_r t) @ to_be 32 (t_s t)) = Some sig"
      "sg_recover G (signing_hash R t cid) sig b = Some key" "a = ucast (rl_keccak R (drop 1 (sg_point G False key)))"
      by (auto simp: recover_sender_def recover_key_def result_simps of_option_def split: option.splits)
    define i :: u64 where "i = ucast b"
    have "(i = 0 \<or> i = 1) \<and> b = ucast i \<and> (t_v t = 27 + i \<or> t_v t = cid * 2 + 35 + i) \<and> (is_eip155 t cid \<longleftrightarrow> t_v t \<noteq> 27 + i)"
      using k(1) chain_v [OF assms(1)] by (auto simp: recovery_id_Inr [OF assms(1)] i_def is_eip155_def)
    with k hash show ?r by (auto split: if_splits)
  next
    assume ?r
    then obtain i sig key where k: "i = 0 \<or> i = 1" "t_v t = 27 + i \<or> t_v t = cid * 2 + 35 + i"
      "sg_from_slice G (to_be 32 (t_r t) @ to_be 32 (t_s t)) = Some sig" "sg_recid G (ucast i)"
      "sg_recover G (rlp_wrap_and_hash R (six @
          (if t_v t = 27 + i then [] else chain_suffix R cid))) sig (ucast i) = Some key"
      "a = ucast (rl_keccak R (drop 1 (sg_point G False key)))" by blast
    have "recovery_id t cid = Inr (ucast i)" "is_eip155 t cid \<longleftrightarrow> t_v t \<noteq> 27 + i"
      using k(1,2) chain_v [OF assms(1)] by (auto simp: recovery_id_Inr [OF assms(1)] is_eip155_def)
    with k hash show ?l by (auto simp: recover_sender_def recover_key_def of_option_def ensure_def split: if_splits)
  qed
qed

lemma sender_chain:
  assumes "unat cid < 2 ^ 61" and "unat cid' < 2 ^ 61"
    and l: "recover_sender R G t cid = Inr a" "recover_sender R G t cid' = Inr a'" "t_v t \<noteq> 27 \<and> t_v t \<noteq> 28"
  shows "cid = cid'"
proof -
  obtain b b' where "recovery_id t cid = Inr b" "recovery_id t cid' = Inr b'"
    using l(1,2) by (auto simp: recover_sender_def recover_key_def result_simps Let_def)
  with l have "t_v t = cid * 2 + 35 \<or> t_v t = cid * 2 + 36" "t_v t = cid' * 2 + 35 \<or> t_v t = cid' * 2 + 36"
    by (auto simp: recovery_id_Inr [OF assms(1)] recovery_id_Inr [OF assms(2)])
  then have "unat (t_v t) = 2 * unat cid + 35 \<or> unat (t_v t) = 2 * unat cid + 36"
    "unat (t_v t) = 2 * unat cid' + 35 \<or> unat (t_v t) = 2 * unat cid' + 36"
    using chain_v(1,2) assms(1,2) by metis+
  then show ?thesis by (simp add: word_unat_eq_iff) presburger
qed

text \<open>C34. On a chain with an id below \<open>2 ^ 61\<close> a sender is recovered exactly from a legacy signature
  (\<open>v\<close> 27 or 28) over the six signed fields, or from an EIP-155 signature (\<open>v\<close> twice the chain id plus
  35 or 36) over the six fields and the chain id, when the signature and the recovery id parse and the
  key is recovered; so an EIP-155 signature for one chain names no sender on another. The bytes signed
  are the encoding of the fields for a transaction built here, and for a received one the bytes its
  six signed fields arrived in, however they were spelled.\<close>

theorem sender_recovered:
  assumes "rlp_ok R" and "rlp_exact R" and "unat cid < 2 ^ 61" and "unat cid' < 2 ^ 61"
    and "t_cached_rlp t = None \<or> (\<exists>bs rest. decode_transaction R bs = Inr (t, rest))"
  shows "(\<exists>six. signed_bytes R t six \<and>
      (recover_sender R G t cid = Inr a \<longleftrightarrow>
       (\<exists>i sig key. (i = 0 \<or> i = 1) \<and> (t_v t = 27 + i \<or> t_v t = cid * 2 + 35 + i) \<and>
          sg_from_slice G (to_be 32 (t_r t) @ to_be 32 (t_s t)) = Some sig \<and> sg_recid G (ucast i) \<and>
          sg_recover G (rlp_wrap_and_hash R (six @
            (if t_v t = 27 + i then [] else chain_suffix R cid))) sig (ucast i) = Some key \<and>
          a = ucast (rl_keccak R (drop 1 (sg_point G False key)))))) \<and>
    (recover_sender R G t cid = Inr a \<and> recover_sender R G t cid' = Inr a' \<and> t_v t \<noteq> 27 \<and> t_v t \<noteq> 28 \<longrightarrow> cid = cid')"
proof -
  obtain six where six: "signed_bytes R t six"
      "signing_hash R t cid = rlp_wrap_and_hash R (six @ (if is_eip155 t cid then chain_suffix R cid else []))"
    using signing_hash_bytes [OF assms(1,2,5)] by blast
  show ?thesis
    using six(1) recover_sender_Inr [OF assms(3) six(2), of G a] sender_chain [OF assms(3,4), of R G t a a'] by blast
qed

definition demo_sig :: "(bytes, bytes) sig_lib" where
  "demo_sig = \<lparr> sg_from_slice = Some, sg_recid = (\<lambda>_. True), sg_recover = (\<lambda>h sig i. Some (i # sig)),
     sg_point = (\<lambda>_ k. k), sg_sha256 = id, sg_ripemd = id \<rparr>"

lemma sender_recovered_witness:
  "\<exists>t six tail a. decode_transaction rlp_std signed_wire = Inr (t, []) \<and>
     open_item rlp_std signed_wire = Inr (True, six @ tail, []) \<and> signed_fields rlp_std t \<noteq> six \<and>
     recover_sender rlp_std demo_sig t 30 = Inr a \<and> (\<forall>a. recover_sender rlp_std demo_sig t 31 \<noteq> Inr a)"
proof -
  obtain t where t: "decode_transaction rlp_std signed_wire = Inr (t, [])" "t_v t = 95"
      "hd (signed_fields rlp_std t) = 0x80" "signed_fields rlp_std t \<noteq> []"
    by (rule signed_wire_decodes)
  have c: "t_cached_rlp t = Some signed_wire"
    using decoded_cached [OF rlp_std_ok rlp_std_exact t(1)] by auto
  obtain a where a: "recover_sender rlp_std demo_sig t 30 = Inr a"
    using t(2) by (simp add: recover_sender_def recover_key_def recovery_id_def is_eip155_def demo_sig_def
        of_option_def ensure_def)
  have cid: "unat (30 :: u64) < 2 ^ 61" "unat (31 :: u64) < 2 ^ 61" by simp_all
  have src: "t_cached_rlp t = None \<or> (\<exists>bs rest. decode_transaction rlp_std bs = Inr (t, rest))" using t(1) by blast
  note S = sender_recovered [OF rlp_std_ok rlp_std_exact cid src, of demo_sig]
  obtain six tail where six: "open_item rlp_std signed_wire = Inr (True, six @ tail, [])"
    using S [of a a] c by (auto simp: signed_bytes_def)
  have "signed_fields rlp_std t \<noteq> six"
  proof
    assume "signed_fields rlp_std t = six"
    moreover have "six @ tail = signed_body" using six signed_wire_open by simp
    ultimately have "hd (signed_fields rlp_std t) = hd signed_body" using t(4) by (metis hd_append)
    then show False by (simp add: t(3) signed_body_def)
  qed
  moreover have "recover_sender rlp_std demo_sig t 31 \<noteq> Inr b" for b
    using S [of a b] a t(2) by auto
  ultimately show ?thesis using t(1) six a by blast
qed

text \<open>A third party can give a signed transaction another hash: the decoder ignores what follows the
  nine fields of the list, so a transaction with bytes appended inside its list is accepted, equal to
  the original in every field and with the same sender, and its hash is taken over other bytes.\<close>

theorem transaction_malleable:
  assumes "rlp_ok R" and "tx_encodable R t" and "t_cached_rlp t = None"
    and "junk \<noteq> []" and "length (transaction_fields R t @ junk) < 2 ^ 64"
  shows "\<exists>t'. decode_transaction R (wrap_list R (transaction_fields R t @ junk)) = Inr (t', []) \<and>
    transaction_eq t' t \<and> recover_sender R G t' cid = recover_sender R G t cid \<and>
    tx_hash R t' = rl_keccak R (wrap_list R (transaction_fields R t @ junk)) \<and>
    tx_hash R t = rl_keccak R (encode_transaction R t) \<and>
    wrap_list R (transaction_fields R t @ junk) \<noteq> encode_transaction R t"
proof -
  let ?w = "wrap_list R (transaction_fields R t @ junk)"
  let ?t = "t\<lparr> t_cached_rlp := Some ?w \<rparr>"
  have t: "t\<lparr> t_cached_rlp := None \<rparr> = t" using assms(3) by (cases t) simp
  have eq: "transaction_eq ?t t" by (simp add: transaction_eq_def)
  have sig: "signing_hash R ?t cid = signing_hash R t cid"
    using signing_hash_wire [OF assms(1,2,5)] by (simp add: t)
  have dec: "decode_transaction R ?w = Inr (?t, [])"
    using decode_transaction_fields [OF assms(1,2,5), of "[]"] by simp
  have "?w \<noteq> encode_transaction R t"
  proof
    assume "?w = encode_transaction R t"
    then have "Inr (True, transaction_fields R t @ junk, []) = (Inr (True, transaction_fields R t, []) :: (bool \<times> bytes \<times> bytes) rlp)"
      using open_list_end [OF assms(1,5)] open_list_end [OF assms(1), of "transaction_fields R t"] assms(2)
      by (simp only: encode_transaction_def tx_encodable_def)
    with assms(4) show False by simp
  qed
  with dec eq recover_key_wire [OF sig eq, of G] show ?thesis
    by (intro exI [of _ ?t]) (simp add: tx_hash_def rlp_for_trie_def assms(3) recover_sender_def)
qed

lemma transaction_malleable_witness:
  "\<exists>t'. decode_transaction rlp_std (wrap_list rlp_std (transaction_fields rlp_std transaction_default @ [0])) = Inr (t', []) \<and>
     transaction_eq t' transaction_default \<and> rlp_for_trie rlp_std t' \<noteq> encode_transaction rlp_std transaction_default"
proof -
  have e: "tx_encodable rlp_std transaction_default" by (rule std_tx_encodable(2)) (simp_all add: transaction_default_def)
  have len: "length (transaction_fields rlp_std transaction_default @ [0]) < 2 ^ 64"
    using std_tx_encodable(1) [of transaction_default] by (simp add: transaction_default_def)
  obtain t' where t': "decode_transaction rlp_std (wrap_list rlp_std (transaction_fields rlp_std transaction_default @ [0])) = Inr (t', [])"
    "transaction_eq t' transaction_default"
    "wrap_list rlp_std (transaction_fields rlp_std transaction_default @ [0]) \<noteq> encode_transaction rlp_std transaction_default"
    using transaction_malleable [OF rlp_std_ok e _ _ len, of demo_sig 0] by (auto simp: transaction_default_def)
  moreover have "rlp_for_trie rlp_std t' = wrap_list rlp_std (transaction_fields rlp_std transaction_default @ [0])"
    using decode_transaction_fields [OF rlp_std_ok e len, of "[]"] t'(1) by (auto simp: rlp_for_trie_def)
  ultimately show ?thesis by auto
qed

end
