(* ===== verification/Wire_Codecs.thy ===== *)
theory Wire_Codecs
  imports Rsk_Protocol Transaction_Claims
begin

text \<open>
  The codecs of the wire: for each value that travels in a list, the encoder and the decoder meet the
  contract \<open>wire_codec\<close>, so lists of them read back. One bound, on the length of the encoding of the
  whole, serves for all parts of it.
\<close>

section \<open>Lengths\<close>

lemma length_wrap: "length p \<le> length (wrap_list R p)"
  by (simp add: wrap_list_def)

lemma length_member: "v \<in> set vs \<Longrightarrow> length (enc v) \<le> length (concat (map enc vs))"
  by (induction vs) auto

text \<open>An encoding that fits is the encoding of parts that fit.\<close>

named_theorems fit \<open>lengths of parts\<close>

definition fits :: "bytes \<Rightarrow> bool" where
  "fits bs \<longleftrightarrow> length bs < 2 ^ 64"

lemma fits_append [fit]: "fits (a @ b) \<Longrightarrow> fits a" "fits (a @ b) \<Longrightarrow> fits b"
  by (simp_all add: fits_def)

lemma fits_wrap [fit]: "fits (wrap_list R p) \<Longrightarrow> fits p"
  using length_wrap [of p R] by (simp add: fits_def)

lemma fits_string [fit]: "rlp_ok R \<Longrightarrow> fits (rl_string_bytes R p) \<Longrightarrow> fits p"
  using rlp_string_length [of R p] by (simp add: fits_def)

lemma fits_member: "fits (concat (map enc vs)) \<Longrightarrow> v \<in> set vs \<Longrightarrow> fits (enc v)"
  using length_member [of v vs enc] by (simp add: fits_def)

section \<open>Opening what was wrapped\<close>

lemma open_fits [codec]:
  assumes "rlp_ok R" and "fits p"
  shows "open_item R (wrap_list R p @ rest) = Inr (True, p, rest)"
    and "open_item R (wrap_list R p) = Inr (True, p, [])"
    and "open_checked R m err (wrap_list R p @ rest) = Inr (True, p, rest)"
    and "open_checked R m err (wrap_list R p) = Inr (True, p, [])"
    and "open_checked R False err (rl_string_bytes R p @ rest) = Inr (False, p, rest)"
    and "open_min R (wrap_list R p) = Inr p"
    and "rl_header R (wrap_list R p @ rest) = Inr (True, length p, p @ rest)"
    and "rl_header R (wrap_list R p) = Inr (True, length p, p)"
    and "rl_bytes R (rl_string_bytes R p @ rest) = Inr (p, rest)"
    and "rl_bytes R (rl_string_bytes R p) = Inr (p, [])"
proof -
  have h: "rl_header R (wrap_list R p @ rest) = Inr (True, length p, p @ rest)" for rest
    using assms rlp_laws(1) [of R p rest] by (simp add: wrap_list_def fits_def)
  from h [of "[]"] show h0: "rl_header R (wrap_list R p) = Inr (True, length p, p)" by simp
  show "rl_header R (wrap_list R p @ rest) = Inr (True, length p, p @ rest)" by (rule h)
  show "open_item R (wrap_list R p @ rest) = Inr (True, p, rest)" "open_item R (wrap_list R p) = Inr (True, p, [])"
    using assms by (simp_all add: fits_def codec)
  show "open_checked R m err (wrap_list R p @ rest) = Inr (True, p, rest)"
    "open_checked R m err (wrap_list R p) = Inr (True, p, [])" "open_min R (wrap_list R p) = Inr p"
    by (simp_all add: open_checked_def open_min_def h h0)
  show "open_checked R False err (rl_string_bytes R p @ rest) = Inr (False, p, rest)"
    using assms rlp_laws(2) [of R p rest] by (simp add: open_checked_def fits_def)
  have b: "rl_bytes R (rl_string_bytes R p @ rest) = Inr (p, rest)" for rest
    using assms rlp_laws(3) [of R p rest] by (simp add: fits_def)
  from b show "rl_bytes R (rl_string_bytes R p @ rest) = Inr (p, rest)" by this
  from b [of "[]"] show "rl_bytes R (rl_string_bytes R p) = Inr (p, [])" by simp
qed

section \<open>Integers, hashes and strings\<close>

lemma strip_zeros_Nil: "strip_zeros bs = [] \<longleftrightarrow> be_nat bs = 0"
proof (induction bs)
  case (Cons b bs)
  then show ?case by (auto simp: strip_zeros_def be_nat_Cons unat_eq_0)
qed (simp add: strip_zeros_def)

lemma difficulty_bytes_java: "difficulty_bytes d = java_signed_bytes d"
proof -
  have z: "strip_zeros (to_be 32 d) = [] \<longleftrightarrow> d = 0"
    by (simp add: strip_zeros_Nil be_nat_to_be32 unat_eq_0)
  have b: "x \<ge> 0x80 \<longleftrightarrow> Bit_Operations.and x 0x80 \<noteq> 0" for x :: u8
  proof -
    have "bit x 7 \<longleftrightarrow> odd (unat x div 2 ^ 7)"
    proof -
      have "bit x 7 \<longleftrightarrow> bit (unat x) 7" by (auto simp: bit_unsigned_iff dest: bit_imp_le_length)
      then show ?thesis by (simp add: bit_iff_odd)
    qed
    also have "\<dots> \<longleftrightarrow> 128 \<le> unat x"
    proof -
      have "unat x < 256" using unat_less_exp [of x] by simp
      then have "unat x div 128 = 0 \<or> unat x div 128 = 1" by linarith
      then show ?thesis by (auto simp: div_eq_0_iff)
    qed
    also have "\<dots> \<longleftrightarrow> x \<ge> 0x80" by (simp add: word_le_nat_alt)
    finally have ge: "bit x 7 \<longleftrightarrow> x \<ge> 0x80" .
    have e: "(0x80 :: u8) = 2 ^ 7" by simp
    have "Bit_Operations.and x 0x80 \<noteq> 0 \<longleftrightarrow> bit x 7"
      unfolding e by (simp only: and_exp_eq_0_iff_not_bit not_not)
    with ge show ?thesis by blast
  qed
  show ?thesis by (simp add: difficulty_bytes_def java_signed_bytes_def Let_def z b)
qed

interpretation wire_difficulty: wire_codec "encode_difficulty R" "decode_u256_lenient R" "\<lambda>_. rlp_ok R" "\<lambda>d. d" for R
  by unfold_locales (simp_all add: encode_difficulty_def difficulty_bytes_java codec string_ne)

interpretation wire_string: wire_codec "rl_string_bytes R" "rl_bytes R" "\<lambda>p. rlp_ok R \<and> fits p" "\<lambda>p. p" for R
  by unfold_locales (simp_all add: codec string_ne)

section \<open>Headers and transactions\<close>

text \<open>The header that is read back: the mining fields as they are on the wire, with the hashes of the
  bytes received.\<close>

definition read_header :: "rlp_lib \<Rightarrow> activation_heights \<Rightarrow> header \<Rightarrow> header" where
  "read_header R acts h = wire_header h\<lparr> h_cached_hash := Some (header_hash R acts (h\<lparr> h_cached_hash := None \<rparr>)),
     h_cached_mm_hash := Some (hash_for_merged_mining R (h\<lparr> h_cached_mm_hash := None \<rparr>)) \<rparr>"

definition header_ok :: "rlp_lib \<Rightarrow> header \<Rightarrow> bool" where
  "header_ok R h \<longleftrightarrow> rlp_ok R \<and> mining_form h \<and> fits (encode_header R h)"

lemma header_ok_encodable: "header_ok R h \<Longrightarrow> encodable R h"
  unfolding header_ok_def encode_header_def encodable_def fits_def
  using length_wrap [of "encode_payload R True h" R] by simp

interpretation wire_header_codec: wire_codec "encode_header R" "decode_with_hash R acts" "header_ok R" "read_header R acts"
  for R acts
proof unfold_locales
  fix h rest assume h: "header_ok R h"
  then show "decode_with_hash R acts (encode_header R h @ rest) = Inr (read_header R acts h, rest)"
    unfolding read_header_def
    by (intro header_round_trip_both(2)) (auto simp: header_ok_encodable, auto simp: header_ok_def)
  show "encode_header R h \<noteq> []" unfolding encode_header_def
    using h header_ok_encodable [OF h] by (intro wrap_list_ne) (auto simp: header_ok_def encodable_def)
qed

text \<open>A transaction built here is encoded; one that was received is sent in the bytes it came in, which
  must be bytes it can have come in.\<close>

definition tx_ok :: "rlp_lib \<Rightarrow> transaction \<Rightarrow> bool" where
  "tx_ok R t \<longleftrightarrow> rlp_ok R \<and> fits (rlp_for_trie R t) \<and> (case t_cached_rlp t of
     None \<Rightarrow> True
   | Some c \<Rightarrow> c \<noteq> [] \<and> (\<forall>rest. decode_transaction R (c @ rest) = Inr (t, rest)))"

definition read_transaction :: "rlp_lib \<Rightarrow> transaction \<Rightarrow> transaction" where
  "read_transaction R t = t\<lparr> t_cached_rlp := Some (rlp_for_trie R t) \<rparr>"

interpretation wire_transaction: wire_codec "rlp_for_trie R" "decode_transaction R" "tx_ok R" "read_transaction R" for R
proof unfold_locales
  fix t rest assume t: "tx_ok R t"
  show "decode_transaction R (rlp_for_trie R t @ rest) = Inr (read_transaction R t, rest)"
  proof (cases "t_cached_rlp t")
    case None
    then have e: "rlp_ok R" "fits (wrap_list R (transaction_fields R t))"
      using t by (simp_all add: tx_ok_def rlp_for_trie_def encode_transaction_def)
    then have "length (transaction_fields R t) < 2 ^ 64" using fits_wrap by (auto simp: fits_def)
    then show ?thesis using None decode_transaction_fields [OF e(1), of t "[]" rest]
      by (simp add: rlp_for_trie_def encode_transaction_def read_transaction_def tx_encodable_def)
  next
    case (Some c)
    then show ?thesis using t by (cases t) (auto simp: tx_ok_def rlp_for_trie_def read_transaction_def)
  qed
  show "rlp_for_trie R t \<noteq> []"
  proof (cases "t_cached_rlp t")
    case None
    then have e: "rlp_ok R" "fits (wrap_list R (transaction_fields R t))"
      using t by (simp_all add: tx_ok_def rlp_for_trie_def encode_transaction_def)
    then show ?thesis using None wrap_list_ne [OF e(1), of "transaction_fields R t"] fits_wrap [OF e(2)]
      by (simp add: rlp_for_trie_def encode_transaction_def fits_def)
  qed (use t in \<open>auto simp: tx_ok_def rlp_for_trie_def\<close>)
qed

end
