(* ===== verification/Message_Wire.thy ===== *)
theory Message_Wire
  imports Wire_Codecs
begin

text \<open>
  Messages of the \<open>rsk\<close> subprotocol read back: the parts of each message first, then every message.
\<close>

section \<open>Shapes\<close>

lemma open_id_list [codec]: "rlp_ok R \<Longrightarrow> fits (id_list R i inner) \<Longrightarrow> open_id R (id_list R i inner) = Inr (i, inner)"
proof -
  assume ok: "rlp_ok R" and "fits (id_list R i inner)"
  then have f: "fits (rl_u64_bytes R i @ wrap_list R inner)" "fits inner"
    by (auto simp: id_list_def dest: fit)
  then show ?thesis by (simp add: open_id_def id_list_def codec ok)
qed

lemma fits_id_list: "fits (id_list R i inner) \<Longrightarrow> fits inner"
  by (auto simp: id_list_def dest: fit)

lemma decode_query_list [codec]:
  "rlp_ok R \<Longrightarrow> fits (id_list R i (encode_query R q)) \<Longrightarrow> decode_query R (id_list R i (encode_query R q)) = Inr (i, q)"
  by (simp add: decode_query_def codec) (simp add: encode_query_def codec)

lemma split_with_id [codec]:
  "rlp_ok R \<Longrightarrow> fits (with_id R i (wrap_list R p)) \<Longrightarrow> split_id R (with_id R i (wrap_list R p)) = Inr (i, wrap_list R p)"
proof -
  assume ok: "rlp_ok R" and "fits (with_id R i (wrap_list R p))"
  then have "fits (rl_u64_bytes R i @ wrap_list R p)" "fits p" by (auto simp: with_id_def dest: fit)
  then show ?thesis by (simp add: split_id_def with_id_def codec ok)
qed

text \<open>The framing of older nodes, the fields wrapped in a string, reads the same.\<close>

lemma split_old_framing:
  assumes "rlp_ok R" and "fits (wrap_list R (rl_u64_bytes R i @ rl_string_bytes R (wrap_list R p)))"
  shows "split_id R (wrap_list R (rl_u64_bytes R i @ rl_string_bytes R (wrap_list R p))) = Inr (i, wrap_list R p)"
proof -
  have f: "fits (rl_u64_bytes R i @ rl_string_bytes R (wrap_list R p))" using assms(2) by (auto dest: fit)
  then have "fits (wrap_list R p)" using assms(1) by (auto dest: fit)
  then have "rl_header R (rl_string_bytes R (wrap_list R p)) = Inr (False, length (wrap_list R p), wrap_list R p)"
    using rlp_laws(2) [OF assms(1), of "wrap_list R p" "[]"] by (simp add: fits_def)
  then show ?thesis using f by (simp add: split_id_def codec assms(1))
qed

lemma fits_with_id: "fits (with_id R i (wrap_list R p)) \<Longrightarrow> fits p"
  by (auto simp: with_id_def dest: fit)

lemma trailing_u64_bytes [codec]:
  "trailing_u64 R [] = Inr (0, [])"
  "rlp_ok R \<Longrightarrow> trailing_u64 R (rl_u64_bytes R v @ rest) = Inr (v, rest)"
  "rlp_ok R \<Longrightarrow> trailing_u64 R (rl_u64_bytes R v) = Inr (v, [])"
  by (simp_all add: trailing_u64_def codec)

text \<open>A byte reads back as a 64-bit integer too.\<close>

lemma trailing_u8_bytes [codec]:
  assumes "rlp_ok R"
  shows "trailing_u64 R (rl_u8_bytes R b @ rest) = Inr (ucast b, rest)"
    and "trailing_u64 R (rl_u8_bytes R b) = Inr (ucast b, [])"
proof -
  have "length (strip_zeros [b]) \<le> 1" using length_strip_zeros [of "[b]"] by simp
  then have l: "length (strip_zeros [b]) < 2 ^ 64" by (rule le_less_trans) simp
  have n: "be_nat (strip_zeros [b]) = unat b" by (simp add: be_nat_strip be_nat_Cons)
  have "unat b < 256" using unat_less_exp [of b] by simp
  then have d: "decode_u64_lenient R (rl_string_bytes R (strip_zeros [b]) @ rest) = Inr (ucast b, rest)" for rest
    using decode_u64_string [OF assms l] n by (simp add: from_be_def n)
  show "trailing_u64 R (rl_u8_bytes R b @ rest) = Inr (ucast b, rest)"
    using d assms by (simp add: trailing_u64_def rl_u8_bytes_def string_ne)
  show "trailing_u64 R (rl_u8_bytes R b) = Inr (ucast b, [])"
    using d [of "[]"] assms by (simp add: trailing_u64_def rl_u8_bytes_def string_ne)
qed

section \<open>Blocks\<close>

definition block_ok :: "rlp_lib \<Rightarrow> block \<Rightarrow> bool" where
  "block_ok R b \<longleftrightarrow> rlp_ok R \<and> fits (encode_block R b) \<and> header_ok R (b_header b) \<and>
     (\<forall>t \<in> set (b_transactions b). tx_ok R t) \<and> (\<forall>u \<in> set (b_ommers b). header_ok R u)"

definition read_block :: "rlp_lib \<Rightarrow> activation_heights \<Rightarrow> block \<Rightarrow> block" where
  "read_block R acts b = \<lparr> b_header = read_header R acts (b_header b),
     b_transactions = map (read_transaction R) (b_transactions b),
     b_ommers = map (read_header R acts) (b_ommers b) \<rparr>"

interpretation wire_block: wire_codec "encode_block R" "decode_block R acts" "block_ok R" "read_block R acts" for R acts
proof unfold_locales
  fix b rest assume b: "block_ok R b"
  let ?txs = "concat (map (rlp_for_trie R) (b_transactions b))" and ?us = "concat (map (encode_header R) (b_ommers b))"
  have ok: "rlp_ok R" using b by (simp add: block_ok_def)
  have f: "fits (encode_header R (b_header b) @ wrap_list R ?txs @ wrap_list R ?us)" "fits ?txs" "fits ?us"
    using b by (simp_all add: block_ok_def encode_block_def fits_def wrap_list_def)
  have items: "header_ok R (b_header b)" "\<forall>t \<in> set (b_transactions b). tx_ok R t" "\<forall>u \<in> set (b_ommers b). header_ok R u"
    using b by (simp_all add: block_ok_def)
  show "decode_block R acts (encode_block R b @ rest) = Inr (read_block R acts b, rest)"
    unfolding decode_block_def encode_block_def
    by (simp add: codec ok f wire_header_codec.dec_enc [OF items(1)] wire_transaction.read_all_enc [OF items(2)]
        wire_header_codec.read_all_enc [OF items(3)] read_block_def)
  show "encode_block R b \<noteq> []"
    unfolding encode_block_def using f(1) by (intro wrap_list_ne [OF ok]) (simp add: fits_def)
qed

interpretation wire_blob: wire_codec "\<lambda>b. rl_string_bytes R (encode_block R b)" "decode_block_blob R acts" "block_ok R"
  "read_block R acts" for R acts
proof unfold_locales
  fix b rest assume b: "block_ok R b"
  then have "rlp_ok R" "fits (encode_block R b)" by (simp_all add: block_ok_def)
  then show "decode_block_blob R acts (rl_string_bytes R (encode_block R b) @ rest) = Inr (read_block R acts b, rest)"
    "rl_string_bytes R (encode_block R b) \<noteq> []"
    by (simp_all add: decode_block_blob_def codec wire_block.dec_enc_end [OF b] string_ne)
qed

lemma decode_blocks_list [codec]:
  assumes ok: "rlp_ok R" and f: "fits (encode_blocks_and_difficulties R bs ds)" and b: "\<forall>b \<in> set bs. block_ok R b"
  shows "decode_blocks_and_difficulties R acts (encode_blocks_and_difficulties R bs ds @ rest) =
    Inr ((map (read_block R acts) bs, ds), rest)"
proof -
  let ?bs = "concat (map (\<lambda>b. rl_string_bytes R (encode_block R b)) bs)" and ?ds = "concat (map (encode_difficulty R) ds)"
  have "fits ?bs" "fits ?ds" using f by (auto simp: encode_blocks_and_difficulties_def dest: fit)
  then show ?thesis
    using wire_difficulty.read_all_enc [of ds R] ok
    by (simp add: decode_blocks_and_difficulties_def encode_blocks_and_difficulties_def codec wire_blob.read_all_enc [OF b])
qed

section \<open>Chunks\<close>

definition entry_ok :: "rlp_lib \<Rightarrow> snap_entry \<Rightarrow> bool" where
  "entry_ok R e \<longleftrightarrow> rlp_ok R \<and> fits (encode_snap_entry R e)"

interpretation wire_entry: wire_codec "encode_snap_entry R" "decode_snap_entry R" "entry_ok R" "\<lambda>e. e" for R
proof unfold_locales
  fix e rest assume e: "entry_ok R e"
  let ?vs = "concat (map (rl_string_bytes R) (se_long_values e))"
  have ok: "rlp_ok R" using e by (simp add: entry_ok_def)
  have f: "fits (rl_string_bytes R (se_message e) @ wrap_list R ?vs)" "fits (se_message e)" "fits ?vs"
    using e ok by (auto simp: entry_ok_def encode_snap_entry_def dest: fit)
  have v: "\<forall>v \<in> set (se_long_values e). rlp_ok R \<and> fits v"
    using fits_member [OF f(3)] fits_string [OF ok] ok by blast
  show "decode_snap_entry R (encode_snap_entry R e @ rest) = Inr (e, rest)"
    unfolding decode_snap_entry_def encode_snap_entry_def
    using wire_string.read_all_enc [OF v] by (simp add: codec ok f)
  show "encode_snap_entry R e \<noteq> []"
    unfolding encode_snap_entry_def using f(1) by (intro wrap_list_ne [OF ok]) (simp add: fits_def)
qed

interpretation wire_chunk: wire_codec "encode_chunk_payload R" "decode_chunk_payload R"
  "\<lambda>p. rlp_ok R \<and> fits (encode_chunk_payload R p)" "\<lambda>p. p" for R
proof unfold_locales
  fix p rest assume p: "rlp_ok R \<and> fits (encode_chunk_payload R p)"
  then have ok: "rlp_ok R" by simp
  have "decode_chunk_payload R (encode_chunk_payload R p @ rest) = Inr (p, rest) \<and> encode_chunk_payload R p \<noteq> []"
  proof (cases p)
    case (Legacy blob)
    then have "fits blob" using p by (auto dest: fit)
    then show ?thesis using Legacy by (simp add: decode_chunk_payload_def codec ok string_ne)
  next
    case (Proved es ws)
    let ?es = "concat (map (encode_snap_entry R) es)" and ?ws = "concat (map (rl_string_bytes R) ws)"
    have f: "fits (wrap_list R ?es @ wrap_list R ?ws)" "fits ?es" "fits ?ws"
      using p Proved by (auto dest: fit)
    have e: "\<forall>e \<in> set es. entry_ok R e" using fits_member [OF f(2)] ok by (simp add: entry_ok_def)
    have w: "\<forall>w \<in> set ws. rlp_ok R \<and> fits w" using fits_member [OF f(3)] fits_string [OF ok] ok by blast
    show ?thesis
      using Proved wire_entry.read_all_enc [OF e] wire_string.read_all_enc [OF w] wrap_list_ne [OF ok] f(1)
      by (simp add: decode_chunk_payload_def codec ok f(2,3)) (simp add: fits_def)
  qed
  then show "decode_chunk_payload R (encode_chunk_payload R p @ rest) = Inr (p, rest)" "encode_chunk_payload R p \<noteq> []"
    by blast+
qed

section \<open>Snap bodies\<close>

lemma refusal_round_trip: "refusal_from_code (ucast (refusal_code r)) = r"
  by (cases r) (simp_all add: refusal_from_code_def)

lemma refusal_code_0: "refusal_code r = 0 \<longleftrightarrow> r = NoRefusal"
  by (cases r) simp_all

lemma snap_requests_read_back:
  assumes "rlp_ok R"
  shows "fits (encode_snap_status_request R a) \<Longrightarrow> decode_snap_status_request R (encode_snap_status_request R a) = Inr a"
    and "fits (encode_snap_chunk_request R b) \<Longrightarrow> decode_snap_chunk_request R (encode_snap_chunk_request R b) = Inr b"
    and "fits (encode_snap_blocks_request R c) \<Longrightarrow> decode_snap_blocks_request R (encode_snap_blocks_request R c) = Inr c"
proof -
  show "fits (encode_snap_status_request R a) \<Longrightarrow> decode_snap_status_request R (encode_snap_status_request R a) = Inr a"
    by (simp add: encode_snap_status_request_def decode_snap_status_request_def codec assms)
  show "decode_snap_chunk_request R (encode_snap_chunk_request R b) = Inr b" if f: "fits (encode_snap_chunk_request R b)"
  proof -
    note f' = f [unfolded encode_snap_chunk_request_def]
    show ?thesis
      using fits_with_id [OF f'] f' assms
      by (cases "scq_state_root b")
        (simp_all add: encode_snap_chunk_request_def decode_snap_chunk_request_def codec)
  qed
  show "decode_snap_blocks_request R (encode_snap_blocks_request R c) = Inr c" if f: "fits (encode_snap_blocks_request R c)"
    using f fits_with_id [OF f [unfolded encode_snap_blocks_request_def]]
    by (simp add: encode_snap_blocks_request_def decode_snap_blocks_request_def codec assms)
qed

lemma snap_status_reads_back:
  assumes ok: "rlp_ok R" and f: "fits (encode_snap_status_response R m)" and b: "\<forall>b \<in> set (ssp_blocks m). block_ok R b"
  shows "decode_snap_status_response R acts (encode_snap_status_response R m) =
    Inr (m\<lparr> ssp_blocks := map (read_block R acts) (ssp_blocks m) \<rparr>)"
proof -
  note f' = f [unfolded encode_snap_status_response_def]
  have p: "fits (encode_blocks_and_difficulties R (ssp_blocks m) (ssp_difficulties m))"
    using fits_with_id [OF f'] by (auto dest: fit)
  show ?thesis
    using fits_with_id [OF f'] f'
    by (simp add: encode_snap_status_response_def decode_snap_status_response_def codec ok
        decode_blocks_list [OF ok p b] split: if_splits)
qed

lemma snap_blocks_reads_back:
  assumes ok: "rlp_ok R" and f: "fits (encode_snap_blocks_response R m)" and b: "\<forall>b \<in> set (sbp_blocks m). block_ok R b"
  shows "decode_snap_blocks_response R acts (encode_snap_blocks_response R m) =
    Inr (m\<lparr> sbp_blocks := map (read_block R acts) (sbp_blocks m) \<rparr>)"
proof -
  note f' = f [unfolded encode_snap_blocks_response_def]
  show ?thesis
    using fits_with_id [OF f'] f' decode_blocks_list [OF ok fits_with_id [OF f'] b, of acts "[]"]
    by (simp add: encode_snap_blocks_response_def decode_snap_blocks_response_def codec ok)
qed

lemma snap_chunk_reads_back:
  assumes ok: "rlp_ok R" and f: "fits (encode_snap_chunk_response R m)"
  shows "decode_snap_chunk_response R (encode_snap_chunk_response R m) = Inr m"
proof -
  note f' = f [unfolded encode_snap_chunk_response_def]
  have p: "rlp_ok R \<and> fits (encode_chunk_payload R (scp_payload m))"
    using fits_with_id [OF f'] ok by (auto dest: fit)
  have "(ucast (of_bool c :: u8) :: u64) \<noteq> 0 \<longleftrightarrow> c" for c by (cases c) simp_all
  then show ?thesis
    using fits_with_id [OF f'] f' refusal_round_trip [of "scp_refusal m"]
    by (simp add: encode_snap_chunk_response_def decode_snap_chunk_response_def codec ok
        wire_chunk.dec_enc [OF p] refusal_from_code_def [of 0] split: if_splits)
qed

end
