(* ===== verification/Message_Claims.thy ===== *)
theory Message_Claims
  imports Message_Wire
begin

text \<open>
  The messages of the \<open>rsk\<close> subprotocol: every message this node sends is read back by a peer, and an
  uncle list that is accepted is the one its header commits to.
\<close>

section \<open>Messages read back\<close>

text \<open>A status without both parent and difficulty is sent without either, and then says nothing of
  the range it serves.\<close>

definition read_status :: "rsk_status \<Rightarrow> rsk_status" where
  "read_status s = (if st_best_block_parent_hash s \<noteq> None \<and> st_total_difficulty s \<noteq> None then s
     else s\<lparr> st_best_block_parent_hash := None, st_total_difficulty := None, st_earliest_block := None \<rparr>)"

definition with_uncles_ok :: "rlp_lib \<Rightarrow> header_with_uncles \<Rightarrow> bool" where
  "with_uncles_ok R e \<longleftrightarrow> rlp_ok R \<and> fits (encode_with_uncles R e) \<and> header_ok R (hu_header e) \<and>
     (\<forall>u \<in> set (hu_uncles e). header_ok R u) \<and> commitment_matches R e"

definition read_with_uncles :: "rlp_lib \<Rightarrow> activation_heights \<Rightarrow> header_with_uncles \<Rightarrow> header_with_uncles" where
  "read_with_uncles R acts e = \<lparr> hu_header = read_header R acts (hu_header e),
     hu_uncles = map (read_header R acts) (hu_uncles e) \<rparr>"

text \<open>What a message must carry to be sent: headers without extension data, transactions with bytes
  they can have come in, uncles that match their header, and relayed transactions that are lists.
  Announcements of hashes and unknown messages are never sent.\<close>

fun message_ok :: "rlp_lib \<Rightarrow> rsk_sub_message \<Rightarrow> bool" where
  "message_ok R (BlockHeadersResponse r) \<longleftrightarrow> (\<forall>h \<in> set (bhp_headers r). header_ok R h)"
| "message_ok R (BlockHeadersWithUnclesResponse r) \<longleftrightarrow> (\<forall>e \<in> set (hup_entries r). with_uncles_ok R e)"
| "message_ok R (BodyResponse r) \<longleftrightarrow> (\<forall>t \<in> set (bop_transactions r). tx_ok R t) \<and> (\<forall>u \<in> set (bop_uncles r). header_ok R u)"
| "message_ok R (Transactions txs) \<longleftrightarrow> (\<forall>tx \<in> set txs. \<exists>p. tx = wrap_list R p)"
| "message_ok R (SnapStatusResponse m) \<longleftrightarrow> (\<forall>b \<in> set (ssp_blocks m). block_ok R b)"
| "message_ok R (SnapBlocksResponse m) \<longleftrightarrow> (\<forall>b \<in> set (sbp_blocks m). block_ok R b)"
| "message_ok R (NewBlockHashes _) \<longleftrightarrow> False"
| "message_ok R (Unknown _) \<longleftrightarrow> False"
| "message_ok R _ \<longleftrightarrow> True"

fun read_message :: "rlp_lib \<Rightarrow> activation_heights \<Rightarrow> rsk_sub_message \<Rightarrow> rsk_sub_message" where
  "read_message R acts (Status s) = Status (read_status s)"
| "read_message R acts (BlockHeadersResponse r) = BlockHeadersResponse (r\<lparr> bhp_headers := map (read_header R acts) (bhp_headers r),
     bhp_raw := map (encode_header R) (bhp_headers r) \<rparr>)"
| "read_message R acts (BlockHeadersWithUnclesResponse r) =
     BlockHeadersWithUnclesResponse (r\<lparr> hup_entries := map (read_with_uncles R acts) (hup_entries r) \<rparr>)"
| "read_message R acts (BodyResponse r) = BodyResponse (r\<lparr> bop_transactions := map (read_transaction R) (bop_transactions r),
     bop_uncles := map (read_header R acts) (bop_uncles r) \<rparr>)"
| "read_message R acts (SnapStatusResponse m) = SnapStatusResponse (m\<lparr> ssp_blocks := map (read_block R acts) (ssp_blocks m) \<rparr>)"
| "read_message R acts (SnapBlocksResponse m) = SnapBlocksResponse (m\<lparr> sbp_blocks := map (read_block R acts) (sbp_blocks m) \<rparr>)"
| "read_message R acts m = m"

lemma status_reads_back [codec]: "rlp_ok R \<Longrightarrow> decode_status_fields R (status_fields R s) = Inr (read_status s)"
  by (cases s; cases "st_best_block_parent_hash s"; cases "st_total_difficulty s"; cases "st_earliest_block s")
    (auto simp: decode_status_fields_def status_fields_def read_status_def codec wire_difficulty.dec_enc
      wire_difficulty.dec_enc_end)

lemma block_range_reads_back:
  "rlp_ok R \<Longrightarrow> fits (encode_block_range R r) \<Longrightarrow> decode_block_range R (encode_block_range R r @ rest) = Inr (r, rest)"
proof -
  assume ok: "rlp_ok R" and "fits (encode_block_range R r)"
  then have "fits (rl_u64_bytes R (br_earliest_block r) @ rl_u64_bytes R (br_latest_block r) @ rl_b256_bytes R (br_latest_block_hash r))"
    by (auto simp: encode_block_range_def dest: fits_wrap)
  then show ?thesis by (simp add: decode_block_range_def encode_block_range_def codec ok)
qed

definition identifier_ok :: "rlp_lib \<Rightarrow> block_identifier \<Rightarrow> bool" where
  "identifier_ok R b \<longleftrightarrow> rlp_ok R \<and> fits (encode_identifier R b)"

interpretation wire_identifier: wire_codec "encode_identifier R" "decode_identifier R" "identifier_ok R" "\<lambda>b. b" for R
proof unfold_locales
  fix b rest assume "identifier_ok R b"
  then have ok: "rlp_ok R" and f: "fits (rl_b256_bytes R (bi_hash b) @ rl_u64_bytes R (bi_number b))"
    by (auto simp: identifier_ok_def encode_identifier_def dest: fits_wrap)
  then show "decode_identifier R (encode_identifier R b @ rest) = Inr (b, rest)"
    by (simp add: decode_identifier_def encode_identifier_def codec)
  show "encode_identifier R b \<noteq> []"
    using f unfolding encode_identifier_def fits_def by (intro wrap_list_ne [OF ok])
qed

interpretation wire_raw_header: wire_codec "encode_header R" "decode_raw_header R acts" "header_ok R"
  "\<lambda>h. (read_header R acts h, encode_header R h)" for R acts
  by unfold_locales (simp_all add: decode_raw_header_def wire_header_codec.dec_enc wire_header_codec.enc_ne)

interpretation wire_whole: wire_codec "wrap_list R" "take_whole R" "\<lambda>p. rlp_ok R \<and> fits p" "wrap_list R" for R
proof unfold_locales
  fix p rest assume "rlp_ok R \<and> fits p"
  then have p: "rlp_ok R" "fits p" by simp_all
  have "length (wrap_list R p @ rest) - length (p @ rest) + length p = length (wrap_list R p)"
    by (simp add: wrap_list_def)
  then show "take_whole R (wrap_list R p @ rest) = Inr (wrap_list R p, rest)"
    by (simp add: take_whole_def open_fits(7) [OF p] ensure_def)
  show "wrap_list R p \<noteq> []" using p by (intro wrap_list_ne) (simp_all add: fits_def)
qed

interpretation wire_with_uncles: wire_codec "encode_with_uncles R" "decode_with_uncles R acts" "with_uncles_ok R"
  "read_with_uncles R acts" for R acts
proof unfold_locales
  fix e rest assume e: "with_uncles_ok R e"
  let ?us = "concat (map (encode_header R) (hu_uncles e))"
  have ok: "rlp_ok R" using e by (simp add: with_uncles_ok_def)
  have f: "fits (encode_header R (hu_header e) @ wrap_list R ?us)" "fits ?us"
    using e by (simp_all add: with_uncles_ok_def encode_with_uncles_def hu_encoded_uncles_def fits_def wrap_list_def)
  have h: "header_ok R (hu_header e)" and u: "\<forall>u \<in> set (hu_uncles e). header_ok R u" using e by (simp_all add: with_uncles_ok_def)
  have keep: "h_ommers_hash (read_header R acts x) = h_ommers_hash x" "h_uncle_count (read_header R acts x) = h_uncle_count x" for x
    by (simp_all add: read_header_def wire_header_def Let_def)
  have com: "rl_keccak R (wrap_list R ?us) = h_ommers_hash (hu_header e)"
    "of_nat (length (hu_uncles e)) = h_uncle_count (hu_header e)"
    using e by (simp_all add: with_uncles_ok_def commitment_matches_def hu_encoded_uncles_def)
  have len: "length (wrap_list R ?us) - length ?us + length ?us = length (wrap_list R ?us)"
    "length ?us \<le> length (wrap_list R ?us)"
    by (simp_all add: wrap_list_def)
  show "decode_with_uncles R acts (encode_with_uncles R e @ rest) = Inr (read_with_uncles R acts e, rest)"
    unfolding decode_with_uncles_def encode_with_uncles_def hu_encoded_uncles_def
    by (simp add: open_fits [OF ok f(1)] open_fits [OF ok f(2)] wire_header_codec.dec_enc [OF h] ensure_def Let_def len
        keep com wire_header_codec.read_all_enc [OF u] read_with_uncles_def)
  show "encode_with_uncles R e \<noteq> []"
    using f(1) unfolding encode_with_uncles_def hu_encoded_uncles_def by (intro wrap_list_ne [OF ok]) (simp add: fits_def)
qed

lemma sub_message_reads_back:
  assumes ok: "rlp_ok R" and m: "message_ok R m" and f: "fits (encode_params R m)"
  shows "decode_sub_message R acts (type_code (message_type m)) (encode_params R m) = Inr (read_message R acts m)"
proof (cases m)
  case (Status s)
  then have "fits (status_fields R s)" using f by (auto dest: fits_wrap)
  then show ?thesis using Status by (simp add: decode_sub_message_def codec ok)
next
  case (BlockHeadersResponse r)
  then have "fits (id_list R (bhp_id r) (wrap_list R (concat (map (encode_header R) (bhp_headers r)))))" using f by simp
  moreover from fits_wrap [OF fits_id_list [OF this]] have "fits (concat (map (encode_header R) (bhp_headers r)))" .
  ultimately show ?thesis using BlockHeadersResponse m
    by (simp add: decode_sub_message_def decode_headers_response_def codec ok wire_raw_header.read_all_enc comp_def)
next
  case (SkeletonResponse r)
  then have g: "fits (id_list R (skp_id r) (wrap_list R (concat (map (encode_identifier R) (skp_block_identifiers r)))))" using f by simp
  then have c: "fits (concat (map (encode_identifier R) (skp_block_identifiers r)))" by (rule fits_wrap [OF fits_id_list])
  then have "\<forall>b \<in> set (skp_block_identifiers r). identifier_ok R b" by (simp add: identifier_ok_def ok fits_member [OF c])
  from wire_identifier.read_all_enc [OF this] g c show ?thesis using SkeletonResponse
    by (simp add: decode_sub_message_def decode_skeleton_response_def codec ok)
next
  case (BodyResponse r)
  let ?t = "concat (map (rlp_for_trie R) (bop_transactions r))" and ?u = "concat (map (encode_header R) (bop_uncles r))"
  have g: "fits (id_list R (bop_id r) (wrap_list R ?t @ wrap_list R ?u))" using f BodyResponse by simp
  then have "fits (wrap_list R ?t @ wrap_list R ?u)" by (rule fits_id_list)
  then have "fits ?t" "fits ?u" by (simp_all add: fits_def wrap_list_def)
  then show ?thesis using BodyResponse g m wire_transaction.read_all_enc [of "bop_transactions r" R]
      wire_header_codec.read_all_enc [of "bop_uncles r" R acts]
    by (simp add: decode_sub_message_def decode_body_response_def codec ok)
next
  case (Transactions txs)
  then have c: "fits (concat txs)" using f by (auto dest: fits_wrap)
  obtain ps where ps: "txs = map (wrap_list R) ps"
    using m Transactions by (auto simp: ex_map_conv [symmetric] Bex_def)
  have "\<forall>p \<in> set ps. rlp_ok R \<and> fits p" using fits_member [OF c [unfolded ps]] fits_wrap ok by blast
  from wire_whole.read_all_enc [OF this] c show ?thesis using Transactions
    by (simp add: decode_sub_message_def decode_transactions_def codec ok ps)
next
  case (BlockHeadersWithUnclesResponse r)
  let ?es = "concat (map (encode_with_uncles R) (hup_entries r))"
  have "fits (rl_u64_bytes R (hup_id r) @ wrap_list R ?es)" "fits ?es"
    using f BlockHeadersWithUnclesResponse by (simp_all add: id_list_def fits_def wrap_list_def)
  then show ?thesis using BlockHeadersWithUnclesResponse m wire_with_uncles.read_all_enc [of "hup_entries r" R acts]
    by (simp add: decode_sub_message_def decode_with_uncles_response_def id_list_def codec ok)
next
  case (BlockRangeUpdate r)
  then show ?thesis using f block_range_reads_back [OF ok, of r "[]"] by (simp add: decode_sub_message_def)
qed (use m f in \<open>simp_all add: decode_sub_message_def codec ok snap_requests_read_back [OF ok]
    snap_status_reads_back [OF ok] snap_blocks_reads_back [OF ok] snap_chunk_reads_back [OF ok]\<close>)

lemma params_are_list:
  assumes "rlp_ok R" and "message_ok R m" and "fits (encode_params R m)"
  shows "\<not> (length (encode_params R m) = 1 \<and> unat (hd (encode_params R m)) < 128)"
proof -
  have "\<exists>p. encode_params R m = wrap_list R p"
    using assms(2) by (cases m) (auto simp: id_list_def with_id_def encode_block_range_def encode_snap_status_request_def
        encode_snap_status_response_def encode_snap_chunk_request_def encode_snap_chunk_response_def
        encode_snap_blocks_request_def encode_snap_blocks_response_def)
  then obtain p where p: "encode_params R m = wrap_list R p" by blast
  then have "length p < 2 ^ 64" using assms(3) fits_wrap by (auto simp: fits_def)
  from rlp_list_byte [OF assms(1) this] p show ?thesis by (auto simp: wrap_list_def)
qed

lemma message_reads_back:
  assumes "rlp_ok R" and "message_ok R m" and "fits (encode_message R m)"
  shows "decode_message R acts (encode_message R m @ rest) = Inr (read_message R acts m, rest)"
proof -
  let ?p = "encode_params R m" and ?ty = "type_code (message_type m)"
  let ?b = "rl_u8_bytes R ?ty @ rl_header_bytes R False (length ?p) @ ?p"
  have f: "fits (wrap_list R ?b)" "fits ?b" "fits ?p"
    using assms(3) by (simp_all add: encode_message_def Let_def fits_def wrap_list_def)
  have "length ?p < 2 ^ 64" using f(3) by (simp add: fits_def)
  from rlp_laws(5) [OF assms(1) this params_are_list [OF assms(1,2) f(3)], of "[]"]
  have h: "rl_header R (rl_header_bytes R False (length ?p) @ ?p) = Inr (False, length ?p, ?p)" by simp
  show ?thesis
    unfolding decode_message_def encode_message_def Let_def
    by (simp add: open_fits(1) [OF assms(1) f(1)] open_fits(2) [OF assms(1) f(2)] codec assms(1) h ensure_def
        sub_message_reads_back [OF assms(1,2) f(3)])
qed

text \<open>C16. Every message that is sent is read back: decoding the encoding of a message returns it and the
  rest of the input, with headers and transactions carrying the hashes and bytes they were read
  with. A status that lacks the parent or the difficulty comes back without either, and without the
  range it announced.\<close>

theorem message_round_trip:
  assumes "rlp_ok R" and "message_ok R m" and "fits (encode_message R m)"
  shows "decode_message R acts (encode_message R m @ rest) = Inr (read_message R acts m, rest)"
  using assms by (rule message_reads_back)

lemma message_round_trip_witness:
  "decode_message rlp_std activations_mainnet (encode_message rlp_std (BlockHashRequest \<lparr> bqh_id = 7, bqh_height = 12345 \<rparr>)) =
     Inr (BlockHashRequest \<lparr> bqh_id = 7, bqh_height = 12345 \<rparr>, [])"
proof -
  let ?m = "BlockHashRequest \<lparr> bqh_id = 7, bqh_height = 12345 \<rparr>"
  have "length (encode_message rlp_std ?m) < 100" by code_simp
  then have "fits (encode_message rlp_std ?m)" by (simp add: fits_def)
  from message_round_trip [OF rlp_std_ok _ this, of activations_mainnet "[]"] show ?thesis by simp
qed

end
