(* ===== verification/Message_Trust.thy ===== *)
theory Message_Trust
  imports Message_Claims Rsk_Invariant
begin

text \<open>
  What a peer's messages can be trusted for: uncle lists are the ones their headers commit to, the work
  they claim is the work the store counts, and the framing of older nodes reads the same.
\<close>

lemma read_while_member:
  "read_while dec body = Some (Inr vs) \<Longrightarrow> v \<in> set vs \<Longrightarrow> \<exists>d rest. dec d = Inr (v, rest)"
proof (induction vs arbitrary: body)
  case (Cons w ws)
  then obtain rest where "dec body = Inr (w, rest)" "read_while dec rest = Some (Inr ws)"
    by (subst (asm) (3) read_while.simps) (auto split: if_splits sum.splits option.splits simp: result_simps bind_eq_Some_conv)
  with Cons show ?case by auto
qed simp

lemma read_all_member: "read_all dec body = Inr vs \<Longrightarrow> v \<in> set vs \<Longrightarrow> \<exists>d rest. dec d = Inr (v, rest)"
  using read_while_member [of dec body vs v] by (auto simp: read_all_def split: option.splits)

text \<open>The uncles of an entry are read from bytes whose hash its header names.\<close>

definition committed_uncles :: "rlp_lib \<Rightarrow> activation_heights \<Rightarrow> header_with_uncles \<Rightarrow> bool" where
  "committed_uncles R acts e \<longleftrightarrow> of_nat (length (hu_uncles e)) = h_uncle_count (hu_header e) \<and>
     (\<exists>start n body. rl_header R start = Inr (True, n, body) \<and> n \<le> length body \<and>
        rl_keccak R (take (length start - length body + n) start) = h_ommers_hash (hu_header e) \<and>
        read_all (decode_with_hash R acts) (take n body) = Inr (hu_uncles e))"

lemma decode_with_uncles_committed: "decode_with_uncles R acts d = Inr (e, rest) \<Longrightarrow> committed_uncles R acts e"
proof -
  assume "decode_with_uncles R acts d = Inr (e, rest)"
  then obtain h start l n body us where "rl_header R start = Inr (l, n, body)" "\<not> (\<not> l \<or> length body < n)"
    "\<not> rl_keccak R (take (length start - length body + n) start) \<noteq> h_ommers_hash h"
    "read_all (decode_with_hash R acts) (take n body) = Inr us" "\<not> of_nat (length us) \<noteq> h_uncle_count h"
    "e = \<lparr> hu_header = h, hu_uncles = us \<rparr>"
    by (auto simp: decode_with_uncles_def Let_def result_simps indexing_Inr split: prod.splits)
  then show ?thesis
    unfolding committed_uncles_def by (intro conjI exI [of _ start] exI [of _ n] exI [of _ body]) simp_all
qed

text \<open>C32. A peer cannot make up work with uncles: in every message of headers with uncles that is accepted,
  each uncle list is read from bytes whose hash the trunk header commits to, with the number of uncles
  the header states; and the difficulty counted for the entry is the sum, saturating at 256 bits, that
  the tree counts for it once it is stored.\<close>

theorem accepted_uncles_committed:
  assumes "decode_message R acts bs = Inr (BlockHeadersWithUnclesResponse r, rest)" and "e \<in> set (hup_entries r)"
  shows "committed_uncles R acts e \<and>
    hu_cumulative_difficulty e = cumulative_difficulty \<lparr> re_header = hu_header e, re_raw = raw,
      re_uncles = map (\<lambda>u. \<lparr> ru_header = u, ru_raw = f u \<rparr>) (hu_uncles e) \<rparr> \<and>
    unat (hu_cumulative_difficulty e) = min (unat (h_difficulty (hu_header e)) +
      (\<Sum>u\<leftarrow>hu_uncles e. unat (h_difficulty u))) (2 ^ 256 - 1)"
proof
  obtain params where "decode_sub_message R acts 28 params = Inr (BlockHeadersWithUnclesResponse r) \<or>
      decode_with_uncles_response R acts params = Inr r"
    using assms(1) unfolding decode_message_def decode_sub_message_def
    by (auto simp: result_simps split: if_splits prod.splits)
  then have "decode_with_uncles_response R acts params = Inr r"
    by (auto simp: decode_sub_message_def result_simps)
  then obtain body where "read_all (decode_with_uncles R acts) body = Inr (hup_entries r)"
    by (auto simp: decode_with_uncles_response_def result_simps)
  from read_all_member [OF this assms(2)] show "committed_uncles R acts e" using decode_with_uncles_committed by blast
  let ?e = "\<lparr> re_header = hu_header e, re_raw = raw, re_uncles = map (\<lambda>u. \<lparr> ru_header = u, ru_raw = f u \<rparr>) (hu_uncles e) \<rparr>"
  have "hu_cumulative_difficulty e = cumulative_difficulty ?e"
    by (simp add: hu_cumulative_difficulty_def cumulative_difficulty_def foldl_map)
  then show "hu_cumulative_difficulty e = cumulative_difficulty ?e \<and>
    unat (hu_cumulative_difficulty e) = min (unat (h_difficulty (hu_header e)) +
      (\<Sum>u\<leftarrow>hu_uncles e. unat (h_difficulty u))) (2 ^ 256 - 1)"
    using cumulative_difficulty_sum [of ?e] by (simp add: comp_def)
qed

definition lone_entry :: header_with_uncles where
  "lone_entry = \<lparr> hu_header = header_default\<lparr> h_ommers_hash := rl_keccak rlp_std [0xc0], h_difficulty := 5 \<rparr>, hu_uncles = [] \<rparr>"

lemma accepted_uncles_committed_witness:
  "\<exists>r rest e. decode_message rlp_std activations_mainnet
      (encode_message rlp_std (BlockHeadersWithUnclesResponse \<lparr> hup_id = 1, hup_entries = [lone_entry] \<rparr>)) =
      Inr (BlockHeadersWithUnclesResponse r, rest) \<and> e \<in> set (hup_entries r) \<and> committed_uncles rlp_std activations_mainnet e"
proof -
  let ?R = rlp_std and ?acts = activations_mainnet
  let ?m = "BlockHeadersWithUnclesResponse \<lparr> hup_id = 1, hup_entries = [lone_entry] \<rparr>"
  have "length (encode_message ?R ?m) < 1000" by code_simp
  then have f: "fits (encode_message ?R ?m)" by (simp add: fits_def)
  then have "fits (encode_with_uncles ?R lone_entry)" "fits (encode_header ?R (hu_header lone_entry))"
    by (simp_all add: encode_message_def id_list_def encode_with_uncles_def Let_def fits_def wrap_list_def)
  moreover have "hu_encoded_uncles ?R lone_entry = [0xc0]" by code_simp
  ultimately have "message_ok ?R ?m"
    by (simp add: with_uncles_ok_def header_ok_def rlp_std_ok commitment_matches_def)
      (simp add: lone_entry_def mining_form_def header_default_def)
  from message_reads_back [OF rlp_std_ok this f, of ?acts "[]"]
  have d: "decode_message ?R ?acts (encode_message ?R ?m) =
    Inr (BlockHeadersWithUnclesResponse \<lparr> hup_id = 1, hup_entries = [read_with_uncles ?R ?acts lone_entry] \<rparr>, [])" by simp
  have "committed_uncles ?R ?acts (read_with_uncles ?R ?acts lone_entry)"
    using accepted_uncles_committed [OF d, of "read_with_uncles ?R ?acts lone_entry"] by simp
  with d show ?thesis by auto
qed

text \<open>Nodes that still wrap the fields of a snap message in a string are understood: a body in the old
  framing decodes, for every kind of snap message, to what the body in today's framing decodes to.\<close>

theorem old_snap_framing_reads_same:
  assumes "rlp_ok R" and "fits (wrap_list R (rl_u64_bytes R i @ rl_string_bytes R (wrap_list R p)))"
  defines "old \<equiv> wrap_list R (rl_u64_bytes R i @ rl_string_bytes R (wrap_list R p))" and "new \<equiv> with_id R i (wrap_list R p)"
  shows "decode_snap_status_request R old = decode_snap_status_request R new \<and>
    decode_snap_status_response R acts old = decode_snap_status_response R acts new \<and>
    decode_snap_chunk_request R old = decode_snap_chunk_request R new \<and>
    decode_snap_chunk_response R old = decode_snap_chunk_response R new \<and>
    decode_snap_blocks_request R old = decode_snap_blocks_request R new \<and>
    decode_snap_blocks_response R acts old = decode_snap_blocks_response R acts new"
proof -
  have "fits (rl_string_bytes R (wrap_list R p))"
    using assms(2) by (auto dest: fits_wrap fits_append)
  then have "fits (rl_u64_bytes R i @ rl_string_bytes R (wrap_list R p))" "fits (wrap_list R p)"
    using assms(1,2) by (auto dest: fits_wrap fits_string)
  then have "fits (rl_u64_bytes R i @ wrap_list R p)"
    using rlp_string_length [OF assms(1), of "wrap_list R p"] by (simp add: fits_def)
  then have "split_id R new = Inr (i, wrap_list R p)"
    using assms(1) \<open>fits (wrap_list R p)\<close>
    by (simp add: new_def with_id_def split_id_def open_fits codec fits_wrap)
  moreover have "split_id R old = Inr (i, wrap_list R p)"
    unfolding old_def using split_old_framing [OF assms(1,2)] .
  ultimately show ?thesis
    by (simp add: decode_snap_status_request_def decode_snap_status_response_def decode_snap_chunk_request_def
        decode_snap_chunk_response_def decode_snap_blocks_request_def decode_snap_blocks_response_def)
qed

lemma old_snap_framing_reads_same_witness:
  "decode_snap_blocks_request rlp_std (wrap_list rlp_std (rl_u64_bytes rlp_std 9 @
     rl_string_bytes rlp_std (wrap_list rlp_std (rl_u64_bytes rlp_std 400)))) =
   decode_snap_blocks_request rlp_std (with_id rlp_std 9 (wrap_list rlp_std (rl_u64_bytes rlp_std 400)))"
proof -
  have "length (wrap_list rlp_std (rl_u64_bytes rlp_std 9 @ rl_string_bytes rlp_std (wrap_list rlp_std (rl_u64_bytes rlp_std 400)))) < 100"
    by code_simp
  then have "fits (wrap_list rlp_std (rl_u64_bytes rlp_std 9 @ rl_string_bytes rlp_std (wrap_list rlp_std (rl_u64_bytes rlp_std 400))))"
    by (simp add: fits_def)
  from old_snap_framing_reads_same [OF rlp_std_ok this] show ?thesis by blast
qed

end
