(* ===== verification/Safe_Readers.thy ===== *)
theory Safe_Readers
  imports Message_Claims
begin

text \<open>
  No bytes a peer sends make a decoder panic or loop: every slice the decoders take is in range and
  every loop over items ends, for any library that is itself free of panics.
\<close>

locale total_rlp =
  fixes R :: rlp_lib
  assumes ok: "rlp_ok R" and total: "rlp_total R"
begin

lemma header_safe [safe]: "crash_free (rl_header R d)"
  and bytes_safe [safe]: "crash_free (rl_bytes R d)"
  and fixed_safe [safe]: "crash_free (rl_fixed R n d)"
  using total by (simp_all add: rlp_total_def)

lemma header_shrinks:
  assumes "rl_header R d = Inr (l, n, rest)"
  shows "n \<le> length rest" and "length rest \<le> length d" and "length rest - n < length d"
proof -
  obtain k where k: "rest = drop k d" "k \<le> length d" "n \<le> length rest" "0 < k + n"
    using rlp_header_bound [OF ok assms] by blast
  then show "n \<le> length rest" "length rest \<le> length d" by simp_all
  show "length rest - n < length d" using k by (cases "length d") auto
qed

lemma slice_in_range [simp]: "rl_header R d = Inr (l, n, rest) \<Longrightarrow> length d - length rest + n \<le> length d"
  using header_shrinks(1,2) [of d l n rest] by linarith

lemma slice_in_range' [simp]: "rl_header R d = Inr (l, n, rest) \<Longrightarrow> length d + n - length rest \<le> length d"
  using header_shrinks(1,2) [of d l n rest] by linarith

lemma fixed_shrinks: "rl_fixed R n d = Inr (p, rest) \<Longrightarrow> length rest < length d"
  and bytes_shrinks: "rl_bytes R d = Inr (p, rest) \<Longrightarrow> length rest < length d"
proof -
  have "length rest < length d" if "rl_bytes R d = Inr (p, rest) \<or> rl_fixed R n d = Inr (p, rest)"
  proof -
    have "\<exists>k. rest = drop k d \<and> 0 < k \<and> k \<le> length d"
      using that total by (elim disjE) (simp_all add: rlp_total_def)
    then show ?thesis by auto
  qed
  then show "rl_fixed R n d = Inr (p, rest) \<Longrightarrow> length rest < length d"
    "rl_bytes R d = Inr (p, rest) \<Longrightarrow> length rest < length d" by blast+
qed

lemma bytes_reader [safe]: "safe_reader (rl_bytes R)"
  by (simp add: safe_reader_def safe bytes_shrinks)

lemma payload_safe [safe]: "crash_free (lenient_payload R d)"
  unfolding lenient_payload_def by (auto intro!: safe simp: header_shrinks(1))

lemma payload_shrinks: "lenient_payload R d = Inr (p, rest) \<Longrightarrow> length rest < length d"
  unfolding lenient_payload_def by (auto simp: result_simps header_shrinks(3) split: prod.splits)

lemma lenient_safe [safe]:
  "crash_free (decode_u8_lenient R d)" "crash_free (decode_u32_lenient R d)"
  "crash_free (decode_u64_lenient R d)" "crash_free (decode_u256_lenient R d)"
  unfolding decode_u8_lenient_def decode_u32_lenient_def decode_u64_lenient_def decode_u256_lenient_def
  by (auto intro!: safe split: prod.splits list.splits)

lemma lenient_shrinks:
  "decode_u64_lenient R d = Inr (u, rest) \<Longrightarrow> length rest < length d"
  "decode_u256_lenient R d = Inr (w, rest) \<Longrightarrow> length rest < length d"
  unfolding decode_u64_lenient_def decode_u256_lenient_def
  by (auto simp: result_simps payload_shrinks split: if_splits)

lemma u256_reader [safe]: "safe_reader (decode_u256_lenient R)"
  by (simp add: safe_reader_def safe lenient_shrinks)

lemma b256_safe [safe]: "crash_free (decode_b256 R d)"
  unfolding decode_b256_def by (auto intro!: safe)

lemma open_safe [safe]:
  "crash_free (open_item R d)" "crash_free (open_checked R m err d)" "crash_free (open_min R d)"
  unfolding open_item_def open_checked_def open_min_def
  by (auto intro!: safe simp: header_shrinks(1))

lemma open_shrinks:
  "open_item R d = Inr (l, p, rest) \<Longrightarrow> length rest < length d"
  "open_checked R m err d = Inr (l, p, rest) \<Longrightarrow> length rest < length d"
  unfolding open_item_def open_checked_def
  by (auto simp: result_simps header_shrinks(3) split: if_splits)

section \<open>Headers\<close>

lemma count_items_ends [simp]: "\<exists>c. count_items R d = Some c"
proof (induction "length d" arbitrary: d rule: less_induct)
  case less
  show ?case
  proof (cases "rl_header R d")
    case (Inr p)
    obtain l n t where p: "p = (l, n, t)" by (cases p)
    have "length (drop n t) < length d" using header_shrinks(3) Inr p by simp
    then obtain c where "count_items R (drop n t) = Some c" using less by blast
    then show ?thesis by (simp add: count_items.simps [of R d] Inr p)
  qed (simp add: count_items.simps [of R d])
qed

text \<open>The ends found lie within the body.\<close>

lemma item_ends_safe:
  "length d \<le> k \<Longrightarrow> \<exists>r. item_ends R k d = Some r \<and> crash_free r \<and>
     (\<forall>es. r = Inr (Some es) \<longrightarrow> (\<forall>e \<in> set es. e \<le> k))"
proof (induction "length d" arbitrary: d rule: less_induct)
  case less
  show ?case
  proof (cases "d = [] \<or> (\<exists>e. rl_header R d = Inl e)")
    case True
    then show ?thesis by (auto simp: item_ends.simps [of R k d] intro: safe)
  next
    case False
    then obtain l n t where h: "rl_header R d = Inr (l, n, t)" by (cases "rl_header R d") auto
    have shorter: "length (drop n t) < length d" using header_shrinks(3) h by simp
    then have "length (drop n t) \<le> k" using less.prems by linarith
    then obtain r where r: "item_ends R k (drop n t) = Some r" "crash_free r"
        "\<forall>es. r = Inr (Some es) \<longrightarrow> (\<forall>e \<in> set es. e \<le> k)"
      using less.hyps [OF shorter] by blast
    have "item_ends R k d = Some (bindE r (\<lambda>ends. Inr (map_option (\<lambda>es. (k - length (drop n t)) # es) ends)))"
      using False h r(1) \<open>length (drop n t) \<le> k\<close> header_shrinks(1) [OF h] by (simp add: item_ends.simps [of R k d])
    then show ?thesis using r(2,3) by (auto simp: result_simps intro!: safe)
  qed
qed

lemma skip_items_shrinks: "length (skip_items R n d) \<le> length d"
proof (induction n arbitrary: d)
  case (Suc n)
  show ?case
  proof (cases "rl_header R d")
    case (Inr p)
    obtain l m t where p: "p = (l, m, t)" by (cases p)
    have "length (drop m t) \<le> length d" using header_shrinks(2) Inr p by (simp add: le_diff_conv trans_le_add1)
    then show ?thesis using Suc [of "drop m t"] Inr p by auto
  qed simp
qed simp

lemma opt_item_safe [safe]: "crash_free (opt_item R b d)"
  unfolding opt_item_def by (auto intro!: safe)

lemma mining_safe [safe]: "crash_free (decode_mining_fields R h d)"
  unfolding decode_mining_fields_def
  by (auto intro!: safe)

lemma bloom_safe [safe]: "crash_free (decode_bloom R d)"
  unfolding decode_bloom_def Let_def
  by (auto intro!: safe simp: indexing_Inr header_shrinks(2))

lemma fields_safe [safe]: "crash_free (decode_fields R d)"
  unfolding decode_fields_def by (auto intro!: safe)

lemma decode_header_safe [safe]: "crash_free (decode_header R d)"
  unfolding decode_header_def by (auto intro!: safe simp: header_shrinks(1))

lemma rskip92_safe [safe]: "crash_free (rskip92_hash_from_encoded R d)"
proof -
  have "crash_free (bindE (case item_ends R (length b) b of None \<Rightarrow> Inl RlpDiverges | Some r \<Rightarrow> r) (\<lambda>oe. case oe of
      None \<Rightarrow> Inr None
    | Some ends \<Rightarrow> if length ends < 3 then Inr None
        else bindE (usize_sub (length ends) 3) (\<lambda>third_last. bindE (at_index ends third_last) (\<lambda>e.
          bindE (slice_to e b) (\<lambda>payload. Inr (Some (rl_keccak R (wrap_list R payload))))))))" for b
  proof -
    obtain r where r: "item_ends R (length b) b = Some r" "crash_free r"
        "\<And>es e. r = Inr (Some es) \<Longrightarrow> e \<in> set es \<Longrightarrow> e \<le> length b"
      using item_ends_safe [of b "length b"] by auto
    then show ?thesis by (auto intro!: safe simp: indexing_Inr)
  qed
  then have body: "crash_free (let body = b in bindE (case item_ends R (length body) body of None \<Rightarrow> Inl RlpDiverges | Some r \<Rightarrow> r) (\<lambda>oe. case oe of
      None \<Rightarrow> Inr None
    | Some ends \<Rightarrow> if length ends < 3 then Inr None
        else bindE (usize_sub (length ends) 3) (\<lambda>third_last. bindE (at_index ends third_last) (\<lambda>e.
          bindE (slice_to e body) (\<lambda>payload. Inr (Some (rl_keccak R (wrap_list R payload))))))))" for b
    by (simp only: Let_def)
  show ?thesis
    unfolding rskip92_hash_from_encoded_def by (intro safe body)
qed

lemma mm_hash_safe [safe]: "crash_free (mm_hash_from_encoded R umm d)"
proof -
  let ?c = "skip_items R 16 d"
  have c: "length ?c \<le> length d" by (rule skip_items_shrinks)
  have t: "length t \<le> length ?c \<and> length d - length ?c + (length ?c - length t + n) \<le> length d"
    if "rl_header R ?c = Inr (l, n, t)" for l n t
    using header_shrinks(1,2) [OF that] c by linarith
  show ?thesis
    unfolding mm_hash_from_encoded_def Let_def
    by (auto intro!: safe simp: c t result_simps indexing_Inr split: option.splits if_splits sum.splits prod.splits)
qed

lemma decode_header_shrinks: "decode_header R d = Inr (h, rest) \<Longrightarrow> length rest < length d"
  unfolding decode_header_def by (auto simp: result_simps header_shrinks(3))

lemma with_hash_safe [safe]: "crash_free (decode_with_hash R acts d)"
  unfolding decode_with_hash_def Let_def
  by (auto intro!: safe simp: header_shrinks(1) indexing_Inr dest: decode_header_shrinks)

lemma with_hash_shrinks: "decode_with_hash R acts d = Inr (h, rest) \<Longrightarrow> length rest < length d"
proof -
  have same: "bindE r f = Inr (x, rest) \<Longrightarrow> (\<And>v y. f v = Inr (y, rest) \<Longrightarrow> rest = buf) \<Longrightarrow> rest = buf"
    for r :: "'z rlp" and f x rest buf by (cases r) auto
  assume w: "decode_with_hash R acts d = Inr (h, rest)"
  then obtain h0 buf where b: "decode_header R d = Inr (h0, buf)"
    by (cases "decode_header R d") (auto simp: decode_with_hash_def)
  have "rest = buf" using w unfolding decode_with_hash_def b bindE_simps prod.case Let_def
    by (elim same) (auto simp: result_simps split: sum.split_asm prod.split_asm if_split_asm)
  with b show ?thesis using decode_header_shrinks by simp
qed

lemma with_hash_reader [safe]: "safe_reader (decode_with_hash R acts)"
  unfolding safe_reader_def by (auto intro: safe dest: with_hash_shrinks)

section \<open>Transactions and blocks\<close>

lemma transaction_safe [safe]: "crash_free (decode_transaction R d)"
  unfolding decode_transaction_def Let_def
  by (auto intro!: safe simp: header_shrinks(1,2) indexing_Inr intro: le_trans [OF diff_le_self])

lemma transaction_shrinks: "decode_transaction R d = Inr (t, rest) \<Longrightarrow> length rest < length d"
proof -
  assume "decode_transaction R d = Inr (t, rest)"
  then obtain l n buf where "rl_header R d = Inr (l, n, buf)" "rest = drop n buf"
    by (auto simp: decode_transaction_def result_simps Let_def split: prod.splits)
  then show ?thesis by (simp add: header_shrinks(3))
qed

lemma transaction_reader [safe]: "safe_reader (decode_transaction R)"
  unfolding safe_reader_def by (auto intro: safe dest: transaction_shrinks)

lemma block_safe [safe]: "crash_free (decode_block R acts d)"
  unfolding decode_block_def by (auto intro!: safe)

lemma blob_reader [safe]: "safe_reader (decode_block_blob R acts)"
proof -
  have "crash_free (decode_block_blob R acts d)" for d
    unfolding decode_block_blob_def by (auto intro!: safe)
  moreover have "length rest < length d" if "decode_block_blob R acts d = Inr (b, rest)" for b rest d
    using that bytes_shrinks unfolding decode_block_blob_def by (auto simp: result_simps)
  ultimately show ?thesis by (auto simp: safe_reader_def)
qed

lemma blocks_safe [safe]: "crash_free (decode_blocks_and_difficulties R acts d)"
  unfolding decode_blocks_and_difficulties_def by (auto intro!: safe)

section \<open>Snap bodies\<close>

lemma entry_reader [safe]: "safe_reader (decode_snap_entry R)"
proof -
  have "crash_free (decode_snap_entry R d)" for d
    unfolding decode_snap_entry_def by (auto intro!: safe)
  moreover have "length rest < length d" if "decode_snap_entry R d = Inr (b, rest)" for b rest d
    using that open_shrinks(2) unfolding decode_snap_entry_def by (auto simp: result_simps)
  ultimately show ?thesis by (auto simp: safe_reader_def)
qed

lemma chunk_safe [safe]: "crash_free (decode_chunk_payload R d)"
  unfolding decode_chunk_payload_def by (auto intro!: safe)

lemma split_id_safe [safe]: "crash_free (split_id R d)"
  unfolding split_id_def by (auto intro!: safe)

lemma trailing_safe [safe]: "crash_free (trailing_u64 R d)"
  unfolding trailing_u64_def by (auto intro!: safe)

lemma snap_safe [safe]:
  "crash_free (decode_snap_status_request R d)" "crash_free (decode_snap_status_response R acts d)"
  "crash_free (decode_snap_chunk_request R d)" "crash_free (decode_snap_chunk_response R d)"
  "crash_free (decode_snap_blocks_request R d)" "crash_free (decode_snap_blocks_response R acts d)"
  unfolding decode_snap_status_request_def decode_snap_status_response_def decode_snap_chunk_request_def
    decode_snap_chunk_response_def decode_snap_blocks_request_def decode_snap_blocks_response_def
  by (auto intro!: safe)

section \<open>Messages\<close>

lemma status_safe [safe]: "crash_free (decode_status_fields R d)"
  unfolding decode_status_fields_def by (auto intro!: safe)

lemma open_id_safe [safe]: "crash_free (open_id R d)" "crash_free (decode_query R d)"
proof -
  show i: "crash_free (open_id R d)" for d
    unfolding open_id_def by (auto intro!: safe)
  show "crash_free (decode_query R d)"
    unfolding decode_query_def by (auto intro!: safe i)
qed

lemma raw_header_reader [safe]: "safe_reader (decode_raw_header R acts)"
  using with_hash_reader [of acts] unfolding safe_reader_def decode_raw_header_def
  by (auto intro!: safe simp: result_simps indexing_Inr less_imp_le split: prod.splits)

lemma identifier_reader [safe]: "safe_reader (decode_identifier R)"
proof -
  have "crash_free (decode_identifier R d)" for d
    unfolding decode_identifier_def by (auto intro!: safe)
  moreover have "length rest < length d" if "decode_identifier R d = Inr (b, rest)" for b rest d
    using that open_shrinks(1) unfolding decode_identifier_def by (auto simp: result_simps)
  ultimately show ?thesis by (auto simp: safe_reader_def)
qed

lemma whole_reader [safe]: "safe_reader (take_whole R)"
proof -
  have "crash_free (take_whole R d)" for d
    unfolding take_whole_def Let_def by (auto intro!: safe simp: indexing_Inr header_shrinks(2))
  moreover have "length rest < length d" if t: "take_whole R d = Inr (b, rest)" for b rest d
  proof -
    obtain l n x where h: "rl_header R d = Inr (l, n, x)" and r: "rest = drop (length d - length x + n) d"
      using t by (auto simp: take_whole_def Let_def result_simps indexing_Inr split: prod.splits)
    have "0 < length d - length x + n" using header_shrinks [OF h] by linarith
    moreover have "0 < length d" using header_shrinks(3) [OF h] by linarith
    ultimately show ?thesis by (simp add: r)
  qed
  ultimately show ?thesis by (auto simp: safe_reader_def)
qed

lemma with_uncles_reader [safe]: "safe_reader (decode_with_uncles R acts)"
proof -
  have "crash_free (decode_with_uncles R acts d)" for d
    unfolding decode_with_uncles_def Let_def by (auto intro!: safe simp: indexing_Inr header_shrinks(2))
  moreover have "length rest < length d" if "decode_with_uncles R acts d = Inr (b, rest)" for b rest d
    using that open_shrinks(2) unfolding decode_with_uncles_def Let_def by (auto simp: result_simps)
  ultimately show ?thesis by (auto simp: safe_reader_def)
qed

lemma responses_safe [safe]:
  "crash_free (decode_headers_response R acts d)" "crash_free (decode_skeleton_response R d)"
  "crash_free (decode_body_response R acts d)" "crash_free (decode_new_block_hashes R d)"
  "crash_free (decode_transactions R d)" "crash_free (decode_with_uncles_response R acts d)"
  "crash_free (decode_block_range R d)"
  unfolding decode_headers_response_def decode_skeleton_response_def decode_body_response_def
    decode_new_block_hashes_def decode_transactions_def decode_with_uncles_response_def decode_block_range_def
  by (auto intro!: safe)

lemma sub_message_safe [safe]: "crash_free (decode_sub_message R acts ty d)"
  unfolding decode_sub_message_def by (auto intro!: safe)

lemma message_safe [safe]: "crash_free (decode_message R acts d)"
  unfolding decode_message_def
  by (auto intro!: safe simp: header_shrinks(1))

end

text \<open>The concrete codec is such a library.\<close>

interpretation std_total: total_rlp rlp_std
  by unfold_locales (rule rlp_std_ok, rule rlp_std_total)

text \<open>C17. No message crashes the node: whatever bytes arrive, decoding them as a message of the \<open>rsk\<close>
  subprotocol returns a message or an error; no slice is out of range and no loop runs forever,
  in the header and transaction decoders it calls included.\<close>

theorem decoding_never_crashes:
  assumes "rlp_ok R" and "rlp_total R"
  shows "decode_message R acts bs \<noteq> Inl RlpPanic \<and> decode_message R acts bs \<noteq> Inl RlpDiverges"
  using total_rlp.message_safe [OF total_rlp.intro [OF assms], of acts bs] by (simp add: crash_free_def)

lemma decoding_never_crashes_witness:
  "decode_message rlp_std activations_mainnet [0xc4, 0xc3, 0x01, 0x81, 0xff] \<noteq> Inl RlpPanic \<and>
   decode_message rlp_std activations_mainnet [0xc4, 0xc3, 0x01, 0x81, 0xff] \<noteq> Inl RlpDiverges"
  by (rule decoding_never_crashes [OF rlp_std_ok rlp_std_total])

end
