(* ===== verification/Rlp_Derive.thy ===== *)
theory Rlp_Derive
  imports Wire_Codecs
begin

text \<open>
  The codecs the code derives: \<open>RlpEncodable\<close> and \<open>RlpDecodable\<close> structs, vectors, strings and the strict
  integers of the \<open>alloy_rlp\<close> crate, which refuse leading zeros. The integer reader is a parameter, and
  \<open>std_uint\<close> an instance of it.
\<close>

section \<open>Integers\<close>

text \<open>A reader of integers of \<open>k\<close> bytes.\<close>

type_synonym uint_reader = "nat \<Rightarrow> bytes \<Rightarrow> (nat \<times> bytes) rlp"

definition uint_ok :: "rlp_lib \<Rightarrow> uint_reader \<Rightarrow> bool" where
  "uint_ok R U \<longleftrightarrow>
     (\<forall>k n rest. 0 < k \<longrightarrow> k \<le> 8 \<longrightarrow> n < 256 ^ k \<longrightarrow> U k (rl_string_bytes R (strip_zeros (nat_bytes k n)) @ rest) = Inr (n, rest)) \<and>
     (\<forall>k d. crash_free (U k d) \<and> (\<forall>n rest. U k d = Inr (n, rest) \<longrightarrow> n < 256 ^ k \<and> (\<exists>j>0. j \<le> length d \<and> rest = drop j d)))"

definition std_uint :: uint_reader where
  "std_uint k d = bindE (std_bytes d) (\<lambda>(p, rest).
     if k < length p then Inl Overflow
     else if p \<noteq> [] \<and> hd p = 0 then Inl (RlpOther ''leading zero'')
     else Inr (be_nat p, rest))"

definition decode_u8 :: "uint_reader \<Rightarrow> bytes \<Rightarrow> (u8 \<times> bytes) rlp" where
  "decode_u8 U d = bindE (U 1 d) (\<lambda>(n, rest). Inr (of_nat n, rest))"

definition decode_u16 :: "uint_reader \<Rightarrow> bytes \<Rightarrow> (16 word \<times> bytes) rlp" where
  "decode_u16 U d = bindE (U 2 d) (\<lambda>(n, rest). Inr (of_nat n, rest))"

definition decode_u64 :: "uint_reader \<Rightarrow> bytes \<Rightarrow> (u64 \<times> bytes) rlp" where
  "decode_u64 U d = bindE (U 8 d) (\<lambda>(n, rest). Inr (of_nat n, rest))"

definition rl_u16_bytes :: "rlp_lib \<Rightarrow> 16 word \<Rightarrow> bytes" where
  "rl_u16_bytes R v = rl_string_bytes R (strip_zeros (to_be 2 v))"

definition rl_b512_bytes :: "rlp_lib \<Rightarrow> 512 word \<Rightarrow> bytes" where
  "rl_b512_bytes R v = rl_string_bytes R (to_be 64 v)"

definition decode_b512 :: "rlp_lib \<Rightarrow> bytes \<Rightarrow> (512 word \<times> bytes) rlp" where
  "decode_b512 R d = bindE (rl_fixed R 64 d) (\<lambda>(p, rest). Inr (from_be p, rest))"

section \<open>Strings, vectors and structs\<close>

definition decode_str :: "rlp_lib \<Rightarrow> bytes \<Rightarrow> (bytes \<times> bytes) rlp" where
  "decode_str R d = bindE (rl_bytes R d) (\<lambda>(p, rest).
     bindE (ensure (utf8_ok p) (RlpOther ''invalid string'')) (\<lambda>_. Inr (p, rest)))"

definition read_vec :: "rlp_lib \<Rightarrow> (bytes \<Rightarrow> ('a \<times> bytes) rlp) \<Rightarrow> bytes \<Rightarrow> ('a list \<times> bytes) rlp" where
  "read_vec R dec buf =
     bindE (rl_header R buf) (\<lambda>(is_list, n, b).
     bindE (ensure is_list UnexpectedString) (\<lambda>_.
     bindE (read_all dec (take n b)) (\<lambda>vs. Inr (vs, drop n b))))"

text \<open>A derived struct reads its fields in order and then compares what it consumed with the length
  its list announced.\<close>

definition read_struct :: "rlp_lib \<Rightarrow> (bytes \<Rightarrow> ('a \<times> bytes) rlp) \<Rightarrow> bytes \<Rightarrow> ('a \<times> bytes) rlp" where
  "read_struct R getf buf =
     bindE (rl_header R buf) (\<lambda>(is_list, n, b).
     bindE (ensure is_list UnexpectedString) (\<lambda>_.
     bindE (ensure (n \<le> length b) InputTooShort) (\<lambda>_.
     bindE (getf b) (\<lambda>(v, b').
     bindE (ensure (length b - length b' = n) (RlpOther ''list length mismatch'')) (\<lambda>_. Inr (v, b'))))))"

section \<open>What they read back\<close>

lemma uint_reads [codec]:
  assumes "uint_ok R U"
  shows "decode_u8 U (rl_u8_bytes R a @ rest) = Inr (a, rest)"
    and "decode_u16 U (rl_u16_bytes R b @ rest) = Inr (b, rest)"
    and "decode_u64 U (rl_u64_bytes R c @ rest) = Inr (c, rest)"
proof -
  have u: "0 < k \<Longrightarrow> k \<le> 8 \<Longrightarrow> n < 256 ^ k \<Longrightarrow> U k (rl_string_bytes R (strip_zeros (nat_bytes k n)) @ rest) = Inr (n, rest)" for k n
    using assms unfolding uint_ok_def by blast
  have "unat a < 256 ^ 1" "unat b < 256 ^ 2" "unat c < 256 ^ 8"
    using unat_less_exp [of a] unat_less_exp [of b] unat_less_exp [of c] by simp_all
  note v = u [OF _ _ this(1)] u [OF _ _ this(2)] u [OF _ _ this(3)]
  have "nat_bytes 1 (unat a) = [a]" using unat_less_exp [of a] by simp
  with v show "decode_u8 U (rl_u8_bytes R a @ rest) = Inr (a, rest)"
    and "decode_u16 U (rl_u16_bytes R b @ rest) = Inr (b, rest)"
    and "decode_u64 U (rl_u64_bytes R c @ rest) = Inr (c, rest)"
    by (simp_all add: decode_u8_def decode_u16_def decode_u64_def rl_u8_bytes_def rl_u16_bytes_def rl_u64_bytes_def to_be_def)
qed

lemma b512_reads [codec]: "rlp_ok R \<Longrightarrow> decode_b512 R (rl_b512_bytes R h @ rest) = Inr (h, rest)"
  by (simp add: decode_b512_def rl_b512_bytes_def rlp_laws(4) from_be_to_be)

lemma str_reads [codec]: "rlp_ok R \<Longrightarrow> fits p \<Longrightarrow> utf8_ok p \<Longrightarrow> decode_str R (rl_string_bytes R p @ rest) = Inr (p, rest)"
  by (simp add: decode_str_def codec ensure_def)

lemma struct_reads [codec]:
  "rlp_ok R \<Longrightarrow> fits p \<Longrightarrow> getf (p @ rest) = Inr (v, rest) \<Longrightarrow> read_struct R getf (wrap_list R p @ rest) = Inr (v, rest)"
  by (simp add: read_struct_def codec ensure_def)

context wire_codec begin

lemma vec_reads:
  "rlp_ok R \<Longrightarrow> \<forall>v \<in> set vs. ok v \<Longrightarrow> fits (concat (map enc vs)) \<Longrightarrow>
     read_vec R dec (wrap_list R (concat (map enc vs)) @ rest) = Inr (map norm vs, rest)"
  by (simp add: read_vec_def codec ensure_def read_all_enc)

end

lemma std_wrap_length: "length (wrap_list rlp_std p) \<le> length p + 9"
  using length_strip_zeros [of "nat_bytes 8 (length p)"]
  by (simp add: wrap_list_def rlp_std_def std_header_bytes_def Let_def)

lemma uint_std_ok: "uint_ok rlp_std std_uint"
  unfolding uint_ok_def
proof (intro conjI allI impI)
  fix k n rest assume k: "0 < k" "k \<le> 8" and n: "n < (256::nat) ^ k"
  let ?p = "strip_zeros (nat_bytes k n)"
  have len: "length ?p \<le> k" using length_strip_zeros [of "nat_bytes k n"] by simp
  have val: "be_nat ?p = n" using n by (simp add: be_nat_strip be_nat_nat_bytes)
  have "?p = [] \<or> hd ?p \<noteq> 0" using hd_dropWhile [of "\<lambda>b. b = 0" "nat_bytes k n"] by (auto simp: strip_zeros_def)
  moreover have "length ?p < 2 ^ 64" using len k by (simp add: less_le_trans)
  then have "std_bytes (std_string_bytes ?p @ rest) = Inr (?p, rest)"
    by (simp add: std_bytes_def std_header_of_string)
  ultimately show "std_uint k (rl_string_bytes rlp_std ?p @ rest) = Inr (n, rest)"
    using len val by (auto simp: std_uint_def rlp_std_def)
next
  fix k d
  have "crash_free (std_bytes d)" using rlp_std_total unfolding rlp_total_def by (simp add: rlp_std_def)
  then show "crash_free (std_uint k d)"
    by (cases "std_bytes d") (auto simp: std_uint_def crash_free_def split: if_splits)
  fix n rest assume r: "std_uint k d = Inr (n, rest)"
  then obtain p where p: "std_bytes d = Inr (p, rest)" "length p \<le> k" "n = be_nat p"
    by (auto simp: std_uint_def result_simps split: if_splits)
  have "be_nat p < 256 ^ length p" by (rule be_nat_bound)
  also have "\<dots> \<le> 256 ^ k" using p(2) by (simp add: power_increasing)
  finally show "n < 256 ^ k" using p(3) by simp
  show "\<exists>j>0. j \<le> length d \<and> rest = drop j d" using std_bytes_suffix [OF p(1)] by blast
qed

lemma uint_drops:
  assumes "uint_ok R U" and "decode_u8 U d = Inr (v, rest)"
  shows "\<exists>j>0. j \<le> length d \<and> rest = drop j d"
  using assms unfolding uint_ok_def decode_u8_def by (auto simp: result_simps)

end
