(* ===== verification/Frame.thy ===== *)
theory Frame
  imports Rlp_Derive
begin

text \<open>
  \<open>crates/rsk-p2p/src/rlpx/frame.rs\<close>: the frames that carry messages once the keys are agreed. The
  ciphers and the hash are parameters: a keystream (AES-256 in counter mode from a zero
  block), the AES-256 block encryption, and Keccak-256, whose running state is the bytes absorbed.
  The integers of the \<open>alloy_rlp\<close> crate are read by a parameter as well.
\<close>

section \<open>Ciphers\<close>

text \<open>Byte \<open>i\<close> of the keystream of a key, and the encryption of one block.\<close>

record frame_ciphers =
  fc_keystream :: "b256 \<Rightarrow> nat \<Rightarrow> u8"
  fc_encrypt_block :: "b256 \<Rightarrow> bytes \<Rightarrow> bytes"

definition xor_bytes :: "bytes \<Rightarrow> bytes \<Rightarrow> bytes" where
  "xor_bytes a b = map2 Bit_Operations.xor a b"

lemma length_xor_bytes [simp]: "length (xor_bytes a b) = min (length a) (length b)"
  by (simp add: xor_bytes_def)

lemma xor_bytes_cancel: "length d \<le> length k \<Longrightarrow> xor_bytes (xor_bytes d k) k = d"
  by (rule nth_equalityI) (auto simp: xor_bytes_def xor.assoc)

text \<open>A stream cipher is its key and the number of bytes it has gone through.\<close>

record stream_cipher =
  sc_key :: b256
  sc_pos :: nat

definition apply_keystream :: "frame_ciphers \<Rightarrow> stream_cipher \<Rightarrow> bytes \<Rightarrow> bytes \<times> stream_cipher" where
  "apply_keystream F c d =
     (xor_bytes d (map (fc_keystream F (sc_key c)) [sc_pos c..<sc_pos c + length d]), c\<lparr> sc_pos := sc_pos c + length d \<rparr>)"

definition do_sum_static :: "rlp_lib \<Rightarrow> bytes \<Rightarrow> bytes" where
  "do_sum_static R mac = to_be 32 (rl_keccak R mac)"

definition update_mac_static :: "rlp_lib \<Rightarrow> frame_ciphers \<Rightarrow> b256 \<Rightarrow> bytes \<Rightarrow> bytes \<Rightarrow> bytes \<times> bytes" where
  "update_mac_static R F mac_secret mac seed =
     (let aes_block = do_sum_static R mac;
          block = fc_encrypt_block F mac_secret (take 16 aes_block);
          mac' = mac @ xor_bytes block seed
      in (do_sum_static R mac', mac'))"

section \<open>State\<close>

record rlpx_secrets =
  sec_aes :: b256
  sec_mac :: b256
  sec_token :: b256
  sec_egress_mac :: bytes
  sec_ingress_mac :: bytes

datatype frame_type =
    Normal
  | ChunkedFirst u64 u64
  | ChunkedContinuation u64

record frame_codec =
  fr_enc :: stream_cipher
  fr_dec :: stream_cipher
  fr_mac_secret :: b256
  fr_egress_mac :: bytes
  fr_ingress_mac :: bytes
  fr_is_head_read :: bool
  fr_total_body_size :: nat
  fr_current_frame_type :: frame_type
  fr_assembling :: bool
  fr_assembly_buf :: bytes
  fr_assembly_expected :: u64
  fr_assembly_protocol_id :: u8

definition MAX_ASSEMBLED_MESSAGE_SIZE :: nat where
  "MAX_ASSEMBLED_MESSAGE_SIZE = 16 * 1024 * 1024"

definition new_frame_codec :: "rlpx_secrets \<Rightarrow> frame_codec" where
  "new_frame_codec secrets =
     \<lparr> fr_enc = \<lparr> sc_key = sec_aes secrets, sc_pos = 0 \<rparr>, fr_dec = \<lparr> sc_key = sec_aes secrets, sc_pos = 0 \<rparr>,
       fr_mac_secret = sec_mac secrets, fr_egress_mac = sec_egress_mac secrets, fr_ingress_mac = sec_ingress_mac secrets,
       fr_is_head_read = False, fr_total_body_size = 0, fr_current_frame_type = Normal, fr_assembling = False,
       fr_assembly_buf = [], fr_assembly_expected = 0, fr_assembly_protocol_id = 0 \<rparr>"

section \<open>Encoding\<close>

definition frame_padding :: "nat \<Rightarrow> nat" where
  "frame_padding n = (let padding = 16 - n mod 16 in if padding = 16 then 0 else padding)"

text \<open>The first sixteen bytes of a frame before they are encrypted: three bytes of size, the
  header data and zeros.\<close>

definition frame_head :: "rlp_lib \<Rightarrow> nat \<Rightarrow> bytes" where
  "frame_head R actual_total_size =
     take 16 (nat_bytes 3 actual_total_size @ wrap_list R (rl_u8_bytes R 0) @ replicate 16 0)"

definition encode_frame :: "rlp_lib \<Rightarrow> frame_ciphers \<Rightarrow> frame_codec \<Rightarrow> u8 \<Rightarrow> bytes \<Rightarrow> bytes \<times> frame_codec" where
  "encode_frame R F c protocol_id payload =
     (let proto_rlp = rl_u8_bytes R protocol_id;
          actual_total_size = length payload + length proto_rlp;
          (head, enc1) = apply_keystream F (fr_enc c) (frame_head R actual_total_size);
          (mac, egress1) = update_mac_static R F (fr_mac_secret c) (fr_egress_mac c) head;
          body = proto_rlp @ payload @ replicate (frame_padding actual_total_size) 0;
          (body, enc2) = apply_keystream F enc1 body;
          egress2 = egress1 @ body;
          fmac_seed = do_sum_static R egress2;
          (fmac, egress3) = update_mac_static R F (fr_mac_secret c) egress2 (take 16 fmac_seed)
      in (head @ take 16 mac @ body @ take 16 fmac, c\<lparr> fr_enc := enc2, fr_egress_mac := egress3 \<rparr>))"

section \<open>The header of a frame\<close>

text \<open>The elements of the header data: at most four integers, and nothing after the first that is
  out of range or oddly encoded.\<close>

function header_elems :: "nat \<Rightarrow> bytes \<Rightarrow> u64 list" where
  "header_elems n data =
    (if 4 \<le> n then []
     else case data of
       [] \<Rightarrow> []
     | b # rest \<Rightarrow>
         if b = 0 \<or> b = 0x80 then 0 # header_elems (n + 1) rest
         else if b < 0x80 then ucast b # header_elems (n + 1) rest
         else if b \<le> 0xB7 then
           (let slen = unat (b - 0x80)
            in if length rest < slen then [] else foldl shift_in 0 (take slen rest) # header_elems (n + 1) (drop slen rest))
         else [])"
  by pat_completeness auto
termination by (relation "measure (\<lambda>(n, data). length data)") auto

declare header_elems.simps [simp del]

text \<open>Where the list of the header data starts and how long it says it is.\<close>

definition header_span :: "bytes \<Rightarrow> (u64 \<times> u64) option" where
  "header_span data =
    (let prefix = hd data
     in if prefix \<le> 0xF7 then Some (1, ucast (prefix - 0xC0))
        else let ll = unat (prefix - 0xF7)
             in if length data < 1 + ll then None
                else Some (of_nat (1 + ll), foldl shift_in 0 (take ll (tl data))))"

text \<open>\<open>None\<close> is the panic of a slice that ends before it starts.\<close>

definition parse_header_data :: "bytes \<Rightarrow> frame_type option" where
  "parse_header_data data =
    (if data = [] then Some Normal
     else if hd data < 0xC0 then Some Normal
     else case header_span data of
       None \<Rightarrow> Some Normal
     | Some (list_start, list_len) \<Rightarrow>
         let list_end = min (length data) (unat (list_start + list_len))
         in if list_end < unat list_start then None
            else Some (case header_elems 0 (slice (unat list_start) list_end data) of
                [_, context_id, total_size] \<Rightarrow> ChunkedFirst context_id total_size
              | [_, context_id] \<Rightarrow> ChunkedContinuation context_id
              | _ \<Rightarrow> Normal))"

section \<open>Decoding\<close>

datatype frame_error =
    HeaderMacMismatch
  | FrameMacMismatch
  | DeclaredTooLarge u64
  | AssemblyTooLarge
  | FrameRlp rlp_error
  | FramePanic

definition reset_assembly :: "frame_codec \<Rightarrow> frame_codec" where
  "reset_assembly c = c\<lparr> fr_assembling := False, fr_assembly_expected := 0, fr_assembly_protocol_id := 0, fr_assembly_buf := [] \<rparr>"

text \<open>The thirty-two bytes of a header.\<close>

definition decode_head :: "rlp_lib \<Rightarrow> frame_ciphers \<Rightarrow> frame_codec \<Rightarrow> bytes \<Rightarrow> frame_error option \<times> frame_codec \<times> bytes" where
  "decode_head R F c src =
     (let head = take 32 src;
          (mac, ingress1) = update_mac_static R F (fr_mac_secret c) (fr_ingress_mac c) (take 16 head);
          c1 = c\<lparr> fr_ingress_mac := ingress1 \<rparr>
      in if drop 16 head \<noteq> take 16 mac then (Some HeaderMacMismatch, c1, src)
         else
           let (plain, dec1) = apply_keystream F (fr_dec c) (take 16 head);
               c2 = c1\<lparr> fr_dec := dec1, fr_total_body_size := be_nat (take 3 plain) \<rparr>
           in case parse_header_data (drop 3 plain) of
                None \<Rightarrow> (Some FramePanic, c2, src)
              | Some ft \<Rightarrow> (None, c2\<lparr> fr_current_frame_type := ft, fr_is_head_read := True \<rparr>, drop 32 src))"

text \<open>A message is handed on once its buffer holds as much as its first frame declared.\<close>

definition finish_assembly :: "frame_codec \<Rightarrow> (frame_error + (u8 \<times> bytes) option) \<times> frame_codec" where
  "finish_assembly c =
    (if unat (fr_assembly_expected c) \<le> length (fr_assembly_buf c)
     then (Inr (Some (fr_assembly_protocol_id c, take (unat (fr_assembly_expected c)) (fr_assembly_buf c))),
           c\<lparr> fr_assembling := False, fr_assembly_buf := [] \<rparr>)
     else (Inr None, c))"

definition handle_body :: "uint_reader \<Rightarrow> frame_codec \<Rightarrow> bytes \<Rightarrow> (frame_error + (u8 \<times> bytes) option) \<times> frame_codec" where
  "handle_body U c body_data =
    (case fr_current_frame_type c of
       ChunkedFirst _ total_size \<Rightarrow>
         if MAX_ASSEMBLED_MESSAGE_SIZE < unat total_size then (Inl (DeclaredTooLarge total_size), reset_assembly c)
         else (case decode_u8 U body_data of
             Inl e \<Rightarrow> (Inl (FrameRlp e), c)
           | Inr (protocol_id, rlp_chunk) \<Rightarrow>
               finish_assembly (c\<lparr> fr_assembling := True, fr_assembly_expected := total_size,
                 fr_assembly_protocol_id := protocol_id, fr_assembly_buf := rlp_chunk \<rparr>))
     | ChunkedContinuation _ \<Rightarrow>
         if fr_assembling c then
           (case decode_u8 U body_data of
              Inl e \<Rightarrow> (Inl (FrameRlp e), c)
            | Inr (_, rlp_chunk) \<Rightarrow>
                if MAX_ASSEMBLED_MESSAGE_SIZE < length (fr_assembly_buf c) + length rlp_chunk
                then (Inl AssemblyTooLarge, reset_assembly c)
                else finish_assembly (c\<lparr> fr_assembly_buf := fr_assembly_buf c @ rlp_chunk \<rparr>))
         else (Inr None, c)
     | Normal \<Rightarrow>
         (case decode_u8 U body_data of
            Inl e \<Rightarrow> (Inl (FrameRlp e), c)
          | Inr (protocol_id, payload) \<Rightarrow> (Inr (Some (protocol_id, payload)), c)))"

definition decode_body :: "rlp_lib \<Rightarrow> frame_ciphers \<Rightarrow> uint_reader \<Rightarrow> frame_codec \<Rightarrow> bytes \<Rightarrow>
    (frame_error + (u8 \<times> bytes) option) \<times> frame_codec \<times> bytes" where
  "decode_body R F U c src =
     (let n = fr_total_body_size c;
          body_size = n + frame_padding n
      in if length src < body_size + 16 then (Inr None, c, src)
         else
           let body = take body_size src;
               provided_fmac = slice body_size (body_size + 16) src;
               rest = drop (body_size + 16) src;
               ingress1 = fr_ingress_mac c @ body;
               fmac_seed = do_sum_static R ingress1;
               (fmac, ingress2) = update_mac_static R F (fr_mac_secret c) ingress1 (take 16 fmac_seed);
               c1 = c\<lparr> fr_ingress_mac := ingress2 \<rparr>
           in if provided_fmac \<noteq> take 16 fmac then (Inl FrameMacMismatch, c1, rest)
              else
                let (plain, dec1) = apply_keystream F (fr_dec c) body;
                    (r, c2) = handle_body U (c1\<lparr> fr_dec := dec1, fr_is_head_read := False \<rparr>) (take n plain)
                in (r, c2, rest))"

definition decode_frame :: "rlp_lib \<Rightarrow> frame_ciphers \<Rightarrow> uint_reader \<Rightarrow> frame_codec \<Rightarrow> bytes \<Rightarrow>
    (frame_error + (u8 \<times> bytes) option) \<times> frame_codec \<times> bytes" where
  "decode_frame R F U c src =
    (if fr_is_head_read c then decode_body R F U c src
     else if length src < 32 then (Inr None, c, src)
     else case decode_head R F c src of
         (Some e, c', src') \<Rightarrow> (Inl e, c', src')
       | (None, c', src') \<Rightarrow> decode_body R F U c' src')"

end
