(* ===== verification/Frame_Channel.thy ===== *)
theory Frame_Channel
  imports Frame
begin

text \<open>
  What the frames promise: a stream of frames, delivered in pieces of any size, hands over the messages
  that were sent, in order and none missing; and whatever a peer sends, the buffer of a
  chunked message stays within its bound.
\<close>

section \<open>The ciphers cancel\<close>

lemma keystream_cancels:
  assumes "apply_keystream F c d = (e, c')"
  shows "apply_keystream F c e = (d, c')" and "length e = length d"
  using assms by (auto simp: apply_keystream_def xor_bytes_cancel)

lemma length_mac [simp]: "update_mac_static R F k m seed = (mac, m') \<Longrightarrow> length mac = 32"
  by (auto simp: update_mac_static_def do_sum_static_def Let_def)

section \<open>One frame\<close>

text \<open>A receiver in step with a sender: both stand at the same byte of the keystream and have absorbed
  the same bytes.\<close>

definition synced :: "frame_codec \<Rightarrow> frame_codec \<Rightarrow> bool" where
  "synced s r \<longleftrightarrow> fr_dec r = fr_enc s \<and> fr_ingress_mac r = fr_egress_mac s \<and> fr_mac_secret r = fr_mac_secret s \<and>
     \<not> fr_is_head_read r"

text \<open>The three bytes of size hold lengths below \<open>2 ^ 24\<close>.\<close>

definition frame_size :: "rlp_lib \<Rightarrow> u8 \<times> bytes \<Rightarrow> nat" where
  "frame_size R m = length (snd m) + length (rl_u8_bytes R (fst m))"

definition sendable :: "rlp_lib \<Rightarrow> u8 \<times> bytes \<Rightarrow> bool" where
  "sendable R m \<longleftrightarrow> frame_size R m < 2 ^ 24"

definition frame_ok :: "rlp_lib \<Rightarrow> uint_reader \<Rightarrow> bool" where
  "frame_ok R U \<longleftrightarrow> rlp_ok R \<and> uint_ok R U \<and> rl_header_bytes R True 1 = [0xC1]"

lemma frame_head_eq:
  assumes "frame_ok R U"
  shows "frame_head R n = nat_bytes 3 n @ [0xC1, 0x80] @ replicate 11 0"
  using assms by (simp add: frame_ok_def frame_head_def wrap_list_def rl_u8_bytes_def strip_zeros_def rlp_empty_string
      eval_nat_numeral del: nat_bytes.simps)

lemma frame_head_reads:
  assumes "frame_ok R U" and "n < 2 ^ 24"
  shows "length (frame_head R n) = 16" and "be_nat (take 3 (frame_head R n)) = n"
    and "parse_header_data (drop 3 (frame_head R n)) = Some Normal"
  using assms(2)
  by (simp_all add: frame_head_eq [OF assms(1)] be_nat_nat_bytes parse_header_data_def header_span_def slice_def
      header_elems.simps Let_def del: nat_bytes.simps)

text \<open>The header of a frame is read on its own, and then its body.\<close>

lemma frame_decodes:
  assumes ok: "frame_ok R U" and sync: "synced s r" and small: "sendable R m"
    and enc: "encode_frame R F s (fst m) (snd m) = (fr, s')"
  obtains rh r' where
    "length fr = 32 + (frame_size R m + frame_padding (frame_size R m) + 16)"
    and "\<And>y. decode_head R F r (take 32 fr @ y) = (None, rh, y)"
    and "fr_is_head_read rh" and "fr_total_body_size rh = frame_size R m"
    and "\<And>rest. decode_body R F U rh (drop 32 fr @ rest) = (Inr (Some m), r', rest)"
    and "synced s' r'"
proof -
  define n where "n = frame_size R m"
  define pad where "pad = frame_padding n"
  obtain head enc1 where head: "apply_keystream F (fr_enc s) (frame_head R n) = (head, enc1)" by fastforce
  obtain mac eg1 where mac: "update_mac_static R F (fr_mac_secret s) (fr_egress_mac s) head = (mac, eg1)" by fastforce
  define pl where "pl = rl_u8_bytes R (fst m) @ snd m @ replicate pad 0"
  obtain body enc2 where body: "apply_keystream F enc1 pl = (body, enc2)" by fastforce
  obtain fmac eg3 where fmac: "update_mac_static R F (fr_mac_secret s) (eg1 @ body) (take 16 (do_sum_static R (eg1 @ body))) = (fmac, eg3)"
    by fastforce
  have fr: "fr = head @ take 16 mac @ body @ take 16 fmac" "s' = s\<lparr> fr_enc := enc2, fr_egress_mac := eg3 \<rparr>"
    using enc head mac body fmac
    by (auto simp: encode_frame_def Let_def n_def [unfolded frame_size_def] frame_size_def pad_def pl_def)
  have n: "n < 2 ^ 24" using small by (simp add: sendable_def n_def)
  have len: "length head = 16" "length body = n + pad" "length mac = 32" "length fmac = 32" "length pl = n + pad"
    using keystream_cancels(2) [OF head] keystream_cancels(2) [OF body] frame_head_reads(1) [OF ok n] mac fmac
    by (auto simp: pl_def n_def frame_size_def)
  define rh where "rh = r\<lparr> fr_ingress_mac := eg1, fr_dec := enc1, fr_total_body_size := n,
    fr_current_frame_type := Normal, fr_is_head_read := True \<rparr>"
  define r' where "r' = rh\<lparr> fr_ingress_mac := eg3, fr_dec := enc2, fr_is_head_read := False \<rparr>"
  have t: "take 32 fr = head @ take 16 mac" "drop 32 fr = body @ take 16 fmac" using len by (simp_all add: fr)
  have "decode_head R F r (take 32 fr @ y) = (None, rh, y)" for y
    using sync len by (simp add: decode_head_def t synced_def Let_def mac keystream_cancels(1) [OF head]
        frame_head_reads [OF ok n] rh_def)
  moreover have "decode_body R F U rh (drop 32 fr @ rest) = (Inr (Some m), r', rest)" for rest
  proof -
    have "decode_u8 U (rl_u8_bytes R (fst m) @ snd m) = Inr (fst m, snd m)"
      using ok by (simp add: frame_ok_def uint_reads)
    moreover have "take n pl = rl_u8_bytes R (fst m) @ snd m" by (simp add: pl_def n_def frame_size_def)
    ultimately have h: "fr_current_frame_type c = Normal \<Longrightarrow> handle_body U c (take n pl) = (Inr (Some m), c)" for c
      by (simp add: handle_body_def)
    show ?thesis
      using sync len
      by (simp add: h decode_body_def t Let_def rh_def r'_def synced_def fmac keystream_cancels(1) [OF body] slice_def
          pad_def [symmetric])
  qed
  moreover have "synced s' r'" using sync by (simp add: synced_def fr r'_def rh_def)
  moreover have "length fr = 32 + (n + frame_padding n + 16)" using len by (simp add: fr pad_def)
  ultimately show thesis
    by (intro that [of rh r']) (simp_all add: rh_def n_def)
qed

section \<open>The channel\<close>

text \<open>A sender, the bytes on the wire, the buffer of the receiver, and what was sent and handed over.
  The wire delivers bytes in pieces of any size, and the receiver polls whenever it likes.\<close>

record channel =
  ch_sender :: frame_codec
  ch_wire :: bytes
  ch_buf :: bytes
  ch_receiver :: frame_codec
  ch_sent :: "(u8 \<times> bytes) list"
  ch_got :: "(u8 \<times> bytes) list"
  ch_failed :: bool

definition new_channel :: "frame_codec \<Rightarrow> frame_codec \<Rightarrow> channel" where
  "new_channel s r = \<lparr> ch_sender = s, ch_wire = [], ch_buf = [], ch_receiver = r, ch_sent = [], ch_got = [], ch_failed = False \<rparr>"

definition channel_send :: "rlp_lib \<Rightarrow> frame_ciphers \<Rightarrow> u8 \<times> bytes \<Rightarrow> channel \<Rightarrow> channel" where
  "channel_send R F m ch =
     (let (fr, s') = encode_frame R F (ch_sender ch) (fst m) (snd m)
      in ch\<lparr> ch_sender := s', ch_wire := ch_wire ch @ fr, ch_sent := ch_sent ch @ [m] \<rparr>)"

definition channel_deliver :: "nat \<Rightarrow> channel \<Rightarrow> channel" where
  "channel_deliver k ch = ch\<lparr> ch_buf := ch_buf ch @ take k (ch_wire ch), ch_wire := drop k (ch_wire ch) \<rparr>"

definition channel_poll :: "rlp_lib \<Rightarrow> frame_ciphers \<Rightarrow> uint_reader \<Rightarrow> channel \<Rightarrow> channel" where
  "channel_poll R F U ch =
     (let (res, r', buf') = decode_frame R F U (ch_receiver ch) (ch_buf ch);
          ch' = ch\<lparr> ch_receiver := r', ch_buf := buf' \<rparr>
      in case res of
           Inl _ \<Rightarrow> ch'\<lparr> ch_failed := True \<rparr>
         | Inr None \<Rightarrow> ch'
         | Inr (Some m) \<Rightarrow> ch'\<lparr> ch_got := ch_got ch @ [m] \<rparr>)"

inductive channel_step :: "rlp_lib \<Rightarrow> frame_ciphers \<Rightarrow> uint_reader \<Rightarrow> channel \<Rightarrow> channel \<Rightarrow> bool"
  for R F U where
  send: "sendable R m \<Longrightarrow> channel_step R F U ch (channel_send R F m ch)"
| deliver: "channel_step R F U ch (channel_deliver k ch)"
| poll: "channel_step R F U ch (channel_poll R F U ch)"

inductive_cases channel_stepE: "channel_step R F U ch ch'"

definition channel_run :: "rlp_lib \<Rightarrow> frame_ciphers \<Rightarrow> uint_reader \<Rightarrow> channel \<Rightarrow> channel \<Rightarrow> bool" where
  "channel_run R F U = (channel_step R F U)\<^sup>*\<^sup>*"

section \<open>Its invariant\<close>

fun encode_all :: "rlp_lib \<Rightarrow> frame_ciphers \<Rightarrow> frame_codec \<Rightarrow> (u8 \<times> bytes) list \<Rightarrow> bytes \<times> frame_codec" where
  "encode_all R F s [] = ([], s)"
| "encode_all R F s (m # ms) =
     (let (fr, s1) = encode_frame R F s (fst m) (snd m); (bs, s2) = encode_all R F s1 ms in (fr @ bs, s2))"

lemma encode_all_snoc:
  "encode_all R F s (ms @ [m]) =
     (let (bs, s1) = encode_all R F s ms; (fr, s2) = encode_frame R F s1 (fst m) (snd m) in (bs @ fr, s2))"
  by (induction ms arbitrary: s) (auto simp: Let_def split: prod.splits)

text \<open>The bytes in flight are the encoding of the messages not yet handed over, less the header of the
  first when it is read already.\<close>

definition in_flight :: "rlp_lib \<Rightarrow> frame_ciphers \<Rightarrow> frame_codec \<Rightarrow> bytes \<Rightarrow> frame_codec \<Rightarrow> (u8 \<times> bytes) list \<Rightarrow> frame_codec \<Rightarrow> bool" where
  "in_flight R F r bs s0 pending s \<longleftrightarrow>
     (synced s0 r \<and> encode_all R F s0 pending = (bs, s)) \<or>
     (\<exists>r0 all. synced s0 r0 \<and> pending \<noteq> [] \<and> encode_all R F s0 pending = (all, s) \<and> decode_head R F r0 all = (None, r, bs))"

definition channel_inv :: "rlp_lib \<Rightarrow> frame_ciphers \<Rightarrow> channel \<Rightarrow> bool" where
  "channel_inv R F ch \<longleftrightarrow> \<not> ch_failed ch \<and>
     (\<exists>pending s0. ch_sent ch = ch_got ch @ pending \<and> (\<forall>m \<in> set pending. sendable R m) \<and>
        in_flight R F (ch_receiver ch) (ch_buf ch @ ch_wire ch) s0 pending (ch_sender ch))"

text \<open>Reading the body, once the header is read: either the buffer is short, or one message comes out.\<close>

lemma body_stage:
  assumes len: "length fr = 32 + (n + frame_padding n + 16)" and "fr_total_body_size rh = n"
    and body: "\<And>rest. decode_body R F U rh (drop 32 fr @ rest) = (Inr (Some m), r', rest)"
    and bs: "buf @ wire = drop 32 fr @ g"
  shows "decode_body R F U rh buf = (Inr None, rh, buf) \<and> length buf < n + frame_padding n + 16 \<or>
    (\<exists>rest. decode_body R F U rh buf = (Inr (Some m), r', rest) \<and> rest @ wire = g)"
proof (cases "length buf < n + frame_padding n + 16")
  case True
  then show ?thesis using assms(2) by (simp add: decode_body_def Let_def)
next
  case False
  then have "length (drop 32 fr) \<le> length buf" using len by simp
  then obtain rest where "buf = drop 32 fr @ rest" "rest @ wire = g"
    using bs by (auto simp: append_eq_append_conv_if split: if_splits intro: that [of "drop (length fr - 32) buf"]) (metis append_take_drop_id)
  then show ?thesis using body by blast
qed

text \<open>A poll that gets as far as the body of the first message.\<close>

lemma poll_body:
  assumes ok: "frame_ok R U" and sync: "synced s0 r0" and m: "sendable R m" and ms: "\<forall>m \<in> set ms. sendable R m"
    and enc: "encode_frame R F s0 (fst m) (snd m) = (fr, s1)" "encode_all R F s1 ms = (g, ch_sender ch)"
    and head: "decode_head R F r0 (fr @ g) = (None, rh, buf1 @ ch_wire ch)"
    and poll: "decode_frame R F U (ch_receiver ch) (ch_buf ch) = decode_body R F U rh buf1"
    and sent: "ch_sent ch = ch_got ch @ m # ms" "\<not> ch_failed ch"
  shows "channel_inv R F (channel_poll R F U ch)"
    and "ch_wire ch = [] \<Longrightarrow> fst (decode_frame R F U (ch_receiver ch) (ch_buf ch)) \<noteq> Inr None"
proof -
  obtain rh' r' where len: "length fr = 32 + (frame_size R m + frame_padding (frame_size R m) + 16)"
    and h: "\<And>y. decode_head R F r0 (take 32 fr @ y) = (None, rh', y)"
    and sz: "fr_total_body_size rh' = frame_size R m"
    and b: "\<And>rest. decode_body R F U rh' (drop 32 fr @ rest) = (Inr (Some m), r', rest)" and sync': "synced s1 r'"
    using frame_decodes [OF ok sync m enc(1)] by metis
  have "decode_head R F r0 (fr @ g) = (None, rh', drop 32 fr @ g)"
    using h [of "drop 32 fr @ g"] by (simp flip: append_assoc)
  then have rh: "rh = rh'" and bs: "buf1 @ ch_wire ch = drop 32 fr @ g" using head by simp_all
  note stage = body_stage [OF len sz b bs]
  show "channel_inv R F (channel_poll R F U ch)"
    using stage
  proof (elim disjE conjE exE)
    assume "decode_body R F U rh' buf1 = (Inr None, rh', buf1)"
    moreover have "in_flight R F rh' (buf1 @ ch_wire ch) s0 (m # ms) (ch_sender ch)"
      unfolding in_flight_def using sync enc head rh by auto
    ultimately show ?thesis using sent m ms by (auto simp: channel_poll_def poll rh channel_inv_def)
  next
    fix rest assume "decode_body R F U rh' buf1 = (Inr (Some m), r', rest)" "rest @ ch_wire ch = g"
    moreover from this have "in_flight R F r' (rest @ ch_wire ch) s1 ms (ch_sender ch)"
      unfolding in_flight_def using sync' enc by simp
    ultimately show ?thesis using sent ms by (auto simp: channel_poll_def poll rh channel_inv_def)
  qed
  show "fst (decode_frame R F U (ch_receiver ch) (ch_buf ch)) \<noteq> Inr None" if "ch_wire ch = []"
    using stage bs that len by (auto simp: poll rh)
qed

lemma poll_keeps:
  assumes ok: "frame_ok R U" and inv: "channel_inv R F ch"
  shows "channel_inv R F (channel_poll R F U ch)"
    and "ch_wire ch = [] \<Longrightarrow> fst (decode_frame R F U (ch_receiver ch) (ch_buf ch)) = Inr None \<Longrightarrow> ch_got ch = ch_sent ch"
proof -
  obtain pending s0 where sent: "ch_sent ch = ch_got ch @ pending" "\<not> ch_failed ch" "\<forall>m \<in> set pending. sendable R m"
    and fl: "in_flight R F (ch_receiver ch) (ch_buf ch @ ch_wire ch) s0 pending (ch_sender ch)"
    using inv by (auto simp: channel_inv_def)
  have "channel_inv R F (channel_poll R F U ch) \<and>
    (ch_wire ch = [] \<longrightarrow> fst (decode_frame R F U (ch_receiver ch) (ch_buf ch)) = Inr None \<longrightarrow> ch_got ch = ch_sent ch)"
  proof (cases pending)
    case Nil
    then have e: "synced s0 (ch_receiver ch)" "ch_buf ch = []" using fl by (auto simp: in_flight_def)
    then have "channel_poll R F U ch = ch" by (simp add: channel_poll_def decode_frame_def synced_def)
    then show ?thesis using inv sent Nil by simp
  next
    case (Cons m ms)
    obtain fr s1 where f: "encode_frame R F s0 (fst m) (snd m) = (fr, s1)" by fastforce
    obtain g where g: "encode_all R F s1 ms = (g, ch_sender ch)" and all: "encode_all R F s0 pending = (fr @ g, ch_sender ch)"
      using fl by (auto simp: in_flight_def Cons f split: prod.splits)
    have m: "sendable R m" "\<forall>m \<in> set ms. sendable R m" using sent Cons by auto
    show ?thesis
    proof (cases "fr_is_head_read (ch_receiver ch)")
      case True
      then obtain r0 where r0: "synced s0 r0" "decode_head R F r0 (fr @ g) = (None, ch_receiver ch, ch_buf ch @ ch_wire ch)"
        using fl all by (auto simp: in_flight_def synced_def)
      have "decode_frame R F U (ch_receiver ch) (ch_buf ch) = decode_body R F U (ch_receiver ch) (ch_buf ch)"
        using True by (simp add: decode_frame_def)
      from poll_body [OF ok r0(1) m f g r0(2) this] sent Cons show ?thesis by simp
    next
      case False
      have sync: "synced s0 (ch_receiver ch)" and bs: "ch_buf ch @ ch_wire ch = fr @ g"
      proof -
        have "fr_is_head_read r" if sy: "synced s0 r0" and dh: "decode_head R F r0 (fr @ g) = (None, r, y)" for r0 r y
        proof -
          obtain rh where "\<And>y. decode_head R F r0 (take 32 fr @ y) = (None, rh, y)" "fr_is_head_read rh"
            using frame_decodes [OF ok sy m(1) f] by metis
          from this(1) [of "drop 32 fr @ g"] this(2) dh show ?thesis by (simp flip: append_assoc)
        qed
        then show "synced s0 (ch_receiver ch)" "ch_buf ch @ ch_wire ch = fr @ g"
          using fl all False by (auto simp: in_flight_def)
      qed
      obtain rh where h: "\<And>y. decode_head R F (ch_receiver ch) (take 32 fr @ y) = (None, rh, y)" and len: "32 \<le> length fr"
        using frame_decodes [OF ok sync m(1) f] by (metis le_add1)
      show ?thesis
      proof (cases "length (ch_buf ch) < 32")
        case True
        then have "decode_frame R F U (ch_receiver ch) (ch_buf ch) = (Inr None, ch_receiver ch, ch_buf ch)"
          using False by (simp add: decode_frame_def)
        moreover from this have "channel_poll R F U ch = ch" by (simp add: channel_poll_def)
        moreover have "ch_wire ch \<noteq> []" using bs True len by auto
        ultimately show ?thesis using inv by simp
      next
        case full: False
        have "take 32 (ch_buf ch) = take 32 (ch_buf ch @ ch_wire ch)" using full by simp
        also have "\<dots> = take 32 fr" using len by (simp add: bs)
        finally have buf: "ch_buf ch = take 32 fr @ drop 32 (ch_buf ch)" by (metis append_take_drop_id)
        have "take 32 fr @ drop 32 (ch_buf ch) @ ch_wire ch = fr @ g" using bs buf by (metis append.assoc)
        then have "decode_head R F (ch_receiver ch) (fr @ g) = (None, rh, drop 32 (ch_buf ch) @ ch_wire ch)"
          using h by metis
        moreover have "decode_frame R F U (ch_receiver ch) (ch_buf ch) = decode_body R F U rh (drop 32 (ch_buf ch))"
          using full False h [of "drop 32 (ch_buf ch)"] buf by (simp add: decode_frame_def)
        ultimately show ?thesis using poll_body [OF ok sync m f g] sent Cons by simp
      qed
    qed
  qed
  then show "channel_inv R F (channel_poll R F U ch)"
    and "ch_wire ch = [] \<Longrightarrow> fst (decode_frame R F U (ch_receiver ch) (ch_buf ch)) = Inr None \<Longrightarrow> ch_got ch = ch_sent ch"
    by blast+
qed

lemma send_keeps:
  assumes ok: "frame_ok R U" and inv: "channel_inv R F ch" and m: "sendable R m"
  shows "channel_inv R F (channel_send R F m ch)"
proof -
  obtain pending s0 where c: "ch_sent ch = ch_got ch @ pending" "\<not> ch_failed ch" "\<forall>m \<in> set pending. sendable R m"
    and fl: "in_flight R F (ch_receiver ch) (ch_buf ch @ ch_wire ch) s0 pending (ch_sender ch)"
    using inv by (auto simp: channel_inv_def)
  obtain fr s' where f: "encode_frame R F (ch_sender ch) (fst m) (snd m) = (fr, s')" by fastforce
  have more: "decode_head R F r0 (all @ fr) = (None, r, bs @ fr)"
    if "decode_head R F r0 all = (None, r, bs)" "32 \<le> length all" for r0 all r bs
    using that by (auto simp: decode_head_def Let_def split: prod.splits if_splits option.splits)
  have long: "32 \<le> length all" if p: "pending \<noteq> []" "encode_all R F s0 pending = (all, s)" "synced s0 r0" for all s r0
  proof -
    obtain x xs where x: "pending = x # xs" using p by (cases pending) auto
    obtain fr1 s1 where f1: "encode_frame R F s0 (fst x) (snd x) = (fr1, s1)" by fastforce
    have "sendable R x" using c x by simp
    from frame_decodes [OF ok p(3) this f1] have "32 \<le> length fr1" by (metis le_add1)
    then show ?thesis using p(2) by (auto simp: x f1 split: prod.splits)
  qed
  have enc: "encode_all R F s0 (pending @ [m]) = (all @ fr, s')" if "encode_all R F s0 pending = (all, ch_sender ch)" for all
    using that f by (simp add: encode_all_snoc)
  have "in_flight R F (ch_receiver ch) ((ch_buf ch @ ch_wire ch) @ fr) s0 (pending @ [m]) s'"
    using fl unfolding in_flight_def
  proof (elim disjE conjE exE)
    assume "synced s0 (ch_receiver ch)" "encode_all R F s0 pending = (ch_buf ch @ ch_wire ch, ch_sender ch)"
    then show "synced s0 (ch_receiver ch) \<and> encode_all R F s0 (pending @ [m]) = ((ch_buf ch @ ch_wire ch) @ fr, s') \<or>
      (\<exists>r0 all. synced s0 r0 \<and> pending @ [m] \<noteq> [] \<and> encode_all R F s0 (pending @ [m]) = (all, s') \<and>
        decode_head R F r0 all = (None, ch_receiver ch, (ch_buf ch @ ch_wire ch) @ fr))"
      by (intro disjI1 conjI enc)
  next
    fix r0 all assume "synced s0 r0" "pending \<noteq> []" "encode_all R F s0 pending = (all, ch_sender ch)"
      "decode_head R F r0 all = (None, ch_receiver ch, ch_buf ch @ ch_wire ch)"
    then show "synced s0 (ch_receiver ch) \<and> encode_all R F s0 (pending @ [m]) = ((ch_buf ch @ ch_wire ch) @ fr, s') \<or>
      (\<exists>r0 all. synced s0 r0 \<and> pending @ [m] \<noteq> [] \<and> encode_all R F s0 (pending @ [m]) = (all, s') \<and>
        decode_head R F r0 all = (None, ch_receiver ch, (ch_buf ch @ ch_wire ch) @ fr))"
      by (intro disjI2 exI [of _ r0] exI [of _ "all @ fr"] conjI enc more long [of all "ch_sender ch" r0]) simp_all
  qed
  then show ?thesis using c m f
    by (auto simp: channel_send_def channel_inv_def intro!: exI [of _ "pending @ [m]"] exI [of _ s0])
qed

lemma step_keeps:
  assumes ok: "frame_ok R U" and "channel_step R F U ch ch'" and inv: "channel_inv R F ch"
  shows "channel_inv R F ch'"
  using assms(2)
proof cases
  case (deliver k)
  then show ?thesis using inv by (simp add: channel_inv_def channel_deliver_def)
qed (use send_keeps [OF ok inv] poll_keeps [OF ok inv] in auto)

lemma run_keeps:
  assumes "frame_ok R U" and "channel_run R F U ch ch'" and "channel_inv R F ch"
  shows "channel_inv R F ch'"
  using assms(2,3) unfolding channel_run_def
  by (induction rule: rtranclp_induct) (auto intro: step_keeps [OF assms(1)])

lemma new_channel_inv: "synced s r \<Longrightarrow> channel_inv R F (new_channel s r)"
  by (auto simp: channel_inv_def new_channel_def in_flight_def)

lemma run_sent: "channel_run R F U ch ch' \<Longrightarrow> channel_run R F U ch' ch'' \<Longrightarrow> channel_run R F U ch ch''"
  unfolding channel_run_def by (rule rtranclp_trans)

text \<open>Delivering what is on the wire and polling drains the channel.\<close>

lemma channel_drains_inv:
  assumes ok: "frame_ok R U"
  shows "channel_inv R F ch \<Longrightarrow> \<exists>ch'. channel_run R F U ch ch' \<and> ch_sent ch' = ch_sent ch \<and> ch_got ch' = ch_sent ch"
proof (induction "length (ch_sent ch) - length (ch_got ch)" arbitrary: ch rule: less_induct)
  case less
  define d where "d = channel_deliver (length (ch_wire ch)) ch"
  have step: "channel_step R F U ch d" unfolding d_def by (rule deliver)
  have inv: "channel_inv R F d" by (rule step_keeps [OF ok step less.prems])
  have d: "ch_wire d = []" "ch_sent d = ch_sent ch" "ch_got d = ch_got ch" by (simp_all add: d_def channel_deliver_def)
  have run_d: "channel_run R F U ch d" using step by (simp add: channel_run_def)
  show ?case
  proof (cases "fst (decode_frame R F U (ch_receiver d) (ch_buf d)) = Inr None")
    case True
    with poll_keeps(2) [OF ok inv d(1)] d run_d show ?thesis by auto
  next
    case False
    define e where "e = channel_poll R F U d"
    have step': "channel_step R F U d e" unfolding e_def by (rule poll)
    have inv': "channel_inv R F e" by (rule step_keeps [OF ok step' inv])
    obtain res r' buf' where dec: "decode_frame R F U (ch_receiver d) (ch_buf d) = (res, r', buf')" by (cases "decode_frame R F U (ch_receiver d) (ch_buf d)")
    have "\<not> ch_failed e" using inv' by (simp add: channel_inv_def)
    then obtain m where "res = Inr (Some m)" using False dec
      by (cases res) (auto simp: e_def channel_poll_def)
    then have e: "ch_got e = ch_got ch @ [m]" "ch_sent e = ch_sent ch" using d dec by (simp_all add: e_def channel_poll_def)
    obtain pending where "ch_sent e = ch_got e @ pending" using inv' by (auto simp: channel_inv_def)
    then have "length (ch_sent ch) = Suc (length (ch_got ch) + length pending)" by (simp add: e flip: e(2))
    then have "length (ch_sent e) - length (ch_got e) < length (ch_sent ch) - length (ch_got ch)" using e by simp
    from less.hyps [OF this inv'] obtain ch' where ch': "channel_run R F U e ch'" "ch_sent ch' = ch_sent ch" "ch_got ch' = ch_sent ch"
      using e by auto
    have "channel_run R F U d e" using step' by (simp add: channel_run_def)
    with run_d ch' show ?thesis by (meson run_sent)
  qed
qed

text \<open>C12. Whatever sequence of sends, partial deliveries and polls, a receiver that starts in step with
  the sender never fails, what it hands over is what was sent in order, and once the wire is empty
  and a poll has nothing to hand over, all that was sent has arrived.\<close>

theorem channel_delivers:
  assumes "frame_ok R U" and "synced s r" and "channel_run R F U (new_channel s r) ch"
  shows "\<not> ch_failed ch \<and> (\<exists>pending. ch_sent ch = ch_got ch @ pending) \<and>
    (ch_wire ch = [] \<longrightarrow> fst (decode_frame R F U (ch_receiver ch) (ch_buf ch)) = Inr None \<longrightarrow> ch_got ch = ch_sent ch)"
proof -
  have inv: "channel_inv R F ch" using run_keeps [OF assms(1,3)] new_channel_inv [OF assms(2)] by blast
  then show ?thesis using poll_keeps(2) [OF assms(1) inv] by (auto simp: channel_inv_def)
qed

text \<open>C35. From every state the channel reaches, some deliveries and polls hand over all that was
  sent: no message is stuck behind another or behind a frame that arrived in part.\<close>

theorem channel_drains:
  assumes "frame_ok R U" and "synced s r" and "channel_run R F U (new_channel s r) ch"
  shows "\<exists>ch'. channel_run R F U ch ch' \<and> ch_sent ch' = ch_sent ch \<and> ch_got ch' = ch_sent ch"
  using channel_drains_inv [OF assms(1)] run_keeps [OF assms(1,3) new_channel_inv [OF assms(2)]] by blast

section \<open>A channel at work\<close>

definition demo_ciphers :: frame_ciphers where
  "demo_ciphers = \<lparr> fc_keystream = (\<lambda>k i. ucast k + of_nat (7 * i)), fc_encrypt_block = (\<lambda>k b. rev b) \<rparr>"

definition demo_secrets :: rlpx_secrets where
  "demo_secrets = \<lparr> sec_aes = 77, sec_mac = 88, sec_token = 99, sec_egress_mac = [1, 2], sec_ingress_mac = [1, 2] \<rparr>"

lemma demo_ok: "frame_ok rlp_std std_uint" "synced (new_frame_codec demo_secrets) (new_frame_codec demo_secrets)"
proof -
  have "std_header_bytes True 1 = [0xC1]" by code_simp
  then show "frame_ok rlp_std std_uint" by (simp add: frame_ok_def rlp_std_ok uint_std_ok) (simp add: rlp_std_def)
  show "synced (new_frame_codec demo_secrets) (new_frame_codec demo_secrets)"
    by (simp add: synced_def new_frame_codec_def demo_secrets_def)
qed

text \<open>A message of which twenty bytes have arrived.\<close>

definition demo_channel :: channel where
  "demo_channel = channel_poll rlp_std demo_ciphers std_uint (channel_deliver 20 (channel_send rlp_std demo_ciphers (2, [0xC0])
     (new_channel (new_frame_codec demo_secrets) (new_frame_codec demo_secrets))))"

lemma demo_sendable: "sendable rlp_std (2, [0xC0])"
  unfolding sendable_def frame_size_def using std_string_bound [of "strip_zeros [2]"] by (simp add: rl_u8_bytes_def strip_zeros_def)

lemma demo_run:
  "channel_run rlp_std demo_ciphers std_uint (new_channel (new_frame_codec demo_secrets) (new_frame_codec demo_secrets)) demo_channel"
proof -
  let ?step = "channel_step rlp_std demo_ciphers std_uint" and ?c0 = "new_channel (new_frame_codec demo_secrets) (new_frame_codec demo_secrets)"
  let ?c1 = "channel_send rlp_std demo_ciphers (2, [0xC0]) ?c0"
  have "?step ?c0 ?c1" by (rule send [OF demo_sendable])
  moreover have "?step ?c1 (channel_deliver 20 ?c1)" by (rule deliver)
  moreover have "?step (channel_deliver 20 ?c1) demo_channel" unfolding demo_channel_def by (rule poll)
  ultimately show ?thesis unfolding channel_run_def by (meson r_into_rtranclp rtranclp_trans)
qed

lemma demo_sent: "ch_sent demo_channel = [(2, [0xC0])]"
  by (simp add: demo_channel_def channel_poll_def channel_deliver_def channel_send_def new_channel_def Let_def
      split: prod.splits sum.splits option.splits)

lemma channel_delivers_witness: "\<not> ch_failed demo_channel \<and> (\<exists>pending. [(2, [0xC0])] = ch_got demo_channel @ pending)"
  using channel_delivers [OF demo_ok demo_run] by (simp add: demo_sent)

lemma channel_drains_witness:
  "\<exists>ch'. channel_run rlp_std demo_ciphers std_uint demo_channel ch' \<and> ch_got ch' = [(2, [0xC0])]"
  using channel_drains [OF demo_ok demo_run] by (simp add: demo_sent) blast

end
