(* ===== verification/Frame_Bounds.thy ===== *)
theory Frame_Bounds
  imports Frame_Channel
begin

text \<open>
  What a peer can do to the frame decoder: the buffer of a chunked message stays within its bound
  whatever arrives, and which header data makes the decoder panic.
\<close>

section \<open>The buffer of a chunked message\<close>

definition assembly_inv :: "frame_codec \<Rightarrow> bool" where
  "assembly_inv c \<longleftrightarrow> unat (fr_assembly_expected c) \<le> MAX_ASSEMBLED_MESSAGE_SIZE \<and>
     length (fr_assembly_buf c) \<le> MAX_ASSEMBLED_MESSAGE_SIZE \<and> fr_total_body_size c < MAX_ASSEMBLED_MESSAGE_SIZE"

lemma u8_shrinks: "uint_ok R U \<Longrightarrow> decode_u8 U d = Inr (v, rest) \<Longrightarrow> length rest < length d"
  using uint_drops [of R U d v rest] by fastforce

lemma handle_body_keeps:
  assumes ok: "uint_ok R U" and inv: "assembly_inv c" and d: "length d < MAX_ASSEMBLED_MESSAGE_SIZE"
    and h: "handle_body U c d = (r, c')"
  shows "assembly_inv c' \<and> (\<forall>p. r = Inr (Some p) \<longrightarrow> length (snd p) \<le> MAX_ASSEMBLED_MESSAGE_SIZE)"
proof (cases "decode_u8 U d")
  case (Inl e)
  then show ?thesis using inv h
    by (auto simp: handle_body_def assembly_inv_def reset_assembly_def split: frame_type.splits if_splits)
next
  case (Inr p)
  obtain v rest where p: "p = (v, rest)" by (cases p)
  have "length rest < length d" using u8_shrinks [OF ok] Inr p by blast
  then show ?thesis using inv h d Inr p
    by (auto simp: handle_body_def finish_assembly_def assembly_inv_def reset_assembly_def split: frame_type.splits if_splits)
qed

lemma decode_body_keeps:
  assumes ok: "uint_ok R U" and inv: "assembly_inv c" and d: "decode_body R F U c src = (r, c', src')"
  shows "assembly_inv c' \<and> (\<forall>p. r = Inr (Some p) \<longrightarrow> length (snd p) \<le> MAX_ASSEMBLED_MESSAGE_SIZE)"
proof -
  have small: "length (take (fr_total_body_size c) x) < MAX_ASSEMBLED_MESSAGE_SIZE" for x :: bytes
    using inv by (simp add: assembly_inv_def min.strict_coboundedI2)
  have upd: "assembly_inv (c\<lparr> fr_ingress_mac := a, fr_dec := b, fr_is_head_read := h \<rparr>)"
    "assembly_inv (c\<lparr> fr_ingress_mac := a \<rparr>)" for a b h
    using inv by (simp_all add: assembly_inv_def)
  show ?thesis
    using d inv handle_body_keeps [OF ok upd(1) small] upd(2)
    by (auto simp: decode_body_def Let_def split: prod.splits if_splits)
qed

lemma decode_head_keeps:
  assumes inv: "assembly_inv c" and d: "decode_head R F c src = (e, c', src')"
  shows "assembly_inv c'"
proof -
  have "be_nat (take 3 plain) < MAX_ASSEMBLED_MESSAGE_SIZE" for plain
  proof -
    have "be_nat (take 3 plain) < 256 ^ length (take 3 plain)" by (rule be_nat_bound)
    also have "\<dots> \<le> 256 ^ 3" by (rule power_increasing) simp_all
    finally show ?thesis by (simp add: MAX_ASSEMBLED_MESSAGE_SIZE_def)
  qed
  then show ?thesis using inv d
    by (auto simp: decode_head_def assembly_inv_def Let_def split: prod.splits if_splits option.splits)
qed

text \<open>C36. Whatever bytes a peer sends, the buffer of a chunked message and every message handed over stay
  within sixteen mebibytes, and so does the size a frame can announce.\<close>

theorem assembly_bounded:
  assumes "uint_ok R U" and "assembly_inv c" and "decode_frame R F U c src = (r, c', src')"
  shows "assembly_inv c' \<and> (\<forall>p. r = Inr (Some p) \<longrightarrow> length (snd p) \<le> MAX_ASSEMBLED_MESSAGE_SIZE)"
proof (cases "fr_is_head_read c \<or> length src < 32")
  case True
  then show ?thesis using assms decode_body_keeps [OF assms(1,2)] by (auto simp: decode_frame_def split: if_splits)
next
  case False
  obtain e ch sh where h: "decode_head R F c src = (e, ch, sh)" by (cases "decode_head R F c src")
  with assms(2) have "assembly_inv ch" by (rule decode_head_keeps)
  then show ?thesis using assms(3) False h decode_body_keeps [OF assms(1)]
    by (auto simp: decode_frame_def split: option.splits)
qed

text \<open>A first chunk that declares four bytes, of which two arrive.\<close>

definition demo_chunk :: frame_codec where
  "demo_chunk = (new_frame_codec demo_secrets)\<lparr> fr_current_frame_type := ChunkedFirst 0 4, fr_total_body_size := 3 \<rparr>"

lemma assembly_bounded_witness:
  "assembly_inv (fst (snd (decode_frame rlp_std demo_ciphers std_uint demo_chunk (replicate 40 5))))"
proof -
  have "assembly_inv demo_chunk"
    by (simp add: assembly_inv_def demo_chunk_def new_frame_codec_def demo_secrets_def MAX_ASSEMBLED_MESSAGE_SIZE_def)
  from assembly_bounded [OF uint_std_ok this] show ?thesis by (metis prod.collapse)
qed

section \<open>A header that panics\<close>

lemma unat_wraps: "unat (a + b) < unat a \<longleftrightarrow> 2 ^ 64 \<le> unat a + unat b" for a b :: u64
proof (cases "unat a + unat b < 2 ^ 64")
  case True
  then show ?thesis by (simp add: unat_add_exact)
next
  case False
  have "unat (a + b) = (unat a + unat b) mod 2 ^ 64" by (simp add: unat_word_ariths)
  also have "\<dots> = unat a + unat b - 2 ^ 64"
    using False unat_bound_u64 [of a] unat_bound_u64 [of b] by (subst mod_if) (simp add: le_mod_geq)
  finally show ?thesis using False unat_bound_u64 [of b] by linarith
qed

text \<open>C37. The header data of a frame makes the decoder panic exactly when its first byte is \<open>ff\<close> and the
  eight bytes of length that follow are at most eight short of the largest integer: the end of the slice
  wraps around to before its start. Any peer that finished the handshake can send it.\<close>

theorem header_data_panics:
  assumes "length data = 13"
  shows "parse_header_data data = None \<longleftrightarrow> hd data = 0xFF \<and> 2 ^ 64 \<le> be_nat (slice 1 9 data) + 9"
proof -
  obtain x xs where x: "data = x # xs" and xs: "length xs = 12" using assms by (cases data) auto
  show ?thesis
  proof (cases "x \<le> 0xF7")
    case True
    have "unat (1 + ucast (x - 0xC0) :: u64) = 1 + unat (ucast (x - 0xC0) :: u64)"
      using unat_less_exp [of "x - 0xC0"] by (subst unat_add_exact) (simp_all add: unsigned_ucast_eq take_bit_nat_eq_self)
    moreover have "x \<noteq> 0xFF" using True by auto
    ultimately show ?thesis
      using True by (simp add: parse_header_data_def header_span_def x Let_def split: list.splits)
  next
    case False
    define ll where "ll = unat (x - 0xF7)"
    have ux: "unat x = 247 + ll" using False by (simp add: ll_def unat_sub_exact word_le_nat_alt)
    then have ll: "0 < ll" "ll \<le> 8" using False unat_less_exp [of x] by (simp_all add: word_le_nat_alt)
    have ge: "\<not> x < 0xC0" using ux by (simp add: word_less_nat_alt)
    have top: "x = 0xFF \<longleftrightarrow> ll = 8" using ux by (simp add: word_unat_eq_iff)
    define len :: u64 where "len = foldl shift_in 0 (take ll xs)"
    have "(256::nat) ^ length (take ll xs) \<le> 256 ^ 8" using ll by (intro power_increasing) simp_all
    then have "len = from_be (take ll xs)" unfolding len_def by (intro shift_fold_from_be) simp
    moreover have bound: "be_nat (take ll xs) < 256 ^ ll" using be_nat_bound [of "take ll xs"] xs ll by (simp add: min_absorb2)
    moreover have "(256::nat) ^ ll \<le> 256 ^ 8" using ll by (intro power_increasing) simp_all
    ultimately have len: "unat len = be_nat (take ll xs)" by (simp add: from_be_def unat_of_nat)
    have start: "unat (of_nat (1 + ll) :: u64) = 1 + ll" using ll by (intro unat_of_nat_u64) simp
    have "parse_header_data data = None \<longleftrightarrow> unat (of_nat (1 + ll) + len) < unat (of_nat (1 + ll) :: u64)"
      using False ge xs ll start
      by (simp add: parse_header_data_def header_span_def x Let_def ll_def [symmetric] len_def [symmetric] min_less_iff_disj del: of_nat_add split: list.splits)
    also have "\<dots> \<longleftrightarrow> 2 ^ 64 \<le> (1 + ll) + be_nat (take ll xs)" unfolding unat_wraps by (simp only: start len)
    also have "\<dots> \<longleftrightarrow> ll = 8 \<and> 2 ^ 64 \<le> be_nat (take 8 xs) + 9"
    proof (cases "ll = 8")
      case False
      then have "(256::nat) ^ ll \<le> 256 ^ 7" using ll by (intro power_increasing) simp_all
      with bound ll False show ?thesis by simp
    qed simp
    finally show ?thesis by (simp add: top x slice_def)
  qed
qed

lemma header_data_panics_witness: "parse_header_data (replicate 13 0xFF) = None"
proof -
  have "length (replicate 13 (0xFF :: u8)) = 13" by simp
  moreover have "slice 1 9 (replicate 13 (0xFF :: u8)) = replicate 8 0xFF" by (simp add: slice_def)
  moreover have "replicate 8 (0xFF :: u8) = [0xFF, 0xFF, 0xFF, 0xFF, 0xFF, 0xFF, 0xFF, 0xFF]" by (simp add: eval_nat_numeral)
  then have "be_nat (replicate 8 0xFF) = 2 ^ 64 - 1" by (simp add: be_nat_def)
  ultimately show ?thesis using header_data_panics [of "replicate 13 0xFF"] by simp
qed

end
