(* ===== verification/Ecies.thy ===== *)
theory Ecies
  imports Frame
begin

text \<open>
  \<open>crates/rsk-p2p/src/rlpx/ecies.rs\<close>: the encryption of the packets that open a connection and the
  agreement on the keys of its frames. The curve, AES-128, SHA-256 and HMAC are parameters; what the
  code draws at random is an argument.
\<close>

section \<open>The primitives\<close>

text \<open>Secret keys are 32 bytes, public keys the 64 bytes of an uncompressed point, recovery identifiers
  a byte.\<close>

record key_lib =
  kl_secret_ok :: "b256 \<Rightarrow> bool"
  kl_public :: "b256 \<Rightarrow> 512 word"
  kl_public_ok :: "512 word \<Rightarrow> bool"
  kl_shared :: "b256 \<Rightarrow> 512 word \<Rightarrow> b256"
  kl_sign :: "b256 \<Rightarrow> b256 \<Rightarrow> (bytes \<times> u8) option"
  kl_signature_ok :: "bytes \<Rightarrow> bool"
  kl_recovery_ok :: "u8 \<Rightarrow> bool"
  kl_recover :: "b256 \<Rightarrow> bytes \<Rightarrow> u8 \<Rightarrow> 512 word option"
  kl_sha256 :: "bytes \<Rightarrow> b256"
  kl_aes128_stream :: "bytes \<Rightarrow> bytes \<Rightarrow> nat \<Rightarrow> u8"
  kl_hmac :: "bytes \<Rightarrow> bytes \<Rightarrow> bytes"

text \<open>What the code relies on: the shared secret is the same from both sides, the public key of a
  valid secret key is valid, a signature is 64 bytes, is accepted, and gives back the key that made
  it, and a code is 32 bytes.\<close>

definition keys_ok :: "key_lib \<Rightarrow> bool" where
  "keys_ok K \<longleftrightarrow>
     (\<forall>a b. kl_secret_ok K a \<longrightarrow> kl_secret_ok K b \<longrightarrow> kl_shared K a (kl_public K b) = kl_shared K b (kl_public K a)) \<and>
     (\<forall>a. kl_secret_ok K a \<longrightarrow> kl_public_ok K (kl_public K a)) \<and>
     (\<forall>a h sig v. kl_secret_ok K a \<longrightarrow> kl_sign K a h = Some (sig, v) \<longrightarrow>
        length sig = 64 \<and> kl_signature_ok K sig \<and> kl_recovery_ok K v \<and> kl_recover K h sig v = Some (kl_public K a)) \<and>
     (\<forall>k m. length (kl_hmac K k m) = 32) \<and> (\<forall>a h. kl_secret_ok K a \<longrightarrow> kl_sign K a h \<noteq> None)"

lemma keys_laws:
  assumes "keys_ok K"
  shows "kl_secret_ok K a \<Longrightarrow> kl_secret_ok K b \<Longrightarrow> kl_shared K a (kl_public K b) = kl_shared K b (kl_public K a)"
    and "kl_secret_ok K a \<Longrightarrow> kl_public_ok K (kl_public K a)"
    and "kl_secret_ok K a \<Longrightarrow> kl_sign K a h = Some (sig, v) \<Longrightarrow> length sig = 64 \<and> kl_signature_ok K sig \<and> kl_recovery_ok K v \<and>
        kl_recover K h sig v = Some (kl_public K a)"
    and "length (kl_hmac K k m) = 32"
    and "kl_secret_ok K a \<Longrightarrow> kl_sign K a h \<noteq> None"
  using assms unfolding keys_ok_def by blast+

datatype ecies_error =
    InvalidSecretKey
  | InvalidPublicKey
  | SigningFailed
  | InvalidSignature
  | InvalidRecoveryId
  | RecoveryFailed
  | DataTooShort
  | HmacMismatch
  | EciesRlp rlp_error
  | StreamEnded
  | EciesPanic

section \<open>The opening packets\<close>

record auth_initiate =
  ai_signature :: bytes
  ai_public_key :: "512 word"
  ai_nonce :: b256
  ai_version :: u64

record auth_response =
  ar_public_key :: "512 word"
  ar_nonce :: b256
  ar_version :: u64

definition encode_auth_initiate :: "rlp_lib \<Rightarrow> auth_initiate \<Rightarrow> bytes" where
  "encode_auth_initiate R a = wrap_list R (rl_string_bytes R (ai_signature a) @ rl_b512_bytes R (ai_public_key a) @
     rl_b256_bytes R (ai_nonce a) @ rl_u64_bytes R (ai_version a))"

definition decode_auth_initiate :: "rlp_lib \<Rightarrow> uint_reader \<Rightarrow> bytes \<Rightarrow> (auth_initiate \<times> bytes) rlp" where
  "decode_auth_initiate R U = read_struct R (\<lambda>b.
     bindE (rl_bytes R b) (\<lambda>(signature, b).
     bindE (decode_b512 R b) (\<lambda>(public_key, b).
     bindE (decode_b256 R b) (\<lambda>(nonce, b).
     bindE (decode_u64 U b) (\<lambda>(version, b).
       Inr (\<lparr> ai_signature = signature, ai_public_key = public_key, ai_nonce = nonce, ai_version = version \<rparr>, b))))))"

definition encode_auth_response :: "rlp_lib \<Rightarrow> auth_response \<Rightarrow> bytes" where
  "encode_auth_response R a =
     wrap_list R (rl_b512_bytes R (ar_public_key a) @ rl_b256_bytes R (ar_nonce a) @ rl_u64_bytes R (ar_version a))"

definition decode_auth_response :: "rlp_lib \<Rightarrow> uint_reader \<Rightarrow> bytes \<Rightarrow> (auth_response \<times> bytes) rlp" where
  "decode_auth_response R U = read_struct R (\<lambda>b.
     bindE (decode_b512 R b) (\<lambda>(public_key, b).
     bindE (decode_b256 R b) (\<lambda>(nonce, b).
     bindE (decode_u64 U b) (\<lambda>(version, b).
       Inr (\<lparr> ar_public_key = public_key, ar_nonce = nonce, ar_version = version \<rparr>, b)))))"

definition new_auth_response :: "512 word \<Rightarrow> b256 \<Rightarrow> auth_response" where
  "new_auth_response my_ephemeral_pk nonce = \<lparr> ar_public_key = my_ephemeral_pk, ar_nonce = nonce, ar_version = 4 \<rparr>"

definition new_auth_initiate :: "key_lib \<Rightarrow> b256 \<Rightarrow> 512 word \<Rightarrow> b256 \<Rightarrow> b256 \<Rightarrow> ecies_error + auth_initiate" where
  "new_auth_initiate K my_sk remote_pk my_ephemeral_sk nonce =
     bindE (ensure (kl_public_ok K remote_pk) InvalidPublicKey) (\<lambda>_.
     let token = kl_shared K my_sk remote_pk; signed_data = Bit_Operations.xor token nonce in
     bindE (of_option SigningFailed (kl_sign K my_ephemeral_sk signed_data)) (\<lambda>(signature, recovery_id).
       Inr \<lparr> ai_signature = signature @ [recovery_id], ai_public_key = kl_public K my_sk, ai_nonce = nonce, ai_version = 4 \<rparr>))"

text \<open>The slices of the signature a peer sent panic when it is too short.\<close>

definition recover_ephemeral_public_key :: "key_lib \<Rightarrow> b256 \<Rightarrow> auth_initiate \<Rightarrow> ecies_error + 512 word" where
  "recover_ephemeral_public_key K my_sk a =
     bindE (ensure (kl_public_ok K (ai_public_key a)) InvalidPublicKey) (\<lambda>_.
     let token = kl_shared K my_sk (ai_public_key a); signed_data = Bit_Operations.xor token (ai_nonce a) in
     bindE (ensure (64 \<le> length (ai_signature a)) EciesPanic) (\<lambda>_.
     bindE (ensure (kl_signature_ok K (take 64 (ai_signature a))) InvalidSignature) (\<lambda>_.
     bindE (ensure (64 < length (ai_signature a)) EciesPanic) (\<lambda>_.
     let recovery_id = ai_signature a ! 64 in
     bindE (ensure (kl_recovery_ok K recovery_id) InvalidRecoveryId) (\<lambda>_.
       of_option RecoveryFailed (kl_recover K signed_data (take 64 (ai_signature a)) recovery_id))))))"

section \<open>The keys of the frames\<close>

definition agree_secret :: "rlp_lib \<Rightarrow> key_lib \<Rightarrow> bool \<Rightarrow> b256 \<Rightarrow> 512 word \<Rightarrow> b256 \<Rightarrow> b256 \<Rightarrow> bytes \<Rightarrow> bytes \<Rightarrow> ecies_error + rlpx_secrets" where
  "agree_secret R K is_initiator my_ephemeral_sk remote_ephemeral_pk initiator_nonce responder_nonce initiate_packet response_packet =
     bindE (ensure (kl_public_ok K remote_ephemeral_pk) InvalidPublicKey) (\<lambda>_.
     let z = to_be 32 (kl_shared K my_ephemeral_sk remote_ephemeral_pk);
         nonce_hash = rl_keccak R (to_be 32 responder_nonce @ to_be 32 initiator_nonce);
         shared_secret = rl_keccak R (z @ to_be 32 nonce_hash);
         aes_secret = rl_keccak R (z @ to_be 32 shared_secret);
         mac_secret = rl_keccak R (z @ to_be 32 aes_secret);
         token = rl_keccak R (to_be 32 shared_secret);
         mac1 = to_be 32 (Bit_Operations.xor mac_secret responder_nonce) @ initiate_packet;
         mac2 = to_be 32 (Bit_Operations.xor mac_secret initiator_nonce) @ response_packet;
         (egress_mac, ingress_mac) = (if is_initiator then (mac1, mac2) else (mac2, mac1))
     in Inr \<lparr> sec_aes = aes_secret, sec_mac = mac_secret, sec_token = token,
              sec_egress_mac = egress_mac, sec_ingress_mac = ingress_mac \<rparr>)"

section \<open>Encryption\<close>

definition opt_bytes :: "bytes option \<Rightarrow> bytes" where
  "opt_bytes info = (case info of None \<Rightarrow> [] | Some b \<Rightarrow> b)"

text \<open>The key of the cipher and the key of the code, from the shared secret.\<close>

definition derive_keys :: "key_lib \<Rightarrow> b256 \<Rightarrow> bytes option \<Rightarrow> bytes \<times> bytes" where
  "derive_keys K z s1 =
     (let kdf_bytes = to_be 32 (kl_sha256 K (to_be 4 (1 :: u32) @ to_be 32 z @ opt_bytes s1))
      in (take 16 kdf_bytes, to_be 32 (kl_sha256 K (drop 16 kdf_bytes))))"

definition aes128_ctr :: "key_lib \<Rightarrow> bytes \<Rightarrow> bytes \<Rightarrow> bytes \<Rightarrow> bytes" where
  "aes128_ctr K key iv d = xor_bytes d (map (kl_aes128_stream K key iv) [0..<length d])"

definition ecies_encrypt :: "key_lib \<Rightarrow> b256 \<Rightarrow> bytes \<Rightarrow> 512 word \<Rightarrow> bytes \<Rightarrow> bytes option \<Rightarrow> bytes option \<Rightarrow> ecies_error + bytes" where
  "ecies_encrypt K ephemeral_sk iv receiver_pub msg s1 s2 =
     bindE (ensure (kl_public_ok K receiver_pub) InvalidPublicKey) (\<lambda>_.
     let (encryption_key, mac_key) = derive_keys K (kl_shared K ephemeral_sk receiver_pub) s1;
         ciphertext = aes128_ctr K encryption_key iv msg;
         mac = kl_hmac K mac_key (iv @ ciphertext @ opt_bytes s2)
     in Inr ([0x04] @ to_be 64 (kl_public K ephemeral_sk) @ iv @ ciphertext @ mac))"

definition ecies_decrypt :: "key_lib \<Rightarrow> b256 \<Rightarrow> bytes \<Rightarrow> bytes option \<Rightarrow> bytes option \<Rightarrow> ecies_error + bytes" where
  "ecies_decrypt K my_sk data s1 s2 =
     bindE (ensure (\<not> length data < 65 + 16 + 32) DataTooShort) (\<lambda>_.
     let eph_pub_bytes = slice 0 65 data;
         iv = slice 65 81 data;
         mac_offset = length data - 32;
         ciphertext = slice 81 mac_offset data;
         provided_mac = drop mac_offset data;
         eph_pub = from_be (drop 1 eph_pub_bytes)
     in bindE (ensure (hd eph_pub_bytes = 0x04 \<and> kl_public_ok K eph_pub) InvalidPublicKey) (\<lambda>_.
     let (encryption_key, mac_key) = derive_keys K (kl_shared K my_sk eph_pub) s1 in
     bindE (ensure (kl_hmac K mac_key (iv @ ciphertext @ opt_bytes s2) = provided_mac) HmacMismatch) (\<lambda>_.
       Inr (aes128_ctr K encryption_key iv ciphertext))))"

section \<open>What they promise\<close>

lemma length_aes128 [simp]: "length (aes128_ctr K key iv d) = length d"
  by (simp add: aes128_ctr_def)

lemma aes128_cancels [simp]: "aes128_ctr K key iv (aes128_ctr K key iv d) = d"
  by (simp add: aes128_ctr_def xor_bytes_cancel)

text \<open>A packet is the point, the counter block, the cipher text and the code.\<close>

lemma ecies_layout:
  assumes "length iv = 16" and "length mac = 32" and d: "d = [0x04] @ to_be 64 (pk :: 512 word) @ iv @ ct @ mac"
  shows "length d = length ct + 113" and "hd (slice 0 65 d) = 0x04" and "from_be (drop 1 (slice 0 65 d)) = pk"
    and "slice 65 81 d = iv" and "slice 81 (length d - 32) d = ct" and "drop (length d - 32) d = mac"
  using assms by (simp_all add: slice_def from_be_to_be drop_Cons' take_Cons')

lemma ecies_length:
  assumes "keys_ok K" and "length iv = 16" and "ecies_encrypt K eph iv pk msg s1 s2 = Inr d"
  shows "length d = length msg + 113"
  using assms(2,3) keys_laws(4) [OF assms(1)] by (auto simp: ecies_encrypt_def result_simps Let_def split: prod.splits)

text \<open>What is encrypted to a public key is decrypted with its secret key and the same extra data.\<close>

lemma ecies_round_trip:
  assumes ok: "keys_ok K" and sk: "kl_secret_ok K sk" "kl_secret_ok K eph" and iv: "length iv = 16"
    and d: "ecies_encrypt K eph iv (kl_public K sk) msg s1 s2 = Inr d"
  shows "ecies_decrypt K sk d s1 s2 = Inr msg"
proof -
  define z where "z = kl_shared K eph (kl_public K sk)"
  have z: "kl_shared K sk (kl_public K eph) = z" unfolding z_def by (rule keys_laws(1) [OF ok sk])
  obtain key mac_key where k: "derive_keys K z s1 = (key, mac_key)" by fastforce
  define ct where "ct = aes128_ctr K key iv msg"
  define mac where "mac = kl_hmac K mac_key (iv @ ct @ opt_bytes s2)"
  have mac: "length mac = 32" unfolding mac_def by (rule keys_laws(4) [OF ok])
  have d: "d = [0x04] @ to_be 64 (kl_public K eph) @ iv @ ct @ mac"
    using d by (simp add: ecies_encrypt_def result_simps k ct_def mac_def Let_def flip: z_def)
  note l = ecies_layout [OF iv mac d]
  show ?thesis
    unfolding ecies_decrypt_def Let_def l(3-6)
    by (simp add: l(1,2) ensure_def keys_laws(2) [OF ok sk(2)] z k flip: mac_def) (simp add: ct_def)
qed

text \<open>A change of the counter block, the cipher text or the extra data is noticed unless it has the same
  code.\<close>

lemma ecies_authenticates:
  assumes "ecies_decrypt K sk d s1 s2 = Inr msg"
  shows "\<exists>mac_key. kl_hmac K mac_key (slice 65 81 d @ slice 81 (length d - 32) d @ opt_bytes s2) = drop (length d - 32) d"
  using assms by (auto simp: ecies_decrypt_def result_simps Let_def split: prod.splits)

text \<open>A signature that is too short, in a packet that decrypts and decodes, panics.\<close>

lemma short_signature_panics:
  "kl_public_ok K (ai_public_key a) \<Longrightarrow> length (ai_signature a) < 64 \<Longrightarrow> recover_ephemeral_public_key K my_sk a = Inl EciesPanic"
  "kl_public_ok K (ai_public_key a) \<Longrightarrow> length (ai_signature a) = 64 \<Longrightarrow> kl_signature_ok K (ai_signature a) \<Longrightarrow>
     recover_ephemeral_public_key K my_sk a = Inl EciesPanic"
  by (simp_all add: recover_ephemeral_public_key_def ensure_def)

lemma recovers_ephemeral:
  assumes ok: "keys_ok K" and sk: "kl_secret_ok K sk" "kl_secret_ok K my" "kl_secret_ok K eph"
    and a: "new_auth_initiate K my (kl_public K sk) eph nonce = Inr a"
  shows "recover_ephemeral_public_key K sk a = Inr (kl_public K eph)"
proof -
  let ?h = "Bit_Operations.xor (kl_shared K my (kl_public K sk)) nonce"
  obtain sig v where s: "kl_sign K eph ?h = Some (sig, v)"
    and e: "a = \<lparr> ai_signature = sig @ [v], ai_public_key = kl_public K my, ai_nonce = nonce, ai_version = 4 \<rparr>"
    using a by (auto simp: new_auth_initiate_def result_simps Let_def)
  from keys_laws(3) [OF ok sk(3) s] show ?thesis
    by (simp add: recover_ephemeral_public_key_def e ensure_def keys_laws(2) [OF ok sk(2)] keys_laws(1) [OF ok sk(1,2)]
        of_option_def nth_append Let_def)
qed

text \<open>Both ends agree: what one sends with, the other receives with.\<close>

definition mirrored :: "rlpx_secrets \<Rightarrow> rlpx_secrets \<Rightarrow> bool" where
  "mirrored a b \<longleftrightarrow> sec_aes a = sec_aes b \<and> sec_mac a = sec_mac b \<and> sec_token a = sec_token b \<and>
     sec_egress_mac a = sec_ingress_mac b \<and> sec_ingress_mac a = sec_egress_mac b"

lemma secrets_agree:
  assumes ok: "keys_ok K" and sk: "kl_secret_ok K e1" "kl_secret_ok K e2"
  shows "\<exists>a b. agree_secret R K True e1 (kl_public K e2) n1 n2 p1 p2 = Inr a \<and>
    agree_secret R K False e2 (kl_public K e1) n1 n2 p1 p2 = Inr b \<and> mirrored a b"
  by (simp add: agree_secret_def ensure_def Let_def keys_laws(1) [OF ok sk(2,1)] keys_laws(2) [OF ok] sk mirrored_def)

section \<open>Keys of a toy curve\<close>

definition demo_keys :: key_lib where
  "demo_keys = \<lparr> kl_secret_ok = (\<lambda>s. True), kl_public = (\<lambda>s. ucast s), kl_public_ok = (\<lambda>p. True),
     kl_shared = (\<lambda>s p. s * ucast p), kl_sign = (\<lambda>s h. Some (to_be 32 s @ to_be 32 h, 0)),
     kl_signature_ok = (\<lambda>s. length s = 64), kl_recovery_ok = (\<lambda>v. v \<le> 3),
     kl_recover = (\<lambda>h s v. Some (ucast (from_be (take 32 s) :: b256))), kl_sha256 = (\<lambda>b. of_nat (be_nat b) + 1),
     kl_aes128_stream = (\<lambda>k iv i. of_nat i + hd iv), kl_hmac = (\<lambda>k m. to_be 32 (of_nat (be_nat m + be_nat k) :: b256)) \<rparr>"

lemma demo_keys_ok: "keys_ok demo_keys"
proof -
  have "ucast (ucast x :: 512 word) = x" for x :: b256 by (rule bit_word_eqI) (simp add: bit_simps)
  then show ?thesis by (simp add: keys_ok_def demo_keys_def from_be_to_be mult.commute)
qed

end
