(* ===== verification/P2p_Messages.thy ===== *)
theory P2p_Messages
  imports Rlp_Derive Message_Claims
begin

text \<open>
  \<open>crates/rsk-p2p/src/protocol/p2p.rs\<close> and \<open>protocol/eth.rs\<close>: the messages of the peer-to-peer layer,
  which carry those of the \<open>rsk\<close> subprotocol, with their encoding and decoding.
\<close>

section \<open>Messages\<close>

text \<open>Strings are their UTF-8 bytes.\<close>

record capability =
  cap_name :: bytes
  cap_version :: u64

record hello_message =
  hl_protocol_version :: u64
  hl_client_id :: bytes
  hl_capabilities :: "capability list"
  hl_listen_port :: "16 word"
  hl_id :: "512 word"

record peer_info =
  pi_ip :: bytes
  pi_port :: "16 word"
  pi_id :: "512 word"

record eth_status =
  es_protocol_version :: u32
  es_network_id :: u64
  es_total_difficulty :: u256
  es_best_hash :: b256
  es_genesis_hash :: b256

datatype p2p_message =
    Hello hello_message
  | Disconnect u64
  | Ping
  | Pong
  | GetPeers
  | Peers "peer_info list"
  | EthStatus eth_status
  | RskMessage rsk_sub_message

definition P2P_VERSION :: u64 where
  "P2P_VERSION = 5"

definition HELLO_ID :: u8 where
  "HELLO_ID = 0"

definition DISCONNECT_ID :: u8 where
  "DISCONNECT_ID = 1"

definition PING_ID :: u8 where
  "PING_ID = 2"

definition PONG_ID :: u8 where
  "PONG_ID = 3"

definition GET_PEERS_ID :: u8 where
  "GET_PEERS_ID = 4"

definition PEERS_ID :: u8 where
  "PEERS_ID = 5"

definition SUB_PROTOCOL_OFFSET :: u8 where
  "SUB_PROTOCOL_OFFSET = 0x10"

definition ETH_STATUS_ID :: u8 where
  "ETH_STATUS_ID = 0"

lemmas message_ids = HELLO_ID_def DISCONNECT_ID_def PING_ID_def PONG_ID_def GET_PEERS_ID_def PEERS_ID_def
  SUB_PROTOCOL_OFFSET_def ETH_STATUS_ID_def MESSAGE_ID_def

section \<open>Encoding\<close>

definition encode_capability :: "rlp_lib \<Rightarrow> capability \<Rightarrow> bytes" where
  "encode_capability R c = wrap_list R (rl_string_bytes R (cap_name c) @ rl_u64_bytes R (cap_version c))"

definition encode_hello :: "rlp_lib \<Rightarrow> hello_message \<Rightarrow> bytes" where
  "encode_hello R h =
     wrap_list R (rl_u64_bytes R (hl_protocol_version h) @ rl_string_bytes R (hl_client_id h) @
       wrap_list R (concat (map (encode_capability R) (hl_capabilities h))) @
       rl_u16_bytes R (hl_listen_port h) @ rl_b512_bytes R (hl_id h))"

definition encode_peer_info :: "rlp_lib \<Rightarrow> peer_info \<Rightarrow> bytes" where
  "encode_peer_info R p =
     wrap_list R (rl_string_bytes R (pi_ip p) @ rl_u16_bytes R (pi_port p) @ rl_b512_bytes R (pi_id p))"

definition encode_eth_status :: "rlp_lib \<Rightarrow> eth_status \<Rightarrow> bytes" where
  "encode_eth_status R s =
     wrap_list R (rl_u32_bytes R (es_protocol_version s) @ rl_u64_bytes R (es_network_id s) @
       rl_u256_bytes R (es_total_difficulty s) @ rl_b256_bytes R (es_best_hash s) @ rl_b256_bytes R (es_genesis_hash s))"

definition eth_status_length :: "rlp_lib \<Rightarrow> eth_status \<Rightarrow> nat" where
  "eth_status_length R s =
     (let len = length (rl_u32_bytes R (es_protocol_version s)) + length (rl_u64_bytes R (es_network_id s)) +
            length (rl_u256_bytes R (es_total_difficulty s)) + length (rl_b256_bytes R (es_best_hash s)) +
            length (rl_b256_bytes R (es_genesis_hash s))
      in length (rl_header_bytes R True len) + len)"

fun encode_p2p :: "rlp_lib \<Rightarrow> p2p_message \<Rightarrow> bytes" where
  "encode_p2p R (Hello hello) = HELLO_ID # encode_hello R hello"
| "encode_p2p R (Disconnect reason) = DISCONNECT_ID # wrap_list R (rl_u64_bytes R reason)"
| "encode_p2p R Ping = PING_ID # rl_header_bytes R True 0"
| "encode_p2p R Pong = PONG_ID # rl_header_bytes R True 0"
| "encode_p2p R GetPeers = GET_PEERS_ID # rl_header_bytes R True 0"
| "encode_p2p R (Peers peers) = PEERS_ID # wrap_list R (concat (map (encode_peer_info R) peers))"
| "encode_p2p R (EthStatus status) = (SUB_PROTOCOL_OFFSET + ETH_STATUS_ID) # encode_eth_status R status"
| "encode_p2p R (RskMessage m) = (SUB_PROTOCOL_OFFSET + MESSAGE_ID) # encode_message R m"

fun p2p_length :: "rlp_lib \<Rightarrow> p2p_message \<Rightarrow> nat" where
  "p2p_length R (Hello hello) = 1 + length (encode_hello R hello)"
| "p2p_length R (Disconnect reason) = 1 + length (wrap_list R (rl_u64_bytes R reason))"
| "p2p_length R Ping = 1 + 1"
| "p2p_length R Pong = 1 + 1"
| "p2p_length R GetPeers = 1 + 1"
| "p2p_length R (Peers peers) = 1 + length (wrap_list R (concat (map (encode_peer_info R) peers)))"
| "p2p_length R (EthStatus status) = 1 + eth_status_length R status"
| "p2p_length R (RskMessage m) = 1 + length (encode_message R m)"

section \<open>Decoding\<close>

definition decode_capability :: "rlp_lib \<Rightarrow> uint_reader \<Rightarrow> bytes \<Rightarrow> (capability \<times> bytes) rlp" where
  "decode_capability R U = read_struct R (\<lambda>b.
     bindE (decode_str R b) (\<lambda>(name, b).
     bindE (decode_u64 U b) (\<lambda>(version, b).
       Inr (\<lparr> cap_name = name, cap_version = version \<rparr>, b))))"

definition decode_hello :: "rlp_lib \<Rightarrow> uint_reader \<Rightarrow> bytes \<Rightarrow> (hello_message \<times> bytes) rlp" where
  "decode_hello R U = read_struct R (\<lambda>b.
     bindE (decode_u64 U b) (\<lambda>(protocol_version, b).
     bindE (decode_str R b) (\<lambda>(client_id, b).
     bindE (read_vec R (decode_capability R U) b) (\<lambda>(capabilities, b).
     bindE (decode_u16 U b) (\<lambda>(listen_port, b).
     bindE (decode_b512 R b) (\<lambda>(peer_id, b).
       Inr (\<lparr> hl_protocol_version = protocol_version, hl_client_id = client_id, hl_capabilities = capabilities,
              hl_listen_port = listen_port, hl_id = peer_id \<rparr>, b)))))))"

definition decode_peer_info :: "rlp_lib \<Rightarrow> uint_reader \<Rightarrow> bytes \<Rightarrow> (peer_info \<times> bytes) rlp" where
  "decode_peer_info R U = read_struct R (\<lambda>b.
     bindE (rl_bytes R b) (\<lambda>(ip, b).
     bindE (decode_u16 U b) (\<lambda>(port, b).
     bindE (decode_b512 R b) (\<lambda>(peer_id, b).
       Inr (\<lparr> pi_ip = ip, pi_port = port, pi_id = peer_id \<rparr>, b)))))"

definition decode_eth_status :: "rlp_lib \<Rightarrow> bytes \<Rightarrow> (eth_status \<times> bytes) rlp" where
  "decode_eth_status R buf =
     bindE (rl_header R buf) (\<lambda>(is_list, n, buf).
     bindE (ensure is_list UnexpectedString) (\<lambda>_.
     bindE (ensure (n \<le> length buf) RlpPanic) (\<lambda>_.
     let body = take n buf in
     bindE (decode_u32_lenient R body) (\<lambda>(protocol_version, body).
     bindE (decode_u64_lenient R body) (\<lambda>(network_id, body).
     bindE (decode_u256_lenient R body) (\<lambda>(total_difficulty, body).
     bindE (decode_b256 R body) (\<lambda>(best_hash, body).
     bindE (decode_b256 R body) (\<lambda>(genesis_hash, _).
       Inr (\<lparr> es_protocol_version = protocol_version, es_network_id = network_id, es_total_difficulty = total_difficulty,
              es_best_hash = best_hash, es_genesis_hash = genesis_hash \<rparr>, drop n buf)))))))))"

text \<open>The bodies of ping, pong and the peer request are a header, of which nothing is checked.\<close>

definition skip_header :: "rlp_lib \<Rightarrow> p2p_message \<Rightarrow> bytes \<Rightarrow> (p2p_message \<times> bytes) rlp" where
  "skip_header R m buf = bindE (rl_header R buf) (\<lambda>(_, _, buf). Inr (m, buf))"

definition decode_disconnect :: "rlp_lib \<Rightarrow> uint_reader \<Rightarrow> bytes \<Rightarrow> (p2p_message \<times> bytes) rlp" where
  "decode_disconnect R U buf =
     bindE (read_vec R (decode_u64 U) buf) (\<lambda>(reasons, buf).
       Inr (Disconnect (case reasons of [] \<Rightarrow> 0 | r # _ \<Rightarrow> r), buf))"

definition decode_p2p :: "rlp_lib \<Rightarrow> uint_reader \<Rightarrow> activation_heights \<Rightarrow> bytes \<Rightarrow> (p2p_message \<times> bytes) rlp" where
  "decode_p2p R U acts data =
    (case data of
       [] \<Rightarrow> Inl InputTooShort
     | i # buf \<Rightarrow>
         if i = HELLO_ID then bindE (decode_hello R U buf) (\<lambda>(h, buf). Inr (Hello h, buf))
         else if i = DISCONNECT_ID then decode_disconnect R U buf
         else if i = PING_ID then skip_header R Ping buf
         else if i = PONG_ID then skip_header R Pong buf
         else if i = GET_PEERS_ID then skip_header R GetPeers buf
         else if i = PEERS_ID then bindE (read_vec R (decode_peer_info R U) buf) (\<lambda>(ps, buf). Inr (Peers ps, buf))
         else if SUB_PROTOCOL_OFFSET \<le> i then
           (let sub_id = i - SUB_PROTOCOL_OFFSET
            in if sub_id = ETH_STATUS_ID then bindE (decode_eth_status R buf) (\<lambda>(s, buf). Inr (EthStatus s, buf))
               else if sub_id = MESSAGE_ID then bindE (decode_message R acts buf) (\<lambda>(m, buf). Inr (RskMessage m, buf))
               else Inl (RlpOther ''Unknown sub-protocol message ID''))
         else Inl (RlpOther ''Unknown message ID''))"

section \<open>What is read back\<close>

definition capability_ok :: "rlp_lib \<Rightarrow> uint_reader \<Rightarrow> capability \<Rightarrow> bool" where
  "capability_ok R U c \<longleftrightarrow> rlp_ok R \<and> uint_ok R U \<and> utf8_ok (cap_name c) \<and> fits (encode_capability R c)"

interpretation wire_capability: wire_codec "encode_capability R" "decode_capability R U" "capability_ok R U" "\<lambda>c. c" for R U
proof unfold_locales
  fix c rest assume c: "capability_ok R U c"
  then have ok: "rlp_ok R" "uint_ok R U" and u: "utf8_ok (cap_name c)"
    and f: "fits (rl_string_bytes R (cap_name c) @ rl_u64_bytes R (cap_version c))"
    by (auto simp: capability_ok_def encode_capability_def dest: fits_wrap)
  then have "fits (cap_name c)" by (blast intro: fits_string fit)
  with ok u f show "decode_capability R U (encode_capability R c @ rest) = Inr (c, rest)"
    by (simp add: decode_capability_def encode_capability_def codec)
  show "encode_capability R c \<noteq> []" using f unfolding encode_capability_def fits_def by (intro wrap_list_ne [OF ok(1)])
qed

definition peer_info_ok :: "rlp_lib \<Rightarrow> uint_reader \<Rightarrow> peer_info \<Rightarrow> bool" where
  "peer_info_ok R U p \<longleftrightarrow> rlp_ok R \<and> uint_ok R U \<and> fits (encode_peer_info R p)"

interpretation wire_peer_info: wire_codec "encode_peer_info R" "decode_peer_info R U" "peer_info_ok R U" "\<lambda>p. p" for R U
proof unfold_locales
  fix p rest assume "peer_info_ok R U p"
  then have ok: "rlp_ok R" "uint_ok R U"
    and f: "fits (rl_string_bytes R (pi_ip p) @ rl_u16_bytes R (pi_port p) @ rl_b512_bytes R (pi_id p))"
    by (auto simp: peer_info_ok_def encode_peer_info_def dest: fits_wrap)
  then have "fits (pi_ip p)" by (blast intro: fits_string fit)
  with ok f show "decode_peer_info R U (encode_peer_info R p @ rest) = Inr (p, rest)"
    by (simp add: decode_peer_info_def encode_peer_info_def codec)
  show "encode_peer_info R p \<noteq> []" using f unfolding encode_peer_info_def fits_def by (intro wrap_list_ne [OF ok(1)])
qed

lemma hello_reads_back:
  assumes ok: "rlp_ok R" "uint_ok R U" and f: "fits (encode_hello R h)"
    and u: "utf8_ok (hl_client_id h)" "\<forall>c \<in> set (hl_capabilities h). utf8_ok (cap_name c)"
  shows "decode_hello R U (encode_hello R h @ rest) = Inr (h, rest)"
proof -
  let ?cs = "concat (map (encode_capability R) (hl_capabilities h))"
  have g: "fits (rl_u64_bytes R (hl_protocol_version h) @ rl_string_bytes R (hl_client_id h) @ wrap_list R ?cs @
      rl_u16_bytes R (hl_listen_port h) @ rl_b512_bytes R (hl_id h))"
    using f by (auto simp: encode_hello_def dest: fits_wrap)
  then have "fits (rl_string_bytes R (hl_client_id h))" and w: "fits (wrap_list R ?cs)" by (simp_all add: fits_def)
  then have c: "fits (hl_client_id h)" "fits ?cs" using fits_string [OF ok(1)] fits_wrap by blast+
  have "\<forall>c \<in> set (hl_capabilities h). capability_ok R U c"
    using fits_member [OF c(2)] u(2) ok by (simp add: capability_ok_def)
  note v = wire_capability.vec_reads [OF ok(1) this c(2)]
  show ?thesis
    unfolding decode_hello_def encode_hello_def
    by (rule struct_reads [OF ok(1) g]) (simp add: codec ok c u v)
qed

lemma eth_status_reads_back:
  assumes "rlp_ok R" and "fits (encode_eth_status R s)"
  shows "decode_eth_status R (encode_eth_status R s @ rest) = Inr (s, rest)"
proof -
  have "fits (rl_u32_bytes R (es_protocol_version s) @ rl_u64_bytes R (es_network_id s) @
       rl_u256_bytes R (es_total_difficulty s) @ rl_b256_bytes R (es_best_hash s) @ rl_b256_bytes R (es_genesis_hash s))"
    using assms(2) by (auto simp: encode_eth_status_def dest: fits_wrap)
  then show ?thesis using assms(1)
    by (simp add: decode_eth_status_def encode_eth_status_def open_fits(7) ensure_def codec)
qed

lemma skip_header_reads: "rlp_ok R \<Longrightarrow> skip_header R m (rl_header_bytes R True 0 @ rest) = Inr (m, rest)"
  using rlp_laws(1) [of R "[]" rest] by (simp add: skip_header_def)

interpretation wire_u64: wire_codec "rl_u64_bytes R" "decode_u64 U" "\<lambda>_. rlp_ok R \<and> uint_ok R U" "\<lambda>v. v" for R U
  by unfold_locales (simp_all add: codec)

text \<open>What a message must be to be sent, and what comes back.\<close>

fun p2p_ok :: "rlp_lib \<Rightarrow> p2p_message \<Rightarrow> bool" where
  "p2p_ok R (Hello h) \<longleftrightarrow> utf8_ok (hl_client_id h) \<and> (\<forall>c \<in> set (hl_capabilities h). utf8_ok (cap_name c))"
| "p2p_ok R (RskMessage m) \<longleftrightarrow> message_ok R m"
| "p2p_ok R _ \<longleftrightarrow> True"

fun read_p2p :: "rlp_lib \<Rightarrow> activation_heights \<Rightarrow> p2p_message \<Rightarrow> p2p_message" where
  "read_p2p R acts (RskMessage m) = RskMessage (read_message R acts m)"
| "read_p2p R acts m = m"

lemma p2p_reads_back:
  assumes ok: "rlp_ok R" "uint_ok R U" and m: "p2p_ok R m" and f: "fits (encode_p2p R m)"
  shows "decode_p2p R U acts (encode_p2p R m @ rest) = Inr (read_p2p R acts m, rest)"
proof (cases m)
  case (Hello h)
  then have "fits (encode_hello R h)" using f by (simp add: fits_def)
  from hello_reads_back [OF ok this] show ?thesis using Hello m by (simp add: decode_p2p_def message_ids)
next
  case (Disconnect r)
  then have "fits (rl_u64_bytes R r)" using f by (simp add: fits_def wrap_list_def)
  with wire_u64.vec_reads [where vs = "[r]" and R = R and U = U and rest = rest] ok show ?thesis
    using Disconnect by (simp add: decode_p2p_def message_ids decode_disconnect_def)
next
  case (Peers ps)
  then have c: "fits (concat (map (encode_peer_info R) ps))" using f by (simp add: fits_def wrap_list_def)
  then have "\<forall>p \<in> set ps. peer_info_ok R U p" using fits_member [OF c] ok by (simp add: peer_info_ok_def)
  from wire_peer_info.vec_reads [OF ok(1) this c, of rest] show ?thesis
    using Peers by (simp add: decode_p2p_def message_ids)
next
  case (EthStatus s)
  then have "fits (encode_eth_status R s)" using f by (simp add: fits_def)
  from eth_status_reads_back [OF ok(1) this] show ?thesis using EthStatus by (simp add: decode_p2p_def message_ids word_le_nat_alt)
next
  case (RskMessage x)
  then have "fits (encode_message R x)" using f by (simp add: fits_def)
  from message_reads_back [OF ok(1) _ this, of acts rest] show ?thesis
    using RskMessage m by (simp add: decode_p2p_def message_ids word_le_nat_alt)
qed (simp_all add: decode_p2p_def message_ids skip_header_reads [OF ok(1)])

lemma p2p_length_exact:
  "rl_header_bytes R True 0 = [0xC0] \<Longrightarrow> p2p_length R m = length (encode_p2p R m)"
  by (cases m) (simp_all add: eth_status_length_def encode_eth_status_def wrap_list_def Let_def add.assoc)

end
