(* ===== verification/P2p_Codec.thy ===== *)
theory P2p_Codec
  imports P2p_Messages Frame_Channel
begin

text \<open>
  \<open>crates/rsk-p2p/src/codec.rs\<close> and \<open>rlpx/codec.rs\<close>: messages out of a buffer of bytes, in the clear
  and in frames, and the codec of a handshake, which is one of the two.
\<close>

datatype codec_error =
    EmptyMessage
  | CodecRlp rlp_error
  | CodecFrame frame_error

section \<open>In the clear\<close>

text \<open>The buffer advances by what the message took; a message that is not all there is waited for.\<close>

definition plain_decode :: "rlp_lib \<Rightarrow> uint_reader \<Rightarrow> activation_heights \<Rightarrow> bytes \<Rightarrow> (codec_error + p2p_message option) \<times> bytes" where
  "plain_decode R U acts src =
    (if src = [] then (Inr None, src)
     else case decode_p2p R U acts src of
         Inr (msg, data) \<Rightarrow> let consumed = length src - length data in (Inr (Some msg), drop consumed src)
       | Inl InputTooShort \<Rightarrow> (Inr None, src)
       | Inl e \<Rightarrow> (Inl (CodecRlp e), src))"

definition plain_encode :: "rlp_lib \<Rightarrow> p2p_message \<Rightarrow> bytes \<Rightarrow> bytes" where
  "plain_encode R msg dst = dst @ encode_p2p R msg"

section \<open>In frames\<close>

definition rlpx_decode :: "rlp_lib \<Rightarrow> frame_ciphers \<Rightarrow> uint_reader \<Rightarrow> activation_heights \<Rightarrow> frame_codec \<Rightarrow> bytes \<Rightarrow>
    (codec_error + p2p_message option) \<times> frame_codec \<times> bytes" where
  "rlpx_decode R F U acts c src =
    (case decode_frame R F U c src of
       (Inl e, c', src') \<Rightarrow> (Inl (CodecFrame e), c', src')
     | (Inr None, c', src') \<Rightarrow> (Inr None, c', src')
     | (Inr (Some (protocol_id, payload)), c', src') \<Rightarrow>
         (case decode_p2p R U acts (protocol_id # payload) of
            Inr (msg, _) \<Rightarrow> (Inr (Some msg), c', src')
          | Inl e \<Rightarrow> (Inl (CodecRlp e), c', src')))"

definition rlpx_encode :: "rlp_lib \<Rightarrow> frame_ciphers \<Rightarrow> frame_codec \<Rightarrow> p2p_message \<Rightarrow> bytes \<Rightarrow> (codec_error + bytes) \<times> frame_codec" where
  "rlpx_encode R F c msg dst =
    (case encode_p2p R msg of
       [] \<Rightarrow> (Inl EmptyMessage, c)
     | protocol_id # payload \<Rightarrow> let (frame, c') = encode_frame R F c protocol_id payload in (Inr (dst @ frame), c'))"

section \<open>The codec of a handshake\<close>

datatype handshake_codec =
    Plain
  | RLPx frame_codec

fun handshake_decode :: "rlp_lib \<Rightarrow> frame_ciphers \<Rightarrow> uint_reader \<Rightarrow> activation_heights \<Rightarrow> handshake_codec \<Rightarrow> bytes \<Rightarrow>
    (codec_error + p2p_message option) \<times> handshake_codec \<times> bytes" where
  "handshake_decode R F U acts Plain src = (let (r, src') = plain_decode R U acts src in (r, Plain, src'))"
| "handshake_decode R F U acts (RLPx c) src = (let (r, c', src') = rlpx_decode R F U acts c src in (r, RLPx c', src'))"

fun handshake_encode :: "rlp_lib \<Rightarrow> frame_ciphers \<Rightarrow> handshake_codec \<Rightarrow> p2p_message \<Rightarrow> bytes \<Rightarrow> (codec_error + bytes) \<times> handshake_codec" where
  "handshake_encode R F Plain msg dst = (Inr (plain_encode R msg dst), Plain)"
| "handshake_encode R F (RLPx c) msg dst = (let (r, c') = rlpx_encode R F c msg dst in (r, RLPx c'))"

section \<open>Messages through the codecs\<close>

text \<open>The size of the frame of a message.\<close>

definition message_sendable :: "rlp_lib \<Rightarrow> p2p_message \<Rightarrow> bool" where
  "message_sendable R m \<longleftrightarrow> p2p_ok R m \<and> (\<exists>protocol_id payload. encode_p2p R m = protocol_id # payload \<and> sendable R (protocol_id, payload))"

lemma message_sendable_iff:
  "message_sendable R m \<longleftrightarrow> p2p_ok R m \<and> sendable R (hd (encode_p2p R m), tl (encode_p2p R m))"
  by (cases m) (simp_all add: message_sendable_def)

lemma sendable_fits: "message_sendable R m \<Longrightarrow> fits (encode_p2p R m)"
  by (auto simp: message_sendable_def sendable_def frame_size_def fits_def)

text \<open>In the clear: with something else behind it, or not.\<close>

lemma plain_reads_back:
  assumes "rlp_ok R" and "uint_ok R U" and "p2p_ok R m" and "fits (encode_p2p R m)"
  shows "plain_decode R U acts (plain_encode R m [] @ rest) = (Inr (Some (read_p2p R acts m)), rest)"
proof -
  have "encode_p2p R m \<noteq> []" by (cases m) simp_all
  then show ?thesis
    using p2p_reads_back [OF assms, of acts rest] by (simp add: plain_decode_def plain_encode_def Let_def)
qed

text \<open>A message encoded into frames by one end and decoded by the other end, in step with it, comes back
  as the message a peer reads, whatever follows it, and leaves both ends in step.\<close>

theorem rlpx_round_trip:
  assumes "frame_ok R U" and "synced s r" and "message_sendable R m" and "rlpx_encode R F s m [] = (Inr bs, s')"
  shows "\<exists>r'. rlpx_decode R F U acts r (bs @ rest) = (Inr (Some (read_p2p R acts m)), r', rest) \<and> synced s' r'"
proof -
  obtain pid payload where p: "encode_p2p R m = pid # payload" and s: "sendable R (pid, payload)"
    using assms(3) by (auto simp: message_sendable_def)
  have f: "encode_frame R F s (fst (pid, payload)) (snd (pid, payload)) = (bs, s')"
    using assms(4) p by (auto simp: rlpx_encode_def split: prod.splits)
  obtain rh r' where len: "length bs = 32 + (frame_size R (pid, payload) + frame_padding (frame_size R (pid, payload)) + 16)"
    and h: "\<And>y. decode_head R F r (take 32 bs @ y) = (None, rh, y)"
    and b: "\<And>rest. decode_body R F U rh (drop 32 bs @ rest) = (Inr (Some (pid, payload)), r', rest)" and sync: "synced s' r'"
    using frame_decodes [OF assms(1,2) s f] by metis
  have "decode_head R F r (bs @ rest) = (None, rh, drop 32 bs @ rest)"
    using h [of "drop 32 bs @ rest"] by (simp flip: append_assoc)
  then have "decode_frame R F U r (bs @ rest) = (Inr (Some (pid, payload)), r', rest)"
    using assms(2) len b by (simp add: decode_frame_def synced_def)
  moreover have "decode_p2p R U acts (pid # payload) = Inr (read_p2p R acts m, [])"
    using p2p_reads_back [of R U m acts "[]"] assms(1,3) sendable_fits [OF assms(3)] p by (simp add: frame_ok_def message_sendable_def)
  ultimately show ?thesis using sync by (auto simp: rlpx_decode_def)
qed

lemma disconnect_sendable: "message_sendable rlp_std (Disconnect r)"
proof -
  have "length (strip_zeros (to_be 8 r)) \<le> 8" using length_strip_zeros [of "to_be 8 r"] by simp
  then have a: "length (rl_u64_bytes rlp_std r) \<le> 265" unfolding rl_u64_bytes_def by (intro std_string_bound) simp
  have c: "length (rl_u8_bytes rlp_std DISCONNECT_ID) \<le> 265"
    unfolding rl_u8_bytes_def using length_strip_zeros [of "[DISCONNECT_ID]"] by (intro std_string_bound) simp
  show ?thesis
    using a std_wrap_length [of "rl_u64_bytes rlp_std r"] c
    by (simp add: message_sendable_iff sendable_def frame_size_def)
qed

lemma rlpx_round_trip_witness:
  "\<exists>bs s' r'. rlpx_encode rlp_std demo_ciphers (new_frame_codec demo_secrets) (Disconnect 4) [] = (Inr bs, s') \<and>
     rlpx_decode rlp_std demo_ciphers std_uint activations_mainnet (new_frame_codec demo_secrets) bs = (Inr (Some (Disconnect 4)), r', []) \<and>
     synced s' r'"
proof -
  obtain bs s' where "encode_frame rlp_std demo_ciphers (new_frame_codec demo_secrets) DISCONNECT_ID (wrap_list rlp_std (rl_u64_bytes rlp_std 4)) = (bs, s')"
    by fastforce
  then have e: "rlpx_encode rlp_std demo_ciphers (new_frame_codec demo_secrets) (Disconnect 4) [] = (Inr bs, s')"
    by (simp add: rlpx_encode_def)
  from rlpx_round_trip [OF demo_ok disconnect_sendable e, of activations_mainnet "[]"] e show ?thesis by auto
qed

text \<open>A header read in the clear leaves the body of a ping behind, which is then read as a message.\<close>

lemma ping_leaves_body:
  "rlp_ok R \<Longrightarrow> length p < 2 ^ 64 \<Longrightarrow> plain_decode R U acts (PING_ID # wrap_list R p @ rest) = (Inr (Some Ping), p @ rest)"
  by (simp add: plain_decode_def decode_p2p_def message_ids skip_header_def wrap_list_def rlp_laws(1) Let_def)

end
