(* ===== verification/P2p_Handshake.thy ===== *)
theory P2p_Handshake
  imports P2p_Codec
begin

text \<open>
  \<open>crates/rsk-p2p/src/handshake.rs\<close> above the frames: what a node offers, what it makes of a peer's
  offer, and the exchange of hello and status messages, as steps of the two ends with the messages in
  transit between them.
\<close>

section \<open>Configuration\<close>

record node_config =
  nc_client_id :: bytes
  nc_listen_port :: "16 word"
  nc_id :: "512 word"
  nc_chain_id :: u8
  nc_network_id :: u64
  nc_genesis_hash :: b256
  nc_best_hash :: b256
  nc_best_block_number :: u64
  nc_best_block_parent_hash :: "b256 option"
  nc_total_difficulty :: u256
  nc_earliest_block :: u64
  nc_snap_capability :: bool
  nc_bootnodes :: "bytes list"
  nc_closed_network :: bool
  nc_read_only :: bool
  nc_secret_key :: bytes
  nc_discovery_port :: "16 word"
  nc_data_dir :: bytes
  nc_external_ip :: "bytes option"
  nc_max_outbound_peers :: nat
  nc_max_inbound_peers :: nat
  nc_max_inbound_per_ip :: nat
  nc_max_inbound_per_cidr :: nat
  nc_inbound_cidr_prefix :: u8

section \<open>Capabilities\<close>

definition rsk_name :: bytes where
  "rsk_name = [0x72, 0x73, 0x6B]"

definition snap_name :: bytes where
  "snap_name = [0x73, 0x6E, 0x61, 0x70]"

record peer_capabilities =
  pc_rsk_version :: u64
  pc_snap :: bool

definition default_capabilities :: peer_capabilities where
  "default_capabilities = \<lparr> pc_rsk_version = 62, pc_snap = False \<rparr>"

definition negotiate :: "capability list \<Rightarrow> peer_capabilities" where
  "negotiate peer =
     (let versions = filter (\<lambda>v. v \<le> RSK_RANGE_VERSION) (map cap_version (filter (\<lambda>c. cap_name c = rsk_name) peer))
      in \<lparr> pc_rsk_version = (case versions of [] \<Rightarrow> 62 | v # vs \<Rightarrow> foldl max v vs),
           pc_snap = list_ex (\<lambda>c. cap_name c = snap_name) peer \<rparr>)"

definition understands_block_range :: "peer_capabilities \<Rightarrow> bool" where
  "understands_block_range c \<longleftrightarrow> RSK_RANGE_VERSION \<le> pc_rsk_version c"

definition understands_header_uncles :: "peer_capabilities \<Rightarrow> bool" where
  "understands_header_uncles c \<longleftrightarrow> RSK_RANGE_VERSION \<le> pc_rsk_version c"

definition capabilities :: "node_config \<Rightarrow> capability list" where
  "capabilities config =
     [\<lparr> cap_name = rsk_name, cap_version = 62 \<rparr>, \<lparr> cap_name = rsk_name, cap_version = RSK_RANGE_VERSION \<rparr>] @
     (if nc_snap_capability config then [\<lparr> cap_name = snap_name, cap_version = 1 \<rparr>] else [])"

section \<open>The messages of the exchange\<close>

definition own_hello :: "node_config \<Rightarrow> p2p_message" where
  "own_hello config = Hello \<lparr> hl_protocol_version = P2P_VERSION, hl_client_id = nc_client_id config,
     hl_capabilities = capabilities config, hl_listen_port = nc_listen_port config, hl_id = nc_id config \<rparr>"

definition own_eth_status :: "node_config \<Rightarrow> p2p_message" where
  "own_eth_status config = EthStatus \<lparr> es_protocol_version = 0x3E, es_network_id = nc_network_id config,
     es_total_difficulty = nc_total_difficulty config, es_best_hash = nc_best_hash config,
     es_genesis_hash = nc_genesis_hash config \<rparr>"

definition own_rsk_status :: "node_config \<Rightarrow> rsk_status" where
  "own_rsk_status config = \<lparr> st_best_block_number = nc_best_block_number config, st_best_block_hash = nc_best_hash config,
     st_best_block_parent_hash = nc_best_block_parent_hash config, st_total_difficulty = Some (nc_total_difficulty config),
     st_earliest_block = map_option (\<lambda>_. nc_earliest_block config) (nc_best_block_parent_hash config) \<rparr>"

datatype handshake_error =
    ConnectionClosed
  | ExpectedHello
  | ExpectedEthStatus
  | GenesisMismatch
  | ExpectedRskStatus
  | ExpectedRskMessage

text \<open>What the next message must be; \<open>None\<close> is a connection that closed.\<close>

fun receive_hello :: "p2p_message option \<Rightarrow> handshake_error + 512 word \<times> peer_capabilities" where
  "receive_hello None = Inl ConnectionClosed"
| "receive_hello (Some (Hello peer_hello)) = Inr (hl_id peer_hello, negotiate (hl_capabilities peer_hello))"
| "receive_hello (Some _) = Inl ExpectedHello"

fun receive_eth_status :: "node_config \<Rightarrow> p2p_message option \<Rightarrow> handshake_error + unit" where
  "receive_eth_status config None = Inl ConnectionClosed"
| "receive_eth_status config (Some (EthStatus s)) =
     (if es_genesis_hash s \<noteq> nc_genesis_hash config then Inl GenesisMismatch else Inr ())"
| "receive_eth_status config (Some _) = Inl ExpectedEthStatus"

fun receive_rsk_status :: "p2p_message option \<Rightarrow> handshake_error + rsk_status" where
  "receive_rsk_status None = Inl ConnectionClosed"
| "receive_rsk_status (Some (RskMessage (Status s))) = Inr s"
| "receive_rsk_status (Some (RskMessage _)) = Inl ExpectedRskStatus"
| "receive_rsk_status (Some _) = Inl ExpectedRskMessage"

section \<open>One end\<close>

datatype handshake_step =
    SendHello
  | ReceiveHello
  | SendEthStatus
  | SendRskStatus
  | ReceiveEthStatus
  | ReceiveRskStatus

definition p2p_handshake :: "handshake_step list" where
  "p2p_handshake = [SendHello, ReceiveHello, SendEthStatus, SendRskStatus, ReceiveEthStatus, ReceiveRskStatus]"

definition p2p_handshake_inbound :: "handshake_step list" where
  "p2p_handshake_inbound = [ReceiveHello, SendHello, ReceiveEthStatus, ReceiveRskStatus, SendEthStatus, SendRskStatus]"

record handshake_node =
  hn_config :: node_config
  hn_todo :: "handshake_step list"
  hn_peer_id :: "512 word option"
  hn_caps :: "peer_capabilities option"
  hn_status :: "rsk_status option"
  hn_error :: "handshake_error option"

definition new_node :: "node_config \<Rightarrow> handshake_step list \<Rightarrow> handshake_node" where
  "new_node config todo = \<lparr> hn_config = config, hn_todo = todo, hn_peer_id = None, hn_caps = None, hn_status = None, hn_error = None \<rparr>"

definition handshake_done :: "handshake_node \<Rightarrow> bool" where
  "handshake_done n \<longleftrightarrow> hn_todo n = [] \<and> hn_error n = None"

fun sends :: "handshake_step \<Rightarrow> bool" where
  "sends SendHello \<longleftrightarrow> True"
| "sends SendEthStatus \<longleftrightarrow> True"
| "sends SendRskStatus \<longleftrightarrow> True"
| "sends _ \<longleftrightarrow> False"

text \<open>A step with the message it reads, if it reads one: the node after it and what it sends.\<close>

fun perform :: "handshake_step \<Rightarrow> handshake_node \<Rightarrow> p2p_message option \<Rightarrow> handshake_error + handshake_node \<times> p2p_message list" where
  "perform SendHello n _ = Inr (n, [own_hello (hn_config n)])"
| "perform SendEthStatus n _ = Inr (n, [own_eth_status (hn_config n)])"
| "perform SendRskStatus n _ = Inr (n, [RskMessage (Status (own_rsk_status (hn_config n)))])"
| "perform ReceiveHello n msg = bindE (receive_hello msg) (\<lambda>(peer, caps). Inr (n\<lparr> hn_peer_id := Some peer, hn_caps := Some caps \<rparr>, []))"
| "perform ReceiveEthStatus n msg = bindE (receive_eth_status (hn_config n) msg) (\<lambda>_. Inr (n, []))"
| "perform ReceiveRskStatus n msg = bindE (receive_rsk_status msg) (\<lambda>s. Inr (n\<lparr> hn_status := Some s \<rparr>, []))"

text \<open>The next step of an end, unless it has ended or waits for a message. A peer that failed has closed
  its connection.\<close>

definition take_step :: "handshake_step \<Rightarrow> handshake_step list \<Rightarrow> handshake_node \<Rightarrow> p2p_message option \<Rightarrow> handshake_node \<times> p2p_message list" where
  "take_step a todo n msg =
    (case perform a n msg of
       Inl e \<Rightarrow> (n\<lparr> hn_error := Some e \<rparr>, [])
     | Inr (n', out) \<Rightarrow> (n'\<lparr> hn_todo := todo \<rparr>, out))"

definition advance :: "rlp_lib \<Rightarrow> activation_heights \<Rightarrow> handshake_node \<Rightarrow> p2p_message list \<Rightarrow> bool \<Rightarrow>
    (handshake_node \<times> p2p_message list \<times> p2p_message list) option" where
  "advance R acts n inbox peer_closed =
    (if hn_error n \<noteq> None then None
     else case hn_todo n of
         [] \<Rightarrow> None
       | a # todo \<Rightarrow>
           if sends a then (let (n', out) = take_step a todo n None in Some (n', out, inbox))
           else case inbox of
               m # rest \<Rightarrow> (let (n', out) = take_step a todo n (Some (read_p2p R acts m)) in Some (n', out, rest))
             | [] \<Rightarrow> if peer_closed then (let (n', out) = take_step a todo n None in Some (n', out, [])) else None)"

section \<open>Both ends\<close>

record handshake_net =
  hs_dialer :: handshake_node
  hs_listener :: handshake_node
  hs_to_listener :: "p2p_message list"
  hs_to_dialer :: "p2p_message list"

definition new_net :: "node_config \<Rightarrow> node_config \<Rightarrow> handshake_net" where
  "new_net c1 c2 = \<lparr> hs_dialer = new_node c1 p2p_handshake, hs_listener = new_node c2 p2p_handshake_inbound,
     hs_to_listener = [], hs_to_dialer = [] \<rparr>"

inductive net_step :: "rlp_lib \<Rightarrow> activation_heights \<Rightarrow> handshake_net \<Rightarrow> handshake_net \<Rightarrow> bool"
  for R acts where
  dialer: "advance R acts (hs_dialer net) (hs_to_dialer net) (hn_error (hs_listener net) \<noteq> None) = Some (n, out, inbox) \<Longrightarrow>
     net_step R acts net (net\<lparr> hs_dialer := n, hs_to_dialer := inbox, hs_to_listener := hs_to_listener net @ out \<rparr>)"
| listener: "advance R acts (hs_listener net) (hs_to_listener net) (hn_error (hs_dialer net) \<noteq> None) = Some (n, out, inbox) \<Longrightarrow>
     net_step R acts net (net\<lparr> hs_listener := n, hs_to_listener := inbox, hs_to_dialer := hs_to_dialer net @ out \<rparr>)"

inductive_simps net_step_iff: "net_step R acts net net'"

section \<open>Capabilities agreed\<close>

lemma foldl_max: "foldl max v vs = Max (set (v # vs))" for v :: "'a::linorder"
proof -
  have "(\<lambda>x s. max s x) = (max :: 'a \<Rightarrow> 'a \<Rightarrow> 'a)" by (intro ext) (rule max.commute)
  then show ?thesis by (simp add: foldl_conv_fold) (metis Max.set_eq_fold list.set(2))
qed

text \<open>The version agreed on is the greatest the peer offered up to the range version, and 62 when it
  offered none.\<close>

lemma negotiate_version:
  "pc_rsk_version (negotiate peer) =
     (let vs = {v. v \<le> RSK_RANGE_VERSION \<and> (\<exists>c \<in> set peer. cap_name c = rsk_name \<and> cap_version c = v)}
      in if vs = {} then 62 else Max vs)"
proof -
  define vs where "vs = filter (\<lambda>v. v \<le> RSK_RANGE_VERSION) (map cap_version (filter (\<lambda>c. cap_name c = rsk_name) peer))"
  have "set vs = {v. v \<le> RSK_RANGE_VERSION \<and> (\<exists>c \<in> set peer. cap_name c = rsk_name \<and> cap_version c = v)}"
    by (auto simp: vs_def)
  moreover have "pc_rsk_version (negotiate peer) = (if set vs = {} then 62 else Max (set vs))"
    by (simp add: negotiate_def flip: vs_def) (simp add: foldl_max split: list.split)
  ultimately show ?thesis by (simp only: Let_def)
qed

lemma negotiate_own: "negotiate (capabilities c) = \<lparr> pc_rsk_version = 63, pc_snap = nc_snap_capability c \<rparr>"
  by (simp add: negotiate_def capabilities_def RSK_RANGE_VERSION_def rsk_name_def snap_name_def)

text \<open>A peer that offers only later versions is taken to speak 62.\<close>

lemma negotiate_later: "negotiate [\<lparr> cap_name = rsk_name, cap_version = 64 \<rparr>] = default_capabilities"
  by (simp add: negotiate_def RSK_RANGE_VERSION_def rsk_name_def snap_name_def default_capabilities_def)

section \<open>Two nodes of this code\<close>

text \<open>The states the exchange goes through when both have one genesis: the dialer after \<open>i\<close> steps and the
  listener after \<open>j\<close>.\<close>

definition dialer_at :: "node_config \<Rightarrow> node_config \<Rightarrow> nat \<Rightarrow> handshake_node" where
  "dialer_at c1 c2 i = \<lparr> hn_config = c1, hn_todo = drop i p2p_handshake,
     hn_peer_id = (if 2 \<le> i then Some (nc_id c2) else None),
     hn_caps = (if 2 \<le> i then Some (negotiate (capabilities c2)) else None),
     hn_status = (if 6 \<le> i then Some (read_status (own_rsk_status c2)) else None), hn_error = None \<rparr>"

definition listener_at :: "node_config \<Rightarrow> node_config \<Rightarrow> nat \<Rightarrow> handshake_node" where
  "listener_at c1 c2 j = \<lparr> hn_config = c2, hn_todo = drop j p2p_handshake_inbound,
     hn_peer_id = (if 1 \<le> j then Some (nc_id c1) else None),
     hn_caps = (if 1 \<le> j then Some (negotiate (capabilities c1)) else None),
     hn_status = (if 4 \<le> j then Some (read_status (own_rsk_status c1)) else None), hn_error = None \<rparr>"

definition outputs :: "node_config \<Rightarrow> p2p_message list" where
  "outputs c = [own_hello c, own_eth_status c, RskMessage (Status (own_rsk_status c))]"

text \<open>How many messages a node has sent or read after so many of its steps.\<close>

definition sent_after :: "handshake_step list \<Rightarrow> nat \<Rightarrow> nat" where
  "sent_after steps i = length (filter sends (take i steps))"

definition read_after :: "handshake_step list \<Rightarrow> nat \<Rightarrow> nat" where
  "read_after steps i = length (filter (\<lambda>a. \<not> sends a) (take i steps))"

definition net_at :: "node_config \<Rightarrow> node_config \<Rightarrow> nat \<Rightarrow> nat \<Rightarrow> handshake_net" where
  "net_at c1 c2 i j = \<lparr> hs_dialer = dialer_at c1 c2 i, hs_listener = listener_at c1 c2 j,
     hs_to_listener = drop (read_after p2p_handshake_inbound j) (take (sent_after p2p_handshake i) (outputs c1)),
     hs_to_dialer = drop (read_after p2p_handshake i) (take (sent_after p2p_handshake_inbound j) (outputs c2)) \<rparr>"

definition positions :: "(nat \<times> nat) list" where
  "positions = [(0,0), (1,0), (1,1), (1,2), (2,2), (3,2), (4,2), (3,3), (4,3), (4,4), (4,5), (5,5), (4,6), (5,6), (6,6)]"

lemmas handshake_defs = net_at_def dialer_at_def listener_at_def outputs_def sent_after_def read_after_def
  p2p_handshake_def p2p_handshake_inbound_def advance_def take_step_def own_hello_def own_eth_status_def

lemma new_net_at: "new_net c1 c2 = net_at c1 c2 0 0"
  by (simp add: new_net_def new_node_def handshake_defs)

text \<open>Every step goes from one position to another, and only the last has none.\<close>

lemma net_at_step:
  assumes "nc_genesis_hash c1 = nc_genesis_hash c2" and "(i, j) \<in> set positions" and "net_step R acts (net_at c1 c2 i j) net"
  shows "(Suc i, j) \<in> set positions \<and> net = net_at c1 c2 (Suc i) j \<or> (i, Suc j) \<in> set positions \<and> net = net_at c1 c2 i (Suc j)"
  using assms(2) unfolding positions_def list.set insert_iff prod.inject empty_iff
  by (elim disjE conjE FalseE; hypsubst) (use assms(1,3) in \<open>simp_all add: net_step_iff handshake_defs\<close>)

lemma net_at_moves:
  assumes "nc_genesis_hash c1 = nc_genesis_hash c2" and "(i, j) \<in> set positions" and "i + j < 12"
  shows "\<exists>net. net_step R acts (net_at c1 c2 i j) net"
  using assms(2) unfolding positions_def list.set insert_iff prod.inject empty_iff
  by (elim disjE conjE FalseE; hypsubst) (use assms(1,3) in \<open>auto simp: net_step_iff handshake_defs\<close>)

lemma last_position: "(i, j) \<in> set positions \<Longrightarrow> i + j \<le> 12 \<and> (i + j = 12 \<longrightarrow> i = 6 \<and> j = 6)"
  by (auto simp: positions_def)

lemma steps_at:
  assumes "nc_genesis_hash c1 = nc_genesis_hash c2" and "(net_step R acts ^^ n) (new_net c1 c2) net"
  shows "\<exists>i j. (i, j) \<in> set positions \<and> i + j = n \<and> net = net_at c1 c2 i j"
  using assms(2)
proof (induction n arbitrary: net)
  case 0
  then show ?case by (auto simp: new_net_at positions_def)
next
  case (Suc n)
  then obtain m where "(net_step R acts ^^ n) (new_net c1 c2) m" "net_step R acts m net" by auto
  with Suc.IH obtain i j where "(i, j) \<in> set positions" "i + j = n" "net_step R acts (net_at c1 c2 i j) net" by blast
  with net_at_step [OF assms(1)] show ?case by (metis add_Suc add_Suc_right)
qed

text \<open>Both ends done, each with the identity, the capabilities and the status of the other.\<close>

definition handshake_complete :: "node_config \<Rightarrow> node_config \<Rightarrow> handshake_net \<Rightarrow> bool" where
  "handshake_complete c1 c2 net \<longleftrightarrow>
     handshake_done (hs_dialer net) \<and> handshake_done (hs_listener net) \<and>
     hn_peer_id (hs_dialer net) = Some (nc_id c2) \<and> hn_peer_id (hs_listener net) = Some (nc_id c1) \<and>
     hn_caps (hs_dialer net) = Some \<lparr> pc_rsk_version = 63, pc_snap = nc_snap_capability c2 \<rparr> \<and>
     hn_caps (hs_listener net) = Some \<lparr> pc_rsk_version = 63, pc_snap = nc_snap_capability c1 \<rparr> \<and>
     hn_status (hs_dialer net) = Some (read_status (own_rsk_status c2)) \<and>
     hn_status (hs_listener net) = Some (read_status (own_rsk_status c1))"

lemma complete_at_end: "handshake_complete c1 c2 (net_at c1 c2 6 6)"
  by (simp add: handshake_complete_def handshake_done_def net_at_def dialer_at_def listener_at_def p2p_handshake_def
      p2p_handshake_inbound_def negotiate_own)

text \<open>C38. Two nodes with one genesis always complete the exchange: however their steps interleave, twelve steps
  end it, as long as it has not ended some step is possible, and at the end each has the identity,
  capabilities and status of the other.\<close>

theorem handshake_completes:
  assumes "nc_genesis_hash c1 = nc_genesis_hash c2" and "(net_step R acts ^^ n) (new_net c1 c2) net"
  shows "n \<le> 12 \<and> (n = 12 \<longrightarrow> handshake_complete c1 c2 net) \<and> (n < 12 \<longrightarrow> (\<exists>net'. net_step R acts net net'))"
proof -
  obtain i j where ij: "(i, j) \<in> set positions" "i + j = n" "net = net_at c1 c2 i j" using steps_at [OF assms] by blast
  then show ?thesis using last_position [OF ij(1)] complete_at_end net_at_moves [OF assms(1) ij(1)] by auto
qed

definition demo_config :: node_config where
  "demo_config = \<lparr> nc_client_id = [0x72], nc_listen_port = 5050, nc_id = 7, nc_chain_id = 30, nc_network_id = 775,
     nc_genesis_hash = 1, nc_best_hash = 2, nc_best_block_number = 3, nc_best_block_parent_hash = Some 4,
     nc_total_difficulty = 5, nc_earliest_block = 0, nc_snap_capability = False, nc_bootnodes = [],
     nc_closed_network = False, nc_read_only = False, nc_secret_key = replicate 32 1, nc_discovery_port = 0,
     nc_data_dir = [], nc_external_ip = None, nc_max_outbound_peers = 1, nc_max_inbound_peers = 1,
     nc_max_inbound_per_ip = 1, nc_max_inbound_per_cidr = 1, nc_inbound_cidr_prefix = 24 \<rparr>"

lemma handshake_completes_witness: "\<exists>net. net_step rlp_std activations_mainnet (new_net demo_config demo_config) net"
  using handshake_completes [of demo_config demo_config 0 rlp_std activations_mainnet "new_net demo_config demo_config"] by simp

section \<open>Nodes of different chains\<close>

definition refuses :: "node_config \<Rightarrow> node_config \<Rightarrow> handshake_node \<Rightarrow> p2p_message list \<Rightarrow> bool" where
  "refuses c c' n inbox \<longleftrightarrow> hn_config n = c \<and> set inbox \<subseteq> set (outputs c') \<and> (ReceiveEthStatus \<in> set (hn_todo n) \<or> hn_error n \<noteq> None)"

lemma perform_config: "perform a n msg = Inr (n', out) \<Longrightarrow> hn_config n' = hn_config n \<and> hn_error n' = hn_error n \<and> set out \<subseteq> set (outputs (hn_config n))"
  by (cases a) (auto simp: result_simps outputs_def split: if_splits)

lemma wrong_status_refused:
  assumes "nc_genesis_hash c \<noteq> nc_genesis_hash c'" and "m \<in> set (outputs c')"
  shows "\<exists>e. receive_eth_status c (Some (read_p2p R acts m)) = Inl e"
  using assms by (auto simp: outputs_def own_hello_def own_eth_status_def)

lemma take_step_refuses:
  assumes "nc_genesis_hash c \<noteq> nc_genesis_hash c'" and n: "hn_config n = c" "hn_error n = None"
    and todo: "ReceiveEthStatus \<in> set (a # todo)"
    and msg: "\<And>m. msg = Some m \<Longrightarrow> \<exists>x \<in> set (outputs c'). m = read_p2p R acts x"
    and t: "take_step a todo n msg = (n', out)"
  shows "hn_config n' = c \<and> (ReceiveEthStatus \<in> set (hn_todo n') \<or> hn_error n' \<noteq> None) \<and> set out \<subseteq> set (outputs c)"
proof (cases "a = ReceiveEthStatus")
  case True
  have "\<exists>e. receive_eth_status c msg = Inl e"
  proof (cases msg)
    case (Some m)
    then show ?thesis using msg wrong_status_refused [OF assms(1)] by blast
  qed simp
  then show ?thesis using t n True by (auto simp: take_step_def)
next
  case False
  then have "ReceiveEthStatus \<in> set todo" using todo by simp
  then show ?thesis
  proof (cases "perform a n msg")
    case (Inr p)
    obtain n1 out1 where "p = (n1, out1)" by (cases p)
    then show ?thesis using Inr t n \<open>ReceiveEthStatus \<in> set todo\<close> perform_config [of a n msg n1 out1] by (auto simp: take_step_def)
  qed (use t n in \<open>auto simp: take_step_def\<close>)
qed

lemma advance_refuses:
  assumes "nc_genesis_hash c \<noteq> nc_genesis_hash c'" and r: "refuses c c' n inbox"
    and adv: "advance R acts n inbox closed = Some (n', out, inbox')"
  shows "refuses c c' n' inbox' \<and> set out \<subseteq> set (outputs c)"
proof -
  obtain a todo where todo: "hn_todo n = a # todo" and none: "hn_error n = None"
    using adv unfolding advance_def by (cases "hn_todo n"; cases "hn_error n") simp_all
  have n: "hn_config n = c" and eth: "ReceiveEthStatus \<in> set (a # todo)" and sub: "set inbox \<subseteq> set (outputs c')"
    using r todo none by (auto simp: refuses_def)
  obtain msg where t: "take_step a todo n msg = (n', out)" and "set inbox' \<subseteq> set inbox"
    and "\<And>m. msg = Some m \<Longrightarrow> \<exists>x \<in> set inbox. m = read_p2p R acts x"
  proof (cases "sends a \<or> inbox = []")
    case True
    then have "take_step a todo n None = (n', out)" "set inbox' \<subseteq> set inbox"
      using adv todo none by (auto simp: advance_def split: if_splits prod.splits)
    then show thesis by (intro that [of None]) simp_all
  next
    case False
    then obtain m ms where m: "inbox = m # ms" by (cases inbox) auto
    then have "take_step a todo n (Some (read_p2p R acts m)) = (n', out)" "inbox' = ms"
      using False adv todo none by (auto simp: advance_def split: prod.splits)
    then show thesis using m by (intro that [of "Some (read_p2p R acts m)"]) auto
  qed
  with take_step_refuses [OF assms(1) n none eth _ t] sub show ?thesis unfolding refuses_def by blast
qed

lemma net_refuses:
  assumes "nc_genesis_hash c1 \<noteq> nc_genesis_hash c2" and "(net_step R acts)\<^sup>*\<^sup>* (new_net c1 c2) net"
  shows "refuses c1 c2 (hs_dialer net) (hs_to_dialer net) \<and> refuses c2 c1 (hs_listener net) (hs_to_listener net)"
  using assms(2)
proof (induction rule: rtranclp_induct)
  case base
  show ?case by (simp add: new_net_def new_node_def refuses_def p2p_handshake_def p2p_handshake_inbound_def)
next
  case (step net net')
  from step(2) show ?case
  proof cases
    case (dialer n out inbox)
    with advance_refuses [OF assms(1) conjunct1 [OF step.IH] dialer(2)] step.IH show ?thesis by (auto simp: refuses_def)
  next
    case (listener n out inbox)
    with advance_refuses [OF assms(1) [symmetric] conjunct2 [OF step.IH] listener(2)] step.IH show ?thesis by (auto simp: refuses_def)
  qed
qed

text \<open>C39. Two nodes with different genesis blocks never complete the exchange, whatever the order of their
  steps: neither end does.\<close>

theorem wrong_genesis_refused:
  assumes "nc_genesis_hash c1 \<noteq> nc_genesis_hash c2" and "(net_step R acts)\<^sup>*\<^sup>* (new_net c1 c2) net"
  shows "\<not> handshake_done (hs_dialer net) \<and> \<not> handshake_done (hs_listener net)"
  using net_refuses [OF assms] by (auto simp: refuses_def handshake_done_def)

lemma wrong_genesis_refused_witness:
  "\<not> handshake_done (hs_dialer (new_net demo_config (demo_config\<lparr> nc_genesis_hash := 9 \<rparr>)))"
  using wrong_genesis_refused [of demo_config "demo_config\<lparr> nc_genesis_hash := 9 \<rparr>" rlp_std activations_mainnet
      "new_net demo_config (demo_config\<lparr> nc_genesis_hash := 9 \<rparr>)"] by (simp add: demo_config_def)

section \<open>One node and any peer\<close>

text \<open>What an end does with the messages of a peer that then closes the connection.\<close>

fun run_handshake :: "handshake_step list \<Rightarrow> handshake_node \<Rightarrow> p2p_message list \<Rightarrow> handshake_error + handshake_node \<times> p2p_message list" where
  "run_handshake [] n inbox = Inr (n, inbox)"
| "run_handshake (a # todo) n inbox =
     (if sends a then bindE (perform a n None) (\<lambda>(n', _). run_handshake todo n' inbox)
      else case inbox of
          [] \<Rightarrow> bindE (perform a n None) (\<lambda>(n', _). run_handshake todo n' [])
        | m # rest \<Rightarrow> bindE (perform a n (Some m)) (\<lambda>(n', _). run_handshake todo n' rest))"

lemma receive_hello_Inr: "receive_hello msg = Inr r \<longleftrightarrow> (\<exists>h. msg = Some (Hello h) \<and> r = (hl_id h, negotiate (hl_capabilities h)))"
  by (induct msg rule: receive_hello.induct) auto

lemma receive_eth_status_Inr: "receive_eth_status c msg = Inr u \<longleftrightarrow> (\<exists>s. msg = Some (EthStatus s) \<and> es_genesis_hash s = nc_genesis_hash c)"
  by (induct c msg rule: receive_eth_status.induct) auto

lemma receive_rsk_status_Inr: "receive_rsk_status msg = Inr s \<longleftrightarrow> msg = Some (RskMessage (Status s))"
  by (induct msg rule: receive_rsk_status.induct) auto

lemmas receive_Inr = receive_hello_Inr receive_eth_status_Inr receive_rsk_status_Inr

text \<open>Either role accepts exactly a hello, a status of its own genesis and a status of the
  subprotocol, in this order. Network and version are not looked at.\<close>

lemma handshake_accepts:
  assumes "todo \<in> {p2p_handshake, p2p_handshake_inbound}"
  shows "run_handshake todo (new_node c todo) inbox = Inr (n, rest) \<longleftrightarrow>
    (\<exists>h e s. inbox = [Hello h, EthStatus e, RskMessage (Status s)] @ rest \<and> es_genesis_hash e = nc_genesis_hash c \<and>
       n = (new_node c todo)\<lparr> hn_peer_id := Some (hl_id h), hn_caps := Some (negotiate (hl_capabilities h)), hn_status := Some s \<rparr>)"
  using assms
  by (cases inbox; cases "tl inbox"; cases "tl (tl inbox)")
    (auto simp: p2p_handshake_def p2p_handshake_inbound_def result_simps receive_Inr new_node_def)

end
