(* ===== verification/Rlpx_Handshake.thy ===== *)
theory Rlpx_Handshake
  imports Ecies P2p_Handshake
begin

text \<open>
  \<open>crates/rsk-p2p/src/rlpx/handshake.rs\<close>: the two packets that open a connection, from both sides, up to
  the frame codecs. What the code reads from its socket is a byte string, and what it draws at random
  is a record.
\<close>

section \<open>Steps\<close>

record handshake_random =
  hr_ephemeral_sk :: b256
  hr_nonce :: b256
  hr_padding :: bytes
  hr_packet_sk :: b256
  hr_iv :: bytes

definition read_exact :: "nat \<Rightarrow> bytes \<Rightarrow> ecies_error + bytes \<times> bytes" where
  "read_exact n stream = (if length stream < n then Inl StreamEnded else Inr (take n stream, drop n stream))"

definition secret_key :: "key_lib \<Rightarrow> node_config \<Rightarrow> ecies_error + b256" where
  "secret_key K config =
     bindE (ensure (kl_secret_ok K (from_be (nc_secret_key config))) InvalidSecretKey) (\<lambda>_. Inr (from_be (nc_secret_key config)))"

text \<open>A packet is padded, and preceded by its size as a short, which its code covers.\<close>

definition seal_packet :: "key_lib \<Rightarrow> handshake_random \<Rightarrow> 512 word \<Rightarrow> bytes \<Rightarrow> ecies_error + bytes" where
  "seal_packet K rnd remote_pk rlp =
     (let padded = rlp @ hr_padding rnd;
          overhead = 65 + 16 + 32;
          prefix_bytes = nat_bytes 2 (length padded + overhead)
      in bindE (ecies_encrypt K (hr_packet_sk rnd) (hr_iv rnd) remote_pk padded None (Some prefix_bytes)) (\<lambda>encrypted.
           Inr (prefix_bytes @ encrypted)))"

text \<open>The size, the bytes it counts, and what is left of the stream.\<close>

definition read_packet :: "bytes \<Rightarrow> ecies_error + bytes \<times> bytes \<times> bytes" where
  "read_packet stream =
     bindE (read_exact 2 stream) (\<lambda>(prefix, stream).
     bindE (read_exact (be_nat prefix) stream) (\<lambda>(encrypted, stream).
       Inr (prefix, encrypted, stream)))"

definition lift_rlp :: "'a rlp \<Rightarrow> ecies_error + 'a" where
  "lift_rlp r = (case r of Inl e \<Rightarrow> Inl (EciesRlp e) | Inr v \<Rightarrow> Inr v)"

section \<open>The initiator\<close>

definition initiator_packet :: "rlp_lib \<Rightarrow> key_lib \<Rightarrow> node_config \<Rightarrow> 512 word \<Rightarrow> handshake_random \<Rightarrow> ecies_error + bytes" where
  "initiator_packet R K config remote_pk rnd =
     bindE (secret_key K config) (\<lambda>my_sk.
     bindE (new_auth_initiate K my_sk remote_pk (hr_ephemeral_sk rnd) (hr_nonce rnd)) (\<lambda>auth_init.
       seal_packet K rnd remote_pk (encode_auth_initiate R auth_init)))"

definition initiator_finish :: "rlp_lib \<Rightarrow> uint_reader \<Rightarrow> key_lib \<Rightarrow> node_config \<Rightarrow> handshake_random \<Rightarrow> bytes \<Rightarrow> bytes \<Rightarrow>
    ecies_error + frame_codec \<times> bytes" where
  "initiator_finish R U K config rnd packet stream =
     bindE (read_packet stream) (\<lambda>(prefix, encrypted_resp, stream).
     bindE (secret_key K config) (\<lambda>my_sk.
     bindE (ecies_decrypt K my_sk encrypted_resp None (Some prefix)) (\<lambda>resp_packet.
     bindE (lift_rlp (decode_auth_response R U resp_packet)) (\<lambda>(auth_resp, _).
     bindE (agree_secret R K True (hr_ephemeral_sk rnd) (ar_public_key auth_resp) (hr_nonce rnd) (ar_nonce auth_resp)
         packet (prefix @ encrypted_resp)) (\<lambda>secrets.
       Inr (new_frame_codec secrets, stream))))))"

definition run_initiator :: "rlp_lib \<Rightarrow> uint_reader \<Rightarrow> key_lib \<Rightarrow> node_config \<Rightarrow> 512 word \<Rightarrow> handshake_random \<Rightarrow> bytes \<Rightarrow>
    ecies_error + 512 word \<times> frame_codec \<times> bytes" where
  "run_initiator R U K config remote_pk rnd stream =
     bindE (initiator_packet R K config remote_pk rnd) (\<lambda>packet.
     bindE (initiator_finish R U K config rnd packet stream) (\<lambda>(codec, stream). Inr (remote_pk, codec, stream)))"

section \<open>The responder\<close>

text \<open>The response is written before the ephemeral key of the initiator is recovered.\<close>

definition responder_packet :: "rlp_lib \<Rightarrow> uint_reader \<Rightarrow> key_lib \<Rightarrow> node_config \<Rightarrow> handshake_random \<Rightarrow> bytes \<Rightarrow>
    ecies_error + bytes \<times> auth_initiate \<times> bytes \<times> bytes" where
  "responder_packet R U K config rnd stream =
     bindE (secret_key K config) (\<lambda>my_sk.
     bindE (read_packet stream) (\<lambda>(prefix, encrypted_auth, stream).
     let initiate_packet = prefix @ encrypted_auth in
     bindE (ecies_decrypt K my_sk encrypted_auth None (Some prefix)) (\<lambda>auth_packet.
     bindE (lift_rlp (decode_auth_initiate R U auth_packet)) (\<lambda>(auth_init, _).
     let auth_resp = new_auth_response (kl_public K (hr_ephemeral_sk rnd)) (hr_nonce rnd) in
     bindE (seal_packet K rnd (ai_public_key auth_init) (encode_auth_response R auth_resp)) (\<lambda>response_packet.
       Inr (response_packet, auth_init, initiate_packet, stream))))))"

definition responder_finish :: "rlp_lib \<Rightarrow> key_lib \<Rightarrow> node_config \<Rightarrow> handshake_random \<Rightarrow> bytes \<Rightarrow> auth_initiate \<Rightarrow> bytes \<Rightarrow>
    ecies_error + 512 word \<times> frame_codec" where
  "responder_finish R K config rnd response_packet auth_init initiate_packet =
     bindE (secret_key K config) (\<lambda>my_sk.
     bindE (recover_ephemeral_public_key K my_sk auth_init) (\<lambda>remote_ephemeral_pk.
     bindE (agree_secret R K False (hr_ephemeral_sk rnd) remote_ephemeral_pk (ai_nonce auth_init) (hr_nonce rnd)
         initiate_packet response_packet) (\<lambda>secrets.
       Inr (ai_public_key auth_init, new_frame_codec secrets))))"

text \<open>What it writes, if it gets that far, and how it ends.\<close>

definition run_responder :: "rlp_lib \<Rightarrow> uint_reader \<Rightarrow> key_lib \<Rightarrow> node_config \<Rightarrow> handshake_random \<Rightarrow> bytes \<Rightarrow>
    bytes \<times> (ecies_error + 512 word \<times> frame_codec \<times> bytes)" where
  "run_responder R U K config rnd stream =
    (case responder_packet R U K config rnd stream of
       Inl e \<Rightarrow> ([], Inl e)
     | Inr (response_packet, auth_init, initiate_packet, rest) \<Rightarrow>
         (response_packet,
          bindE (responder_finish R K config rnd response_packet auth_init initiate_packet) (\<lambda>(peer, codec). Inr (peer, codec, rest))))"

section \<open>Both ends in step\<close>

definition random_ok :: "key_lib \<Rightarrow> handshake_random \<Rightarrow> bool" where
  "random_ok K rnd \<longleftrightarrow> kl_secret_ok K (hr_ephemeral_sk rnd) \<and> kl_secret_ok K (hr_packet_sk rnd) \<and> length (hr_iv rnd) = 16"

lemma ecies_encrypts: "kl_public_ok K pk \<Longrightarrow> \<exists>d. ecies_encrypt K eph iv pk msg s1 s2 = Inr d"
  by (cases "derive_keys K (kl_shared K eph pk) s1") (simp add: ecies_encrypt_def ensure_def Let_def)

lemma sealed_opens:
  assumes ok: "keys_ok K" and sk: "kl_secret_ok K sk" and rnd: "random_ok K rnd" and small: "length (rlp @ hr_padding rnd) + 113 < 2 ^ 16"
  shows "\<exists>prefix enc. seal_packet K rnd (kl_public K sk) rlp = Inr (prefix @ enc) \<and>
    (\<forall>rest. read_packet ((prefix @ enc) @ rest) = Inr (prefix, enc, rest)) \<and>
    ecies_decrypt K sk enc None (Some prefix) = Inr (rlp @ hr_padding rnd)"
proof -
  define prefix where "prefix = nat_bytes 2 (length (rlp @ hr_padding rnd) + 113)"
  obtain enc where e: "ecies_encrypt K (hr_packet_sk rnd) (hr_iv rnd) (kl_public K sk) (rlp @ hr_padding rnd) None (Some prefix) = Inr enc"
    using ecies_encrypts [OF keys_laws(2) [OF ok sk]] by blast
  have r: "kl_secret_ok K (hr_packet_sk rnd)" "length (hr_iv rnd) = 16" using rnd by (simp_all add: random_ok_def)
  have "length prefix = 2" by (simp add: prefix_def)
  moreover have "be_nat prefix = length enc"
    using small ecies_length [OF ok r(2) e] by (simp add: prefix_def be_nat_nat_bytes del: nat_bytes.simps)
  ultimately have "read_packet ((prefix @ enc) @ rest) = Inr (prefix, enc, rest)" for rest
    by (simp add: read_packet_def read_exact_def)
  moreover have "seal_packet K rnd (kl_public K sk) rlp = Inr (prefix @ enc)"
    using e by (simp add: seal_packet_def Let_def prefix_def)
  ultimately show ?thesis using ecies_round_trip [OF ok sk r e] by blast
qed

lemma auth_initiate_reads_back:
  assumes "rlp_ok R" and "uint_ok R U" and "fits (encode_auth_initiate R a)"
  shows "decode_auth_initiate R U (encode_auth_initiate R a @ rest) = Inr (a, rest)"
proof -
  have g: "fits (rl_string_bytes R (ai_signature a) @ rl_b512_bytes R (ai_public_key a) @ rl_b256_bytes R (ai_nonce a) @
      rl_u64_bytes R (ai_version a))"
    using assms(3) by (auto simp: encode_auth_initiate_def dest: fits_wrap)
  then have "fits (ai_signature a)" by (blast intro: fits_string [OF assms(1)] fit)
  with assms(1,2) g show ?thesis by (simp add: decode_auth_initiate_def encode_auth_initiate_def codec)
qed

lemma auth_response_reads_back:
  assumes "rlp_ok R" and "uint_ok R U" and "fits (encode_auth_response R a)"
  shows "decode_auth_response R U (encode_auth_response R a @ rest) = Inr (a, rest)"
proof -
  have "fits (rl_b512_bytes R (ar_public_key a) @ rl_b256_bytes R (ar_nonce a) @ rl_u64_bytes R (ar_version a))"
    using assms(3) by (auto simp: encode_auth_response_def dest: fits_wrap)
  with assms(1,2) show ?thesis by (simp add: decode_auth_response_def encode_auth_response_def codec)
qed

text \<open>An initiator that knows the public key of the responder, and packets of less than 64 kilobytes.\<close>

definition handshake_fits :: "rlp_lib \<Rightarrow> nat \<Rightarrow> bool" where
  "handshake_fits R pad \<longleftrightarrow>
     (\<forall>a. length (ai_signature a) = 65 \<longrightarrow> length (encode_auth_initiate R a) + pad + 113 < 2 ^ 16) \<and>
     (\<forall>a. length (encode_auth_response R a) + pad + 113 < 2 ^ 16)"

text \<open>The first packet carries the identity, the nonce and a signature of 65 bytes.\<close>

lemma initiate_signed:
  assumes "keys_ok K" and "kl_secret_ok K sk2" and "kl_secret_ok K eph"
  shows "\<exists>ai. new_auth_initiate K sk1 (kl_public K sk2) eph nonce = Inr ai \<and> ai_public_key ai = kl_public K sk1 \<and>
    ai_nonce ai = nonce \<and> length (ai_signature ai) = 65"
proof -
  obtain sig v where "kl_sign K eph (Bit_Operations.xor (kl_shared K sk1 (kl_public K sk2)) nonce) = Some (sig, v)"
    using keys_laws(5) [OF assms(1,3)] by fastforce
  then show ?thesis
    using keys_laws(2) [OF assms(1,2)] keys_laws(3) [OF assms(1,3)]
    by (simp add: new_auth_initiate_def ensure_def of_option_def Let_def)
qed

lemma rlpx_agreement:
  assumes lib: "rlp_ok R" "uint_ok R U" "keys_ok K"
    and keys: "secret_key K c1 = Inr sk1" "secret_key K c2 = Inr sk2"
    and rnd: "random_ok K r1" "random_ok K r2"
    and fit: "handshake_fits R (length (hr_padding r1))" "handshake_fits R (length (hr_padding r2))"
  shows "\<exists>packet response a b.
    initiator_packet R K c1 (kl_public K sk2) r1 = Inr packet \<and>
    run_responder R U K c2 r2 packet = (response, Inr (kl_public K sk1, b, [])) \<and>
    run_initiator R U K c1 (kl_public K sk2) r1 response = Inr (kl_public K sk2, a, []) \<and>
    synced a b \<and> synced b a"
proof -
  have sk: "kl_secret_ok K sk1" "kl_secret_ok K sk2" using keys by (auto simp: secret_key_def result_simps)
  have e: "kl_secret_ok K (hr_ephemeral_sk r1)" "kl_secret_ok K (hr_ephemeral_sk r2)" using rnd by (simp_all add: random_ok_def)
  obtain ai where ai: "new_auth_initiate K sk1 (kl_public K sk2) (hr_ephemeral_sk r1) (hr_nonce r1) = Inr ai"
    and ai': "ai_public_key ai = kl_public K sk1" "ai_nonce ai = hr_nonce r1" "length (ai_signature ai) = 65"
    using initiate_signed [OF lib(3) sk(2) e(1)] by blast
  define ar where "ar = new_auth_response (kl_public K (hr_ephemeral_sk r2)) (hr_nonce r2)"
  have small: "length (encode_auth_initiate R ai @ hr_padding r1) + 113 < 2 ^ 16" "length (encode_auth_response R ar @ hr_padding r2) + 113 < 2 ^ 16"
    using fit ai'(3) by (simp_all add: handshake_fits_def)
  then have fits: "fits (encode_auth_initiate R ai)" "fits (encode_auth_response R ar)" by (simp_all add: fits_def)
  obtain p1 c1' where s1: "seal_packet K r1 (kl_public K sk2) (encode_auth_initiate R ai) = Inr (p1 @ c1')"
    and o1: "\<And>rest. read_packet ((p1 @ c1') @ rest) = Inr (p1, c1', rest)"
    and d1: "ecies_decrypt K sk2 c1' None (Some p1) = Inr (encode_auth_initiate R ai @ hr_padding r1)"
    using sealed_opens [OF lib(3) sk(2) rnd(1) small(1)] by blast
  obtain p2 c2' where s2: "seal_packet K r2 (kl_public K sk1) (encode_auth_response R ar) = Inr (p2 @ c2')"
    and o2: "\<And>rest. read_packet ((p2 @ c2') @ rest) = Inr (p2, c2', rest)"
    and d2: "ecies_decrypt K sk1 c2' None (Some p2) = Inr (encode_auth_response R ar @ hr_padding r2)"
    using sealed_opens [OF lib(3) sk(1) rnd(2) small(2)] by blast
  obtain a b where ab: "agree_secret R K True (hr_ephemeral_sk r1) (kl_public K (hr_ephemeral_sk r2)) (hr_nonce r1) (hr_nonce r2) (p1 @ c1') (p2 @ c2') = Inr a"
      "agree_secret R K False (hr_ephemeral_sk r2) (kl_public K (hr_ephemeral_sk r1)) (hr_nonce r1) (hr_nonce r2) (p1 @ c1') (p2 @ c2') = Inr b"
    and m: "mirrored a b"
    using secrets_agree [OF lib(3) e] by blast
  have ar': "ar_public_key ar = kl_public K (hr_ephemeral_sk r2)" "ar_nonce ar = hr_nonce r2"
    by (simp_all add: ar_def new_auth_response_def)
  have "initiator_packet R K c1 (kl_public K sk2) r1 = Inr (p1 @ c1')"
    by (simp add: initiator_packet_def keys ai s1)
  moreover have "responder_packet R U K c2 r2 (p1 @ c1') = Inr (p2 @ c2', ai, p1 @ c1', [])"
    using o1 [of "[]"] auth_initiate_reads_back [OF lib(1,2) fits(1)]
    by (simp add: responder_packet_def keys d1 lift_rlp_def ai' s2 flip: ar_def)
  moreover have "responder_finish R K c2 r2 (p2 @ c2') ai (p1 @ c1') = Inr (kl_public K sk1, new_frame_codec b)"
    by (simp add: responder_finish_def keys recovers_ephemeral [OF lib(3) sk(2,1) e(1) ai] ai' ab)
  moreover have "initiator_finish R U K c1 r1 (p1 @ c1') (p2 @ c2') = Inr (new_frame_codec a, [])"
    using o2 [of "[]"] auth_response_reads_back [OF lib(1,2) fits(2)]
    by (simp add: initiator_finish_def keys d2 lift_rlp_def ar' ab)
  moreover have "synced (new_frame_codec a) (new_frame_codec b)" "synced (new_frame_codec b) (new_frame_codec a)"
    using m by (simp_all add: synced_def new_frame_codec_def mirrored_def)
  ultimately show ?thesis
    by (rule_tac x = "p1 @ c1'" in exI, rule_tac x = "p2 @ c2'" in exI)
      (rule exI [of _ "new_frame_codec a"], rule exI [of _ "new_frame_codec b"], simp add: run_responder_def run_initiator_def)
qed

text \<open>An initiator that knows the key of the responder and a responder end the exchange of two packets
  with each other's identity and with frame codecs in step in both directions, whatever they draw at
  random.\<close>

theorem rlpx_handshake_agrees:
  assumes lib: "rlp_ok R" "uint_ok R U" "keys_ok K"
    and keys: "secret_key K c1 = Inr sk1" "secret_key K c2 = Inr sk2"
    and rnd: "random_ok K r1" "random_ok K r2"
    and fit: "handshake_fits R (length (hr_padding r1))" "handshake_fits R (length (hr_padding r2))"
  shows "\<exists>packet response a b.
    initiator_packet R K c1 (kl_public K sk2) r1 = Inr packet \<and>
    run_responder R U K c2 r2 packet = (response, Inr (kl_public K sk1, b, [])) \<and>
    run_initiator R U K c1 (kl_public K sk2) r1 response = Inr (kl_public K sk2, a, []) \<and>
    synced a b \<and> synced b a"
  using assms by (rule rlpx_agreement)

section \<open>An exchange\<close>

definition demo_random :: handshake_random where
  "demo_random = \<lparr> hr_ephemeral_sk = 3, hr_nonce = 5, hr_padding = replicate 100 9, hr_packet_sk = 7, hr_iv = replicate 16 1 \<rparr>"

lemma demo_fits: "handshake_fits rlp_std 100"
proof -
  have b: "length (rl_b512_bytes rlp_std p) \<le> 265" "length (rl_b256_bytes rlp_std h) \<le> 265" "length (rl_u64_bytes rlp_std v) \<le> 265" for p h v
    unfolding rl_b512_bytes_def rl_b256_bytes_def rl_u64_bytes_def
    using length_strip_zeros [of "to_be 8 v"] by (intro std_string_bound; simp)+
  have i: "length (encode_auth_initiate rlp_std a) \<le> 2000" if "length (ai_signature a) = 65" for a
  proof -
    have "length (rl_string_bytes rlp_std (ai_signature a)) \<le> 265" using that by (intro std_string_bound) simp
    then show ?thesis unfolding encode_auth_initiate_def
      using b(1) [of "ai_public_key a"] b(2) [of "ai_nonce a"] b(3) [of "ai_version a"]
      by (intro order.trans [OF std_wrap_length]) simp
  qed
  have r: "length (encode_auth_response rlp_std a) \<le> 2000" for a
    unfolding encode_auth_response_def
    using b(1) [of "ar_public_key a"] b(2) [of "ar_nonce a"] b(3) [of "ar_version a"]
    by (intro order.trans [OF std_wrap_length]) simp
  show ?thesis unfolding handshake_fits_def using i r by (force intro: le_less_trans)
qed

definition demo_pk :: "512 word" where
  "demo_pk = kl_public demo_keys (from_be (nc_secret_key demo_config))"

lemma rlpx_handshake_agrees_witness:
  "\<exists>packet response a b.
    initiator_packet rlp_std demo_keys demo_config demo_pk demo_random = Inr packet \<and>
    run_responder rlp_std std_uint demo_keys demo_config demo_random packet = (response, Inr (demo_pk, b, [])) \<and>
    run_initiator rlp_std std_uint demo_keys demo_config demo_pk demo_random response = Inr (demo_pk, a, []) \<and>
    synced a b \<and> synced b a"
proof -
  have k: "secret_key demo_keys demo_config = Inr (from_be (nc_secret_key demo_config))"
    by (simp add: secret_key_def demo_keys_def ensure_def)
  have r: "random_ok demo_keys demo_random" by (simp add: random_ok_def demo_keys_def demo_random_def)
  have f: "handshake_fits rlp_std (length (hr_padding demo_random))" using demo_fits by (simp add: demo_random_def)
  show ?thesis
    unfolding demo_pk_def by (rule rlpx_handshake_agrees [OF rlp_std_ok uint_std_ok demo_keys_ok k k r r f f])
qed

end
