(* ===== verification/Full_Handshake.thy ===== *)
theory Full_Handshake
  imports Rlpx_Handshake
begin

text \<open>
  \<open>Handshake::run\<close> of \<open>crates/rsk-p2p/src/handshake.rs\<close>: the key exchange, the frames and the exchange of hello
  and status messages put together, from the bytes of the socket to the identity, status and
  capabilities of the peer. The bytes after the key exchange arrive in reads of any size.
\<close>

section \<open>Messages out of reads\<close>

text \<open>The stream of messages of the \<open>tokio\<close> crate: what is buffered is decoded first, then the next read is
  added; at the end of the stream the buffer is decoded once later, and must then be empty.\<close>

datatype run_error =
    RunKeys ecies_error
  | RunCodec codec_error
  | RunHandshake handshake_error
  | BytesRemaining
  | Unfinished

fun framed_next :: "rlp_lib \<Rightarrow> frame_ciphers \<Rightarrow> uint_reader \<Rightarrow> activation_heights \<Rightarrow> frame_codec \<Rightarrow> bytes \<Rightarrow> bytes list \<Rightarrow>
    (run_error + p2p_message option) \<times> frame_codec \<times> bytes \<times> bytes list" where
  "framed_next R F U acts c buf [] =
    (case rlpx_decode R F U acts c buf of
       (Inl e, c1, buf1) \<Rightarrow> (Inl (RunCodec e), c1, buf1, [])
     | (Inr (Some m), c1, buf1) \<Rightarrow> (Inr (Some m), c1, buf1, [])
     | (Inr None, c1, buf1) \<Rightarrow>
         (case rlpx_decode R F U acts c1 buf1 of
            (Inl e, c2, buf2) \<Rightarrow> (Inl (RunCodec e), c2, buf2, [])
          | (Inr (Some m), c2, buf2) \<Rightarrow> (Inr (Some m), c2, buf2, [])
          | (Inr None, c2, buf2) \<Rightarrow> (if buf2 = [] then Inr None else Inl BytesRemaining, c2, buf2, [])))"
| "framed_next R F U acts c buf (r # reads) =
    (case rlpx_decode R F U acts c buf of
       (Inl e, c1, buf1) \<Rightarrow> (Inl (RunCodec e), c1, buf1, r # reads)
     | (Inr (Some m), c1, buf1) \<Rightarrow> (Inr (Some m), c1, buf1, r # reads)
     | (Inr None, c1, buf1) \<Rightarrow> framed_next R F U acts c1 (buf1 @ r) reads)"

fun send_all :: "rlp_lib \<Rightarrow> frame_ciphers \<Rightarrow> frame_codec \<Rightarrow> p2p_message list \<Rightarrow> (codec_error + bytes) \<times> frame_codec" where
  "send_all R F c [] = (Inr [], c)"
| "send_all R F c (m # ms) =
    (case rlpx_encode R F c m [] of
       (Inl e, c') \<Rightarrow> (Inl e, c')
     | (Inr bs, c') \<Rightarrow>
         (case send_all R F c' ms of (Inl e, c'') \<Rightarrow> (Inl e, c'') | (Inr rest, c'') \<Rightarrow> (Inr (bs @ rest), c'')))"

section \<open>The whole handshake\<close>

text \<open>A connection: its codec, what is buffered, and the reads to come.\<close>

type_synonym connection = "frame_codec \<times> bytes \<times> bytes list"

text \<open>The steps of one end, how they end and what they write.\<close>

fun framed_steps :: "rlp_lib \<Rightarrow> frame_ciphers \<Rightarrow> uint_reader \<Rightarrow> activation_heights \<Rightarrow> handshake_step list \<Rightarrow> handshake_node \<Rightarrow>
    frame_codec \<Rightarrow> bytes \<Rightarrow> bytes list \<Rightarrow> (run_error + handshake_node \<times> connection) \<times> bytes" where
  "framed_steps R F U acts [] n c buf reads = (Inr (n, c, buf, reads), [])"
| "framed_steps R F U acts (a # todo) n c buf reads =
    (if sends a then
       (case perform a n None of
          Inl e \<Rightarrow> (Inl (RunHandshake e), [])
        | Inr (n', out) \<Rightarrow>
            (case send_all R F c out of
               (Inl e, _) \<Rightarrow> (Inl (RunCodec e), [])
             | (Inr bs, c') \<Rightarrow> (let (r, rest) = framed_steps R F U acts todo n' c' buf reads in (r, bs @ rest))))
     else
       (case framed_next R F U acts c buf reads of
          (Inl e, _) \<Rightarrow> (Inl e, [])
        | (Inr msg, c', buf', reads') \<Rightarrow>
            (case perform a n msg of
               Inl e \<Rightarrow> (Inl (RunHandshake e), [])
             | Inr (n', _) \<Rightarrow> framed_steps R F U acts todo n' c' buf' reads')))"

definition handshake_result :: "512 word \<Rightarrow> handshake_node \<times> connection \<Rightarrow>
    run_error + 512 word \<times> rsk_status \<times> peer_capabilities \<times> connection" where
  "handshake_result peer = (\<lambda>(n, c).
     bindE (of_option Unfinished (hn_status n)) (\<lambda>status.
     bindE (of_option Unfinished (hn_caps n)) (\<lambda>caps. Inr (peer, status, caps, c))))"

text \<open>With a remote identity the node dials, without one it answers. The bytes of the key exchange, and the
  reads after them.\<close>

definition handshake_run :: "rlp_lib \<Rightarrow> frame_ciphers \<Rightarrow> uint_reader \<Rightarrow> key_lib \<Rightarrow> activation_heights \<Rightarrow> node_config \<Rightarrow>
    512 word option \<Rightarrow> handshake_random \<Rightarrow> bytes \<Rightarrow> bytes list \<Rightarrow>
    (run_error + 512 word \<times> rsk_status \<times> peer_capabilities \<times> connection) \<times> bytes" where
  "handshake_run R F U K acts config remote_id rnd stream reads =
    (case remote_id of
       Some remote_pk \<Rightarrow>
         (case initiator_packet R K config remote_pk rnd of
            Inl e \<Rightarrow> (Inl (RunKeys e), [])
          | Inr packet \<Rightarrow>
              (case run_initiator R U K config remote_pk rnd stream of
                 Inl e \<Rightarrow> (Inl (RunKeys e), packet)
               | Inr (peer, codec, rest) \<Rightarrow>
                   (let (r, out) = framed_steps R F U acts p2p_handshake (new_node config p2p_handshake) codec [] (rest # reads)
                    in (bindE r (handshake_result peer), packet @ out))))
     | None \<Rightarrow>
         (case run_responder R U K config rnd stream of
            (response, Inl e) \<Rightarrow> (Inl (RunKeys e), response)
          | (response, Inr (peer, codec, rest)) \<Rightarrow>
              (let (r, out) = framed_steps R F U acts p2p_handshake_inbound (new_node config p2p_handshake_inbound) codec [] (rest # reads)
               in (bindE r (handshake_result peer), response @ out))))"

section \<open>The two directions of a codec\<close>

definition out_side :: "frame_codec \<Rightarrow> stream_cipher \<times> bytes \<times> b256" where
  "out_side c = (fr_enc c, fr_egress_mac c, fr_mac_secret c)"

definition packet_of :: "rlp_lib \<Rightarrow> p2p_message \<Rightarrow> u8 \<times> bytes" where
  "packet_of R m = (hd (encode_p2p R m), tl (encode_p2p R m))"

lemma synced_out: "out_side s = out_side s' \<Longrightarrow> synced s r = synced s' r"
  by (simp add: synced_def out_side_def)

lemma encode_in: "encode_frame R F c p q = (b, c') \<Longrightarrow> synced s c' = synced s c"
  by (auto simp: encode_frame_def synced_def Let_def split: prod.splits)

lemma encode_out:
  assumes "out_side c = out_side d" and "encode_frame R F c p q = (b, c')"
  shows "\<exists>d'. encode_frame R F d p q = (b, d') \<and> out_side d' = out_side c'"
  using assms by (auto simp: encode_frame_def out_side_def Let_def split: prod.splits)

lemma rlpx_encode_packet:
  "rlpx_encode R F c m [] = (let (b, c') = encode_frame R F c (fst (packet_of R m)) (snd (packet_of R m)) in (Inr b, c'))"
  by (cases m) (simp_all add: rlpx_encode_def packet_of_def)

lemma handle_body_out: "handle_body U c d = (r, c') \<Longrightarrow> out_side c' = out_side c"
  by (auto simp: handle_body_def finish_assembly_def reset_assembly_def out_side_def split: frame_type.splits sum.splits prod.splits if_splits)

lemma decode_body_out: "decode_body R F U c src = (r, c', rest) \<Longrightarrow> out_side c' = out_side c"
  by (auto simp: decode_body_def Let_def out_side_def dest!: handle_body_out split: prod.splits if_splits)

lemma decode_head_out: "decode_head R F c src = (r, c', rest) \<Longrightarrow> out_side c' = out_side c"
  by (auto simp: decode_head_def Let_def out_side_def split: prod.splits if_splits option.splits)

lemma decode_frame_out: "decode_frame R F U c src = (r, c', rest) \<Longrightarrow> out_side c' = out_side c"
  using decode_body_out decode_head_out by (fastforce simp: decode_frame_def split: if_splits prod.splits option.splits)

lemma rlpx_decode_out:
  assumes "rlpx_decode R F U acts c src = (r, c', rest)"
  shows "out_side c' = out_side c"
proof -
  obtain q c1 src1 where q: "decode_frame R F U c src = (q, c1, src1)" by (cases "decode_frame R F U c src")
  have "c' = c1"
    using assms unfolding rlpx_decode_def q by (auto split: sum.splits option.splits prod.splits)
  then show ?thesis using decode_frame_out [OF q] by simp
qed

lemma framed_next_out: "framed_next R F U acts c buf reads = (r, c', buf', reads') \<Longrightarrow> out_side c' = out_side c"
proof (induction R F U acts c buf reads rule: framed_next.induct)
  case (1 R F U acts c buf)
  obtain q c1 buf1 where q: "rlpx_decode R F U acts c buf = (q, c1, buf1)" by (cases "rlpx_decode R F U acts c buf")
  obtain q' c2 buf2 where q': "rlpx_decode R F U acts c1 buf1 = (q', c2, buf2)" by (cases "rlpx_decode R F U acts c1 buf1")
  have "c' = c1 \<or> c' = c2" using 1 by (auto simp: q q' split: sum.splits option.splits)
  then show ?case using rlpx_decode_out [OF q] rlpx_decode_out [OF q'] by auto
next
  case (2 R F U acts c buf r reads)
  obtain q c1 buf1 where q: "rlpx_decode R F U acts c buf = (q, c1, buf1)" by (cases "rlpx_decode R F U acts c buf")
  show ?case using "2.prems" "2.IH" [OF q [symmetric]] q rlpx_decode_out [OF q] by (auto split: sum.splits option.splits)
qed

section \<open>Reading one message, however it arrives\<close>

lemma framed_next_body:
  assumes len: "length fr = 32 + (n + frame_padding n + 16)" and rh: "fr_is_head_read rh" "fr_total_body_size rh = n"
    and body: "\<And>rest. decode_body R F U rh (drop 32 fr @ rest) = (Inr (Some (p, q)), r', rest)"
    and dec: "decode_p2p R U acts (p # q) = Inr (m, [])"
  shows "buf @ concat reads = drop 32 fr @ later \<Longrightarrow>
    \<exists>buf' reads'. framed_next R F U acts rh buf reads = (Inr (Some m), r', buf', reads') \<and> buf' @ concat reads' = later"
proof (induction reads arbitrary: buf)
  case Nil
  have "length (drop 32 fr) \<le> length buf" using Nil len by simp
  then have "\<exists>rest. decode_body R F U rh buf = (Inr (Some (p, q)), r', rest) \<and> rest @ [] = later"
    using body_stage [OF len rh(2) body, of buf "[]" later] Nil len by auto
  then show ?case using rh(1) dec by (auto simp: rlpx_decode_def decode_frame_def)
next
  case (Cons x xs)
  from body_stage [OF len rh(2) body Cons.prems] show ?case
  proof (elim disjE exE conjE)
    assume "decode_body R F U rh buf = (Inr None, rh, buf)"
    then show ?thesis using Cons.IH [of "buf @ x"] Cons.prems rh(1) by (simp add: rlpx_decode_def decode_frame_def)
  next
    fix rest assume "decode_body R F U rh buf = (Inr (Some (p, q)), r', rest)" "rest @ concat (x # xs) = later"
    then show ?thesis using rh(1) dec by (simp add: rlpx_decode_def decode_frame_def)
  qed
qed

lemma framed_next_reads:
  assumes ok: "frame_ok R U" and sync: "synced s r" and m: "message_sendable R m"
    and enc: "encode_frame R F s (fst (packet_of R m)) (snd (packet_of R m)) = (fr, s')" and bs: "buf @ concat reads = fr @ later"
  shows "\<exists>r' buf' reads'. framed_next R F U acts r buf reads = (Inr (Some (read_p2p R acts m)), r', buf', reads') \<and>
    synced s' r' \<and> buf' @ concat reads' = later"
proof -
  have send: "sendable R (packet_of R m)" and p: "p2p_ok R m" using m by (simp_all add: message_sendable_iff packet_of_def)
  obtain rh r' where len: "length fr = 32 + (frame_size R (packet_of R m) + frame_padding (frame_size R (packet_of R m)) + 16)"
    and h: "\<And>y. decode_head R F r (take 32 fr @ y) = (None, rh, y)"
    and rh: "fr_is_head_read rh" "fr_total_body_size rh = frame_size R (packet_of R m)"
    and body: "\<And>rest. decode_body R F U rh (drop 32 fr @ rest) = (Inr (Some (packet_of R m)), r', rest)"
    and sync': "synced s' r'"
    using frame_decodes [OF ok sync send enc] by metis
  have "encode_p2p R m \<noteq> []" by (cases m) simp_all
  then have dec: "decode_p2p R U acts (fst (packet_of R m) # snd (packet_of R m)) = Inr (read_p2p R acts m, [])"
    using p2p_reads_back [of R U m acts "[]"] ok p sendable_fits [OF m] by (simp add: packet_of_def frame_ok_def)
  note next_body = framed_next_body [OF len rh _ dec, where r' = r' and later = later]
  have unread: "\<not> fr_is_head_read r" using sync by (simp add: synced_def)
  have head: "decode_frame R F U r b = decode_body R F U rh (drop 32 b)" if "32 \<le> length b" "b @ w = fr @ later" for b w
  proof -
    have "take 32 b = take 32 fr" using arg_cong [OF that(2), of "take 32"] that(1) len by simp
    then have "decode_head R F r b = (None, rh, drop 32 b)" using h [of "drop 32 b"] by (metis append_take_drop_id)
    then show ?thesis using that(1) unread by (simp add: decode_frame_def)
  qed
  have "\<exists>buf' reads'. framed_next R F U acts r buf reads = (Inr (Some (read_p2p R acts m)), r', buf', reads') \<and> buf' @ concat reads' = later"
    using bs
  proof (induction reads arbitrary: buf)
    case Nil
    then have "buf = fr @ later" "32 \<le> length buf" using len by simp_all
    with head [of buf "[]"] have "decode_frame R F U r buf = (Inr (Some (packet_of R m)), r', later)" using body len by simp
    then show ?case using dec by (cases "packet_of R m") (simp add: rlpx_decode_def)
  next
    case (Cons x xs)
    show ?case
    proof (cases "length buf < 32")
      case True
      then have "rlpx_decode R F U acts r buf = (Inr None, r, buf)" using unread by (simp add: rlpx_decode_def decode_frame_def)
      then show ?thesis using Cons.IH [of "buf @ x"] Cons.prems by simp
    next
      case False
      then have d: "decode_frame R F U r buf = decode_body R F U rh (drop 32 buf)" using head [OF _ Cons.prems] by simp
      have "drop 32 buf @ concat (x # xs) = drop 32 fr @ later" using arg_cong [OF Cons.prems, of "drop 32"] False len by simp
      from body_stage [OF len rh(2) body this] show ?thesis
      proof (elim disjE exE conjE)
        assume "decode_body R F U rh (drop 32 buf) = (Inr None, rh, drop 32 buf)"
        moreover have "(drop 32 buf @ x) @ concat xs = drop 32 fr @ later" using \<open>drop 32 buf @ concat (x # xs) = drop 32 fr @ later\<close> by simp
        ultimately show ?thesis using next_body [where buf = "drop 32 buf @ x" and reads = xs] body by (simp add: rlpx_decode_def d)
      next
        fix rest assume "decode_body R F U rh (drop 32 buf) = (Inr (Some (packet_of R m)), r', rest)" "rest @ concat (x # xs) = later"
        then show ?thesis using dec by (cases "packet_of R m") (simp add: rlpx_decode_def d)
      qed
    qed
  qed
  then show ?thesis using sync' by blast
qed

section \<open>The steps on bytes do what the steps on messages do\<close>

fun own_messages :: "node_config \<Rightarrow> handshake_step \<Rightarrow> p2p_message list" where
  "own_messages c SendHello = [own_hello c]"
| "own_messages c SendEthStatus = [own_eth_status c]"
| "own_messages c SendRskStatus = [RskMessage (Status (own_rsk_status c))]"
| "own_messages c _ = []"

definition sent_by :: "node_config \<Rightarrow> handshake_step list \<Rightarrow> p2p_message list" where
  "sent_by c todo = concat (map (own_messages c) todo)"

definition encode_messages :: "rlp_lib \<Rightarrow> frame_ciphers \<Rightarrow> frame_codec \<Rightarrow> p2p_message list \<Rightarrow> bytes \<times> frame_codec" where
  "encode_messages R F c ms = encode_all R F c (map (packet_of R) ms)"

lemma encode_messages_simps [simp]:
  "encode_messages R F c [] = ([], c)"
  "encode_messages R F c (m # ms) =
     (let (fr, c1) = encode_frame R F c (fst (packet_of R m)) (snd (packet_of R m)); (bs, c2) = encode_messages R F c1 ms in (fr @ bs, c2))"
  by (simp_all add: encode_messages_def)

lemma perform_sends: "sends a \<Longrightarrow> perform a n msg = Inr (n, own_messages (hn_config n) a) \<and> (\<exists>m. own_messages (hn_config n) a = [m])"
  by (cases a) simp_all

lemma own_messages_receive: "\<not> sends a \<Longrightarrow> own_messages c a = []"
  by (cases a) simp_all

lemma framed_steps_run:
  assumes ok: "frame_ok R U"
  shows "run_handshake todo n (map (read_p2p R acts) msgs) = Inr (n', []) \<Longrightarrow> \<forall>m \<in> set msgs. message_sendable R m \<Longrightarrow>
    synced s c \<Longrightarrow> encode_messages R F s msgs = (bs, s') \<Longrightarrow> buf @ concat reads = bs @ ahead \<Longrightarrow>
    out_side x = out_side c \<Longrightarrow> encode_messages R F x (sent_by (hn_config n) todo) = (out, x') \<Longrightarrow>
    \<exists>c' buf' reads'. framed_steps R F U acts todo n c buf reads = (Inr (n', c', buf', reads'), out) \<and>
      buf' @ concat reads' = ahead \<and> synced s' c' \<and> out_side c' = out_side x'"
proof (induction todo arbitrary: n msgs s c bs buf reads x out)
  case Nil
  then show ?case by (auto simp: sent_by_def)
next
  case (Cons a todo)
  show ?case
  proof (cases "sends a")
    case True
    obtain m where m: "perform a n None = Inr (n, [m])" "own_messages (hn_config n) a = [m]"
      using perform_sends [OF True, of n None] by auto
    obtain fr x1 where e: "encode_frame R F x (fst (packet_of R m)) (snd (packet_of R m)) = (fr, x1)" by fastforce
    obtain rest where rest: "encode_messages R F x1 (sent_by (hn_config n) todo) = (rest, x')" and out: "out = fr @ rest"
      using Cons.prems(7) e m(2) by (auto simp: sent_by_def split: prod.splits)
    obtain c1 where c1: "encode_frame R F c (fst (packet_of R m)) (snd (packet_of R m)) = (fr, c1)" "out_side c1 = out_side x1"
      using encode_out [OF Cons.prems(6) e] by blast
    have "synced s c1" using Cons.prems(3) encode_in [OF c1(1)] by simp
    moreover have "run_handshake todo n (map (read_p2p R acts) msgs) = Inr (n', [])" using Cons.prems(1) True m(1) by simp
    ultimately obtain c' buf' reads' where "framed_steps R F U acts todo n c1 buf reads = (Inr (n', c', buf', reads'), rest)"
        "buf' @ concat reads' = ahead" "synced s' c'" "out_side c' = out_side x'"
      using Cons.IH [of n msgs s c1 bs buf reads x1 rest] Cons.prems(2,4,5) c1(2) rest by auto
    then show ?thesis using True m(1) c1(1) by (simp add: rlpx_encode_packet out)
  next
    case False
    have none: "\<exists>e. perform a n None = Inl e" using False by (cases a) simp_all
    obtain m rest where msgs: "msgs = m # rest" using Cons.prems(1) False none by (cases msgs) auto
    obtain fr s1 where e: "encode_frame R F s (fst (packet_of R m)) (snd (packet_of R m)) = (fr, s1)" by fastforce
    obtain later where later: "encode_messages R F s1 rest = (later, s')" and bs: "bs = fr @ later"
      using Cons.prems(4) e by (auto simp: msgs split: prod.splits)
    have "message_sendable R m" and "buf @ concat reads = fr @ later @ ahead" using Cons.prems(2,5) by (simp_all add: msgs bs)
    from framed_next_reads [OF ok Cons.prems(3) this(1) e this(2), where acts = acts]
    obtain c1 buf1 reads1 where nx: "framed_next R F U acts c buf reads = (Inr (Some (read_p2p R acts m)), c1, buf1, reads1)"
      and sync: "synced s1 c1" and b1: "buf1 @ concat reads1 = later @ ahead" by blast
    obtain n1 own where n1: "perform a n (Some (read_p2p R acts m)) = Inr (n1, own)"
      and run: "run_handshake todo n1 (map (read_p2p R acts) rest) = Inr (n', [])"
      using Cons.prems(1) False by (auto simp: msgs result_simps)
    have "sent_by (hn_config n) (a # todo) = sent_by (hn_config n1) todo"
      using own_messages_receive [OF False] perform_config [OF n1] by (simp add: sent_by_def)
    with Cons.prems(7) have enc: "encode_messages R F x (sent_by (hn_config n1) todo) = (out, x')" by simp
    have x: "out_side x = out_side c1" using Cons.prems(6) framed_next_out [OF nx] by simp
    have rest: "\<forall>m \<in> set rest. message_sendable R m" using Cons.prems(2) by (simp add: msgs)
    obtain c' buf' reads' where "framed_steps R F U acts todo n1 c1 buf1 reads1 = (Inr (n', c', buf', reads'), out)"
        "buf' @ concat reads' = ahead" "synced s' c'" "out_side c' = out_side x'"
      using Cons.IH [OF run rest sync later b1 x enc] by blast
    then show ?thesis using False nx n1 by simp
  qed
qed

section \<open>Both ends\<close>

definition met :: "node_config \<Rightarrow> node_config \<Rightarrow> handshake_node \<Rightarrow> handshake_node" where
  "met c c' n = n\<lparr> hn_peer_id := Some (nc_id c'), hn_caps := Some (negotiate (capabilities c')),
     hn_status := Some (read_status (own_rsk_status c')) \<rparr>"

lemma sent_outputs: "sent_by c p2p_handshake = outputs c" "sent_by c p2p_handshake_inbound = outputs c"
  by (simp_all add: sent_by_def p2p_handshake_def p2p_handshake_inbound_def outputs_def)

lemma runs_meet:
  assumes "todo \<in> {p2p_handshake, p2p_handshake_inbound}" and "nc_genesis_hash c = nc_genesis_hash c'"
  shows "run_handshake todo (new_node c todo) (map (read_p2p R acts) (outputs c')) = Inr (met c c' (new_node c todo), [])"
  using assms(2) unfolding handshake_accepts [OF assms(1)]
  by (simp add: outputs_def own_hello_def own_eth_status_def met_def)

text \<open>What a connection has still to read, and two connections whose codecs are in step.\<close>

definition left_over :: "connection \<Rightarrow> bytes" where
  "left_over = (\<lambda>(_, buf, reads). buf @ concat reads)"

definition in_step :: "connection \<Rightarrow> connection \<Rightarrow> bool" where
  "in_step x y \<longleftrightarrow> synced (fst x) (fst y) \<and> synced (fst y) (fst x)"

lemma framed_handshake:
  assumes ok: "frame_ok R U" and sync: "synced d l" "synced l d" and gen: "nc_genesis_hash c1 = nc_genesis_hash c2"
    and send: "\<forall>m \<in> set (outputs c1) \<union> set (outputs c2). message_sendable R m"
  shows "\<exists>a b t. \<forall>reads_d reads_l u v. concat reads_d = b @ u \<longrightarrow> concat reads_l = a @ v \<longrightarrow>
    (\<exists>cd cl. framed_steps R F U acts p2p_handshake (new_node c1 p2p_handshake) d [] reads_d =
         (Inr (met c1 c2 (new_node c1 p2p_handshake), cd), a) \<and>
       framed_steps R F U acts p2p_handshake_inbound (new_node c2 p2p_handshake_inbound) l [] reads_l =
         (Inr (met c2 c1 (new_node c2 p2p_handshake_inbound), cl), b) \<and>
       left_over cd = u \<and> left_over cl = v \<and> in_step cd cl \<and> synced t (fst cd) \<and> out_side t = out_side (fst cl))"
proof -
  obtain a d' where a: "encode_messages R F d (outputs c1) = (a, d')" by fastforce
  obtain b l' where b: "encode_messages R F l (outputs c2) = (b, l')" by fastforce
  have n: "hn_config (new_node c todo) = c" for c todo by (simp add: new_node_def)
  show ?thesis
  proof (rule exI [of _ a], rule exI [of _ b], rule exI [of _ l'], intro allI impI)
    fix reads_d reads_l u v assume r: "concat reads_d = b @ u" "concat reads_l = a @ v"
    have "run_handshake p2p_handshake (new_node c1 p2p_handshake) (map (read_p2p R acts) (outputs c2)) =
        Inr (met c1 c2 (new_node c1 p2p_handshake), [])" by (rule runs_meet) (simp_all add: gen)
    from framed_steps_run [OF ok this _ sync(2) b _ refl, where buf = "[]" and reads = reads_d and ahead = u] r(1) a send
    obtain cd x y where cd: "framed_steps R F U acts p2p_handshake (new_node c1 p2p_handshake) d [] reads_d =
         (Inr (met c1 c2 (new_node c1 p2p_handshake), cd, x, y), a)" "x @ concat y = u" "synced l' cd" "out_side cd = out_side d'"
      by (auto simp: n sent_outputs)
    have "run_handshake p2p_handshake_inbound (new_node c2 p2p_handshake_inbound) (map (read_p2p R acts) (outputs c1)) =
        Inr (met c2 c1 (new_node c2 p2p_handshake_inbound), [])" by (rule runs_meet) (simp_all add: gen)
    from framed_steps_run [OF ok this _ sync(1) a _ refl, where buf = "[]" and reads = reads_l and ahead = v] r(2) b send
    obtain cl z w where cl: "framed_steps R F U acts p2p_handshake_inbound (new_node c2 p2p_handshake_inbound) l [] reads_l =
         (Inr (met c2 c1 (new_node c2 p2p_handshake_inbound), cl, z, w), b)" "z @ concat w = v" "synced d' cl" "out_side cl = out_side l'"
      by (auto simp: n sent_outputs)
    show "\<exists>cd cl. framed_steps R F U acts p2p_handshake (new_node c1 p2p_handshake) d [] reads_d =
         (Inr (met c1 c2 (new_node c1 p2p_handshake), cd), a) \<and>
       framed_steps R F U acts p2p_handshake_inbound (new_node c2 p2p_handshake_inbound) l [] reads_l =
         (Inr (met c2 c1 (new_node c2 p2p_handshake_inbound), cl), b) \<and>
       left_over cd = u \<and> left_over cl = v \<and> in_step cd cl \<and> synced l' (fst cd) \<and> out_side l' = out_side (fst cl)"
      using cd cl synced_out [OF cd(4)] synced_out [OF cl(4)]
      by (intro exI [of _ "(cd, x, y)"] exI [of _ "(cl, z, w)"]) (simp add: left_over_def in_step_def)
  qed
qed

text \<open>The connection the other end writes to is known beforehand: its codec sends like \<open>t\<close>.\<close>

lemma handshake_meets:
  assumes ok: "frame_ok R U" "keys_ok K"
    and keys: "secret_key K c1 = Inr sk1" "secret_key K c2 = Inr sk2"
    and rnd: "random_ok K r1" "random_ok K r2"
    and fit: "handshake_fits R (length (hr_padding r1))" "handshake_fits R (length (hr_padding r2))"
    and gen: "nc_genesis_hash c1 = nc_genesis_hash c2"
    and send: "\<forall>m \<in> set (outputs c1) \<union> set (outputs c2). message_sendable R m"
  shows "\<exists>packet response a b t. \<forall>reads_d reads_l u v. concat reads_d = b @ u \<longrightarrow> concat reads_l = a @ v \<longrightarrow>
    (\<exists>cd cl.
       handshake_run R F U K acts c1 (Some (kl_public K sk2)) r1 response reads_d =
         (Inr (kl_public K sk2, read_status (own_rsk_status c2), negotiate (capabilities c2), cd), packet @ a) \<and>
       handshake_run R F U K acts c2 None r2 packet reads_l =
         (Inr (kl_public K sk1, read_status (own_rsk_status c1), negotiate (capabilities c1), cl), response @ b) \<and>
       left_over cd = u \<and> left_over cl = v \<and> in_step cd cl \<and> synced t (fst cd) \<and> out_side t = out_side (fst cl))"
proof -
  have lib: "rlp_ok R" "uint_ok R U" using ok(1) by (simp_all add: frame_ok_def)
  obtain packet response d l where
    p: "initiator_packet R K c1 (kl_public K sk2) r1 = Inr packet" and
    i: "run_initiator R U K c1 (kl_public K sk2) r1 response = Inr (kl_public K sk2, d, [])" and
    r: "run_responder R U K c2 r2 packet = (response, Inr (kl_public K sk1, l, []))" and sync: "synced d l" "synced l d"
    using rlpx_agreement [OF lib ok(2) keys rnd fit] by blast
  obtain a b t where ab: "\<And>reads_d reads_l u v. concat reads_d = b @ u \<Longrightarrow> concat reads_l = a @ v \<Longrightarrow>
    \<exists>cd cl. framed_steps R F U acts p2p_handshake (new_node c1 p2p_handshake) d [] reads_d =
         (Inr (met c1 c2 (new_node c1 p2p_handshake), cd), a) \<and>
       framed_steps R F U acts p2p_handshake_inbound (new_node c2 p2p_handshake_inbound) l [] reads_l =
         (Inr (met c2 c1 (new_node c2 p2p_handshake_inbound), cl), b) \<and>
       left_over cd = u \<and> left_over cl = v \<and> in_step cd cl \<and> synced t (fst cd) \<and> out_side t = out_side (fst cl)"
    using framed_handshake [OF ok(1) sync gen send, of F acts] by metis
  have "\<exists>cd cl.
       handshake_run R F U K acts c1 (Some (kl_public K sk2)) r1 response reads_d =
         (Inr (kl_public K sk2, read_status (own_rsk_status c2), negotiate (capabilities c2), cd), packet @ a) \<and>
       handshake_run R F U K acts c2 None r2 packet reads_l =
         (Inr (kl_public K sk1, read_status (own_rsk_status c1), negotiate (capabilities c1), cl), response @ b) \<and>
       left_over cd = u \<and> left_over cl = v \<and> in_step cd cl \<and> synced t (fst cd) \<and> out_side t = out_side (fst cl)" if "concat reads_d = b @ u" "concat reads_l = a @ v" for reads_d reads_l u v
    using ab [of "[] # reads_d" u "[] # reads_l" v] that p i r
    by (auto simp: handshake_run_def handshake_result_def met_def of_option_def)
  then show ?thesis by blast
qed


section \<open>Its hypotheses hold\<close>

text \<open>The messages of a node are small.\<close>

lemma std_field_bounds:
  "length (rl_u8_bytes rlp_std b) \<le> 265" "length (rl_u16_bytes rlp_std w) \<le> 265" "length (rl_u32_bytes rlp_std x) \<le> 265"
  "length (rl_u64_bytes rlp_std v) \<le> 265" "length (rl_u256_bytes rlp_std y) \<le> 265" "length (rl_b256_bytes rlp_std h) \<le> 265"
  "length (rl_b512_bytes rlp_std k) \<le> 265" "length (encode_difficulty rlp_std y) \<le> 265"
  unfolding rl_u8_bytes_def rl_u16_bytes_def rl_u32_bytes_def rl_u64_bytes_def rl_u256_bytes_def rl_b256_bytes_def
    rl_b512_bytes_def encode_difficulty_def
  using length_strip_zeros [of "[b]"] length_strip_zeros [of "to_be 2 w"] length_strip_zeros [of "to_be 4 x"]
    length_strip_zeros [of "to_be 8 v"] length_strip_zeros [of "to_be 32 y"] java_signed_bytes_props [of y]
  by (intro std_string_bound; simp add: difficulty_bytes_java)+

lemma small_sendable: "p2p_ok rlp_std m \<Longrightarrow> length (encode_p2p rlp_std m) \<le> 10000 \<Longrightarrow> message_sendable rlp_std m"
  using std_field_bounds(1) [of "hd (encode_p2p rlp_std m)"] by (simp add: message_sendable_iff sendable_def frame_size_def)

lemma std_wrap_bound: "length p \<le> n \<Longrightarrow> length (wrap_list rlp_std p) \<le> n + 9"
  using std_wrap_length [of p] by simp

lemma hello_sendable:
  assumes "length (nc_client_id n) \<le> 256" and "utf8_ok (nc_client_id n)" and "\<not> nc_snap_capability n"
  shows "message_sendable rlp_std (own_hello n)"
proof (rule small_sendable)
  have c: "length (encode_capability rlp_std c) \<le> 539" if "length (cap_name c) \<le> 256" for c
    unfolding encode_capability_def
    using std_wrap_bound [of _ 530] std_string_bound [OF that] std_field_bounds(4) [of "cap_version c"] by simp
  have "length (concat (map (encode_capability rlp_std) (capabilities n))) \<le> 1078"
    using c [of "\<lparr> cap_name = rsk_name, cap_version = 62 \<rparr>"] c [of "\<lparr> cap_name = rsk_name, cap_version = RSK_RANGE_VERSION \<rparr>"]
    by (simp add: capabilities_def rsk_name_def assms)
  note cs = std_wrap_bound [OF this]
  have "length (rl_string_bytes rlp_std (nc_client_id n)) \<le> 265" by (rule std_string_bound) (simp add: assms)
  with cs std_field_bounds(4) [of P2P_VERSION] std_field_bounds(2) [of "nc_listen_port n"] std_field_bounds(7) [of "nc_id n"]
  have "length (encode_hello rlp_std \<lparr> hl_protocol_version = P2P_VERSION, hl_client_id = nc_client_id n,
      hl_capabilities = capabilities n, hl_listen_port = nc_listen_port n, hl_id = nc_id n \<rparr>) \<le> 3000 + 9"
    unfolding encode_hello_def by (intro std_wrap_bound) simp
  then show "length (encode_p2p rlp_std (own_hello n)) \<le> 10000" by (simp add: own_hello_def)
  show "p2p_ok rlp_std (own_hello n)"
    by (simp add: own_hello_def capabilities_def rsk_name_def assms)
qed

lemma demo_hello_sendable: "message_sendable rlp_std (own_hello demo_config)"
  by (rule hello_sendable) (simp_all add: demo_config_def)

lemma eth_status_sendable: "message_sendable rlp_std (own_eth_status c)"
proof (rule small_sendable)
  have e: "length (encode_eth_status rlp_std s) \<le> 2000 + 9" for s
    unfolding encode_eth_status_def
    using std_field_bounds(3) [of "es_protocol_version s"] std_field_bounds(4) [of "es_network_id s"]
      std_field_bounds(5) [of "es_total_difficulty s"] std_field_bounds(6) [of "es_best_hash s"] std_field_bounds(6) [of "es_genesis_hash s"]
    by (intro std_wrap_bound) simp
  obtain s where "own_eth_status c = EthStatus s" by (simp add: own_eth_status_def)
  with e [of s] show "length (encode_p2p rlp_std (own_eth_status c)) \<le> 10000" by simp
qed (simp add: own_eth_status_def)

lemma rsk_status_sendable: "message_sendable rlp_std (RskMessage (Status s))"
proof (rule small_sendable)
  have "length (status_fields rlp_std s) \<le> 2000"
    using std_field_bounds(4) [of "st_best_block_number s"] std_field_bounds(6) [of "st_best_block_hash s"]
      std_field_bounds(6) [of "the (st_best_block_parent_hash s)"] std_field_bounds(8) [of "the (st_total_difficulty s)"]
      std_field_bounds(4) [of "the (st_earliest_block s)"]
    by (cases "st_best_block_parent_hash s"; cases "st_total_difficulty s"; cases "st_earliest_block s")
      (simp_all add: status_fields_def)
  then have p: "length (encode_params rlp_std (Status s)) \<le> 2000 + 9" unfolding encode_params.simps by (rule std_wrap_bound)
  have "length (rl_header_bytes rlp_std False (length (encode_params rlp_std (Status s)))) \<le> 9"
    using length_strip_zeros [of "nat_bytes 8 (length (encode_params rlp_std (Status s)))"]
    by (simp add: rlp_std_def std_header_bytes_def Let_def)
  with p std_field_bounds(1) [of "type_code (message_type (Status s))"]
  have "length (encode_message rlp_std (Status s)) \<le> 3000 + 9 + 9"
    unfolding encode_message_def Let_def by (intro std_wrap_bound) simp
  then show "length (encode_p2p rlp_std (RskMessage (Status s))) \<le> 10000" by simp
qed simp


end
