(* ===== verification/Discovery.thy ===== *)
theory Discovery
  imports P2p_Messages Ecies
begin

text \<open>
  \<open>crates/rsk-p2p/src/discovery/message.rs\<close>: the datagrams that find peers, with their digest and
  signature.
\<close>

section \<open>Messages\<close>

datatype discovery_message_type =
    D_Ping
  | D_Pong
  | D_FindNode
  | D_Neighbors

fun discovery_code :: "discovery_message_type \<Rightarrow> u8" where
  "discovery_code D_Ping = 1"
| "discovery_code D_Pong = 2"
| "discovery_code D_FindNode = 3"
| "discovery_code D_Neighbors = 4"

definition discovery_from_u8 :: "u8 \<Rightarrow> discovery_message_type option" where
  "discovery_from_u8 v =
    (if v = 1 then Some D_Ping else if v = 2 then Some D_Pong
     else if v = 3 then Some D_FindNode else if v = 4 then Some D_Neighbors else None)"

record discovery_endpoint =
  de_ip :: bytes
  de_udp_port :: "16 word"
  de_tcp_port :: "16 word"

record ping_message =
  pm_from :: discovery_endpoint
  pm_to :: discovery_endpoint
  pm_message_id :: bytes
  pm_network_id :: u32

record pong_message =
  om_from :: discovery_endpoint
  om_to :: discovery_endpoint
  om_message_id :: bytes
  om_network_id :: u32

record find_node_message =
  fm_target :: "512 word"
  fm_message_id :: bytes
  fm_network_id :: u32

record discovery_node =
  dn_ip :: bytes
  dn_udp_port :: "16 word"
  dn_tcp_port :: "16 word"
  dn_id :: "512 word"

record neighbors_message =
  nm_nodes :: "discovery_node list"
  nm_message_id :: bytes
  nm_network_id :: u32

datatype discovery_payload =
    DPing ping_message
  | DPong pong_message
  | DFindNode find_node_message
  | DNeighbors neighbors_message

record discovery_packet =
  dp_mdc :: b256
  dp_signature :: bytes
  dp_msg_type :: discovery_message_type
  dp_payload :: discovery_payload

section \<open>Encoding\<close>

definition encode_endpoint :: "rlp_lib \<Rightarrow> discovery_endpoint \<Rightarrow> bytes" where
  "encode_endpoint R e = wrap_list R (rl_string_bytes R (de_ip e) @ rl_u16_bytes R (de_udp_port e) @ rl_u16_bytes R (de_tcp_port e))"

definition encode_discovery_node :: "rlp_lib \<Rightarrow> discovery_node \<Rightarrow> bytes" where
  "encode_discovery_node R n = wrap_list R (rl_string_bytes R (dn_ip n) @ rl_u16_bytes R (dn_udp_port n) @
     rl_u16_bytes R (dn_tcp_port n) @ rl_b512_bytes R (dn_id n))"

fun payload_fields :: "rlp_lib \<Rightarrow> discovery_payload \<Rightarrow> bytes" where
  "payload_fields R (DPing m) = encode_endpoint R (pm_from m) @ encode_endpoint R (pm_to m) @
     rl_string_bytes R (pm_message_id m) @ rl_u32_bytes R (pm_network_id m)"
| "payload_fields R (DPong m) = encode_endpoint R (om_from m) @ encode_endpoint R (om_to m) @
     rl_string_bytes R (om_message_id m) @ rl_u32_bytes R (om_network_id m)"
| "payload_fields R (DFindNode m) = rl_b512_bytes R (fm_target m) @ rl_string_bytes R (fm_message_id m) @
     rl_u32_bytes R (fm_network_id m)"
| "payload_fields R (DNeighbors m) = wrap_list R (concat (map (encode_discovery_node R) (nm_nodes m))) @
     rl_string_bytes R (nm_message_id m) @ rl_u32_bytes R (nm_network_id m)"

definition encode_discovery_payload :: "rlp_lib \<Rightarrow> discovery_payload \<Rightarrow> bytes" where
  "encode_discovery_payload R p = wrap_list R (payload_fields R p)"

fun discovery_type :: "discovery_payload \<Rightarrow> discovery_message_type" where
  "discovery_type (DPing _) = D_Ping"
| "discovery_type (DPong _) = D_Pong"
| "discovery_type (DFindNode _) = D_FindNode"
| "discovery_type (DNeighbors _) = D_Neighbors"

definition encode_packet :: "rlp_lib \<Rightarrow> discovery_packet \<Rightarrow> bytes" where
  "encode_packet R p = to_be 32 (dp_mdc p) @ dp_signature p @ [discovery_code (dp_msg_type p)] @ encode_discovery_payload R (dp_payload p)"

definition create_packet :: "rlp_lib \<Rightarrow> key_lib \<Rightarrow> discovery_payload \<Rightarrow> b256 \<Rightarrow> discovery_packet option" where
  "create_packet R K payload key =
     (let msg_type = discovery_type payload;
          data = encode_discovery_payload R payload;
          sig_hash = rl_keccak R (discovery_code msg_type # data)
      in case kl_sign K key sig_hash of
           None \<Rightarrow> None
         | Some (signature_bytes, rec_id) \<Rightarrow>
             let signature = signature_bytes @ [rec_id];
                 mdc = rl_keccak R (signature @ [discovery_code msg_type] @ data)
             in Some \<lparr> dp_mdc = mdc, dp_signature = signature, dp_msg_type = msg_type, dp_payload = payload \<rparr>)"

text \<open>The sender of a packet: the signature is checked over the payload encoded anew.\<close>

definition recover_id :: "rlp_lib \<Rightarrow> key_lib \<Rightarrow> discovery_packet \<Rightarrow> ecies_error + 512 word" where
  "recover_id R K p =
     (let data = encode_discovery_payload R (dp_payload p);
          sig_hash = rl_keccak R (discovery_code (dp_msg_type p) # data);
          signature_bytes = take 64 (dp_signature p);
          recovery_id = dp_signature p ! 64
      in bindE (ensure (kl_signature_ok K signature_bytes) InvalidSignature) (\<lambda>_.
         bindE (ensure (kl_recovery_ok K recovery_id) InvalidRecoveryId) (\<lambda>_.
           of_option RecoveryFailed (kl_recover K sig_hash signature_bytes recovery_id))))"

section \<open>Decoding\<close>

text \<open>\<open>u32::decode\<close>.\<close>

definition decode_u32 :: "uint_reader \<Rightarrow> bytes \<Rightarrow> (u32 \<times> bytes) rlp" where
  "decode_u32 U d = bindE (U 4 d) (\<lambda>(n, rest). Inr (of_nat n, rest))"

definition decode_endpoint :: "rlp_lib \<Rightarrow> uint_reader \<Rightarrow> bytes \<Rightarrow> (discovery_endpoint \<times> bytes) rlp" where
  "decode_endpoint R U = read_struct R (\<lambda>b.
     bindE (rl_bytes R b) (\<lambda>(ip, b).
     bindE (decode_u16 U b) (\<lambda>(udp, b).
     bindE (decode_u16 U b) (\<lambda>(tcp, b).
       Inr (\<lparr> de_ip = ip, de_udp_port = udp, de_tcp_port = tcp \<rparr>, b)))))"

definition decode_discovery_node :: "rlp_lib \<Rightarrow> uint_reader \<Rightarrow> bytes \<Rightarrow> (discovery_node \<times> bytes) rlp" where
  "decode_discovery_node R U = read_struct R (\<lambda>b.
     bindE (rl_bytes R b) (\<lambda>(ip, b).
     bindE (decode_u16 U b) (\<lambda>(udp, b).
     bindE (decode_u16 U b) (\<lambda>(tcp, b).
     bindE (decode_b512 R b) (\<lambda>(node_id, b).
       Inr (\<lparr> dn_ip = ip, dn_udp_port = udp, dn_tcp_port = tcp, dn_id = node_id \<rparr>, b))))))"

definition decode_ping :: "rlp_lib \<Rightarrow> uint_reader \<Rightarrow> bytes \<Rightarrow> (ping_message \<times> bytes) rlp" where
  "decode_ping R U = read_struct R (\<lambda>b.
     bindE (decode_endpoint R U b) (\<lambda>(f, b).
     bindE (decode_endpoint R U b) (\<lambda>(t, b).
     bindE (decode_str R b) (\<lambda>(message_id, b).
     bindE (decode_u32 U b) (\<lambda>(network_id, b).
       Inr (\<lparr> pm_from = f, pm_to = t, pm_message_id = message_id, pm_network_id = network_id \<rparr>, b))))))"

definition decode_pong :: "rlp_lib \<Rightarrow> uint_reader \<Rightarrow> bytes \<Rightarrow> (pong_message \<times> bytes) rlp" where
  "decode_pong R U = read_struct R (\<lambda>b.
     bindE (decode_endpoint R U b) (\<lambda>(f, b).
     bindE (decode_endpoint R U b) (\<lambda>(t, b).
     bindE (decode_str R b) (\<lambda>(message_id, b).
     bindE (decode_u32 U b) (\<lambda>(network_id, b).
       Inr (\<lparr> om_from = f, om_to = t, om_message_id = message_id, om_network_id = network_id \<rparr>, b))))))"

definition decode_find_node :: "rlp_lib \<Rightarrow> uint_reader \<Rightarrow> bytes \<Rightarrow> (find_node_message \<times> bytes) rlp" where
  "decode_find_node R U = read_struct R (\<lambda>b.
     bindE (decode_b512 R b) (\<lambda>(target, b).
     bindE (decode_str R b) (\<lambda>(message_id, b).
     bindE (decode_u32 U b) (\<lambda>(network_id, b).
       Inr (\<lparr> fm_target = target, fm_message_id = message_id, fm_network_id = network_id \<rparr>, b)))))"

definition decode_neighbors :: "rlp_lib \<Rightarrow> uint_reader \<Rightarrow> bytes \<Rightarrow> (neighbors_message \<times> bytes) rlp" where
  "decode_neighbors R U = read_struct R (\<lambda>b.
     bindE (read_vec R (decode_discovery_node R U) b) (\<lambda>(nodes, b).
     bindE (decode_str R b) (\<lambda>(message_id, b).
     bindE (decode_u32 U b) (\<lambda>(network_id, b).
       Inr (\<lparr> nm_nodes = nodes, nm_message_id = message_id, nm_network_id = network_id \<rparr>, b)))))"

definition decode_discovery_payload :: "rlp_lib \<Rightarrow> uint_reader \<Rightarrow> discovery_message_type \<Rightarrow> bytes \<Rightarrow> (discovery_payload \<times> bytes) rlp" where
  "decode_discovery_payload R U msg_type data =
    (case msg_type of
       D_Ping \<Rightarrow> bindE (decode_ping R U data) (\<lambda>(m, r). Inr (DPing m, r))
     | D_Pong \<Rightarrow> bindE (decode_pong R U data) (\<lambda>(m, r). Inr (DPong m, r))
     | D_FindNode \<Rightarrow> bindE (decode_find_node R U data) (\<lambda>(m, r). Inr (DFindNode m, r))
     | D_Neighbors \<Rightarrow> bindE (decode_neighbors R U data) (\<lambda>(m, r). Inr (DNeighbors m, r)))"

datatype discovery_error =
    PacketTooShort
  | MdcMismatch
  | UnknownMessageType u8
  | DiscoveryRlp rlp_error

definition decode_packet :: "rlp_lib \<Rightarrow> uint_reader \<Rightarrow> bytes \<Rightarrow> discovery_error + discovery_packet" where
  "decode_packet R U buf =
     bindE (ensure (\<not> length buf < 32 + 65 + 1) PacketTooShort) (\<lambda>_.
     let mdc = from_be (slice 0 32 buf);
         signature = slice 32 97 buf;
         actual_mdc = rl_keccak R (drop 32 buf)
     in bindE (ensure (\<not> mdc \<noteq> actual_mdc) MdcMismatch) (\<lambda>_.
        let msg_type_raw = buf ! 97 in
        bindE (of_option (UnknownMessageType msg_type_raw) (discovery_from_u8 msg_type_raw)) (\<lambda>msg_type.
          case decode_discovery_payload R U msg_type (drop 98 buf) of
            Inl e \<Rightarrow> Inl (DiscoveryRlp e)
          | Inr (payload, _) \<Rightarrow>
              Inr \<lparr> dp_mdc = mdc, dp_signature = signature, dp_msg_type = msg_type, dp_payload = payload \<rparr>)))"


section \<open>What is read back\<close>

lemma u32_reads [codec]: "uint_ok R U \<Longrightarrow> decode_u32 U (rl_u32_bytes R v @ rest) = Inr (v, rest)"
proof -
  assume "uint_ok R U"
  moreover have "unat v < 256 ^ 4" using unat_less_exp [of v] by simp
  ultimately have "U 4 (rl_string_bytes R (strip_zeros (nat_bytes 4 (unat v))) @ rest) = Inr (unat v, rest)"
    unfolding uint_ok_def by simp
  then show ?thesis by (simp add: decode_u32_def rl_u32_bytes_def to_be_def)
qed

lemma endpoint_reads [codec]:
  assumes "rlp_ok R" "uint_ok R U" and "fits (encode_endpoint R e)"
  shows "decode_endpoint R U (encode_endpoint R e @ rest) = Inr (e, rest)"
proof -
  have f: "fits (rl_string_bytes R (de_ip e) @ rl_u16_bytes R (de_udp_port e) @ rl_u16_bytes R (de_tcp_port e))"
    using assms(3) by (auto simp: encode_endpoint_def dest: fits_wrap)
  then have "fits (de_ip e)" by (blast intro: fits_string [OF assms(1)] fit)
  with f assms(1,2) show ?thesis by (simp add: decode_endpoint_def encode_endpoint_def codec)
qed

definition discovery_node_ok :: "rlp_lib \<Rightarrow> uint_reader \<Rightarrow> discovery_node \<Rightarrow> bool" where
  "discovery_node_ok R U n \<longleftrightarrow> rlp_ok R \<and> uint_ok R U \<and> fits (encode_discovery_node R n)"

interpretation wire_discovery_node: wire_codec "encode_discovery_node R" "decode_discovery_node R U" "discovery_node_ok R U" "\<lambda>n. n" for R U
proof unfold_locales
  fix n rest assume n: "discovery_node_ok R U n"
  then have ok: "rlp_ok R" "uint_ok R U"
    and f: "fits (rl_string_bytes R (dn_ip n) @ rl_u16_bytes R (dn_udp_port n) @ rl_u16_bytes R (dn_tcp_port n) @ rl_b512_bytes R (dn_id n))"
    by (auto simp: discovery_node_ok_def encode_discovery_node_def dest: fits_wrap)
  then have "fits (dn_ip n)" by (blast intro: fits_string fit)
  with ok f show "decode_discovery_node R U (encode_discovery_node R n @ rest) = Inr (n, rest)"
    by (simp add: decode_discovery_node_def encode_discovery_node_def codec)
  show "encode_discovery_node R n \<noteq> []" using f unfolding encode_discovery_node_def fits_def by (intro wrap_list_ne [OF ok(1)])
qed

fun payload_ok :: "discovery_payload \<Rightarrow> bool" where
  "payload_ok (DPing m) \<longleftrightarrow> utf8_ok (pm_message_id m)"
| "payload_ok (DPong m) \<longleftrightarrow> utf8_ok (om_message_id m)"
| "payload_ok (DFindNode m) \<longleftrightarrow> utf8_ok (fm_message_id m)"
| "payload_ok (DNeighbors m) \<longleftrightarrow> utf8_ok (nm_message_id m)"

lemma payload_reads_back:
  assumes ok: "rlp_ok R" "uint_ok R U" and p: "payload_ok p" and f: "fits (encode_discovery_payload R p)"
  shows "decode_discovery_payload R U (discovery_type p) (encode_discovery_payload R p @ rest) = Inr (p, rest)"
proof -
  have g: "fits (payload_fields R p)" using f by (auto simp: encode_discovery_payload_def dest: fits_wrap)
  note s = struct_reads [OF ok(1) g]
  show ?thesis
  proof (cases p)
    case (DPing m)
    then have "fits (encode_endpoint R (pm_from m))" "fits (encode_endpoint R (pm_to m))" "fits (pm_message_id m)"
      using g fits_string [OF ok(1), of "pm_message_id m"] by (simp_all add: fits_def)
    then have "decode_ping R U (encode_discovery_payload R p @ rest) = Inr (m, rest)"
      unfolding decode_ping_def encode_discovery_payload_def
      using p DPing by (intro s) (simp add: codec ok)
    then show ?thesis using DPing by (simp add: decode_discovery_payload_def)
  next
    case (DPong m)
    then have "fits (encode_endpoint R (om_from m))" "fits (encode_endpoint R (om_to m))" "fits (om_message_id m)"
      using g fits_string [OF ok(1), of "om_message_id m"] by (simp_all add: fits_def)
    then have "decode_pong R U (encode_discovery_payload R p @ rest) = Inr (m, rest)"
      unfolding decode_pong_def encode_discovery_payload_def
      using p DPong by (intro s) (simp add: codec ok)
    then show ?thesis using DPong by (simp add: decode_discovery_payload_def)
  next
    case (DFindNode m)
    then have "fits (fm_message_id m)" using g fits_string [OF ok(1), of "fm_message_id m"] by (simp add: fits_def)
    then have "decode_find_node R U (encode_discovery_payload R p @ rest) = Inr (m, rest)"
      unfolding decode_find_node_def encode_discovery_payload_def
      using p DFindNode by (intro s) (simp add: codec ok)
    then show ?thesis using DFindNode by (simp add: decode_discovery_payload_def)
  next
    case (DNeighbors m)
    let ?ns = "concat (map (encode_discovery_node R) (nm_nodes m))"
    have c: "fits ?ns" "fits (nm_message_id m)"
      using DNeighbors g fits_string [OF ok(1), of "nm_message_id m"] by (simp_all add: fits_def wrap_list_def)
    then have "\<forall>n \<in> set (nm_nodes m). discovery_node_ok R U n" using fits_member [OF c(1)] ok by (simp add: discovery_node_ok_def)
    note v = wire_discovery_node.vec_reads [OF ok(1) this c(1)]
    have "decode_neighbors R U (encode_discovery_payload R p @ rest) = Inr (m, rest)"
      unfolding decode_neighbors_def encode_discovery_payload_def
      using p DNeighbors c by (intro s) (simp add: codec ok v)
    then show ?thesis using DNeighbors by (simp add: decode_discovery_payload_def)
  qed
qed

lemma discovery_code_round_trip: "discovery_from_u8 (discovery_code t) = Some t"
  by (cases t) (simp_all add: discovery_from_u8_def)

text \<open>A packet this node creates is read back by a peer as it was, and the peer recovers from it the
  identity of the key that signed it.\<close>

theorem discovery_round_trip:
  assumes "rlp_ok R" and "uint_ok R U" and "keys_ok K" and "kl_secret_ok K key"
    and "payload_ok payload" and "fits (encode_discovery_payload R payload)" and "create_packet R K payload key = Some p"
  shows "decode_packet R U (encode_packet R p) = Inr p \<and> recover_id R K p = Inr (kl_public K key)"
proof -
  let ?d = "encode_discovery_payload R payload" and ?c = "discovery_code (discovery_type payload)"
  obtain sig v where s: "kl_sign K key (rl_keccak R (?c # ?d)) = Some (sig, v)"
    and p: "p = \<lparr> dp_mdc = rl_keccak R ((sig @ [v]) @ [?c] @ ?d), dp_signature = sig @ [v],
      dp_msg_type = discovery_type payload, dp_payload = payload \<rparr>"
    using assms(7) by (auto simp: create_packet_def Let_def split: option.splits)
  note k = keys_laws(3) [OF assms(3,4) s]
  have e: "encode_packet R p = to_be 32 (dp_mdc p) @ sig @ [v] @ [?c] @ ?d" by (simp add: encode_packet_def p)
  have l: "slice 0 32 (encode_packet R p) = to_be 32 (dp_mdc p)" "slice 32 97 (encode_packet R p) = sig @ [v]"
    "drop 32 (encode_packet R p) = sig @ [v] @ [?c] @ ?d" "encode_packet R p ! 97 = ?c" "drop 98 (encode_packet R p) = ?d"
    "98 \<le> length (encode_packet R p)"
    using k by (simp_all add: e slice_def nth_append)
  have "decode_packet R U (encode_packet R p) = Inr p"
    using payload_reads_back [OF assms(1,2,5,6), of "[]"] l(6)
    by (simp add: decode_packet_def l(1-5) Let_def from_be_to_be ensure_def of_option_def discovery_code_round_trip) (simp add: p)
  moreover have "recover_id R K p = Inr (kl_public K key)"
    using k by (simp add: recover_id_def p ensure_def of_option_def nth_append Let_def)
  ultimately show ?thesis by blast
qed

definition demo_payload :: discovery_payload where
  "demo_payload = DFindNode \<lparr> fm_target = 1, fm_message_id = [0x61], fm_network_id = 33 \<rparr>"

lemma discovery_round_trip_witness:
  "\<exists>p. create_packet rlp_std demo_keys demo_payload 42 = Some p \<and> decode_packet rlp_std std_uint (encode_packet rlp_std p) = Inr p \<and>
     recover_id rlp_std demo_keys p = Inr (kl_public demo_keys 42)"
proof -
  have "length (encode_discovery_payload rlp_std demo_payload) < 1000" by code_simp
  then have f: "fits (encode_discovery_payload rlp_std demo_payload)" by (simp add: fits_def)
  have u: "payload_ok demo_payload" by (simp add: demo_payload_def)
  have k: "kl_secret_ok demo_keys 42" by (simp add: demo_keys_def)
  obtain p where p: "create_packet rlp_std demo_keys demo_payload 42 = Some p"
    by (simp add: create_packet_def demo_keys_def Let_def)
  from discovery_round_trip [OF rlp_std_ok uint_std_ok demo_keys_ok k u f p] p show ?thesis by blast
qed

end
