(* ===== verification/Ip_Address.thy ===== *)
theory Ip_Address
  imports Prelude
begin

text \<open>
  IP addresses and their text, as the standard library writes and reads it, and the two conversions of
  \<open>rsk-p2p/src/utils.rs\<close> over them. An address is its octets read as one big-endian number; a text is
  its bytes as characters.
\<close>

section \<open>Addresses\<close>

datatype ip_addr =
    IpV4 u32
  | IpV6 u128

definition v4_octets :: "u32 \<Rightarrow> bytes" where
  "v4_octets a = to_be 4 a"

definition v6_octets :: "u128 \<Rightarrow> bytes" where
  "v6_octets a = to_be 16 a"

fun in_pairs :: "bytes \<Rightarrow> u16 list" where
  "in_pairs (x # y # bs) = from_be [x, y] # in_pairs bs"
| "in_pairs bs = []"

definition segments :: "u128 \<Rightarrow> u16 list" where
  "segments a = in_pairs (v6_octets a)"

definition of_segments :: "u16 list \<Rightarrow> u128" where
  "of_segments ss = from_be (concat (map (to_be 2) ss))"

section \<open>Text of an address\<close>

definition digit_char :: "nat \<Rightarrow> char" where
  "digit_char d = ''0123456789abcdef'' ! d"

fun num_text :: "nat \<Rightarrow> nat \<Rightarrow> string" where
  "num_text r n = (if n < r \<or> r < 2 then [digit_char n] else num_text r (n div r) @ [digit_char (n mod r)])"

declare num_text.simps [simp del]

text \<open>Items with a separator before all but the first, which is item \<open>i\<close> of a longer sequence.\<close>

fun joined :: "char \<Rightarrow> nat \<Rightarrow> string list \<Rightarrow> string" where
  "joined sep i [] = []"
| "joined sep i (t # ts) = (if 0 < i then [sep] else []) @ t @ joined sep (Suc i) ts"

definition v4_text :: "u32 \<Rightarrow> string" where
  "v4_text a = joined CHR ''.'' 0 (map (\<lambda>b. num_text 10 (unat b)) (v4_octets a))"

definition segments_text :: "u16 list \<Rightarrow> string" where
  "segments_text ss = joined CHR '':'' 0 (map (\<lambda>s. num_text 16 (unat s)) ss)"

text \<open>The first longest run of zero segments: where it starts and its length. \<open>i\<close> counts the segments,
  the run that ends there starts at \<open>cs\<close> and is \<open>cl\<close> long.\<close>

fun zero_span :: "nat \<Rightarrow> nat \<times> nat \<Rightarrow> nat \<times> nat \<Rightarrow> u16 list \<Rightarrow> nat \<times> nat" where
  "zero_span i longest (cs, cl) [] = longest"
| "zero_span i longest (cs, cl) (s # ss) =
     (if s = 0 then
        let current = (if cl = 0 then i else cs, cl + 1)
        in zero_span (Suc i) (if snd longest < snd current then current else longest) current ss
      else zero_span (Suc i) longest (0, 0) ss)"

definition v4_mapped :: "u16 list \<Rightarrow> u32 option" where
  "v4_mapped ss = (if take 6 ss = [0, 0, 0, 0, 0, 0xffff] then Some (from_be (concat (map (to_be 2) (drop 6 ss)))) else None)"

definition v6_text :: "u128 \<Rightarrow> string" where
  "v6_text a =
     (let ss = segments a
      in case v4_mapped ss of
           Some v4 \<Rightarrow> ''::ffff:'' @ v4_text v4
         | None \<Rightarrow>
             let (start, len) = zero_span 0 (0, 0) (0, 0) ss
             in if 1 < len then segments_text (take start ss) @ ''::'' @ segments_text (drop (start + len) ss)
                else segments_text ss)"

definition ip_text :: "ip_addr \<Rightarrow> string" where
  "ip_text ip = (case ip of IpV4 a \<Rightarrow> v4_text a | IpV6 a \<Rightarrow> v6_text a)"

section \<open>Reading an address\<close>

text \<open>A reader takes a prefix of its input or fails and takes nothing.\<close>

definition to_digit :: "nat \<Rightarrow> char \<Rightarrow> nat option" where
  "to_digit r c =
     (let n = of_char c;
          d = (if 48 \<le> n \<and> n \<le> 57 then n - 48
               else if 97 \<le> n \<and> n \<le> 122 then n - 87
               else if 65 \<le> n \<and> n \<le> 90 then n - 55
               else r)
      in if d < r then Some d else None)"

text \<open>The digits from here on: how many with the \<open>k\<close> before, the value on top of \<open>n\<close>, and the rest; more than
  \<open>m\<close> digits are a failure.\<close>

fun read_digits :: "nat \<Rightarrow> nat \<Rightarrow> nat \<Rightarrow> nat \<Rightarrow> string \<Rightarrow> (nat \<times> nat \<times> string) option" where
  "read_digits r m k n [] = Some (k, n, [])"
| "read_digits r m k n (c # cs) =
     (case to_digit r c of
        None \<Rightarrow> Some (k, n, c # cs)
      | Some d \<Rightarrow> if m < Suc k then None else read_digits r m (Suc k) (n * r + d) cs)"

definition read_number :: "nat \<Rightarrow> nat \<Rightarrow> nat \<Rightarrow> bool \<Rightarrow> string \<Rightarrow> (nat \<times> string) option" where
  "read_number r m bound zero_prefix s =
     Option.bind (read_digits r m 0 0 s) (\<lambda>(k, n, rest).
       if k = 0 then None
       else if \<not> zero_prefix \<and> take 1 s = ''0'' \<and> 1 < k then None
       else if n < bound then Some (n, rest) else None)"

definition read_char :: "char \<Rightarrow> string \<Rightarrow> string option" where
  "read_char c s = (case s of x # s' \<Rightarrow> if x = c then Some s' else None | [] \<Rightarrow> None)"

definition read_separator :: "char \<Rightarrow> nat \<Rightarrow> (string \<Rightarrow> ('a \<times> string) option) \<Rightarrow> string \<Rightarrow> ('a \<times> string) option" where
  "read_separator sep i inner s = Option.bind (if 0 < i then read_char sep s else Some s) inner"

definition read_octet :: "nat \<Rightarrow> string \<Rightarrow> (nat \<times> string) option" where
  "read_octet i = read_separator CHR ''.'' i (read_number 10 3 256 False)"

definition read_v4 :: "string \<Rightarrow> (u32 \<times> string) option" where
  "read_v4 s =
     Option.bind (read_octet 0 s) (\<lambda>(a, s).
     Option.bind (read_octet 1 s) (\<lambda>(b, s).
     Option.bind (read_octet 2 s) (\<lambda>(c, s).
     Option.bind (read_octet 3 s) (\<lambda>(d, s).
       Some (from_be [of_nat a, of_nat b, of_nat c, of_nat d], s)))))"

text \<open>Groups \<open>i\<close> and on of at most \<open>limit\<close>, an IPv4 address counting for two and ending them.\<close>

function read_groups :: "nat \<Rightarrow> nat \<Rightarrow> string \<Rightarrow> u16 list \<times> bool \<times> string" where
  "read_groups limit i s =
     (if \<not> i < limit then ([], False, s)
      else case (if i < limit - 1 then read_separator CHR '':'' i read_v4 s else None) of
             Some (v4, rest) \<Rightarrow> (in_pairs (v4_octets v4), True, rest)
           | None \<Rightarrow>
               (case read_separator CHR '':'' i (read_number 16 4 65536 True) s of
                  None \<Rightarrow> ([], False, s)
                | Some (g, rest) \<Rightarrow>
                    let (gs, v4, rest') = read_groups limit (Suc i) rest in (of_nat g # gs, v4, rest')))"
  by pat_completeness auto
termination by (relation "measure (\<lambda>(limit, i, s). limit - i)") auto

declare read_groups.simps [simp del]

definition read_v6 :: "string \<Rightarrow> (u128 \<times> string) option" where
  "read_v6 s =
     (let (head, v4, s1) = read_groups 8 0 s
      in if length head = 8 then Some (of_segments head, s1)
         else if v4 then None
         else
           Option.bind (read_char CHR '':'' s1) (\<lambda>s2.
           Option.bind (read_char CHR '':'' s2) (\<lambda>s3.
             let (tail, _, s4) = read_groups (8 - (length head + 1)) 0 s3
             in Some (of_segments (head @ replicate (8 - length head - length tail) 0 @ tail), s4))))"

definition read_ip :: "string \<Rightarrow> (ip_addr \<times> string) option" where
  "read_ip s = (case read_v4 s of
     Some (a, rest) \<Rightarrow> Some (IpV4 a, rest)
   | None \<Rightarrow> map_option (\<lambda>(a, rest). (IpV6 a, rest)) (read_v6 s))"

text \<open>\<open>str::parse\<close>: nothing may be left.\<close>

definition parse_ip :: "string \<Rightarrow> ip_addr option" where
  "parse_ip s = (case read_ip s of Some (ip, []) \<Rightarrow> Some ip | _ \<Rightarrow> None)"

section \<open>Addresses as bytes\<close>

definition bytes_to_ip :: "bytes \<Rightarrow> ip_addr option" where
  "bytes_to_ip bs =
     (if length bs = 4 then Some (IpV4 (from_be bs))
      else if length bs = 16 then Some (IpV6 (from_be bs))
      else if utf8_ok bs then parse_ip (map (\<lambda>b. char_of (unat b)) bs)
      else None)"

definition ip_to_bytes :: "ip_addr \<Rightarrow> bytes" where
  "ip_to_bytes ip = map (\<lambda>c. of_nat (of_char c)) (ip_text ip)"

end
