(* ===== verification/Btc_Seeds.thy ===== *)
theory Btc_Seeds
  imports Ip_Address "HOL-Library.Product_Lexorder"
begin

text \<open>
  Socket addresses with the order of the standard library, and the resolution of DNS seeds of
  \<open>btc-p2p/src/seeds.rs\<close>. Looking a name up is an argument.
\<close>

section \<open>Socket addresses\<close>

text \<open>IPv4 with a port, or IPv6 with port, flow information and scope.\<close>

datatype socket_addr =
    SockV4 u32 u16
  | SockV6 u128 u16 u32 u32

definition sock_ip :: "socket_addr \<Rightarrow> ip_addr" where
  "sock_ip a = (case a of SockV4 ip _ \<Rightarrow> IpV4 ip | SockV6 ip _ _ _ \<Rightarrow> IpV6 ip)"

definition sock_port :: "socket_addr \<Rightarrow> u16" where
  "sock_port a = (case a of SockV4 _ p \<Rightarrow> p | SockV6 _ p _ _ \<Rightarrow> p)"

definition is_v4 :: "socket_addr \<Rightarrow> bool" where
  "is_v4 a = (case a of SockV4 _ _ \<Rightarrow> True | SockV6 _ _ _ _ \<Rightarrow> False)"

text \<open>The derived order: IPv4 first, then field by field.\<close>

definition sock_key :: "socket_addr \<Rightarrow> nat \<times> nat \<times> nat \<times> nat \<times> nat" where
  "sock_key a = (case a of
     SockV4 ip port \<Rightarrow> (0, unat ip, unat port, 0, 0)
   | SockV6 ip port flow scope \<Rightarrow> (1, unat ip, unat port, unat flow, unat scope))"

lemma sock_key_inject: "sock_key a = sock_key b \<longleftrightarrow> a = b"
  by (auto simp: sock_key_def word_unat_eq_iff split: socket_addr.splits)

instantiation socket_addr :: linorder
begin

definition less_eq_socket_addr :: "socket_addr \<Rightarrow> socket_addr \<Rightarrow> bool" where
  "less_eq_socket_addr a b \<longleftrightarrow> sock_key a \<le> sock_key b"

definition less_socket_addr :: "socket_addr \<Rightarrow> socket_addr \<Rightarrow> bool" where
  "less_socket_addr a b \<longleftrightarrow> sock_key a < sock_key b"

instance
  by standard (auto simp: less_eq_socket_addr_def less_socket_addr_def less_le_not_le sock_key_inject [symmetric])

end

section \<open>Seeds\<close>

definition DEFAULT_PORT :: u16 where
  "DEFAULT_PORT = 8333"

definition MAINNET_SEEDS :: "string list" where
  "MAINNET_SEEDS = [''seed.bitcoin.sipa.be'', ''dnsseed.bluematt.me'', ''seed.bitcoinstats.com'',
     ''seed.bitcoin.jonasschnelli.ch'', ''seed.btc.petertodd.net'', ''seed.bitcoin.sprovoost.nl'',
     ''dnsseed.emzy.de'', ''seed.bitcoin.wiz.biz'']"

type_synonym resolver = "string \<Rightarrow> u16 \<Rightarrow> socket_addr list option"

definition resolve_seeds :: "resolver \<Rightarrow> string list \<Rightarrow> u16 \<Rightarrow> socket_addr list" where
  "resolve_seeds dns seeds port =
     (let out = foldl (\<lambda>out seed. case dns seed port of Some addrs \<Rightarrow> out @ addrs | None \<Rightarrow> out) [] seeds
      in remdups_adj (sort out))"

lemma foldl_resolved:
  "foldl (\<lambda>out seed. case dns seed port of Some addrs \<Rightarrow> out @ addrs | None \<Rightarrow> out) acc seeds =
     acc @ concat (List.map_filter (\<lambda>s. dns s port) seeds)"
  by (induction seeds arbitrary: acc) (auto simp: map_filter_simps split: option.split)

lemma sorted_no_repeats: "sorted xs \<Longrightarrow> distinct_adj xs \<Longrightarrow> sorted_wrt (<) xs" for xs :: "'a::linorder list"
proof (induction xs)
  case (Cons x xs)
  then show ?case by (cases xs) (auto simp: less_le)
qed simp

text \<open>The addresses of the seeds that resolve, each once, in ascending order.\<close>

theorem resolve_seeds_sorted:
  "sorted_wrt (<) (resolve_seeds dns seeds port) \<and>
    set (resolve_seeds dns seeds port) = (\<Union>s \<in> set seeds. case dns s port of Some addrs \<Rightarrow> set addrs | None \<Rightarrow> {})"
proof -
  have "sorted_wrt (<) (remdups_adj (sort xs))" for xs :: "socket_addr list"
    by (intro sorted_no_repeats) simp_all
  moreover have "set (concat (List.map_filter (\<lambda>s. dns s port) seeds)) =
      (\<Union>s \<in> set seeds. case dns s port of Some addrs \<Rightarrow> set addrs | None \<Rightarrow> {})"
    by (induction seeds) (auto simp: map_filter_simps split: option.splits)
  ultimately show ?thesis by (simp add: resolve_seeds_def foldl_resolved Let_def)
qed

end
