(* ===== verification/Dialer.thy ===== *)
theory Dialer
  imports Discovery Full_Handshake Btc_Seeds
begin

text \<open>
  The program \<open>rsk-p2p/examples/connect.rs\<close>: it resolves a boot node, learns the identity of the node by
  discovery, runs the whole handshake and exchanges a few messages. What the network and the clock do is
  an argument: the datagrams and deadlines of the socket in the order they are seen, the bytes of the
  connection, and whether a timer fires first.
\<close>

section \<open>Chains and arguments\<close>

datatype rsk_chain =
    RskMainnet
  | RskTestnet

fun rpc_port_default :: "rsk_chain \<Rightarrow> u16" where
  "rpc_port_default RskMainnet = 5050"
| "rpc_port_default RskTestnet = 50505"

fun chain_network_id :: "rsk_chain \<Rightarrow> u64" where
  "chain_network_id RskMainnet = 775"
| "chain_network_id RskTestnet = 8100"

fun chain_genesis_hash :: "rsk_chain \<Rightarrow> b256" where
  "chain_genesis_hash RskMainnet = 0xf88529d4ab262c0f4d042e9d8d3f2472848eaafe1a9b7213f57617eb40a9f9e0"
| "chain_genesis_hash RskTestnet = 0xcabb7fbe88cd6d922042a32ffc08ce8b1fbb37d650b9d4e7dbfe2a7469adfa42"

text \<open>The words of the command line after the name of the program. An option takes the next word, also when
  that is an option itself.\<close>

fun parse_args :: "string list \<Rightarrow> string \<times> rsk_chain \<Rightarrow> string \<times> rsk_chain" where
  "parse_args [] parsed = parsed"
| "parse_args [a] (host, chain) =
     (if a = ''--host'' then ([], chain) else if a = ''--chain'' then (host, RskMainnet) else (host, chain))"
| "parse_args (a # b # rest) (host, chain) =
     (if a = ''--host'' then parse_args rest (b, chain)
      else if a = ''--chain'' then parse_args rest (host, if b = ''testnet'' then RskTestnet else RskMainnet)
      else parse_args (b # rest) (host, chain))"

section \<open>Resolving the host\<close>

text \<open>\<open>str::rsplit_once\<close> and \<open>u16::from_str\<close>.\<close>

fun rsplit_once :: "char \<Rightarrow> string \<Rightarrow> (string \<times> string) option" where
  "rsplit_once sep [] = None"
| "rsplit_once sep (c # cs) =
     (case rsplit_once sep cs of
        Some (before, after) \<Rightarrow> Some (c # before, after)
      | None \<Rightarrow> if c = sep then Some ([], cs) else None)"

definition parse_u16 :: "string \<Rightarrow> u16 option" where
  "parse_u16 s =
     (let digits = (case s of c # cs \<Rightarrow> if c = CHR ''+'' \<and> cs \<noteq> [] then cs else s | [] \<Rightarrow> [])
      in if digits = [] then None
         else map_option of_nat (foldl (\<lambda>acc c. Option.bind acc (\<lambda>n. Option.bind (to_digit 10 c) (\<lambda>d.
                if n * 10 + d < 2 ^ 16 then Some (n * 10 + d) else None))) (Some 0) digits))"

text \<open>\<open>Iterator::find\<close>: the item found and what the iterator still holds.\<close>

fun find_next :: "('a \<Rightarrow> bool) \<Rightarrow> 'a list \<Rightarrow> 'a option \<times> 'a list" where
  "find_next p [] = (None, [])"
| "find_next p (x # xs) = (if p x then (Some x, xs) else find_next p xs)"

datatype dial_error =
    BadPort
  | LookupFailed
  | NoAddress
  | BadKey
  | NoSocket
  | PacketUnsigned
  | SendFailed
  | NoNodeId
  | NodeIdUnrecovered ecies_error
  | NotConnected
  | HandshakeTimedOut
  | DialHandshake run_error
  | SessionSend codec_error

definition resolve_host :: "resolver \<Rightarrow> string \<Rightarrow> rsk_chain \<Rightarrow> dial_error + socket_addr" where
  "resolve_host dns host chain =
     bindE (case rsplit_once CHR '':'' host of
              Some (h, p) \<Rightarrow> bindE (of_option BadPort (parse_u16 p)) (\<lambda>port. Inr (h, port))
            | None \<Rightarrow> Inr (host, rpc_port_default chain)) (\<lambda>(h, port).
     bindE (of_option LookupFailed (dns h port)) (\<lambda>addrs.
       let (v4, addrs) = find_next is_v4 addrs
       in of_option NoAddress (case v4 of Some a \<Rightarrow> Some a | None \<Rightarrow> fst (find_next (\<lambda>_. True) addrs))))"

section \<open>Learning the identity of a node\<close>

definition addr_to_endpoint :: "socket_addr \<Rightarrow> discovery_endpoint" where
  "addr_to_endpoint addr = \<lparr> de_ip = (case addr of SockV4 ip _ \<Rightarrow> v4_octets ip | SockV6 ip _ _ _ \<Rightarrow> v6_octets ip),
     de_udp_port = sock_port addr, de_tcp_port = sock_port addr \<rparr>"

text \<open>What a socket gives: a datagram, an error, or nothing until the deadline.\<close>

datatype udp_event =
    Datagram bytes socket_addr
  | ReceiveError
  | Deadline

definition discovery_ping :: "u16 \<Rightarrow> socket_addr \<Rightarrow> bytes \<Rightarrow> ping_message" where
  "discovery_ping port addr message_id =
     \<lparr> pm_from = \<lparr> de_ip = [127, 0, 0, 1], de_udp_port = port, de_tcp_port = port \<rparr>,
       pm_to = addr_to_endpoint addr, pm_message_id = message_id, pm_network_id = 775 \<rparr>"

definition courtesy_pong :: "ping_message \<Rightarrow> pong_message" where
  "courtesy_pong ping = \<lparr> om_from = \<lparr> de_ip = de_ip (pm_from ping), de_udp_port = de_udp_port (pm_from ping),
       de_tcp_port = de_tcp_port (pm_from ping) \<rparr>,
     om_to = pm_to ping, om_message_id = pm_message_id ping, om_network_id = 775 \<rparr>"

text \<open>One attempt after its ping: what it returns if it does, the datagrams it sends, and the events it leaves to
  the next.\<close>

fun drain_socket :: "rlp_lib \<Rightarrow> uint_reader \<Rightarrow> key_lib \<Rightarrow> b256 \<Rightarrow> socket_addr \<Rightarrow> ping_message \<Rightarrow> udp_event list \<Rightarrow>
    (dial_error + 512 word) option \<times> bytes list \<times> udp_event list" where
  "drain_socket R U K key addr ping [] = (None, [], [])"
| "drain_socket R U K key addr ping (Deadline # events) = (None, [], events)"
| "drain_socket R U K key addr ping (ReceiveError # events) = (None, [], events)"
| "drain_socket R U K key addr ping (Datagram bs from_addr # events) =
     (if from_addr \<noteq> addr then (None, [], events)
      else case decode_packet R U (take 4096 bs) of
             Inl _ \<Rightarrow> drain_socket R U K key addr ping events
           | Inr packet \<Rightarrow>
               (case dp_payload packet of
                  DPong _ \<Rightarrow>
                    (Some (case recover_id R K packet of Inl e \<Rightarrow> Inl (NodeIdUnrecovered e) | Inr peer \<Rightarrow> Inr peer), [], events)
                | DPing _ \<Rightarrow>
                    (case create_packet R K (DPong (courtesy_pong ping)) key of
                       None \<Rightarrow> (Some (Inl PacketUnsigned), [], events)
                     | Some reply \<Rightarrow>
                         let (r, sent, left) = drain_socket R U K key addr ping events
                         in (r, encode_packet R reply # sent, left))
                | _ \<Rightarrow> drain_socket R U K key addr ping events))"

text \<open>The attempts: the message id of each, and whether its ping could be sent.\<close>

fun discovery_attempts :: "rlp_lib \<Rightarrow> uint_reader \<Rightarrow> key_lib \<Rightarrow> b256 \<Rightarrow> socket_addr \<Rightarrow> u16 \<Rightarrow> (bytes \<times> bool) list \<Rightarrow> udp_event list \<Rightarrow>
    (dial_error + 512 word) \<times> bytes list" where
  "discovery_attempts R U K key addr port [] events = (Inl NoNodeId, [])"
| "discovery_attempts R U K key addr port ((message_id, sendable_now) # attempts) events =
     (let ping = discovery_ping port addr message_id
      in case create_packet R K (DPing ping) key of
           None \<Rightarrow> (Inl PacketUnsigned, [])
         | Some packet \<Rightarrow>
             if \<not> sendable_now then (Inl SendFailed, [])
             else (case drain_socket R U K key addr ping events of
                     (Some r, sent, _) \<Rightarrow> (r, encode_packet R packet # sent)
                   | (None, sent, left) \<Rightarrow>
                       let (r, more_sent) = discovery_attempts R U K key addr port attempts left
                       in (r, encode_packet R packet # sent @ more_sent)))"

record udp_socket =
  us_port :: u16
  us_pings :: "nat \<Rightarrow> bytes \<times> bool"
  us_events :: "udp_event list"

definition discover_node_id :: "rlp_lib \<Rightarrow> uint_reader \<Rightarrow> key_lib \<Rightarrow> bytes \<Rightarrow> socket_addr \<Rightarrow> udp_socket option \<Rightarrow>
    (dial_error + 512 word) \<times> bytes list" where
  "discover_node_id R U K sk_bytes addr socket =
     (if \<not> kl_secret_ok K (from_be sk_bytes) then (Inl BadKey, [])
      else case socket of
             None \<Rightarrow> (Inl NoSocket, [])
           | Some s \<Rightarrow> discovery_attempts R U K (from_be sk_bytes) addr (us_port s) (map (us_pings s) [1..<6]) (us_events s))"

section \<open>The session\<close>

definition hex_text :: "bytes \<Rightarrow> string" where
  "hex_text bs = concat (map (\<lambda>b. [digit_char (unat b div 16), digit_char (unat b mod 16)]) bs)"

text \<open>The lines the program prints.\<close>

datatype dial_line =
    TargetLine socket_addr rsk_chain
  | NodeIdLine string
  | PeerLine string
  | NegotiatedLine u64 bool
  | StatusLine u64 string
  | DifficultyLine "u256 option"
  | ServedLine "u64 option"
  | AtGenesisLine
  | GotPong
  | RepliedPong
  | HashesLine nat
  | NewestLine u64 string
  | RskLine rsk_sub_message
  | MessageLine p2p_message
  | SessionErrorLine run_error
  | DoneLine

definition message_lines :: "p2p_message \<Rightarrow> dial_line list" where
  "message_lines m = (case m of
     Pong \<Rightarrow> [GotPong]
   | Ping \<Rightarrow> [RepliedPong]
   | RskMessage (NewBlockHashes ids) \<Rightarrow>
       HashesLine (length ids) # (if ids = [] then [] else [NewestLine (bi_number (last ids)) (hex_text (take 8 (to_be 32 (bi_hash (last ids)))))])
   | RskMessage other \<Rightarrow> [RskLine other]
   | other \<Rightarrow> [MessageLine other])"

text \<open>At most \<open>n\<close> rounds, with \<open>late\<close> telling in which the timer fires: how they end, what is printed and what is sent.\<close>

fun session_rounds :: "rlp_lib \<Rightarrow> frame_ciphers \<Rightarrow> uint_reader \<Rightarrow> activation_heights \<Rightarrow> (nat \<Rightarrow> bool) \<Rightarrow> nat \<Rightarrow> connection \<Rightarrow>
    (dial_error + unit) \<times> dial_line list \<times> bytes" where
  "session_rounds R F U acts late 0 conn = (Inr (), [], [])"
| "session_rounds R F U acts late (Suc n) (c, buf, reads) =
     (if late n then (Inr (), [], [])
      else case framed_next R F U acts c buf reads of
             (Inl e, _) \<Rightarrow> (Inr (), [SessionErrorLine e], [])
           | (Inr None, _) \<Rightarrow> (Inr (), [], [])
           | (Inr (Some m), c1, buf1, reads1) \<Rightarrow>
               (case send_all R F c1 (if m = Ping then [Pong] else []) of
                  (Inl e, _) \<Rightarrow> (Inl (SessionSend e), [], [])
                | (Inr reply, c2) \<Rightarrow>
                    let (r, ls, sent) = session_rounds R F U acts late n (c2, buf1, reads1)
                    in (r, message_lines m @ ls, reply @ sent)))"

section \<open>The program\<close>

record dial_world =
  dw_dns :: resolver
  dw_secret :: bytes
  dw_udp :: "udp_socket option"
  dw_tcp :: "(bytes \<times> bytes list) option"
  dw_random :: handshake_random
  dw_slow :: bool
  dw_late :: "nat \<Rightarrow> bool"

definition dial_config :: "key_lib \<Rightarrow> rsk_chain \<Rightarrow> bytes \<Rightarrow> node_config" where
  "dial_config K chain sk_bytes =
     \<lparr> nc_client_id = [0x72, 0x73, 0x6B, 0x2D, 0x6F, 0x6E, 0x65, 0x2D, 0x6C, 0x69, 0x67, 0x68, 0x74], nc_listen_port = 0,
       nc_id = kl_public K (from_be sk_bytes), nc_chain_id = (case chain of RskMainnet \<Rightarrow> 30 | RskTestnet \<Rightarrow> 31),
       nc_network_id = chain_network_id chain, nc_genesis_hash = chain_genesis_hash chain,
       nc_best_hash = chain_genesis_hash chain, nc_best_block_number = 0, nc_best_block_parent_hash = None,
       nc_total_difficulty = 0, nc_earliest_block = 0, nc_snap_capability = False, nc_bootnodes = [],
       nc_closed_network = False, nc_read_only = True, nc_secret_key = sk_bytes, nc_discovery_port = 0,
       nc_data_dir = [0x2E], nc_external_ip = None, nc_max_outbound_peers = 8, nc_max_inbound_peers = 0,
       nc_max_inbound_per_ip = 0, nc_max_inbound_per_cidr = 0, nc_inbound_cidr_prefix = 24 \<rparr>"

definition peer_lines :: "rsk_chain \<Rightarrow> 512 word \<Rightarrow> rsk_status \<Rightarrow> peer_capabilities \<Rightarrow> dial_line list" where
  "peer_lines chain peer status caps =
     [PeerLine (hex_text (take 8 (to_be 64 peer))), NegotiatedLine (pc_rsk_version caps) (pc_snap caps),
      StatusLine (st_best_block_number status) (hex_text (take 8 (to_be 32 (st_best_block_hash status)))),
      DifficultyLine (st_total_difficulty status), ServedLine (st_earliest_block status)] @
     (if st_best_block_hash status = chain_genesis_hash chain then [AtGenesisLine] else [])"

text \<open>How the run ends, what it prints, and what it writes to the connection.\<close>

definition dial_run :: "rlp_lib \<Rightarrow> frame_ciphers \<Rightarrow> uint_reader \<Rightarrow> key_lib \<Rightarrow> activation_heights \<Rightarrow> dial_world \<Rightarrow> string \<Rightarrow> rsk_chain \<Rightarrow>
    (dial_error + unit) \<times> dial_line list \<times> bytes" where
  "dial_run R F U K acts w host chain =
     (case resolve_host (dw_dns w) host chain of
        Inl e \<Rightarrow> (Inl e, [], [])
      | Inr addr \<Rightarrow>
          (case discover_node_id R U K (dw_secret w) addr (dw_udp w) of
             (Inl e, _) \<Rightarrow> (Inl e, [TargetLine addr chain], [])
           | (Inr peer_id, _) \<Rightarrow>
               let lines = [TargetLine addr chain, NodeIdLine (hex_text (take 8 (to_be 64 peer_id)))]
               in (case dw_tcp w of
                     None \<Rightarrow> (Inl NotConnected, lines, [])
                   | Some (stream, reads) \<Rightarrow>
                       let (r, sent) = handshake_run R F U K acts (dial_config K chain (dw_secret w)) (Some peer_id)
                             (dw_random w) stream reads
                       in if dw_slow w then (Inl HandshakeTimedOut, lines, sent)
                          else (case r of
                                  Inl e \<Rightarrow> (Inl (DialHandshake e), lines, sent)
                                | Inr (peer, status, caps, c, buf, reads) \<Rightarrow>
                                    let lines = lines @ peer_lines chain peer status caps
                                    in (case send_all R F c [Ping] of
                                          (Inl e, _) \<Rightarrow> (Inl (SessionSend e), lines, sent)
                                        | (Inr ping, c) \<Rightarrow>
                                            let (q, ls, out) = session_rounds R F U acts (dw_late w) 4 (c, buf, reads)
                                            in (q, lines @ ls @ (if q = Inr () then [DoneLine] else []), sent @ ping @ out))))))"

text \<open>The exit code and the lines printed.\<close>

definition connect_main :: "rlp_lib \<Rightarrow> frame_ciphers \<Rightarrow> uint_reader \<Rightarrow> key_lib \<Rightarrow> activation_heights \<Rightarrow> dial_world \<Rightarrow> string list \<Rightarrow>
    nat \<times> dial_line list" where
  "connect_main R F U K acts w args =
     (let (host, chain) = parse_args (drop 1 args) ([], RskMainnet)
      in if host = [] then (2, [])
         else let (r, lines, _) = dial_run R F U K acts w host chain
              in (case r of Inl _ \<Rightarrow> 1 | Inr _ \<Rightarrow> 0, lines))"

section \<open>Resolving\<close>

lemma find_next_find: "find_next p xs = (r, rest) \<Longrightarrow> r = List.find p xs \<and> (r = None \<longrightarrow> rest = [])"
  by (induction xs) (auto split: if_splits)

text \<open>The search for an IPv4 address uses up the iterator, so the fallback never finds one: the host resolves to
  its first IPv4 address or to none.\<close>

lemma only_v4_resolves:
  "resolve_host dns host chain =
     bindE (case rsplit_once CHR '':'' host of
              Some (h, p) \<Rightarrow> bindE (of_option BadPort (parse_u16 p)) (\<lambda>port. Inr (h, port))
            | None \<Rightarrow> Inr (host, rpc_port_default chain)) (\<lambda>(h, port).
     bindE (of_option LookupFailed (dns h port)) (\<lambda>addrs. of_option NoAddress (List.find is_v4 addrs)))"
proof -
  have "(let (v4, rest) = find_next is_v4 addrs in of_option NoAddress (case v4 of Some a \<Rightarrow> Some a | None \<Rightarrow> fst (find_next (\<lambda>_. True) rest))) =
      of_option NoAddress (List.find is_v4 addrs)" for addrs
    using find_next_find [of is_v4 addrs] by (cases "find_next is_v4 addrs") (auto split: option.splits)
  then show ?thesis by (simp add: resolve_host_def)
qed

section \<open>Discovery\<close>

text \<open>What ends an attempt, and a pong of the node.\<close>

fun interrupts :: "socket_addr \<Rightarrow> udp_event \<Rightarrow> bool" where
  "interrupts addr (Datagram _ from_addr) \<longleftrightarrow> from_addr \<noteq> addr"
| "interrupts addr _ \<longleftrightarrow> True"

fun is_pong :: "rlp_lib \<Rightarrow> uint_reader \<Rightarrow> socket_addr \<Rightarrow> udp_event \<Rightarrow> bool" where
  "is_pong R U addr (Datagram bs from_addr) \<longleftrightarrow> from_addr = addr \<and>
     (case decode_packet R U (take 4096 bs) of Inr p \<Rightarrow> discovery_type (dp_payload p) = D_Pong | Inl _ \<Rightarrow> False)"
| "is_pong R U addr _ \<longleftrightarrow> False"

lemma packet_created: "keys_ok K \<Longrightarrow> kl_secret_ok K key \<Longrightarrow> \<exists>p. create_packet R K payload key = Some p"
  using keys_laws(5) by (fastforce simp: create_packet_def Let_def split: option.splits)

lemma chatter_skipped:
  assumes "keys_ok K" and "kl_secret_ok K key" and "\<not> interrupts addr e" and "\<not> is_pong R U addr e"
  shows "\<exists>sent. drain_socket R U K key addr ping (e # events) =
    (let (r, sent', left) = drain_socket R U K key addr ping events in (r, sent @ sent', left))"
proof (cases e)
  case (Datagram bs from_addr)
  obtain reply where r: "create_packet R K (DPong (courtesy_pong ping)) key = Some reply" using packet_created [OF assms(1,2)] by blast
  show ?thesis using assms(3,4) Datagram r
    by (cases "decode_packet R U (take 4096 bs)"; cases "drain_socket R U K key addr ping events")
      (auto split: discovery_payload.splits intro: exI [of _ "[]"] exI [of _ "[encode_packet R reply]"])
qed (use assms(3) in simp_all)

lemma chatter_drained:
  assumes "keys_ok K" and "kl_secret_ok K key"
  shows "\<forall>e \<in> set noise. \<not> interrupts addr e \<and> \<not> is_pong R U addr e \<Longrightarrow>
    \<exists>sent. drain_socket R U K key addr ping (noise @ events) =
      (let (r, sent', left) = drain_socket R U K key addr ping events in (r, sent @ sent', left))"
proof (induction noise)
  case (Cons e noise)
  then show ?case using chatter_skipped [OF assms, of addr e R U ping "noise @ events"]
    by (cases "drain_socket R U K key addr ping events") auto
qed (auto split: prod.splits intro: exI [of _ "[]"])

text \<open>The attempts find the identity in the first pong of the node, if fewer events interrupt them before it than
  there are attempts; otherwise they give up.\<close>

lemma attempts_find:
  assumes key: "keys_ok K" "kl_secret_ok K key" and pong: "is_pong R U addr e"
    and found: "\<And>ping. drain_socket R U K key addr ping (e # later) = (Some (Inr peer), [], later)"
  shows "\<forall>e \<in> set noise. \<not> is_pong R U addr e \<Longrightarrow> \<forall>(_, can_send) \<in> set attempts. can_send \<Longrightarrow>
    fst (discovery_attempts R U K key addr port attempts (noise @ e # later)) =
      (if length (filter (interrupts addr) noise) < length attempts then Inr peer else Inl NoNodeId)"
proof (induction attempts arbitrary: noise)
  case step: (Cons a attempts)
  obtain message_id where a: "a = (message_id, True)" using step.prems(2) by (cases a) auto
  let ?ping = "discovery_ping port addr message_id" and ?quiet = "takeWhile (Not \<circ> interrupts addr) noise"
  obtain packet where packet: "create_packet R K (DPing ?ping) key = Some packet" using packet_created [OF key] by blast
  have quiet: "\<forall>e \<in> set ?quiet. \<not> interrupts addr e \<and> \<not> is_pong R U addr e"
    using step.prems(1) by (auto dest: set_takeWhileD)
  then have none: "filter (interrupts addr) ?quiet = []" by (simp add: filter_empty_conv)
  show ?case
  proof (cases "dropWhile (Not \<circ> interrupts addr) noise")
    case Nil
    then have n: "?quiet = noise" using takeWhile_dropWhile_id [of "Not \<circ> interrupts addr" noise] by simp
    obtain sent where "drain_socket R U K key addr ?ping (noise @ e # later) = (Some (Inr peer), sent, later)"
      using chatter_drained [OF key quiet, of ?ping "e # later"] by (auto simp: found n)
    moreover have "filter (interrupts addr) noise = []" using none n by simp
    ultimately show ?thesis using packet by (simp add: a)
  next
    case (Cons x rest)
    then have x: "interrupts addr x" by (auto dest!: dropWhile_eq_Cons_conv [THEN iffD1])
    have n: "noise = ?quiet @ x # rest" using takeWhile_dropWhile_id [of "Not \<circ> interrupts addr" noise] Cons by simp
    have "drain_socket R U K key addr ?ping (x # rest @ e # later) = (None, [], rest @ e # later)"
      using x by (cases x) simp_all
    then obtain sent where d: "drain_socket R U K key addr ?ping (noise @ e # later) = (None, sent, rest @ e # later)"
      using chatter_drained [OF key quiet, of ?ping "x # rest @ e # later"] n by auto (metis append_Cons append_assoc)
    have c: "length (filter (interrupts addr) noise) = Suc (length (filter (interrupts addr) rest))"
      using x none by (subst n) simp
    have "\<forall>e \<in> set rest. \<not> is_pong R U addr e" using step.prems(1) n by (metis Un_iff list.set_intros(2) set_append)
    from step.IH [OF this] step.prems(2) show ?thesis using d packet c
      by (auto simp: a split: prod.splits)
  qed
qed simp

section \<open>The session on a good connection\<close>

lemma framed_next_end: "synced s r \<Longrightarrow> buf @ concat reads = [] \<Longrightarrow> \<exists>rest. framed_next R F U acts r buf reads = (Inr None, rest)"
proof (induction reads arbitrary: buf)
  case Nil
  then have "rlpx_decode R F U acts r [] = (Inr None, r, [])" by (simp add: synced_def rlpx_decode_def decode_frame_def)
  then show ?case using Nil by simp
next
  case (Cons x xs)
  then have "rlpx_decode R F U acts r [] = (Inr None, r, [])" by (simp add: synced_def rlpx_decode_def decode_frame_def)
  then show ?case using Cons by simp
qed

lemma send_all_sends: "\<exists>bs c'. send_all R F c ms = (Inr bs, c') \<and> synced s c' = synced s c"
proof (induction ms arbitrary: c)
  case (Cons m ms)
  obtain b c1 where e: "encode_frame R F c (fst (packet_of R m)) (snd (packet_of R m)) = (b, c1)" by fastforce
  obtain bs c2 where "send_all R F c1 ms = (Inr bs, c2)" "synced s c2 = synced s c1" using Cons by blast
  then show ?case using encode_in [OF e, of s] by (simp add: rlpx_encode_packet e)
qed simp

text \<open>What the node says is printed in order, up to the bound on the rounds.\<close>

lemma session_prints:
  assumes ok: "frame_ok R U" and timers: "\<forall>i. \<not> late i"
  shows "synced s c \<Longrightarrow> \<forall>m \<in> set ms. message_sendable R m \<Longrightarrow> buf @ concat reads = fst (encode_messages R F s ms) \<Longrightarrow>
    \<exists>out. session_rounds R F U acts late n (c, buf, reads) = (Inr (), concat (map (message_lines \<circ> read_p2p R acts) (take n ms)), out)"
proof (induction n arbitrary: s c ms buf reads)
  case (Suc n)
  show ?case
  proof (cases ms)
    case Nil
    then show ?thesis using framed_next_end [OF Suc.prems(1), of buf reads R F U acts] Suc.prems(3) timers by auto
  next
    case (Cons m rest)
    obtain fr s1 where e: "encode_frame R F s (fst (packet_of R m)) (snd (packet_of R m)) = (fr, s1)" by fastforce
    have bs: "buf @ concat reads = fr @ fst (encode_messages R F s1 rest)"
      using Suc.prems(3) e by (auto simp: Cons split: prod.splits)
    have m: "message_sendable R m" using Suc.prems(2) Cons by simp
    obtain c1 buf1 reads1 where nx: "framed_next R F U acts c buf reads = (Inr (Some (read_p2p R acts m)), c1, buf1, reads1)"
      and sync: "synced s1 c1" and b1: "buf1 @ concat reads1 = fst (encode_messages R F s1 rest)"
      using framed_next_reads [OF ok Suc.prems(1) m e bs, where acts = acts] by blast
    obtain reply c2 where r: "send_all R F c1 (if read_p2p R acts m = Ping then [Pong] else []) = (Inr reply, c2)" "synced s1 c2"
      using send_all_sends [of R F c1 _ s1] sync by blast
    have "\<forall>m \<in> set rest. message_sendable R m" using Suc.prems(2) Cons by simp
    from Suc.IH [OF r(2) this b1] show ?thesis using nx r(1) timers by (auto simp: Cons)
  qed
qed simp

section \<open>Dialing a node\<close>

definition dialed_lines :: "rlp_lib \<Rightarrow> key_lib \<Rightarrow> activation_heights \<Rightarrow> rsk_chain \<Rightarrow> socket_addr \<Rightarrow> 512 word \<Rightarrow> node_config \<Rightarrow> p2p_message list \<Rightarrow>
    dial_line list" where
  "dialed_lines R K acts chain addr peer c2 ms =
     [TargetLine addr chain, NodeIdLine (hex_text (take 8 (to_be 64 peer)))] @
     peer_lines chain peer (read_status (own_rsk_status c2)) (negotiate (capabilities c2)) @
     concat (map (message_lines \<circ> read_p2p R acts) (take 4 ms)) @ [DoneLine]"


text \<open>A boot node of the test network: an IPv6 and an IPv4 address, then a datagram that is not a packet, a silent
  attempt, a stray datagram and the pong; a connection cut into three reads.\<close>

definition demo_addr :: socket_addr where
  "demo_addr = SockV4 7 5050"

definition demo_pong :: discovery_payload where
  "demo_pong = DPong \<lparr> om_from = addr_to_endpoint demo_addr, om_to = addr_to_endpoint demo_addr, om_message_id = [0x61], om_network_id = 8100 \<rparr>"

definition demo_world :: "bytes \<Rightarrow> dial_world" where
  "demo_world pong = \<lparr> dw_dns = (\<lambda>_ port. Some [SockV6 1 port 0 0, SockV4 7 port]), dw_secret = replicate 32 2,
     dw_udp = Some \<lparr> us_port = 40000, us_pings = (\<lambda>_. ([0x61], True)),
       us_events = [Datagram [1, 2] demo_addr, Deadline, Datagram [] (SockV4 9 53), Datagram pong demo_addr] \<rparr>,
     dw_tcp = None, dw_random = demo_random, dw_slow = False, dw_late = (\<lambda>_. False) \<rparr>"

definition demo_args :: "string list" where
  "demo_args = [''connect'', ''--host'', ''boot:5050'', ''--chain'', ''testnet'']"

lemma demo_port: "parse_u16 ''5050'' = Some 5050"
  by (simp add: parse_u16_def to_digit_def)


end
