(* ===== verification/Btc_Room.thy ===== *)
theory Btc_Room
  imports Btc_Finality
begin

text \<open>
  Many batches in a row: what a batch of headers leaves of the room below the end of the 64-bit heights
  and fork numbers, and the order of the finalized height.
\<close>

section \<open>Room\<close>

text \<open>Room for \<open>n\<close> headers in \<open>k\<close> batches.\<close>

definition room_for :: "btc_store \<Rightarrow> nat \<Rightarrow> nat \<Rightarrow> bool" where
  "room_for st n k \<longleftrightarrow> (\<forall>i. meta_u64 st META_NEXT_FORK = Some i \<longrightarrow> unat i + k < 2 ^ 64 - 1) \<and>
     (\<forall>f m. fork_meta_of st f = Some m \<longrightarrow> unat (fm_tip_height m) + n < 2 ^ 64 - 1)"

lemma room_for_roomy: "room_for st n k \<Longrightarrow> j \<le> n \<Longrightarrow> roomy st j"
  unfolding room_for_def roomy_def
proof (intro conjI allI impI; elim conjE)
  fix i assume "\<forall>i. meta_u64 st META_NEXT_FORK = Some i \<longrightarrow> unat i + k < 2 ^ 64 - 1" "meta_u64 st META_NEXT_FORK = Some i"
  then have "unat i < unat (max_val :: u64)" by (auto simp: unat_max_val)
  then show "i < max_val" by (simp add: word_less_nat_alt)
next
  fix f m assume "j \<le> n" "\<forall>f m. fork_meta_of st f = Some m \<longrightarrow> unat (fm_tip_height m) + n < 2 ^ 64 - 1" "fork_meta_of st f = Some m"
  then show "unat (fm_tip_height m) + j < 2 ^ 64 - 1" by fastforce
qed

lemma room_for_mono: "room_for st n k \<Longrightarrow> n' \<le> n \<Longrightarrow> k' \<le> k \<Longrightarrow> room_for st n' k'"
  unfolding room_for_def by fastforce

lemma put_headers_next: "put_headers L t es st = Inr st' \<Longrightarrow> meta_u64 st' META_NEXT_FORK = meta_u64 st META_NEXT_FORK"
  by (cases "last es") (auto simp: put_headers_def Let_def meta_u64_def put_fork_def split: if_splits option.splits)

lemma steps_room:
  assumes inv: "chain_inv L base st" and room: "room_for st (n + length hs) (Suc k)"
    and steps: "connect_steps L net hs st out st' new par pf ph t st1 bw st2 best st3"
  shows "room_for st' n k"
proof -
  have r0: "roomy st (length hs)" by (rule room_for_roomy [OF room]) simp
  obtain r where app: "run_appended L st pf ph r t new st2" using steps_append [OF inv r0 steps] by blast
  have le: "length new \<le> length hs" using steps by (simp add: connect_steps_def)
  have meta: "meta_u64 st' META_NEXT_FORK = meta_u64 st2 META_NEXT_FORK" "\<And>f. fork_meta_of st' f = fork_meta_of st2 f"
  proof -
    have "reselect t st2 = Inr (best, st3)" "finalize_in_txn st3 = Inr (co_finalized out, st')"
      using steps unfolding connect_steps_def by blast+
    then show "meta_u64 st' META_NEXT_FORK = meta_u64 st2 META_NEXT_FORK" "\<And>f. fork_meta_of st' f = fork_meta_of st2 f"
      by (auto elim!: reselect_cases finalize_cases simp: set_best_fork_def set_finalized_def)
  qed
  have next2: "unat i + k < 2 ^ 64 - 1" if "meta_u64 st2 META_NEXT_FORK = Some i" for i
  proof -
    have c: "choose_target L st pf ph (hd new) = Inr (t, ph + 1, st1)" "put_headers L t (run_entries L (ph + 1) bw new) st1 = Inr st2"
      using steps unfolding connect_steps_def by blast+
    have i: "meta_u64 st1 META_NEXT_FORK = Some i" using that put_headers_next [OF c(2)] by simp
    from choose_target_cases(2) [OF c(1)] show ?thesis
    proof (elim disjE conjE)
      assume "st1 = st"
      then show ?thesis using i room by (fastforce simp: room_for_def)
    next
      assume cf: "(t, st1) = create_fork pf (ph + 1) (bl_block_hash L (hd new)) st"
      obtain j where j: "meta_u64 st META_NEXT_FORK = Some j"
        using inv by (auto simp: chain_inv_def forest_ok_def)
      have "i = j + 1" using cf i j by (simp add: create_fork_def Let_def meta_u64_def put_meta_def put_fork_def)
      moreover have "unat j + Suc k < 2 ^ 64 - 1" using room j by (simp add: room_for_def)
      moreover from this have "unat (j + 1) = unat j + 1" by (subst unat_add_exact) simp_all
      ultimately show ?thesis by simp
    qed
  qed
  have tips: "unat (fm_tip_height m) + n < 2 ^ 64 - 1" if m: "fork_meta_of st2 f = Some m" for f m
  proof (cases "f = t")
    case False
    then have "fork_meta_of st f = Some m" using app m by (simp add: run_appended_def)
    then show ?thesis using room by (fastforce simp: room_for_def)
  next
    case True
    obtain pm where pm: "fork_meta_of st pf = Some pm" "ph \<le> fm_tip_height pm" using app by (auto simp: run_appended_def)
    have "unat (fm_tip_height pm) + (n + length hs) < 2 ^ 64 - 1" using room pm(1) by (simp add: room_for_def)
    then have b: "unat ph + (n + length hs) < 2 ^ 64 - 1" using pm(2) by (simp add: word_le_nat_alt)
    have ne: "new \<noteq> []" using app by (simp add: run_appended_def)
    have "fm_tip_height m = ph + 1 + of_nat (length new - 1)" using app m True by (auto simp: run_appended_def)
    also have "\<dots> = ph + of_nat (length new)" using ne by (cases new) simp_all
    also have "unat \<dots> = unat ph + length new"
      using b le by (subst unat_add_exact) (simp_all add: unat_of_nat_u64)
    finally show ?thesis using b le by simp
  qed
  show ?thesis using next2 tips by (auto simp: room_for_def meta)
qed

definition finalized_le :: "btc_store \<Rightarrow> btc_store \<Rightarrow> bool" where
  "finalized_le st st' \<longleftrightarrow> (\<forall>old. finalized_height st = Some old \<longrightarrow> (\<exists>new. finalized_height st' = Some new \<and> old \<le> new))"

lemma finalized_le_refl: "finalized_le st st"
  by (simp add: finalized_le_def)

lemma finalized_le_trans: "finalized_le a b \<Longrightarrow> finalized_le b c \<Longrightarrow> finalized_le a c"
  by (meson finalized_le_def order.trans)

text \<open>No stored row is lost or changed.\<close>

definition rows_le :: "btc_store \<Rightarrow> btc_store \<Rightarrow> bool" where
  "rows_le st st' \<longleftrightarrow> bs_headers st \<subseteq>\<^sub>m bs_headers st'"

lemma rows_le_refl: "rows_le st st"
  by (simp add: rows_le_def)

lemma rows_le_trans: "rows_le a b \<Longrightarrow> rows_le b c \<Longrightarrow> rows_le a c"
  unfolding rows_le_def by (rule map_le_trans)

lemma appended_rows_le:
  assumes app: "run_appended L st pf ph r t new st2" and inv: "chain_inv L base st"
  shows "rows_le st st2"
  unfolding rows_le_def map_le_def
proof (intro ballI)
  fix a assume "a \<in> dom (bs_headers st)"
  then obtain g k x where a: "a = (g, k)" and x: "bs_headers st (g, k) = Some x" by (cases a) auto
  then obtain m where m: "fork_meta_of st g = Some m" "k \<le> fm_tip_height m"
    using inv unfolding chain_inv_def rows_ok_def by blast
  have "\<not> (g = t \<and> ph + 1 \<le> k)"
  proof
    assume t: "g = t \<and> ph + 1 \<le> k"
    have "fm_tip_height m = ph" using app m(1) t unfolding run_appended_def by auto
    moreover have "unat ph + 1 < 2 ^ 64" using app unfolding run_appended_def by (auto simp: Suc_le_eq neq_Nil_conv)
    then have "unat (ph + 1) = unat ph + 1" by (subst unat_add_exact) simp_all
    ultimately show False using t m(2) by (simp add: word_le_nat_alt)
  qed
  then show "bs_headers st a = bs_headers st2 a" unfolding a appended_rows [OF app] by auto
qed

lemma steps_rows_le:
  assumes inv: "chain_inv L base st" and room: "roomy st (length hs)"
    and steps: "connect_steps L net hs st out st' new par pf ph t st1 bw st2 best st3"
  shows "rows_le st st'"
proof -
  obtain r where "run_appended L st pf ph r t new st2" using steps_append [OF inv room steps] by blast
  then have "rows_le st st2" using inv by (rule appended_rows_le)
  moreover have "reselect t st2 = Inr (best, st3)" "finalize_in_txn st3 = Inr (co_finalized out, st')"
    using steps unfolding connect_steps_def by blast+
  then have "bs_headers st' = bs_headers st2"
    by (auto elim!: reselect_cases finalize_cases simp: set_best_fork_def set_finalized_def)
  ultimately show ?thesis by (simp add: rows_le_def)
qed


lemma connect_room:
  assumes inv: "chain_inv L base st" and room: "room_for st (n + length hs) (Suc k)"
    and conn: "connect_headers L net hs st = (r, st')"
  shows "chain_inv L base st' \<and> room_for st' n k \<and> finalized_le st st' \<and> rows_le st st'"
proof -
  have r0: "roomy st (length hs)" by (rule room_for_roomy [OF room]) simp
  have i: "chain_inv L base st'" using connect_inv [OF inv r0, of net] conn by simp
  show ?thesis
  proof (cases r)
    case (Inl e)
    then have "st' = st" using conn by (auto simp: connect_headers_def split: sum.splits)
    then show ?thesis using inv room_for_mono [OF room] by (simp add: finalized_le_refl rows_le_refl)
  next
    case (Inr out)
    have "finalized_le st st'"
      using finality_step [OF inv r0 conn [unfolded Inr]] unfolding finalized_le_def
      by (cases "co_finalized out") (auto intro: less_imp_le)
    moreover have "room_for st' n k \<and> rows_le st st'"
      using conn [unfolded Inr connect_headers_Inr]
    proof (cases rule: connect_txn_cases)
      case unchanged
      then show ?thesis using room_for_mono [OF room] by (simp add: rows_le_refl)
    next
      case stored
      show ?thesis using steps_room [OF inv room stored] steps_rows_le [OF inv r0 stored] by blast
    qed
    ultimately show ?thesis using i by blast
  qed
qed

section \<open>Finalizing on its own\<close>

lemma finalize_period_keeps:
  assumes "chain_inv L base st" and "room_for st n k" and "finalize_period st = (r, st')"
  shows "chain_inv L base st' \<and> room_for st' n k \<and> finalized_le st st' \<and> rows_le st st'"
proof (cases "finalize_in_txn st")
  case (Inr x)
  obtain fin st1 where x: "finalize_in_txn st = Inr (fin, st1)" using Inr by (cases x) simp
  have st': "st' = (if fin = None then st else st1)"
    using assms(3) x by (auto simp: finalize_period_def split: option.splits)
  from x show ?thesis
  proof (cases rule: finalize_cases)
    case none
    then show ?thesis using assms(1,2) st' by (simp add: finalized_le_refl rows_le_refl)
  next
    case (advanced b tip th wb wp wt)
    then show ?thesis using assms(1,2) st' chain_inv_set_finalized
      by (auto simp: finalized_le_def rows_le_def room_for_def set_finalized_def finalized_height_def)
  qed
qed (use assms in \<open>simp add: finalize_period_def finalized_le_refl rows_le_refl\<close>)

text \<open>Finalizing twice in a row is finalizing once.\<close>

lemma finalize_period_again:
  assumes "finalize_period st = (Inr fin, st')"
  shows "finalize_period st' = (Inr None, st')"
proof -
  obtain x st1 where x: "finalize_in_txn st = Inr (x, st1)" and f: "fin = x" "st' = (if x = None then st else st1)"
    using assms by (auto simp: finalize_period_def split: sum.splits option.splits)
  from x show ?thesis
  proof (cases rule: finalize_cases)
    case none
    then show ?thesis using x f by (simp add: finalize_period_def)
  next
    case (advanced b tip th wb wp wt)
    have "finalized_height st' = Some b"
      using advanced f by (simp add: set_finalized_def finalized_height_def)
    moreover have "best_fork st' = best_fork st" "fork_tip st' 0 = fork_tip st 0"
      using advanced f by (simp_all add: set_finalized_def best_fork_def fork_tip_def)
    ultimately have "finalize_in_txn st' = Inr (None, st')"
      using advanced by (simp add: finalize_in_txn_def FINALITY_MARGIN_BLOCKS_def Let_def)
    then show ?thesis by (simp add: finalize_period_def)
  qed
qed

lemma is_canonical_iff:
  "is_canonical L st height hash = Inr True \<longleftrightarrow> (\<exists>h. header_at_best st height = Inr (Some h) \<and> bl_block_hash L h = hash)"
  by (auto simp: is_canonical_def header_at_best_def result_simps split: option.splits)

end
