(* ===== verification/Core_System.thy ===== *)
theory Core_System
  imports Rsk_Trust Btc_Room
begin

text \<open>
  The core as one system: every state that its operations reach from an empty database, in any order and
  with any arguments, is well formed, and no operation takes back what an earlier one established.
\<close>

section \<open>Operations as steps\<close>

text \<open>A state with the room it has left: the headers and batches that may still be connected before a
  height or a fork number reaches the end of its 64 bits. The network and the libraries stay the same
  for a database; every operation reads the clock anew.\<close>

type_synonym roomy_core = "nat \<times> nat \<times> core_state"

abbreviation at_clock :: "u64 option \<Rightarrow> core_env \<Rightarrow> core_env" where
  "at_clock now env \<equiv> env\<lparr> ce_now := now \<rparr>"

inductive core_step :: "core_env \<Rightarrow> roomy_core \<Rightarrow> roomy_core \<Rightarrow> bool" for env where
  seed: "core_seed (at_clock now env) es cs = (r, cs') \<Longrightarrow> \<forall>(h, _) \<in> set es. unat h + n < 2 ^ 64 - 1 \<Longrightarrow>
     Suc k < 2 ^ 64 - 1 \<Longrightarrow> core_step env (n, k, cs) (n, k, cs')"
| connect: "core_connect (at_clock now env) hs cs = (r, cs') \<Longrightarrow> core_step env (n + length hs, Suc k, cs) (n, k, cs')"
| connect_one: "core_connect_header (at_clock now env) h cs = (r, cs') \<Longrightarrow> core_step env (Suc n, Suc k, cs) (n, k, cs')"
| finalize: "core_finalize cs = (r, cs') \<Longrightarrow> core_step env (n, k, cs) (n, k, cs')"
| propose: "propose_checkpoint (at_clock now env) e cs = (r, cs') \<Longrightarrow> core_step env (n, k, cs) (n, k, cs')"
| connect_rsk: "connect_rsk_headers (at_clock now env) es cs = (r, cs') \<Longrightarrow> core_step env (n, k, cs) (n, k, cs')"

inductive_cases core_stepE: "core_step env (n, k, cs) (n', k', cs')"

definition core_run :: "core_env \<Rightarrow> roomy_core \<Rightarrow> roomy_core \<Rightarrow> bool" where
  "core_run env = (core_step env)\<^sup>*\<^sup>*"

section \<open>The Bitcoin side\<close>

definition btc_ready :: "btc_lib \<Rightarrow> nat \<Rightarrow> nat \<Rightarrow> btc_store \<Rightarrow> bool" where
  "btc_ready L n k st \<longleftrightarrow> st = empty_btc_store \<or> ((\<exists>base. chain_inv L base st) \<and> room_for st n k)"

text \<open>An empty store knows no parent, and a seeded one is not seeded again.\<close>

lemma connect_empty:
  assumes "connect_headers L net hs empty_btc_store = (r, st')"
  shows "st' = empty_btc_store"
proof -
  have l: "locate empty_btc_store b = None" for b by (simp add: locate_def empty_btc_store_def)
  have "stored_network L empty_btc_store = None" by (simp add: stored_network_def empty_btc_store_def)
  moreover have "known_prefix L empty_btc_store hs = 0" by (cases hs) (simp_all add: known_prefix_def l)
  ultimately show ?thesis
    using assms by (auto simp: connect_headers_def connect_txn_def l of_option_def split: if_splits)
qed

lemma seed_again:
  assumes "chain_inv L base st" and "seed_checkpoints L net es st = (r, st')"
  shows "st' = st"
proof -
  have "fork_meta_of st 0 \<noteq> None" using assms(1) by (auto simp: chain_inv_def)
  then show ?thesis using assms(2) by (auto simp: seed_checkpoints_def seed_checkpoints_txn_def ensure_def split: sum.splits)
qed

lemma seed_ready:
  assumes seed: "seed_checkpoints L net es empty_btc_store = (r, st')"
    and small: "\<forall>(h, _) \<in> set es. unat h + n < 2 ^ 64 - 1" and k: "Suc k < 2 ^ 64 - 1"
  shows "btc_ready L n k st'"
proof (cases r)
  case (Inl e)
  then show ?thesis using seed by (auto simp: btc_ready_def seed_checkpoints_def split: sum.splits)
next
  case (Inr u)
  then obtain st1 where st1: "seed_checkpoints_txn L es empty_btc_store = Inr st1" and st': "st' = set_network L net st1"
    using seed by (auto simp: seed_checkpoints_def split: sum.splits)
  note S = seeded_store [OF st1]
  have inv: "chain_inv L (fst (last (spine_entries es))) st'"
    unfolding st' set_network_def by (rule chain_inv_put_meta [OF seeded_inv [OF st1]]) simp_all
  have "last (spine_entries es) \<in> set es"
    using S(1) last_in_set [of "spine_entries es"] by (simp add: spine_entries_def)
  then have tip: "unat (fst (last (spine_entries es))) + n < 2 ^ 64 - 1" using small by (auto simp: split_beta)
  have "unat (fm_tip_height m) + n < 2 ^ 64 - 1" if "fork_meta_of st1 f = Some m" for f m
    using that S(7,8) tip by (cases "f = 0") auto
  moreover have "fork_meta_of st' f = fork_meta_of st1 f" for f
    by (simp add: st' set_network_def fork_meta_of_def put_meta_def)
  moreover have "meta_u64 st' META_NEXT_FORK = Some 1" using S(9) by (simp add: st' set_network_def)
  ultimately have "room_for st' n k" using k by (simp add: room_for_def)
  then show ?thesis using inv by (auto simp: btc_ready_def)
qed

section \<open>The Rootstock side\<close>

definition rsk_grows :: "rsk_store \<Rightarrow> rsk_store \<Rightarrow> bool" where
  "rsk_grows st st' \<longleftrightarrow> dom (rs_blocks st) \<subseteq> dom (rs_blocks st') \<and> set (rs_roots st) \<subseteq> set (rs_roots st') \<and>
     (\<forall>p. set (rsk_children st p) \<subseteq> set (rsk_children st' p))"

text \<open>The rows of a stored block are those of one entry with that hash: its raw header, its index row
  (number, parent, work) and its uncle list. Storing an entry of a hash already stored replaces all
  three.\<close>

definition entry_rows :: "core_env \<Rightarrow> rsk_store \<Rightarrow> b256 \<Rightarrow> rsk_entry \<Rightarrow> bool" where
  "entry_rows env st h e \<longleftrightarrow> entry_hash env e = h \<and> rs_headers st h = Some (re_raw e) \<and>
     rs_blocks st h = Some (entry_block e) \<and> rs_uncles st h = Some (map ru_raw (re_uncles e))"

definition rows_from_entries :: "core_env \<Rightarrow> rsk_store \<Rightarrow> bool" where
  "rows_from_entries env st \<longleftrightarrow> (\<forall>h \<in> dom (rs_blocks st). \<exists>e. entry_rows env st h e)"

lemma rows_from_entries_empty: "rows_from_entries env empty_rsk_store"
  by (simp add: rows_from_entries_def empty_rsk_store_def)

lemma put_entry_rows:
  "entry_rows env (snd (put_entry env e st)) (entry_hash env e) e"
  "h \<noteq> entry_hash env e \<Longrightarrow> entry_rows env (snd (put_entry env e st)) h e' = entry_rows env st h e'"
  by (simp_all add: entry_rows_def put_entry_tables)

lemma rows_put_entry: "rows_from_entries env st \<Longrightarrow> rows_from_entries env (snd (put_entry env e st))"
  unfolding rows_from_entries_def
proof (rule ballI)
  fix h
  assume old: "\<forall>h \<in> dom (rs_blocks st). \<exists>e. entry_rows env st h e"
    and h: "h \<in> dom (rs_blocks (snd (put_entry env e st)))"
  show "\<exists>e'. entry_rows env (snd (put_entry env e st)) h e'"
  proof (cases "h = entry_hash env e")
    case False
    then have "h \<in> dom (rs_blocks st)" using h by (simp add: put_entry_tables(2))
    then show ?thesis using old put_entry_rows(2) [OF False] by blast
  qed (use put_entry_rows(1) in blast)
qed

lemma rows_put_root: "rows_from_entries env (rsk_put_root h st) = rows_from_entries env st"
  by (simp add: rows_from_entries_def entry_rows_def rsk_put_root_def)

lemma rows_connect_entries:
  assumes "connect_entries env st es = Inr st'" and "rows_from_entries env st"
  shows "rows_from_entries env st'"
  using assms(1) [unfolded connect_entries_def] assms(2)
  by (rule foldE_invariant) (auto simp: result_simps rows_put_entry)

text \<open>The clock changes neither a hash nor a row.\<close>

lemma at_clock_simps [simp]:
  "entry_rows (at_clock now env) = entry_rows env"
  "rows_from_entries (at_clock now env) = rows_from_entries env"
  by (intro ext, simp add: entry_rows_def rows_from_entries_def)+

lemma rsk_grows_refl [simp]: "rsk_grows st st"
  by (simp add: rsk_grows_def)

lemma rsk_grows_trans: "rsk_grows a b \<Longrightarrow> rsk_grows b c \<Longrightarrow> rsk_grows a c"
  unfolding rsk_grows_def by blast

lemma put_entry_grows: "rsk_grows st (snd (put_entry env e st))"
  by (auto simp: rsk_grows_def put_entry_tables)

lemma put_root_grows: "rsk_grows st (rsk_put_root h st)"
  by (auto simp: rsk_grows_def rsk_put_root_def rsk_children_def set_insort_key cong: option.case_cong)

lemma connect_entries_grows:
  assumes "connect_entries env st es = Inr st'"
  shows "rsk_grows st st'"
  using assms [unfolded connect_entries_def] rsk_grows_refl
  by (rule foldE_invariant) (auto simp: result_simps intro: rsk_grows_trans put_entry_grows)

text \<open>A larger tree has larger subtrees.\<close>

lemma subtree_mono:
  assumes "rsk_grows st st'"
  shows "subtree st root \<subseteq> subtree st' root"
proof -
  have "set (rsk_children st h) \<subseteq> subtree st' root" if "h \<in> subtree st' root" for h
    using assms subtree_closed [OF that] unfolding rsk_grows_def by blast
  then show ?thesis by (intro subtree_least) (auto simp: root_in_subtree)
qed

lemma propose_keeps:
  assumes "propose_checkpoint env e cs = (r, cs')" and "rsk_inv (cs_rsk cs)"
    and "rows_from_entries env (cs_rsk cs)"
  shows "cs_btc cs' = cs_btc cs \<and> rsk_inv (cs_rsk cs') \<and> rsk_grows (cs_rsk cs) (cs_rsk cs') \<and>
    rows_from_entries env (cs_rsk cs')"
proof (cases r)
  case (Inl err)
  then have "cs' = cs" using assms(1) by (auto simp: propose_checkpoint_def Let_def split: option.splits sum.splits if_splits prod.splits)
  then show ?thesis using assms(2,3) by simp
next
  case (Inr h)
  obtain h st where p: "put_entry env e (cs_rsk cs) = (h, st)" by fastforce
  then have cs': "cs' = cs\<lparr> cs_rsk := rsk_put_root h st \<rparr>"
    using assms(1) Inr by (auto simp: propose_checkpoint_def Let_def split: option.splits sum.splits if_splits prod.splits)
  have st: "st = snd (put_entry env e (cs_rsk cs))" "h = entry_hash env e" using p put_entry_fst [of env e "cs_rsk cs"] by simp_all
  have "rsk_inv (rsk_put_root h st)"
    by (rule rsk_inv_put_root) (simp_all add: st rsk_inv_put_entry [OF assms(2)] put_entry_tables)
  then show ?thesis using rsk_grows_trans [OF put_entry_grows [of "cs_rsk cs" env e] put_root_grows] rows_put_entry [OF assms(3), where e = e]
    by (simp add: cs' st rows_put_root)
qed

text \<open>A proposal whose hash is stored already replaces that block's header, work and uncles by its
  own, unvalidated ones.\<close>

lemma proposal_replaces_rows:
  assumes "propose_checkpoint env e cs = (Inr h, cs')"
  shows "entry_rows env (cs_rsk cs') h e"
proof -
  obtain h1 st where p: "put_entry env e (cs_rsk cs) = (h1, st)" by fastforce
  then have "cs' = cs\<lparr> cs_rsk := rsk_put_root h1 st \<rparr>" "h = h1"
    using assms by (auto simp: propose_checkpoint_def Let_def split: option.splits sum.splits if_splits prod.splits)
  moreover have "st = snd (put_entry env e (cs_rsk cs))" "h1 = entry_hash env e"
    using p put_entry_fst [of env e "cs_rsk cs"] by simp_all
  ultimately show ?thesis using put_entry_rows(1) [of env e "cs_rsk cs"]
    by (simp add: entry_rows_def rsk_put_root_def)
qed

lemma connect_rsk_keeps:
  assumes "connect_rsk_headers env es cs = (r, cs')" and "rsk_inv (cs_rsk cs)"
    and "rows_from_entries env (cs_rsk cs)"
  shows "cs_btc cs' = cs_btc cs \<and> rsk_inv (cs_rsk cs') \<and> rsk_grows (cs_rsk cs) (cs_rsk cs') \<and>
    rows_from_entries env (cs_rsk cs')"
proof (cases r)
  case (Inl err)
  then have "cs' = cs" using assms(1) by (auto simp: connect_rsk_headers_def split: sum.splits)
  then show ?thesis using assms(2,3) by simp
next
  case (Inr out)
  then obtain st where "connect_entries env (cs_rsk cs) es = Inr st" "cs' = cs\<lparr> cs_rsk := st \<rparr>"
    using assms(1) by (auto simp: connect_rsk_headers_def result_simps split: sum.splits)
  then show ?thesis using connect_entries_inv assms(2,3) connect_entries_grows rows_connect_entries by fastforce
qed

section \<open>The whole\<close>

definition core_inv :: "core_env \<Rightarrow> roomy_core \<Rightarrow> bool" where
  "core_inv env = (\<lambda>(n, k, cs). btc_ready (ce_btc env) n k (cs_btc cs) \<and> rsk_inv (cs_rsk cs) \<and>
     rows_from_entries env (cs_rsk cs))"

definition core_grows :: "roomy_core \<Rightarrow> roomy_core \<Rightarrow> bool" where
  "core_grows = (\<lambda>(_, _, cs) (_, _, cs'). finalized_le (cs_btc cs) (cs_btc cs') \<and> rows_le (cs_btc cs) (cs_btc cs') \<and>
     rsk_grows (cs_rsk cs) (cs_rsk cs'))"

lemma core_open_inv: "core_inv env (n, k, core_open)"
  by (simp add: core_inv_def core_open_def btc_ready_def rsk_inv_empty rows_from_entries_empty)

lemma btc_keeps:
  assumes "btc_ready L (n + length hs) (Suc k) st" and "connect_headers L net hs st = (r, st')"
  shows "btc_ready L n k st' \<and> finalized_le st st' \<and> rows_le st st'"
proof (cases "st = empty_btc_store")
  case True
  then have "st' = st" using connect_empty [of L net hs r st'] assms(2) by simp
  then show ?thesis using True by (simp add: btc_ready_def finalized_le_refl rows_le_refl)
next
  case False
  then show ?thesis using assms connect_room [of L _ st n hs k net r st'] by (auto simp: btc_ready_def)
qed

lemma finalize_keeps:
  assumes "btc_ready L n k st" and "finalize_period st = (r, st')"
  shows "btc_ready L n k st' \<and> finalized_le st st' \<and> rows_le st st'"
proof (cases "st = empty_btc_store")
  case True
  then have "st' = st"
    using assms(2) by (simp add: finalize_period_def finalize_in_txn_def best_fork_def meta_u64_def empty_btc_store_def)
  then show ?thesis using True by (simp add: btc_ready_def finalized_le_refl rows_le_refl)
next
  case False
  then show ?thesis using assms finalize_period_keeps [of L _ st n k r st'] by (auto simp: btc_ready_def)
qed

lemma seed_keeps:
  assumes "btc_ready L n k st" and "seed_checkpoints L net es st = (r, st')"
    and "\<forall>(h, _) \<in> set es. unat h + n < 2 ^ 64 - 1" and "Suc k < 2 ^ 64 - 1"
  shows "btc_ready L n k st' \<and> finalized_le st st' \<and> rows_le st st'"
proof (cases "st = empty_btc_store")
  case True
  have "finalized_le empty_btc_store st' \<and> rows_le empty_btc_store st'"
    by (simp add: finalized_le_def rows_le_def finalized_height_def meta_u64_def empty_btc_store_def)
  then show ?thesis using seed_ready [OF _ assms(3,4)] assms(2) True by simp
next
  case False
  then show ?thesis using assms(1) seed_again [OF _ assms(2)] by (auto simp: btc_ready_def finalized_le_refl rows_le_refl)
qed

lemma core_step_keeps:
  assumes "core_step env s s'" and "core_inv env s"
  shows "core_inv env s' \<and> core_grows s s'"
  using assms
proof (cases rule: core_step.cases)
  case (seed now es cs r cs' n k)
  then show ?thesis using assms(2) seed_keeps
    by (fastforce simp: core_inv_def core_grows_def core_seed_def split: prod.splits)
next
  case (connect now hs cs r cs' n k)
  then show ?thesis using assms(2) btc_keeps
    by (fastforce simp: core_inv_def core_grows_def core_connect_def split: prod.splits)
next
  case (connect_one now h cs r cs' n k)
  then show ?thesis using assms(2) btc_keeps [of "ce_btc env" n "[h]" k "cs_btc cs"]
    by (fastforce simp: core_inv_def core_grows_def core_connect_header_def connect_header_def split: prod.splits)
next
  case (finalize cs r cs' n k)
  then show ?thesis using assms(2) finalize_keeps
    by (fastforce simp: core_inv_def core_grows_def core_finalize_def split: prod.splits)
next
  case (propose now e cs r cs' n k)
  then show ?thesis using assms(2) propose_keeps [of "at_clock now env" e cs r cs'] by (fastforce simp: core_inv_def core_grows_def finalized_le_refl rows_le_refl)
next
  case (connect_rsk now es cs r cs' n k)
  then show ?thesis using assms(2) connect_rsk_keeps [of "at_clock now env" es cs r cs'] by (fastforce simp: core_inv_def core_grows_def finalized_le_refl rows_le_refl)
qed

lemma core_run_keeps:
  assumes "core_run env s s'" and "core_inv env s"
  shows "core_inv env s' \<and> core_grows s s'"
  using assms(1) unfolding core_run_def
proof (induction rule: rtranclp_induct)
  case base
  then show ?case using assms(2) by (cases s) (simp add: core_grows_def finalized_le_refl rows_le_refl)
next
  case (step s1 s2)
  then show ?case using core_step_keeps [OF step.hyps(2)]
    by (cases s; cases s1; cases s2) (auto simp: core_grows_def intro: finalized_le_trans rows_le_trans rsk_grows_trans)
qed

text \<open>C1. Every state of the core that its operations reach from an empty database, with any arguments,
  in any order, each at its own time, failed calls included, is well formed: the Bitcoin side is
  untouched or a well-formed fork tree of linked rows with a best chain, the Rootstock side a
  well-formed tree in which every block's rows are those of one entry with its hash and whose subtree
  weights can be computed. From there on no run of operations moves the finalized height back or drops
  a stored Bitcoin header, the hash of a Rootstock block, an edge or a checkpoint root, so no subtree
  loses a block. (Storing an entry whose hash is stored already does replace that block's header, work
  and uncle list: \<open>proposal_replaces_rows\<close>.)\<close>

theorem core_history:
  assumes "core_run env (n0, k0, core_open) (n, k, cs)" and "core_run env (n, k, cs) (n', k', cs')"
  shows "(cs_btc cs' = empty_btc_store \<or> (\<exists>base. chain_inv (ce_btc env) base (cs_btc cs'))) \<and>
    rsk_inv (cs_rsk cs') \<and> rsk_subtree_work (cs_rsk cs') root = Some (tree_weight (cs_rsk cs') root) \<and>
    rows_from_entries env (cs_rsk cs') \<and>
    finalized_le (cs_btc cs) (cs_btc cs') \<and> rows_le (cs_btc cs) (cs_btc cs') \<and> rsk_grows (cs_rsk cs) (cs_rsk cs') \<and>
    subtree (cs_rsk cs) root \<subseteq> subtree (cs_rsk cs') root"
proof -
  have i: "core_inv env (n, k, cs)" using core_run_keeps [OF assms(1) core_open_inv] by blast
  have j: "core_inv env (n', k', cs')" and g: "core_grows (n, k, cs) (n', k', cs')"
    using core_run_keeps [OF assms(2) i] by blast+
  then have "rsk_subtree_work (cs_rsk cs') root = Some (tree_weight (cs_rsk cs') root)"
    "subtree (cs_rsk cs) root \<subseteq> subtree (cs_rsk cs') root"
    using subtree_work_total subtree_mono by (auto simp: core_inv_def core_grows_def)
  with j g show ?thesis by (auto simp: core_inv_def btc_ready_def core_grows_def)
qed

text \<open>Seeding a genesis block, and two headers on it.\<close>

lemma core_history_witness:
  "finalized_le demo_store demo_store1 \<and> (\<exists>base. chain_inv demo_lib base demo_store1)"
proof -
  let ?cs0 = "\<lparr> cs_btc = demo_store, cs_rsk = empty_rsk_store \<rparr>" and ?cs1 = "\<lparr> cs_btc = demo_store1, cs_rsk = empty_rsk_store \<rparr>"
  let ?hs = "[demo_header 1 4 2, demo_header 2 4 3]"
  let ?env = "demo_env\<lparr> ce_network := Regtest \<rparr>"
  have net: "ce_btc ?env = demo_lib" "ce_network ?env = Regtest" by (simp_all add: demo_env_def)
  have s: "core_seed (at_clock (Some 5) ?env) demo_entries core_open = (Inr (), ?cs0)"
    by (simp add: core_seed_def core_open_def demo_env_def demo_seeded)
  have "core_step ?env (0 + length ?hs, Suc 0, core_open) (0 + length ?hs, Suc 0, ?cs0)"
    by (rule core_step.seed [OF s]) (simp_all add: demo_entries_def)
  then have a: "core_run ?env (2, 1, core_open) (2, 1, ?cs0)" by (simp add: core_run_def eval_nat_numeral r_into_rtranclp)
  have c: "core_connect (at_clock (Some 7) ?env) ?hs ?cs0 = (Inr \<lparr> co_connected = 2, co_prev_best = Some 0, co_best = Some 0,
      co_tip_height = 2, co_finalized = None \<rparr>, ?cs1)"
    by (simp add: core_connect_def demo_env_def demo_store1_result)
  have "core_step ?env (0 + length ?hs, Suc 0, ?cs0) (0, 0, ?cs1)" by (rule core_step.connect [OF c])
  then have b: "core_run ?env (2, 1, ?cs0) (0, 0, ?cs1)" by (simp add: core_run_def eval_nat_numeral r_into_rtranclp)
  have "fork_meta_of demo_store1 0 \<noteq> None" using demo_inv1 by (auto simp: chain_inv_def)
  moreover have "fork_meta_of empty_btc_store 0 = None" by (simp add: fork_meta_of_def empty_btc_store_def)
  ultimately have "demo_store1 \<noteq> empty_btc_store" by metis
  then show ?thesis using core_history [OF a b] net by auto
qed

end
