(* ===== verification/Btc_Session.thy ===== *)
theory Btc_Session
  imports Btc_Chain
begin

text \<open>
  \<open>crates/btc-p2p/src/session.rs\<close> and \<open>codec.rs\<close>: the handshake with a Bitcoin peer and the exchange of
  headers. The envelope of a message belongs to the \<open>bitcoin\<close> crate, so a stream is the list of
  what reading it gives, message or error, and the number of writes it still takes.
\<close>

section \<open>Messages and streams\<close>

record version_message =
  vm_version :: u32
  vm_services :: u64
  vm_timestamp :: u64
  vm_receiver :: string
  vm_sender :: string
  vm_nonce :: u64
  vm_user_agent :: string
  vm_start_height :: u32

datatype net_message =
    MVersion version_message
  | MVerack
  | MWtxidRelay
  | MSendAddrV2
  | MPing u64
  | MPong u64
  | MGetHeaders "b256 list" b256
  | MHeaders "btc_header list"
  | MOther string

record raw_message =
  rm_magic :: u32
  rm_payload :: net_message

datatype p2p_error =
    P2pIo
  | P2pConsensus
  | P2pProtocol
  | UnexpectedMessage string string

record session =
  ss_incoming :: "(p2p_error + raw_message) list"
  ss_writes :: nat
  ss_sent :: "net_message list"

text \<open>The four bytes of mainnet, as the \<open>bitcoin\<close> crate has them.\<close>

definition MAGIC :: u32 where
  "MAGIC = 0xD9B4BEF9"

section \<open>Reading and writing\<close>

definition read_message_for :: "u32 \<Rightarrow> session \<Rightarrow> (p2p_error + raw_message) \<times> session" where
  "read_message_for magic s =
    (case ss_incoming s of
       [] \<Rightarrow> (Inl P2pIo, s)
     | r # rest \<Rightarrow>
         (bindE r (\<lambda>msg. if rm_magic msg \<noteq> magic then Inl P2pProtocol else Inr msg), s\<lparr> ss_incoming := rest \<rparr>))"

definition session_send :: "net_message \<Rightarrow> session \<Rightarrow> (p2p_error + unit) \<times> session" where
  "session_send m s =
    (if ss_writes s = 0 then (Inl P2pIo, s)
     else (Inr (), s\<lparr> ss_writes := ss_writes s - 1, ss_sent := ss_sent s @ [m] \<rparr>))"

text \<open>A ping is answered, and then returned like any other message.\<close>

definition next_message :: "session \<Rightarrow> (p2p_error + raw_message) \<times> session" where
  "next_message s =
    (case read_message_for MAGIC s of
       (Inl e, s') \<Rightarrow> (Inl e, s')
     | (Inr msg, s') \<Rightarrow>
         (case rm_payload msg of
            MPing nonce \<Rightarrow>
              (case session_send (MPong nonce) s' of
                 (Inl e, s'') \<Rightarrow> (Inl e, s'')
               | (Inr _, s'') \<Rightarrow> (Inr msg, s''))
          | _ \<Rightarrow> (Inr msg, s')))"

lemma next_message_length:
  "next_message s = (r, s') \<Longrightarrow> length (ss_incoming s') \<le> length (ss_incoming s)"
  "next_message s = (Inr m, s') \<Longrightarrow> length (ss_incoming s') < length (ss_incoming s)"
  by (auto simp: next_message_def read_message_for_def session_send_def bindE_def
      split: list.splits sum.splits prod.splits net_message.splits if_splits)

lemma next_message_shrinks: "(Inr m, s') = next_message s \<Longrightarrow> length (ss_incoming s') < length (ss_incoming s)"
  by (rule next_message_length(2) [of s m]) simp

definition request_headers :: "b256 list \<Rightarrow> b256 \<Rightarrow> session \<Rightarrow> (p2p_error + unit) \<times> session" where
  "request_headers locator stop = session_send (MGetHeaders locator stop)"

text \<open>Reads until headers arrive; everything else is skipped.\<close>

function read_headers :: "session \<Rightarrow> (p2p_error + btc_header list) \<times> session" where
  "read_headers s =
    (case next_message s of
       (Inl e, s') \<Rightarrow> (Inl e, s')
     | (Inr msg, s') \<Rightarrow> (case rm_payload msg of MHeaders hs \<Rightarrow> (Inr hs, s') | _ \<Rightarrow> read_headers s'))"
  by pat_completeness auto
termination by (relation "measure (\<lambda>s. length (ss_incoming s))") (auto dest: next_message_shrinks)

declare read_headers.simps [simp del]

definition get_headers :: "b256 list \<Rightarrow> b256 \<Rightarrow> session \<Rightarrow> (p2p_error + btc_header list) \<times> session" where
  "get_headers locator stop s =
    (case request_headers locator stop s of (Inl e, s') \<Rightarrow> (Inl e, s') | (Inr _, s') \<Rightarrow> read_headers s')"

section \<open>The handshake\<close>

record handshake =
  hk_version :: u32
  hk_services :: u64
  hk_user_agent :: string
  hk_start_height :: u32

fun message_name :: "net_message \<Rightarrow> string" where
  "message_name (MVersion _) = ''version''"
| "message_name MVerack = ''verack''"
| "message_name MWtxidRelay = ''wtxidrelay''"
| "message_name MSendAddrV2 = ''sendaddrv2''"
| "message_name (MPing _) = ''ping''"
| "message_name (MPong _) = ''pong''"
| "message_name (MGetHeaders _ _) = ''getheaders''"
| "message_name (MHeaders _) = ''headers''"
| "message_name (MOther cmd) = cmd"

function await_verack :: "session \<Rightarrow> (p2p_error + unit) \<times> session" where
  "await_verack s =
    (case next_message s of
       (Inl e, s') \<Rightarrow> (Inl e, s')
     | (Inr msg, s') \<Rightarrow>
         (case rm_payload msg of
            MVerack \<Rightarrow> (Inr (), s')
          | MWtxidRelay \<Rightarrow> await_verack s'
          | MSendAddrV2 \<Rightarrow> await_verack s'
          | other \<Rightarrow> (Inl (UnexpectedMessage ''verack'' (message_name other)), s')))"
  by pat_completeness auto
termination by (relation "measure (\<lambda>s. length (ss_incoming s))") (auto dest: next_message_shrinks)

declare await_verack.simps [simp del]

text \<open>Our own version message, with its clock and nonce, is an argument.\<close>

definition session_handshake :: "version_message \<Rightarrow> session \<Rightarrow> (p2p_error + handshake) \<times> session" where
  "session_handshake version s0 =
    (case session_send (MVersion version) s0 of
       (Inl e, s) \<Rightarrow> (Inl e, s)
     | (Inr _, s) \<Rightarrow>
         (case next_message s of
            (Inl e, s) \<Rightarrow> (Inl e, s)
          | (Inr msg, s) \<Rightarrow>
              (case rm_payload msg of
                 MVersion v \<Rightarrow>
                   (case session_send MVerack s of
                      (Inl e, s) \<Rightarrow> (Inl e, s)
                    | (Inr _, s) \<Rightarrow>
                        (case await_verack s of
                           (Inl e, s) \<Rightarrow> (Inl e, s)
                         | (Inr _, s) \<Rightarrow>
                             (Inr \<lparr> hk_version = vm_version v, hk_services = vm_services v,
                                    hk_user_agent = vm_user_agent v, hk_start_height = vm_start_height v \<rparr>, s)))
               | other \<Rightarrow> (Inl (UnexpectedMessage ''version'' (message_name other)), s))))"

section \<open>What a headers exchange does\<close>

lemma next_message_reads:
  "next_message s = (r, s') \<Longrightarrow> \<exists>used. ss_incoming s = used @ ss_incoming s' \<and> (\<forall>m. r = Inr m \<longrightarrow> used = [Inr m])"
  by (cases "ss_incoming s"; cases "hd (ss_incoming s)")
    (auto simp: next_message_def read_message_for_def session_send_def
      split: sum.splits prod.splits net_message.splits if_splits)

text \<open>Reading headers takes messages off the front, the last of them the headers.\<close>

lemma read_headers_reads:
  "read_headers s = (r, s') \<Longrightarrow> \<exists>used. ss_incoming s = used @ ss_incoming s' \<and>
     (\<forall>hs. r = Inr hs \<longrightarrow> (\<exists>before m. used = before @ [Inr m] \<and> rm_payload m = MHeaders hs))"
proof (induction "length (ss_incoming s)" arbitrary: s r s' rule: less_induct)
  case less
  obtain n s1 where n: "next_message s = (n, s1)" by fastforce
  show ?case
  proof (cases n)
    case (Inl e)
    then show ?thesis using less.prems n next_message_reads [OF n] by (auto simp: read_headers.simps [of s])
  next
    case (Inr m)
    then have u: "ss_incoming s = [Inr m] @ ss_incoming s1" using next_message_reads [OF n] by auto
    show ?thesis
    proof (cases "\<exists>hs. rm_payload m = MHeaders hs")
      case True
      then show ?thesis using less.prems n Inr u by (auto simp: read_headers.simps [of s])
    next
      case False
      then have "read_headers s = read_headers s1"
        using n Inr by (cases "rm_payload m") (simp_all add: read_headers.simps [of s])
      with less.prems have "read_headers s1 = (r, s')" by simp
      moreover have "length (ss_incoming s1) < length (ss_incoming s)" using u by simp
      ultimately obtain used where used: "ss_incoming s1 = used @ ss_incoming s'"
        "\<forall>hs. r = Inr hs \<longrightarrow> (\<exists>before m. used = before @ [Inr m] \<and> rm_payload m = MHeaders hs)"
        using less.hyps [of s1 r s'] by auto
      show ?thesis
        by (rule exI [of _ "Inr m # used"]) (use u used in \<open>auto simp flip: append_Cons\<close>)
    qed
  qed
qed

lemma read_headers_length:
  assumes "read_headers s = (r, s')"
  shows "length (ss_incoming s') \<le> length (ss_incoming s) \<and> (\<forall>hs. r = Inr hs \<longrightarrow> length (ss_incoming s') < length (ss_incoming s))"
  using read_headers_reads [OF assms] by fastforce

text \<open>Headers arrive behind any chatter; the pings among it, and only they, are answered.\<close>

definition pongs :: "net_message list \<Rightarrow> net_message list" where
  "pongs ms = map (\<lambda>m. case m of MPing n \<Rightarrow> MPong n | _ \<Rightarrow> m) (filter (\<lambda>m. \<exists>n. m = MPing n) ms)"

lemma read_headers_skips:
  assumes "\<forall>m \<in> set chatter. \<forall>hs. m \<noteq> MHeaders hs" and "length (pongs chatter) \<le> ss_writes s"
    and "ss_incoming s = map (\<lambda>m. Inr \<lparr> rm_magic = MAGIC, rm_payload = m \<rparr>) (chatter @ [MHeaders hs]) @ rest"
  shows "read_headers s = (Inr hs, s\<lparr> ss_incoming := rest, ss_writes := ss_writes s - length (pongs chatter),
    ss_sent := ss_sent s @ pongs chatter \<rparr>)"
  using assms
proof (induction chatter arbitrary: s)
  case Nil
  then show ?case by (simp add: read_headers.simps [of s] next_message_def read_message_for_def pongs_def)
next
  case (Cons m ms)
  let ?r = "map (\<lambda>m. Inr \<lparr> rm_magic = MAGIC, rm_payload = m \<rparr>) (ms @ [MHeaders hs]) @ rest"
  show ?case
  proof (cases "\<exists>n. m = MPing n")
    case True
    then obtain n where n: "m = MPing n" by blast
    let ?s = "s\<lparr> ss_incoming := ?r, ss_writes := ss_writes s - 1, ss_sent := ss_sent s @ [MPong n] \<rparr>"
    have w: "0 < ss_writes s" "length (pongs ms) \<le> ss_writes ?s" using Cons.prems(2) by (auto simp: pongs_def n)
    have "read_headers s = read_headers ?s"
      using Cons.prems(3) w by (simp add: read_headers.simps [of s] next_message_def read_message_for_def session_send_def n)
    also have "\<dots> = (Inr hs, ?s\<lparr> ss_incoming := rest, ss_writes := ss_writes ?s - length (pongs ms), ss_sent := ss_sent ?s @ pongs ms \<rparr>)"
      using Cons.prems(1) w by (intro Cons.IH) auto
    finally show ?thesis by (simp add: pongs_def n)
  next
    case False
    let ?s = "s\<lparr> ss_incoming := ?r \<rparr>"
    have p: "pongs (m # ms) = pongs ms" using False by (simp add: pongs_def)
    have "read_headers s = read_headers ?s"
      using Cons.prems(1,3) False
      by (cases m) (simp_all add: read_headers.simps [of s] next_message_def read_message_for_def)
    also have "\<dots> = (Inr hs, ?s\<lparr> ss_incoming := rest, ss_writes := ss_writes ?s - length (pongs ms), ss_sent := ss_sent ?s @ pongs ms \<rparr>)"
      using Cons.prems p by (intro Cons.IH) auto
    finally show ?thesis by (simp add: p)
  qed
qed

text \<open>A ping before the acknowledgement of the version ends the handshake, although it is answered.\<close>

lemma ping_before_verack_refused:
  assumes "ss_incoming s = Inr \<lparr> rm_magic = MAGIC, rm_payload = MPing n \<rparr> # rest" and "0 < ss_writes s"
  shows "fst (await_verack s) = Inl (UnexpectedMessage ''verack'' ''ping'')"
  using assms by (simp add: await_verack.simps [of s] next_message_def read_message_for_def session_send_def)

end
