(* ===== verification/Node_Sync.thy ===== *)
theory Node_Sync
  imports Btc_Session Btc_Seeds Btc_Finality
begin

text \<open>
  The \<open>rsk\<close> crate: the peers a node connects to (\<open>peers.rs\<close>), the header sync that drives them
  (\<open>sync.rs\<close>), and the anchor an empty store starts from (\<open>node.rs\<close>, \<open>config.rs\<close>). Name resolution and
  connecting are arguments; a connected peer is its session.
\<close>

section \<open>Configuration\<close>

datatype anchor =
    AnchorSpine u64
  | AnchorGenesis

record node_settings =
  cf_data_dir :: string
  cf_network :: network
  cf_user_agent :: string
  cf_peers :: nat
  cf_limit :: nat
  cf_addrs :: "socket_addr list"
  cf_seeds :: "string list"
  cf_anchor :: anchor

definition USER_AGENT :: string where
  "USER_AGENT = ''/rsk-one:0.1.0/''"

definition default_settings :: node_settings where
  "default_settings = \<lparr> cf_data_dir = ''data/rsk-one'', cf_network = Bitcoin, cf_user_agent = USER_AGENT, cf_peers = 3,
     cf_limit = 8, cf_addrs = [], cf_seeds = [], cf_anchor = AnchorSpine 0 \<rparr>"

section \<open>Peers\<close>

fun resolve_hosts :: "resolver \<Rightarrow> u16 \<Rightarrow> string list \<Rightarrow> socket_addr list \<times> string list" where
  "resolve_hosts dns port [] = ([], [])"
| "resolve_hosts dns port (host # hosts) =
     (let (addrs, failed) = resolve_hosts dns port hosts
      in case dns host port of Some l \<Rightarrow> (l @ addrs, failed) | None \<Rightarrow> (addrs, host # failed))"

definition candidates :: "resolver \<Rightarrow> socket_addr list \<Rightarrow> string list \<Rightarrow> socket_addr list \<times> string list" where
  "candidates dns addrs given_seeds =
     (let hosts = (if given_seeds = [] then MAINNET_SEEDS else given_seeds);
          (resolved, failed) = resolve_hosts dns DEFAULT_PORT hosts
      in (foldl (\<lambda>out addr. if addr \<in> set out then out else out @ [addr]) addrs resolved, failed))"

text \<open>The seeds that resolve give the same addresses as the resolution of \<open>btc_p2p\<close>, in the order found.\<close>

lemma candidates_resolved:
  "set (fst (candidates dns addrs seeds)) =
     set addrs \<union> set (resolve_seeds dns (if seeds = [] then MAINNET_SEEDS else seeds) DEFAULT_PORT)"
proof -
  have "set (foldl (\<lambda>out addr. if addr \<in> set out then out else out @ [addr]) out l) = set out \<union> set l" for out l :: "socket_addr list"
    by (induction l arbitrary: out) auto
  moreover have "set (fst (resolve_hosts dns port hosts)) = set (resolve_seeds dns hosts port)" for port hosts
    unfolding resolve_seeds_sorted [THEN conjunct2] by (induction hosts) (auto simp: Let_def split: prod.splits option.splits)
  ultimately show ?thesis by (simp add: candidates_def Let_def split: prod.splits) (metis fst_conv)
qed

record peer =
  px_addr :: socket_addr
  px_handshake :: handshake
  px_session :: session

record pool =
  po_peers :: "peer list"
  po_attempts :: nat
  po_user_agent :: string

definition new_pool :: "string \<Rightarrow> pool" where
  "new_pool user_agent = \<lparr> po_peers = [], po_attempts = 0, po_user_agent = user_agent \<rparr>"

text \<open>Connecting to an address with our user agent and height.\<close>

type_synonym dialer = "socket_addr \<Rightarrow> string \<Rightarrow> u32 \<Rightarrow> p2p_error + session \<times> handshake"

fun pool_fill :: "dialer \<Rightarrow> nat \<Rightarrow> nat \<Rightarrow> u32 \<Rightarrow> socket_addr list \<Rightarrow> pool \<Rightarrow> pool \<times> socket_addr list" where
  "pool_fill dial want max_attempts start_height [] pool = (pool, [])"
| "pool_fill dial want max_attempts start_height (addr # rest) pool =
     (if length (po_peers pool) < want \<and> po_attempts pool < max_attempts then
        let pool1 = pool\<lparr> po_attempts := po_attempts pool + 1 \<rparr>;
            pool2 = (case dial addr (po_user_agent pool) start_height of
                Inl _ \<Rightarrow> pool1
              | Inr (session, hs) \<Rightarrow>
                  pool1\<lparr> po_peers := po_peers pool @ [\<lparr> px_addr = addr, px_handshake = hs, px_session = session \<rparr>] \<rparr>)
        in pool_fill dial want max_attempts start_height rest pool2
      else (pool, addr # rest))"

section \<open>Errors and reports\<close>

datatype sync_error =
    SyncCore core_error
  | SyncP2p p2p_error
  | NoCandidates
  | NoPeers
  | AllPeersDropped
  | NoTip
  | NoChainwork
  | BelowAdvertised u64 u64
  | WorkDidNotIncrease
  | GenesisPruned
  | GenesisChanged
  | ForkWon
  | FinalityLagged u64 u64
  | CutPastEnd
  | EmptySpine
  | NotSeeded
  | NoCheckpoints
  | SyncPanic

definition lift_core :: "'a core \<Rightarrow> sync_error + 'a" where
  "lift_core r = (case r of Inl e \<Rightarrow> Inl (SyncCore e) | Inr v \<Rightarrow> Inr v)"

definition lift_p2p :: "p2p_error + 'a \<Rightarrow> sync_error + 'a" where
  "lift_p2p r = (case r of Inl e \<Rightarrow> Inl (SyncP2p e) | Inr v \<Rightarrow> Inr v)"

record sync_report =
  sr_headers :: nat
  sr_batches :: nat
  sr_tip :: u64
  sr_finalized :: u64
  sr_chainwork :: u256
  sr_peer_height :: u64

section \<open>The sync\<close>

definition sync_locator :: "btc_lib \<Rightarrow> btc_store \<Rightarrow> b256 list core" where
  "sync_locator L st =
    (case tip_height_of st of
       None \<Rightarrow> Inr []
     | Some tip \<Rightarrow>
         bindE (mapE (header_at_best st) (rev (map of_nat [unat (sat_sub tip 9)..<unat tip + 1]))) (\<lambda>hs.
         let out = map (bl_block_hash L) (List.map_filter (\<lambda>h. h) hs) in
         bindE (header_at_best st 0) (\<lambda>g. case g of
             None \<Rightarrow> Inr out
           | Some genesis \<Rightarrow>
               let hash = bl_block_hash L genesis
               in Inr (if out \<noteq> [] \<and> last out = hash then out else out @ [hash]))))"

definition start_height :: "btc_store \<Rightarrow> u32" where
  "start_height st = of_nat (min (case tip_height_of st of None \<Rightarrow> 0 | Some tip \<Rightarrow> unat tip) (2 ^ 31 - 1))"

text \<open>The height a peer advertised, a negative one being nothing.\<close>

definition advertised :: "handshake \<Rightarrow> u64" where
  "advertised h = (if sint (hk_start_height h) < 0 then 0 else ucast (hk_start_height h))"

definition next_alive :: "bool list \<Rightarrow> nat \<Rightarrow> nat option" where
  "next_alive alive from_peer =
     (let n = length alive in List.find (\<lambda>p. alive ! p) (map (\<lambda>step. (from_peer + step) mod n) [1..<n + 1]))"

definition request_peer :: "nat \<Rightarrow> b256 list \<Rightarrow> peer list \<Rightarrow> (p2p_error + unit) \<times> peer list" where
  "request_peer p locator peers =
     (let (r, s) = request_headers locator 0 (px_session (peers ! p)) in (r, peers[p := (peers ! p)\<lparr> px_session := s \<rparr>]))"

fun prefetch_from :: "b256 \<Rightarrow> nat \<Rightarrow> nat list \<Rightarrow> peer list \<Rightarrow> bool list \<Rightarrow> (p2p_error + nat) \<times> peer list \<times> bool list" where
  "prefetch_from last_hash from_peer [] peers alive =
     (let (r, peers') = request_peer from_peer [last_hash] peers in (bindE r (\<lambda>_. Inr from_peer), peers', alive))"
| "prefetch_from last_hash from_peer (step # steps) peers alive =
     (let p = (from_peer + step) mod length peers
      in if \<not> alive ! p then prefetch_from last_hash from_peer steps peers alive
         else (case request_peer p [last_hash] peers of
             (Inr _, peers') \<Rightarrow> (Inr p, peers', alive)
           | (Inl _, peers') \<Rightarrow> prefetch_from last_hash from_peer steps peers' (alive[p := False])))"

definition prefetch :: "peer list \<Rightarrow> bool list \<Rightarrow> nat \<Rightarrow> b256 \<Rightarrow> (p2p_error + nat) \<times> peer list \<times> bool list" where
  "prefetch peers alive from_peer last_hash = prefetch_from last_hash from_peer [1..<length peers + 1] peers alive"

record sync_state =
  sy_peers :: "peer list"
  sy_alive :: "bool list"
  sy_cur :: nat
  sy_store :: btc_store
  sy_total :: nat
  sy_batches :: nat
  sy_works :: "u256 list"

text \<open>The checks at the end of a run, and its report.\<close>

definition sync_finish :: "btc_lib \<Rightarrow> btc_header \<Rightarrow> u64 \<Rightarrow> sync_state \<Rightarrow> sync_error + sync_report" where
  "sync_finish L genesis_header peer_height sy =
    (let st = sy_store sy in
     bindE (of_option NoTip (tip_height_of st)) (\<lambda>tip.
     bindE (ensure (0 < peer_height \<longrightarrow> peer_height \<le> tip) (BelowAdvertised tip peer_height)) (\<lambda>_.
     bindE (ensure (successively (<) (sy_works sy)) WorkDidNotIncrease) (\<lambda>_.
     bindE (bindE (lift_core (chainwork st)) (of_option NoChainwork)) (\<lambda>work.
     bindE (bindE (lift_core (header_at_best st 0)) (of_option GenesisPruned)) (\<lambda>genesis.
     bindE (ensure (bl_block_hash L genesis = bl_block_hash L genesis_header) GenesisChanged) (\<lambda>_.
     bindE (ensure (best_fork st = Some 0) ForkWon) (\<lambda>_.
     let finalized = (case finalized_height st of Some f \<Rightarrow> f | None \<Rightarrow> 0) in
     bindE (if 2 * DIFFICULTY_PERIOD < tip then
         let expected = ((tip - DIFFICULTY_PERIOD) div DIFFICULTY_PERIOD) * DIFFICULTY_PERIOD
         in ensure (sat_sub expected (2 * DIFFICULTY_PERIOD) \<le> finalized) (FinalityLagged finalized expected)
       else Inr ()) (\<lambda>_.
       Inr \<lparr> sr_headers = sy_total sy, sr_batches = sy_batches sy, sr_tip = tip, sr_finalized = finalized,
             sr_chainwork = work, sr_peer_height = peer_height \<rparr>)))))))))"

section \<open>The loop\<close>

text \<open>What is left to read and who is alive bound the loop.\<close>

definition unread :: "peer list \<Rightarrow> nat" where
  "unread peers = sum_list (map (\<lambda>p. length (ss_incoming (px_session p))) peers)"

definition living :: "bool list \<Rightarrow> nat" where
  "living alive = length (filter (\<lambda>a. a) alive)"

lemma unread_update:
  assumes "p < length peers"
  shows "unread (peers[p := q]) + length (ss_incoming (px_session (peers ! p))) = unread peers + length (ss_incoming (px_session q))"
  using assms
proof (induction peers arbitrary: p)
  case (Cons x xs)
  then show ?case by (cases p) (auto simp: unread_def)
qed simp

lemma living_update: "p < length alive \<Longrightarrow> living (alive[p := False]) + (if alive ! p then 1 else 0) = living alive"
proof (induction alive arbitrary: p)
  case (Cons x xs)
  then show ?case by (cases p) (auto simp: living_def)
qed simp

lemma living_le: "living (alive[p := False]) \<le> living alive"
  using living_update [of p alive] by (cases "p < length alive") (auto simp: list_update_beyond not_less)

lemma request_peer_unread: "request_peer p loc peers = (r, peers') \<Longrightarrow> unread peers' = unread peers \<and> length peers' = length peers"
proof -
  assume r: "request_peer p loc peers = (r, peers')"
  obtain q s where q: "request_headers loc 0 (px_session (peers ! p)) = (q, s)" by fastforce
  then have "ss_incoming s = ss_incoming (px_session (peers ! p))"
    by (auto simp: request_headers_def session_send_def split: if_splits)
  moreover have "peers' = peers[p := (peers ! p)\<lparr> px_session := s \<rparr>]" using r q by (simp add: request_peer_def)
  ultimately show ?thesis
    using unread_update [of p peers "(peers ! p)\<lparr> px_session := s \<rparr>"]
    by (cases "p < length peers") (auto simp: list_update_beyond not_less)
qed

lemma prefetch_from_unread:
  "prefetch_from h f steps peers alive = (r, peers', alive') \<Longrightarrow>
     unread peers' = unread peers \<and> length peers' = length peers \<and> living alive' \<le> living alive \<and> length alive' = length alive"
proof (induction steps arbitrary: peers alive)
  case Nil
  then show ?case using request_peer_unread by (auto split: prod.splits)
next
  case (Cons step steps)
  let ?p = "(f + step) mod length peers"
  show ?case
  proof (cases "alive ! ?p")
    case True
    obtain q ps where q: "request_peer ?p [h] peers = (q, ps)" by fastforce
    from request_peer_unread [OF q] Cons True q show ?thesis
      using living_le [of alive ?p] by (cases q) (fastforce simp: Let_def)+
  next
    case False
    then show ?thesis using Cons by (simp add: Let_def)
  qed
qed

lemma next_alive_Some: "next_alive alive c = Some p \<Longrightarrow> alive ! p"
  by (auto simp: next_alive_def Let_def dest: find_Some_in)

text \<open>One turn of the loop: a result, or the state of the next turn. \<open>alive\<close> and \<open>peers\<close> are indexed
  with the current peer; out of range is a panic.\<close>

type_synonym turn = "(sync_error + sync_report) option \<times> sync_state"

text \<open>The current peer is dropped and the next one asked from our tip.\<close>

definition sync_dropped :: "btc_lib \<Rightarrow> sync_state \<Rightarrow> turn" where
  "sync_dropped L sy =
     (let alive' = (sy_alive sy)[sy_cur sy := False]; sy1 = sy\<lparr> sy_alive := alive' \<rparr>
      in case next_alive alive' (sy_cur sy) of
           None \<Rightarrow> (Some (Inl AllPeersDropped), sy1)
         | Some nxt \<Rightarrow>
             (case sync_locator L (sy_store sy) of
                Inl e \<Rightarrow> (Some (Inl (SyncCore e)), sy1)
              | Inr loc \<Rightarrow>
                  (case request_peer nxt loc (sy_peers sy) of
                     (Inl e, peers') \<Rightarrow> (Some (Inl (SyncP2p e)), sy1\<lparr> sy_peers := peers' \<rparr>)
                   | (Inr _, peers') \<Rightarrow> (None, sy1\<lparr> sy_peers := peers', sy_cur := nxt \<rparr>))))"

text \<open>The next batch is asked for before this one is connected.\<close>

definition sync_batch :: "btc_lib \<Rightarrow> network \<Rightarrow> btc_header list \<Rightarrow> sync_state \<Rightarrow> turn" where
  "sync_batch L net headers sy =
    (case prefetch (sy_peers sy) (sy_alive sy) (sy_cur sy) (bl_block_hash L (last headers)) of
       (Inl e, peers', alive') \<Rightarrow> (Some (Inl (SyncP2p e)), sy\<lparr> sy_peers := peers', sy_alive := alive' \<rparr>)
     | (Inr nxt, peers', alive') \<Rightarrow>
         let sy1 = sy\<lparr> sy_peers := peers', sy_alive := alive', sy_cur := nxt \<rparr>
         in case connect_headers L net headers (sy_store sy) of
              (Inl e, st') \<Rightarrow> (Some (Inl (SyncCore e)), sy1\<lparr> sy_store := st' \<rparr>)
            | (Inr out, st') \<Rightarrow>
                let sy2 = sy1\<lparr> sy_store := st', sy_total := sy_total sy + co_connected out, sy_batches := sy_batches sy + 1 \<rparr>
                in case chainwork st' of
                     Inl e \<Rightarrow> (Some (Inl (SyncCore e)), sy2)
                   | Inr None \<Rightarrow> (Some (Inl NoChainwork), sy2)
                   | Inr (Some w) \<Rightarrow>
                       (if tip_height_of st' = None then Some (Inl NoTip) else None, sy2\<lparr> sy_works := sy_works sy @ [w] \<rparr>))"

definition sync_step :: "btc_lib \<Rightarrow> network \<Rightarrow> btc_header \<Rightarrow> u64 \<Rightarrow> sync_state \<Rightarrow> turn" where
  "sync_step L net genesis_header peer_height sy =
    (if \<not> (sy_cur sy < length (sy_peers sy) \<and> sy_cur sy < length (sy_alive sy)) then (Some (Inl SyncPanic), sy)
     else
       let px = sy_peers sy ! sy_cur sy;
           (r, s) = read_headers (px_session px);
           sy1 = sy\<lparr> sy_peers := (sy_peers sy)[sy_cur sy := px\<lparr> px_session := s \<rparr>] \<rparr>
       in case r of
            Inl _ \<Rightarrow> sync_dropped L sy1
          | Inr [] \<Rightarrow> (Some (sync_finish L genesis_header peer_height sy1), sy1)
          | Inr headers \<Rightarrow> sync_batch L net headers sy1)"

lemma dropped_decreases:
  assumes "sync_dropped L sy = (None, sy')" and "sy_cur sy < length (sy_alive sy)"
  shows "unread (sy_peers sy') = unread (sy_peers sy) \<and> sy_alive sy' ! sy_cur sy' \<and>
    living (sy_alive sy') + (if sy_alive sy ! sy_cur sy then 1 else 0) = living (sy_alive sy)"
  using assms next_alive_Some living_update [OF assms(2)] request_peer_unread
  by (auto simp: sync_dropped_def Let_def split: option.splits sum.splits prod.splits)

lemma batch_decreases:
  assumes "sync_batch L net hs sy = (None, sy')"
  shows "unread (sy_peers sy') = unread (sy_peers sy) \<and> living (sy_alive sy') \<le> living (sy_alive sy)"
proof -
  obtain q ps al where p: "prefetch (sy_peers sy) (sy_alive sy) (sy_cur sy) (bl_block_hash L (last hs)) = (q, ps, al)"
    by (cases "prefetch (sy_peers sy) (sy_alive sy) (sy_cur sy) (bl_block_hash L (last hs))")
  from prefetch_from_unread [OF p [unfolded prefetch_def]] show ?thesis
    using assms by (auto simp: sync_batch_def p Let_def split: option.splits sum.splits prod.splits if_splits)
qed

lemma step_decreases:
  assumes "sync_step L net g h sy = (None, sy')"
  shows "unread (sy_peers sy') + living (sy_alive sy') < unread (sy_peers sy) + living (sy_alive sy) \<or>
    (unread (sy_peers sy') + living (sy_alive sy') = unread (sy_peers sy) + living (sy_alive sy) \<and>
     sy_alive sy' ! sy_cur sy' \<and> \<not> sy_alive sy ! sy_cur sy)"
proof -
  let ?px = "sy_peers sy ! sy_cur sy"
  have cur: "sy_cur sy < length (sy_peers sy)" "sy_cur sy < length (sy_alive sy)"
    using assms by (auto simp: sync_step_def split: if_splits)
  obtain r s where r: "read_headers (px_session ?px) = (r, s)" by fastforce
  define sy1 where "sy1 = sy\<lparr> sy_peers := (sy_peers sy)[sy_cur sy := ?px\<lparr> px_session := s \<rparr>] \<rparr>"
  have u: "unread (sy_peers sy1) + length (ss_incoming (px_session ?px)) = unread (sy_peers sy) + length (ss_incoming s)"
    using unread_update [OF cur(1), of "?px\<lparr> px_session := s \<rparr>"] by (simp add: sy1_def)
  show ?thesis
  proof (cases r)
    case (Inl e)
    then have d: "sync_dropped L sy1 = (None, sy')" using assms cur r by (simp add: sync_step_def sy1_def)
    have "sy_cur sy1 < length (sy_alive sy1)" using cur by (simp add: sy1_def)
    from dropped_decreases [OF d this] u read_headers_length [OF r] show ?thesis
      by (auto simp: sy1_def split: if_splits)
  next
    case (Inr hs)
    then have "hs \<noteq> []" "sync_batch L net hs sy1 = (None, sy')"
      using assms cur r by (cases hs; simp add: sync_step_def sy1_def Let_def)+
    with batch_decreases [of L net hs sy1 sy'] u read_headers_length [OF r] Inr show ?thesis by (auto simp: sy1_def)
  qed
qed

function sync_loop :: "btc_lib \<Rightarrow> network \<Rightarrow> btc_header \<Rightarrow> u64 \<Rightarrow> sync_state \<Rightarrow> (sync_error + sync_report) \<times> sync_state" where
  "sync_loop L net genesis_header peer_height sy =
    (case sync_step L net genesis_header peer_height sy of
       (Some r, sy') \<Rightarrow> (r, sy')
     | (None, sy') \<Rightarrow> sync_loop L net genesis_header peer_height sy')"
  by pat_completeness auto
termination
  by (relation "measures [\<lambda>(L, net, g, h, sy). unread (sy_peers sy) + living (sy_alive sy),
    \<lambda>(L, net, g, h, sy). if sy_alive sy ! sy_cur sy then 0 else 1]") (use step_decreases in force)+

declare sync_loop.simps [simp del]

definition sync_run :: "btc_lib \<Rightarrow> dialer \<Rightarrow> btc_header \<Rightarrow> node_settings \<Rightarrow> socket_addr list \<Rightarrow> btc_store \<Rightarrow>
    (sync_error + sync_report) \<times> btc_store" where
  "sync_run L dial genesis_header config addrs st =
     (let (pool, _) = pool_fill dial (max (cf_peers config) 1) (cf_limit config) (start_height st) addrs (new_pool (cf_user_agent config));
          peers = po_peers pool
      in if peers = [] then (Inl NoPeers, st)
         else
           let peer_height = fold max (map (advertised \<circ> px_handshake) peers) 0
           in case sync_locator L st of
                Inl e \<Rightarrow> (Inl (SyncCore e), st)
              | Inr loc \<Rightarrow>
                  (case request_peer 0 loc peers of
                     (Inl e, _) \<Rightarrow> (Inl (SyncP2p e), st)
                   | (Inr _, peers') \<Rightarrow>
                       (let (r, sy) = sync_loop L (cf_network config) genesis_header peer_height
                            \<lparr> sy_peers = peers', sy_alive = replicate (length peers') True, sy_cur = 0, sy_store = st,
                              sy_total = 0, sy_batches = 0, sy_works = [] \<rparr>
                        in (r, sy_store sy))))"

section \<open>The node\<close>

text \<open>The first height to download. The lines of the embedded spine and the genesis header are
  arguments.\<close>

definition plant_anchor :: "btc_lib \<Rightarrow> (string \<Rightarrow> bytes option) \<Rightarrow> string list \<Rightarrow> btc_header \<Rightarrow> node_settings \<Rightarrow> btc_store \<Rightarrow>
    (sync_error + u64) \<times> btc_store" where
  "plant_anchor L hex spine_lines genesis_header config st =
    (case tip_height_of st of
       Some tip \<Rightarrow> (Inr (tip + 1), st)
     | None \<Rightarrow>
         (case cf_anchor config of
            AnchorGenesis \<Rightarrow>
              (case seed_checkpoints L (cf_network config) [(0, genesis_header)] st of
                 (Inl e, st') \<Rightarrow> (Inl (SyncCore e), st')
               | (Inr _, st') \<Rightarrow> (Inr 1, st'))
          | AnchorSpine periods \<Rightarrow>
              (case parse_spine L hex spine_lines of
                 Inl e \<Rightarrow> (Inl (SyncCore e), st)
               | Inr spine \<Rightarrow>
                   if \<not> unat periods < length spine then (Inl CutPastEnd, st)
                   else
                     let prefix = take (length spine - unat periods) spine
                     in case seed_checkpoints L (cf_network config) prefix st of
                          (Inl e, st') \<Rightarrow> (Inl (SyncCore e), st')
                        | (Inr _, st') \<Rightarrow> (if prefix = [] then Inl EmptySpine else Inr (fst (last prefix) + 1), st'))))"

definition node_sync :: "btc_lib \<Rightarrow> (string \<Rightarrow> bytes option) \<Rightarrow> string list \<Rightarrow> btc_header \<Rightarrow> resolver \<Rightarrow>
    dialer \<Rightarrow> node_settings \<Rightarrow> btc_store \<Rightarrow> (sync_error + sync_report) \<times> btc_store" where
  "node_sync L hex spine_lines genesis_header dns dial config st =
    (case plant_anchor L hex spine_lines genesis_header config st of
       (Inl e, st1) \<Rightarrow> (Inl e, st1)
     | (Inr _, st1) \<Rightarrow>
         let (addrs, _) = candidates dns (cf_addrs config) (cf_seeds config)
         in if addrs = [] then (Inl NoCandidates, st1) else sync_run L dial genesis_header config addrs st1)"

definition hex_encode :: "bytes \<Rightarrow> string" where
  "hex_encode bs = concat (map (\<lambda>b. [digit_char (unat b div 16), digit_char (unat b mod 16)]) bs)"

text \<open>The lines of the text, which ends each with a newline.\<close>

definition export_checkpoints :: "btc_lib \<Rightarrow> btc_store \<Rightarrow> sync_error + string list" where
  "export_checkpoints L st =
     bindE (of_option NotSeeded (finalized_height st)) (\<lambda>finalized.
     bindE (lift_core (finalized_checkpoints st)) (\<lambda>checkpoints.
     bindE (ensure (\<not> checkpoints = []) NoCheckpoints) (\<lambda>_.
       Inr (map (\<lambda>(_, header). hex_encode (bl_encode L header)) checkpoints))))"

end
