(* ===== verification/Node_Claims.thy ===== *)
theory Node_Claims
  imports Node_Sync Btc_Room
begin

text \<open>
  A sync against any peers: the store stays well formed and its finalized checkpoint never moves back,
  and what a completed sync says of the store.
\<close>

section \<open>What the peers have left to say\<close>

definition incoming :: "peer list \<Rightarrow> (p2p_error + raw_message) list list" where
  "incoming peers = map (\<lambda>p. ss_incoming (px_session p)) peers"

definition script_headers :: "(p2p_error + raw_message) list \<Rightarrow> nat" where
  "script_headers msgs = sum_list (map (\<lambda>r. case r of
     Inl _ \<Rightarrow> 0 | Inr m \<Rightarrow> (case rm_payload m of MHeaders hs \<Rightarrow> length hs | _ \<Rightarrow> 0)) msgs)"

definition held :: "peer list \<Rightarrow> nat" where
  "held peers = sum_list (map script_headers (incoming peers))"

lemma unread_incoming: "unread peers = sum_list (map length (incoming peers))"
  by (simp add: unread_def incoming_def comp_def)

lemma incoming_update: "incoming (peers[p := q]) = (incoming peers)[p := ss_incoming (px_session q)]"
  by (simp add: incoming_def map_update)

lemma incoming_same: "incoming peers' = incoming peers \<Longrightarrow> unread peers' = unread peers \<and> held peers' = held peers"
  by (simp add: unread_incoming held_def)

lemma sum_list_cut:
  fixes w :: "'a list \<Rightarrow> nat"
  assumes "p < length xss" and "xss ! p = used @ rest" and "\<And>xs ys. w (xs @ ys) = w xs + w ys"
  shows "sum_list (map w (xss[p := rest])) + w used = sum_list (map w xss)"
  using assms(1,2)
proof (induction xss arbitrary: p)
  case (Cons xs xss)
  then show ?case by (cases p) (auto simp: assms(3))
qed simp

lemma request_peer_incoming:
  assumes "request_peer p loc peers = (r, peers')"
  shows "incoming peers' = incoming peers"
proof -
  obtain q s where q: "request_headers loc 0 (px_session (peers ! p)) = (q, s)" by fastforce
  then have s: "ss_incoming s = ss_incoming (px_session (peers ! p))"
    by (auto simp: request_headers_def session_send_def split: if_splits)
  have "peers' = peers[p := (peers ! p)\<lparr> px_session := s \<rparr>]" using assms q by (simp add: request_peer_def)
  then have "incoming peers' = (incoming peers)[p := ss_incoming (px_session (peers ! p))]"
    by (simp add: incoming_update s)
  also have "\<dots> = incoming peers"
    by (cases "p < length peers") (simp_all add: incoming_def list_update_same_conv list_update_beyond)
  finally show ?thesis .
qed

lemma prefetch_from_incoming:
  "prefetch_from h f steps peers alive = (r, peers', alive') \<Longrightarrow> incoming peers' = incoming peers"
proof (induction steps arbitrary: peers alive)
  case Nil
  then show ?case using request_peer_incoming by (auto split: prod.splits)
next
  case (Cons step steps)
  let ?p = "(f + step) mod length peers"
  obtain q ps where q: "request_peer ?p [h] peers = (q, ps)" by fastforce
  from request_peer_incoming [OF q] Cons q show ?case
    by (cases "alive ! ?p"; cases q) (fastforce simp: Let_def)+
qed

section \<open>A turn keeps the store\<close>

text \<open>The room for what the peers still hold, and for \<open>n\<close> headers in \<open>k\<close> batches after them.\<close>

definition sync_inv :: "btc_lib \<Rightarrow> u64 \<Rightarrow> btc_store \<Rightarrow> nat \<Rightarrow> nat \<Rightarrow> sync_state \<Rightarrow> bool" where
  "sync_inv L base st0 n k sy \<longleftrightarrow> chain_inv L base (sy_store sy) \<and> finalized_le st0 (sy_store sy) \<and> rows_le st0 (sy_store sy) \<and>
     room_for (sy_store sy) (n + held (sy_peers sy)) (k + unread (sy_peers sy))"

lemma sync_inv_cong:
  "sync_inv L base st0 n k sy \<Longrightarrow> sy_store sy' = sy_store sy \<Longrightarrow> incoming (sy_peers sy') = incoming (sy_peers sy) \<Longrightarrow>
     sync_inv L base st0 n k sy'"
  using incoming_same [of "sy_peers sy'" "sy_peers sy"] by (simp add: sync_inv_def)

lemma sync_dropped_keeps:
  assumes "sync_dropped L sy = (r, sy')"
  shows "sy_store sy' = sy_store sy \<and> incoming (sy_peers sy') = incoming (sy_peers sy)"
  using assms request_peer_incoming
  by (auto simp: sync_dropped_def Let_def split: option.splits sum.splits prod.splits)

text \<open>One more batch of \<open>hs\<close> than the peers still hold.\<close>

lemma sync_batch_inv:
  assumes b: "sync_batch L net hs sy = (r, sy')" and inv: "chain_inv L base (sy_store sy)"
    and fin: "finalized_le st0 (sy_store sy)" and rows: "rows_le st0 (sy_store sy)"
    and room: "room_for (sy_store sy) (n + held (sy_peers sy) + length hs) (Suc (k + unread (sy_peers sy)))"
  shows "sync_inv L base st0 n k sy'"
proof -
  let ?h = "bl_block_hash L (last hs)"
  obtain q ps al where p: "prefetch (sy_peers sy) (sy_alive sy) (sy_cur sy) ?h = (q, ps, al)"
    by (cases "prefetch (sy_peers sy) (sy_alive sy) (sy_cur sy) ?h")
  have same: "incoming ps = incoming (sy_peers sy)" using p unfolding prefetch_def by (rule prefetch_from_incoming)
  obtain c st' where c: "connect_headers L net hs (sy_store sy) = (c, st')" by fastforce
  have c': "chain_inv L base st'" "room_for st' (n + held (sy_peers sy)) (k + unread (sy_peers sy))" "finalized_le (sy_store sy) st'"
    and grow: "rows_le (sy_store sy) st'"
    using connect_room [OF inv room c] by blast+
  have old: "sync_inv L base st0 n k sy"
    using inv fin rows room_for_mono [OF room] by (simp add: sync_inv_def)
  show ?thesis
  proof (cases q)
    case (Inl e)
    then show ?thesis using b p same old by (auto simp: sync_batch_def intro: sync_inv_cong)
  next
    case (Inr nxt)
    have "sy_peers sy' = ps" "sy_store sy' = st'"
      using b p c Inr by (auto simp: sync_batch_def Let_def split: sum.splits option.splits)
    then show ?thesis using c' finalized_le_trans [OF fin c'(3)] rows_le_trans [OF rows grow] incoming_same [OF same] by (simp add: sync_inv_def)
  qed
qed

lemma sync_step_inv:
  assumes step: "sync_step L net g h sy = (r, sy')" and J: "sync_inv L base st0 n k sy"
  shows "sync_inv L base st0 n k sy'"
proof (cases "sy_cur sy < length (sy_peers sy) \<and> sy_cur sy < length (sy_alive sy)")
  case False
  then show ?thesis using step J by (auto simp: sync_step_def)
next
  case True
  let ?px = "sy_peers sy ! sy_cur sy"
  obtain q s where q: "read_headers (px_session ?px) = (q, s)" by fastforce
  define sy1 where "sy1 = sy\<lparr> sy_peers := (sy_peers sy)[sy_cur sy := ?px\<lparr> px_session := s \<rparr>] \<rparr>"
  obtain used where used: "ss_incoming (px_session ?px) = used @ ss_incoming s"
      "\<forall>hs. q = Inr hs \<longrightarrow> (\<exists>before m. used = before @ [Inr m] \<and> rm_payload m = MHeaders hs)"
    using read_headers_reads [OF q] by (elim exE conjE) (rule that)
  have i: "sy_cur sy < length (incoming (sy_peers sy))" "incoming (sy_peers sy) ! sy_cur sy = used @ ss_incoming s"
    using True used(1) by (simp_all add: incoming_def)
  have i1: "incoming (sy_peers sy1) = (incoming (sy_peers sy))[sy_cur sy := ss_incoming s]"
    by (simp add: sy1_def incoming_update)
  have w: "unread (sy_peers sy1) + length used = unread (sy_peers sy)"
    "held (sy_peers sy1) + script_headers used = held (sy_peers sy)"
    unfolding unread_incoming held_def i1 by (rule sum_list_cut [OF i], simp add: script_headers_def)+
  have st1: "sy_store sy1 = sy_store sy" by (simp add: sy1_def)
  have J1: "sync_inv L base st0 n k sy1"
    using J w room_for_mono [of "sy_store sy" "n + held (sy_peers sy)"] by (auto simp: sync_inv_def st1)
  show ?thesis
  proof (cases q)
    case (Inl e)
    then have "sync_dropped L sy1 = (r, sy')" using step True q by (simp add: sync_step_def sy1_def)
    from sync_inv_cong [OF J1] sync_dropped_keeps [OF this] show ?thesis by blast
  next
    case (Inr hs)
    show ?thesis
    proof (cases hs)
      case Nil
      then show ?thesis using step True q Inr J1 by (simp add: sync_step_def sy1_def Let_def)
    next
      case (Cons x xs)
      then have b: "sync_batch L net hs sy1 = (r, sy')" using step True q Inr by (simp add: sync_step_def sy1_def Let_def)
      have "length hs \<le> script_headers used" "1 \<le> length used" using used(2) Inr by (auto simp: script_headers_def)
      then have "held (sy_peers sy1) + length hs \<le> held (sy_peers sy)" "Suc (unread (sy_peers sy1)) \<le> unread (sy_peers sy)"
        using w by linarith+
      then have "room_for (sy_store sy1) (n + held (sy_peers sy1) + length hs) (Suc (k + unread (sy_peers sy1)))"
        using J room_for_mono by (auto simp: sync_inv_def st1)
      with b show ?thesis using J1 by (intro sync_batch_inv) (auto simp: sync_inv_def)
    qed
  qed
qed

lemma sync_loop_inv:
  "sync_loop L net g h sy = (r, sy') \<Longrightarrow> sync_inv L base st0 n k sy \<Longrightarrow> sync_inv L base st0 n k sy'"
proof (induction L net g h sy arbitrary: r sy' rule: sync_loop.induct)
  case (1 L net g h sy)
  obtain q s where s: "sync_step L net g h sy = (q, s)" by fastforce
  from sync_step_inv [OF s "1.prems"(2)] have "sync_inv L base st0 n k s" .
  then show ?case
    using "1.prems"(1) s "1.IH" [OF s [symmetric]] by (cases q) (auto simp: sync_loop.simps [of L net g h sy])
qed

section \<open>A completed sync\<close>

definition report_true :: "btc_lib \<Rightarrow> btc_header \<Rightarrow> sync_report \<Rightarrow> btc_store \<Rightarrow> bool" where
  "report_true L genesis_header rep st \<longleftrightarrow>
     tip_height_of st = Some (sr_tip rep) \<and> chainwork st = Inr (Some (sr_chainwork rep)) \<and> best_fork st = Some 0 \<and>
     sr_peer_height rep \<le> sr_tip rep \<and> sr_finalized rep = (case finalized_height st of Some f \<Rightarrow> f | None \<Rightarrow> 0) \<and>
     (\<exists>g. header_at_best st 0 = Inr (Some g) \<and> bl_block_hash L g = bl_block_hash L genesis_header)"

lemma sync_finish_true: "sync_finish L g h sy = Inr rep \<Longrightarrow> report_true L g rep (sy_store sy)"
  unfolding sync_finish_def Let_def
  by (auto simp: bindE_Inr ensure_def of_option_def lift_core_def report_true_def word_gt_0
      split: if_splits option.splits sum.splits)

lemma sync_batch_reports: "sync_batch L net hs sy \<noteq> (Some (Inr rep), sy')"
  by (auto simp: sync_batch_def Let_def split: option.splits sum.splits prod.splits)

lemma sync_dropped_reports: "sync_dropped L sy \<noteq> (Some (Inr rep), sy')"
  by (auto simp: sync_dropped_def Let_def split: option.splits sum.splits prod.splits)

lemma sync_step_report: "sync_step L net g h sy = (Some (Inr rep), sy') \<Longrightarrow> sync_finish L g h sy' = Inr rep"
  by (auto simp: sync_step_def Let_def sync_batch_reports sync_dropped_reports
      split: if_splits sum.splits prod.splits list.splits)

lemma sync_loop_report: "sync_loop L net g h sy = (Inr rep, sy') \<Longrightarrow> sync_finish L g h sy' = Inr rep"
proof (induction L net g h sy rule: sync_loop.induct)
  case (1 L net g h sy)
  obtain q s where s: "sync_step L net g h sy = (q, s)" by fastforce
  then show ?case
    using "1.prems" "1.IH" [OF s [symmetric]] sync_step_report by (cases q) (auto simp: sync_loop.simps [of L net g h sy])
qed

definition sync_peers :: "dialer \<Rightarrow> node_settings \<Rightarrow> socket_addr list \<Rightarrow> btc_store \<Rightarrow> peer list" where
  "sync_peers dial config addrs st = po_peers (fst (pool_fill dial (max (cf_peers config) 1) (cf_limit config)
     (start_height st) addrs (new_pool (cf_user_agent config))))"

lemma sync_run_keeps:
  assumes inv: "chain_inv L base st"
    and room: "room_for st (n + held (sync_peers dial config addrs st)) (k + unread (sync_peers dial config addrs st))"
    and run: "sync_run L dial g config addrs st = (r, st')"
  shows "chain_inv L base st' \<and> room_for st' n k \<and> finalized_le st st' \<and> rows_le st st' \<and> (case r of Inl _ \<Rightarrow> True | Inr rep \<Rightarrow> report_true L g rep st')"
proof -
  obtain pool left where pf: "pool_fill dial (max (cf_peers config) 1) (cf_limit config) (start_height st) addrs
      (new_pool (cf_user_agent config)) = (pool, left)" by fastforce
  then have peers: "sync_peers dial config addrs st = po_peers pool" by (simp add: sync_peers_def)
  show ?thesis
  proof (cases "(\<exists>e. r = Inl e) \<and> st' = st")
    case True
    then show ?thesis using inv room_for_mono [OF room] by (auto simp: finalized_le_refl rows_le_refl)
  next
    case False
    then obtain loc u peers' h sy where
      req: "request_peer 0 loc (po_peers pool) = (Inr u, peers')" and
      lp: "sync_loop L (cf_network config) g h \<lparr> sy_peers = peers', sy_alive = replicate (length peers') True,
        sy_cur = 0, sy_store = st, sy_total = 0, sy_batches = 0, sy_works = [] \<rparr> = (r, sy)" and st': "st' = sy_store sy"
      using run by (auto simp: sync_run_def pf [unfolded One_nat_def] Let_def split: if_splits sum.splits prod.splits)
    have "sync_inv L base st n k \<lparr> sy_peers = peers', sy_alive = replicate (length peers') True,
        sy_cur = 0, sy_store = st, sy_total = 0, sy_batches = 0, sy_works = [] \<rparr>"
      using inv room incoming_same [OF request_peer_incoming [OF req]] by (simp add: sync_inv_def finalized_le_refl rows_le_refl peers)
    then have "sync_inv L base st n k sy" by (rule sync_loop_inv [OF lp])
    moreover have "report_true L g rep st'" if "r = Inr rep" for rep
      using sync_finish_true [OF sync_loop_report [OF lp [unfolded that]]] st' by simp
    ultimately show ?thesis using room_for_mono [of "sy_store sy"] by (auto simp: sync_inv_def st' split: sum.split)
  qed
qed

text \<open>C13. Whatever its peers send, in any order, garbage, dropped connections and forks included, a
  header sync leaves a well-formed chain store that still has every stored header and whose finalized
  checkpoint has not moved back, on every way out; and when it reports success, the report is the store: the tip, the work and the finalized
  height are those of the best chain, which is the root fork on the given genesis block, and no peer
  of the pool advertised more. The room asked for is that of the heights and forks not reaching
  the end of 64 bits within what the peers can still send.\<close>

theorem sync_keeps_chain:
  assumes inv: "chain_inv L base st"
    and room: "room_for st (held (sync_peers dial config addrs st)) (unread (sync_peers dial config addrs st))"
    and run: "sync_run L dial g config addrs st = (r, st')"
  shows "chain_inv L base st' \<and> finalized_le st st' \<and> rows_le st st' \<and> (case r of Inl _ \<Rightarrow> True | Inr rep \<Rightarrow> report_true L g rep st')"
  using sync_run_keeps [of L base st 0 dial config addrs 0 g r st'] assms by simp

text \<open>One peer with a batch of two headers, chatter before it, and nothing more.\<close>

definition demo_say :: "net_message \<Rightarrow> p2p_error + raw_message" where
  "demo_say m = Inr \<lparr> rm_magic = MAGIC, rm_payload = m \<rparr>"

definition demo_dial :: dialer where
  "demo_dial addr agent height =
    (if addr = SockV4 1 8333 then Inl P2pIo
     else Inr (\<lparr> ss_incoming = [demo_say (MPing 7), demo_say (MHeaders [demo_header 1 4 2, demo_header 2 4 3]), demo_say (MHeaders [])],
                ss_writes = 9, ss_sent = [] \<rparr>,
              \<lparr> hk_version = 0, hk_services = 0, hk_user_agent = [], hk_start_height = 2 \<rparr>))"

definition demo_settings :: node_settings where
  "demo_settings = default_settings\<lparr> cf_network := Regtest \<rparr>"

lemma demo_pool: "sync_peers demo_dial demo_settings [SockV4 1 8333, SockV4 2 8333] demo_store =
    [\<lparr> px_addr = SockV4 2 8333, px_handshake = \<lparr> hk_version = 0, hk_services = 0, hk_user_agent = [], hk_start_height = 2 \<rparr>,
       px_session = \<lparr> ss_incoming = [demo_say (MPing 7), demo_say (MHeaders [demo_header 1 4 2, demo_header 2 4 3]), demo_say (MHeaders [])],
                ss_writes = 9, ss_sent = [] \<rparr> \<rparr>]"
  by (simp add: sync_peers_def new_pool_def demo_settings_def default_settings_def demo_dial_def)

lemma demo_room: "room_for demo_store 2 3"
  by (auto simp: room_for_def chain_eval demo_defs)

lemma sync_keeps_chain_witness:
  "\<exists>r st'. sync_run demo_lib demo_dial (demo_header 0 4 1) demo_settings [SockV4 1 8333, SockV4 2 8333] demo_store = (r, st') \<and>
     chain_inv demo_lib 0 st' \<and> finalized_le demo_store st'"
proof -
  obtain r st' where r: "sync_run demo_lib demo_dial (demo_header 0 4 1) demo_settings [SockV4 1 8333, SockV4 2 8333] demo_store = (r, st')"
    by fastforce
  have "held (sync_peers demo_dial demo_settings [SockV4 1 8333, SockV4 2 8333] demo_store) = 2"
    "unread (sync_peers demo_dial demo_settings [SockV4 1 8333, SockV4 2 8333] demo_store) = 3"
    by (simp_all add: demo_pool held_def unread_def incoming_def script_headers_def demo_say_def)
  then have "room_for demo_store (held (sync_peers demo_dial demo_settings [SockV4 1 8333, SockV4 2 8333] demo_store))
      (unread (sync_peers demo_dial demo_settings [SockV4 1 8333, SockV4 2 8333] demo_store))" using demo_room by simp
  from sync_keeps_chain [OF demo_inv this r] r show ?thesis by blast
qed

text \<open>It does report.\<close>

lemma demo_store_reads:
  "tip_height_of demo_store = Some 0" "header_at_best demo_store 0 = Inr (Some (demo_header 0 4 1))"
  "tip_height_of demo_store1 = Some 2" "header_at_best demo_store1 0 = Inr (Some (demo_header 0 4 1))"
  "chainwork demo_store1 = Inr (Some 12)" "best_fork demo_store1 = Some 0" "finalized_height demo_store1 = Some 0"
  by (simp_all add: tip_height_of_def header_at_best_def chainwork_def demo_store1_def chain_eval demo_defs)

lemma demo_locator: "\<exists>loc. sync_locator demo_lib demo_store = Inr loc"
  by (simp add: sync_locator_def demo_store_reads sat_sub_def map_filter_simps Let_def)

lemma demo_sync_reports:
  "\<exists>st'. sync_run demo_lib demo_dial (demo_header 0 4 1) demo_settings [SockV4 1 8333, SockV4 2 8333] demo_store =
     (Inr \<lparr> sr_headers = 2, sr_batches = 1, sr_tip = 2, sr_finalized = 0, sr_chainwork = 12, sr_peer_height = 2 \<rparr>, st')"
proof -
  obtain loc where "sync_locator demo_lib demo_store = Inr loc" using demo_locator by blast
  then show ?thesis
    by (simp add: sync_run_def new_pool_def demo_settings_def default_settings_def demo_dial_def Let_def
      advertised_def request_peer_def request_headers_def session_send_def demo_store_reads demo_store1_result
      sync_loop.simps sync_step_def read_headers.simps next_message_def read_message_for_def demo_say_def
      sync_batch_def prefetch_def sync_finish_def of_option_def ensure_def lift_core_def DIFFICULTY_PERIOD_def)
qed

end
