(* ===== verification/Ip_Claims.thy ===== *)
theory Ip_Claims
  imports Ip_Address
begin

text \<open>
  Every address is read back from its text. As bytes it is read back unless its text has four or
  sixteen characters, which are taken for raw octets.
\<close>

section \<open>Numbers\<close>

lemma to_digit_char:
  assumes "d < 16"
  shows "to_digit 10 (digit_char d) = (if d < 10 then Some d else None)" "to_digit 16 (digit_char d) = Some d"
    "digit_char d \<noteq> CHR ''.''" "digit_char d \<noteq> CHR '':''" "digit_char d = CHR ''0'' \<longleftrightarrow> d = 0"
    "46 < (of_char (digit_char d) :: nat)" "(of_char (digit_char d) :: nat) < 128"
proof -
  have "d = 0 \<or> d = 1 \<or> d = 2 \<or> d = 3 \<or> d = 4 \<or> d = 5 \<or> d = 6 \<or> d = 7 \<or>
      d = 8 \<or> d = 9 \<or> d = 10 \<or> d = 11 \<or> d = 12 \<or> d = 13 \<or> d = 14 \<or> d = 15"
    using assms by presburger
  then show "to_digit 10 (digit_char d) = (if d < 10 then Some d else None)" "to_digit 16 (digit_char d) = Some d"
    "digit_char d \<noteq> CHR ''.''" "digit_char d \<noteq> CHR '':''" "digit_char d = CHR ''0'' \<longleftrightarrow> d = 0"
    "46 < (of_char (digit_char d) :: nat)" "(of_char (digit_char d) :: nat) < 128"
    by (auto simp: digit_char_def to_digit_def)
qed

definition radix_ok :: "nat \<Rightarrow> bool" where
  "radix_ok r \<longleftrightarrow> r = 10 \<or> r = 16"

lemma radix_digit: "radix_ok r \<Longrightarrow> d < r \<Longrightarrow> to_digit r (digit_char d) = Some d"
  using to_digit_char [of d] by (auto simp: radix_ok_def)

lemma num_text_small: "n < r \<Longrightarrow> num_text r n = [digit_char n]"
  and num_text_large: "radix_ok r \<Longrightarrow> r \<le> n \<Longrightarrow> num_text r n = num_text r (n div r) @ [digit_char (n mod r)]"
  by (auto simp: num_text.simps [of r n] radix_ok_def)

lemma num_induct [consumes 1, case_names small large]:
  assumes r: "radix_ok r" and "\<And>n. n < r \<Longrightarrow> P n" and "\<And>n. r \<le> n \<Longrightarrow> P (n div r) \<Longrightarrow> P n"
  shows "P n"
proof (induction n rule: less_induct)
  case (less n)
  show ?case
  proof (cases "n < r")
    case False
    then have "n div r < n" using r by (auto simp: radix_ok_def)
    then show ?thesis using less assms(3) False by simp
  qed (rule assms(2))
qed

lemma num_text_ne [simp]: "num_text r n \<noteq> []"
  by (subst num_text.simps) simp

text \<open>The characters of a number.\<close>

lemma num_text_chars:
  assumes "radix_ok r" and "c \<in> set (num_text r n)"
  shows "\<exists>d<r. c = digit_char d"
  using assms
proof (induction n rule: num_induct)
  case (large n)
  have "n mod r < r" using assms(1) by (auto simp: radix_ok_def)
  with large assms(1) show ?case by (auto simp: num_text_large)
qed (auto simp: num_text_small)

lemma num_text_length:
  assumes "radix_ok r" and "n < r ^ m" and "0 < m"
  shows "length (num_text r n) \<le> m"
  using assms(2,3)
proof (induction m arbitrary: n)
  case (Suc m)
  show ?case
  proof (cases "n < r")
    case False
    then have "0 < m" "n div r < r ^ m"
      using Suc.prems assms(1) by (cases m; auto simp: radix_ok_def div_less_iff_less_mult mult.commute)+
    then show ?thesis using Suc.IH [of "n div r"] False assms(1) by (simp add: num_text_large)
  qed (simp add: num_text_small)
qed simp

lemma num_text_length_ge:
  assumes "radix_ok r" and "r ^ m \<le> n"
  shows "m < length (num_text r n)"
  using assms(2)
proof (induction m arbitrary: n)
  case (Suc m)
  have r: "1 < r" using assms(1) by (auto simp: radix_ok_def)
  then have "r * 1 \<le> r * r ^ m" by (intro mult_left_mono) simp_all
  then have "r \<le> r ^ Suc m" by simp
  then have "r \<le> n" using Suc.prems by linarith
  moreover have "r ^ m \<le> n div r" using Suc.prems r by (simp add: less_eq_div_iff_mult_less_eq mult.commute)
  ultimately show ?case using Suc.IH [of "n div r"] assms(1) by (simp add: num_text_large)
qed simp

lemma num_text_zero:
  assumes "radix_ok r" and "take 1 (num_text r n) = ''0''"
  shows "length (num_text r n) = 1"
proof -
  have "take 1 (num_text r n) = ''0'' \<longrightarrow> n = 0" using assms(1)
  proof (induction n rule: num_induct)
    case (small n)
    then show ?case using assms(1) to_digit_char(5) [of n] by (auto simp: num_text_small radix_ok_def)
  next
    case (large n)
    have "take 1 (num_text r n) = take 1 (num_text r (n div r))"
      using large assms(1) by (cases "num_text r (n div r)") (auto simp: num_text_large)
    then show ?case using large assms(1) by (auto simp: radix_ok_def)
  qed
  then have "n < r" using assms by (auto simp: radix_ok_def)
  then show ?thesis by (simp add: num_text_small)
qed

lemma read_digits_append:
  "read_digits r m k n s = Some (k', n', []) \<Longrightarrow> read_digits r m k n (s @ t) = read_digits r m k' n' t"
  by (induction s arbitrary: k n) (auto split: option.splits if_splits)

lemma read_digits_num:
  assumes "radix_ok r" and "k + length (num_text r n) \<le> m"
  shows "read_digits r m k a (num_text r n) = Some (k + length (num_text r n), a * r ^ length (num_text r n) + n, [])"
  using assms
proof (induction n rule: num_induct)
  case (small n)
  then show ?case using assms(1) by (simp add: num_text_small radix_digit)
next
  case (large n)
  let ?t = "num_text r (n div r)"
  have "read_digits r m k a ?t = Some (k + length ?t, a * r ^ length ?t + n div r, [])"
    using large assms(1) by (simp add: num_text_large)
  from read_digits_append [OF this] have "read_digits r m k a (num_text r n) =
      Some (k + length ?t + 1, (a * r ^ length ?t + n div r) * r + n mod r, [])"
    using large assms(1) radix_digit [of r "n mod r"] by (auto simp: num_text_large radix_ok_def)
  moreover have "(a * r ^ length ?t + n div r) * r + n mod r = a * r ^ (length ?t + 1) + n"
    by (simp add: algebra_simps)
  ultimately show ?case using large assms(1) by (simp add: num_text_large)
qed

text \<open>What ends a number.\<close>

definition stops :: "nat \<Rightarrow> string \<Rightarrow> bool" where
  "stops r s \<longleftrightarrow> (case s of [] \<Rightarrow> True | c # _ \<Rightarrow> to_digit r c = None)"

lemma read_digits_stop: "stops r s \<Longrightarrow> read_digits r m k n s = Some (k, n, s)"
  by (cases s) (simp_all add: stops_def)

lemma read_number_num:
  assumes "radix_ok r" and "length (num_text r n) \<le> m" and "n < bound" and "stops r t"
  shows "read_number r m bound z (num_text r n @ t) = Some (n, t)"
proof -
  have d: "read_digits r m 0 0 (num_text r n @ t) = Some (length (num_text r n), n, t)"
    using read_digits_append [OF read_digits_num [OF assms(1), of 0 n m 0]] assms(2,4) by (simp add: read_digits_stop)
  obtain c cs where n: "num_text r n = c # cs" by (cases "num_text r n") auto
  from num_text_zero [OF assms(1), of n] assms(3) d show ?thesis by (auto simp: n read_number_def)
qed

lemma read_number_None: "stops r s \<Longrightarrow> read_number r m b z s = None"
  by (simp add: read_number_def read_digits_stop)

lemma stops_simps [simp]: "stops r []" "stops 10 (CHR ''.'' # s)" "stops r (CHR '':'' # s)"
  by (simp_all add: stops_def to_digit_def)

section \<open>IPv4\<close>

lemma v4_octets_four: "\<exists>a b c d. v4_octets w = [a, b, c, d]"
proof -
  have "length (v4_octets w) = Suc (Suc (Suc (Suc 0)))" by (simp add: v4_octets_def)
  then show ?thesis by (auto simp: length_Suc_conv)
qed

lemma from_v4_octets: "from_be (v4_octets w) = w"
  by (simp add: v4_octets_def from_be_u32)

lemma octet_text: "length (num_text 10 (unat (b :: u8))) \<le> 3"
  using num_text_length [of 10 "unat b" 3] unat_less_exp [of b] by (simp add: radix_ok_def)

lemma read_octet_text:
  assumes "stops 10 t"
  shows "read_octet i ((if 0 < i then ''.'' else []) @ num_text 10 (unat (b :: u8)) @ t) = Some (unat b, t)"
  using read_number_num [of 10 "unat b" 3 256 t False] octet_text [of b] unat_less_exp [of b] assms
  by (simp add: read_octet_def read_separator_def read_char_def radix_ok_def)

lemma read_v4_text:
  assumes "stops 10 t"
  shows "read_v4 (v4_text w @ t) = Some (w, t)"
proof -
  obtain a b c d where o: "v4_octets w = [a, b, c, d]" using v4_octets_four by blast
  let ?n = "\<lambda>x :: u8. num_text 10 (unat x)"
  have whole: "v4_text w @ t = ?n a @ ''.'' @ ?n b @ ''.'' @ ?n c @ ''.'' @ ?n d @ t"
    by (simp add: v4_text_def o)
  have "read_octet 0 (v4_text w @ t) = Some (unat a, ''.'' @ ?n b @ ''.'' @ ?n c @ ''.'' @ ?n d @ t)"
    using read_octet_text [of "''.'' @ ?n b @ ''.'' @ ?n c @ ''.'' @ ?n d @ t" 0 a] whole by simp
  moreover have "read_octet 1 (''.'' @ ?n b @ ''.'' @ ?n c @ ''.'' @ ?n d @ t) = Some (unat b, ''.'' @ ?n c @ ''.'' @ ?n d @ t)"
    using read_octet_text [of "''.'' @ ?n c @ ''.'' @ ?n d @ t" 1 b] by simp
  moreover have "read_octet 2 (''.'' @ ?n c @ ''.'' @ ?n d @ t) = Some (unat c, ''.'' @ ?n d @ t)"
    using read_octet_text [of "''.'' @ ?n d @ t" 2 c] by simp
  moreover have "read_octet 3 (''.'' @ ?n d @ t) = Some (unat d, t)"
    using read_octet_text [OF assms, of 3 d] by simp
  ultimately show ?thesis using from_v4_octets [of w] by (simp add: read_v4_def o)
qed

lemma read_octet_None: "stops 10 s \<Longrightarrow> read_octet 0 s = None"
  by (simp add: read_octet_def read_separator_def read_number_None)

lemma read_digits_suffix: "read_digits r m k n s = Some (k', n', t) \<Longrightarrow> set t \<subseteq> set s"
  by (induction s arbitrary: k n) (auto split: option.splits if_splits)

text \<open>Without a dot there is no IPv4 address.\<close>

lemma read_v4_no_dot:
  assumes "CHR ''.'' \<notin> set s"
  shows "read_v4 s = None"
proof (cases "read_octet 0 s")
  case (Some p)
  then obtain n t where p: "read_octet 0 s = Some (n, t)" by (cases p) auto
  then have "set t \<subseteq> set s"
    using read_digits_suffix by (fastforce simp: read_octet_def read_separator_def read_number_def split: Option.bind_splits if_splits)
  then have "read_octet 1 t = None"
    using assms by (auto simp: read_octet_def read_separator_def read_char_def split: list.splits)
  then show ?thesis by (simp add: read_v4_def p)
qed (simp add: read_v4_def)

section \<open>Groups\<close>

lemma segment_text: "length (num_text 16 (unat (g :: u16))) \<le> 4"
  using num_text_length [of 16 "unat g" 4] unat_less_exp [of g] by (simp add: radix_ok_def)

lemma read_group_text:
  assumes "stops 16 t"
  shows "read_separator CHR '':'' i (read_number 16 4 65536 True)
      ((if 0 < i then '':'' else []) @ num_text 16 (unat (g :: u16)) @ t) = Some (unat g, t)"
  using read_number_num [of 16 "unat g" 4 65536 t True] segment_text [of g] unat_less_exp [of g] assms
  by (simp add: read_separator_def read_char_def radix_ok_def)

definition groups_from :: "nat \<Rightarrow> u16 list \<Rightarrow> string" where
  "groups_from i gs = joined CHR '':'' i (map (\<lambda>s. num_text 16 (unat s)) gs)"

lemma groups_from_simps [simp]:
  "groups_from i [] = []"
  "groups_from i (g # gs) = (if 0 < i then '':'' else []) @ num_text 16 (unat g) @ groups_from (Suc i) gs"
  by (simp_all add: groups_from_def)

lemma groups_no_dot: "CHR ''.'' \<notin> set (groups_from i gs)"
proof (induction gs arbitrary: i)
  case (Cons g gs)
  have "CHR ''.'' \<notin> set (num_text 16 (unat g))"
    using num_text_chars [of 16 "CHR ''.''" "unat g"] to_digit_char(3) by (metis radix_ok_def)
  with Cons show ?case by auto
qed simp

text \<open>The end of a run of groups: the text, or the two colons.\<close>

definition group_end :: "string \<Rightarrow> bool" where
  "group_end t \<longleftrightarrow> t = [] \<or> (\<exists>u. t = CHR '':'' # CHR '':'' # u)"

lemma group_end_stops: "group_end t \<Longrightarrow> stops 16 t" "group_end t \<Longrightarrow> stops 10 t"
  by (auto simp: group_end_def)

lemma read_groups_end:
  assumes "group_end t"
  shows "read_groups limit i t = ([], False, t)"
proof -
  have s: "read_separator CHR '':'' i (read_number 16 4 65536 True) t = None"
    using assms by (auto simp: group_end_def read_separator_def read_char_def read_number_None)
  have "read_v4 u = None" if "stops 10 u" for u using read_octet_None [OF that] by (simp add: read_v4_def)
  then have "read_separator CHR '':'' i read_v4 t = None"
    using assms by (auto simp: group_end_def read_separator_def read_char_def)
  then show ?thesis by (simp add: read_groups.simps [of limit i t] s)
qed

lemma group_no_v4: "CHR ''.'' \<notin> set s \<Longrightarrow> read_separator CHR '':'' i read_v4 s = None"
  by (auto simp: read_separator_def read_char_def read_v4_no_dot split: list.splits)

lemma read_groups_text:
  assumes "group_end t" and "CHR ''.'' \<notin> set t" and "i + length gs \<le> limit"
  shows "read_groups limit i (groups_from i gs @ t) = (gs, False, t)"
  using assms(3)
proof (induction gs arbitrary: i)
  case Nil
  then show ?case using read_groups_end [OF assms(1)] by simp
next
  case (Cons g gs)
  have st: "stops 16 (groups_from (Suc i) gs @ t)" using assms(1) by (cases gs) (auto simp: group_end_stops)
  from read_group_text [OF this, of i g]
  have "read_separator CHR '':'' i (read_number 16 4 65536 True) (groups_from i (g # gs) @ t) = Some (unat g, groups_from (Suc i) gs @ t)"
    by simp
  moreover have "CHR ''.'' \<notin> set (groups_from i (g # gs) @ t)" using groups_no_dot [of i "g # gs"] assms(2) by simp
  ultimately show ?case using Cons group_no_v4
    by (simp add: read_groups.simps [of limit i "groups_from i (g # gs) @ t"] del: groups_from_simps)
qed

section \<open>IPv6\<close>

lemma from_be_u16: "from_be (to_be 2 g) = (g :: u16)"
  by (rule from_be_to_be) simp

lemma two_items: "length xs = 2 \<Longrightarrow> \<exists>x y. xs = [x, y]"
  by (auto simp: length_Suc_conv numeral_2_eq_2)

lemma in_pairs_concat: "in_pairs (concat (map (to_be 2) gs)) = gs"
proof (induction gs)
  case (Cons g gs)
  obtain x y where g: "to_be 2 g = [x, y]" using two_items [OF length_to_be] by blast
  then have "from_be [x, y] = g" using from_be_u16 [of g] by simp
  with Cons g show ?case by simp
qed simp

lemma length_concat_be: "length (concat (map (to_be 2) gs)) = 2 * length gs" for gs :: "u16 list"
  by (induction gs) auto

lemma concat_in_pairs: "even (length bs) \<Longrightarrow> concat (map (to_be 2) (in_pairs bs)) = bs"
proof (induction bs rule: in_pairs.induct)
  case (1 x y bs)
  have "to_be 2 (from_be [x, y] :: u16) = [x, y]" by (rule to_be_from_be) simp_all
  with 1 show ?case by simp
qed auto

lemma length_segments [simp]: "length (segments a) = 8"
proof -
  have "length (in_pairs bs) = length bs div 2" for bs by (induction bs rule: in_pairs.induct) auto
  then show ?thesis by (simp add: segments_def v6_octets_def)
qed

lemma of_segments_segments: "of_segments (segments a) = a"
  using concat_in_pairs [of "v6_octets a"] from_be_to_be [of 16 a] by (simp add: of_segments_def segments_def v6_octets_def)

definition zeros_at :: "u16 list \<Rightarrow> nat \<times> nat \<Rightarrow> bool" where
  "zeros_at ws = (\<lambda>(s, l). s + l \<le> length ws \<and> (\<forall>k<l. ws ! (s + k) = 0))"

lemma zero_span_zeros:
  assumes "zeros_at (pre @ ss) longest" and "zeros_at (pre @ ss) (cs, cl)" and "cl = 0 \<or> cs + cl = length pre"
  shows "zeros_at (pre @ ss) (zero_span (length pre) longest (cs, cl) ss)"
  using assms
proof (induction ss arbitrary: pre longest cs cl)
  case (Cons s ss)
  let ?c = "(if cl = 0 then length pre else cs, cl + 1)"
  let ?w = "pre @ s # ss"
  show ?case
  proof (cases "s = 0")
    case True
    have c: "zeros_at ?w ?c" using Cons.prems(2,3) True by (auto simp: zeros_at_def less_Suc_eq)
    then have "zeros_at ?w (if snd longest < snd ?c then ?c else longest)" using Cons.prems(1) by simp
    with c show ?thesis using Cons.IH [of "pre @ [s]" "if snd longest < snd ?c then ?c else longest" "fst ?c" "snd ?c"] Cons.prems(3) True
      by (simp add: Let_def split: if_splits)
  next
    case False
    have "zeros_at ?w (0, 0)" by (simp add: zeros_at_def)
    then show ?thesis using Cons.IH [of "pre @ [s]" longest 0 0] Cons.prems(1) False by simp
  qed
qed simp

lemma zero_span_none: "0 \<notin> set ss \<Longrightarrow> zero_span i longest (cs, cl) ss = longest"
  by (induction ss arbitrary: i cs cl) auto

lemma segments_text_from: "segments_text gs = groups_from 0 gs"
  by (simp add: segments_text_def groups_from_def)

lemma read_v6_full:
  assumes "length ss = 8"
  shows "read_v6 (segments_text ss) = Some (of_segments ss, [])"
  using read_groups_text [of "[]" 0 ss 8] assms by (simp add: read_v6_def segments_text_from group_end_def)

lemma read_v6_short:
  assumes "length a + length b < 8"
  shows "read_v6 (segments_text a @ ''::'' @ segments_text b) =
    Some (of_segments (a @ replicate (8 - length a - length b) 0 @ b), [])"
proof -
  have e: "group_end (''::'' @ segments_text b)" by (simp add: group_end_def)
  have d: "CHR ''.'' \<notin> set (''::'' @ segments_text b)" using groups_no_dot [of 0 b] by (simp add: segments_text_from)
  have h: "read_groups 8 0 (segments_text a @ ''::'' @ segments_text b) = (a, False, ''::'' @ segments_text b)"
    using read_groups_text [OF e d, of 0 a 8] assms by (simp add: segments_text_from)
  have t: "read_groups (7 - length a) 0 (segments_text b) = (b, False, [])"
    using read_groups_text [of "[]" 0 b "7 - length a"] assms by (simp add: segments_text_from group_end_def)
  show ?thesis using assms by (simp add: read_v6_def h [simplified] read_char_def t)
qed

lemma take_zeros:
  assumes "zeros_at ss (s, l)"
  shows "take s ss @ replicate l 0 @ drop (s + l) ss = ss"
proof -
  have l: "s + l \<le> length ss" and z: "\<And>k. k < l \<Longrightarrow> ss ! (s + k) = 0" using assms by (auto simp: zeros_at_def)
  have "take l (drop s ss) = replicate l 0" using l z by (intro nth_equalityI) auto
  then show ?thesis by (metis add.commute append_take_drop_id drop_drop)
qed

lemma mapped_segments:
  assumes "length ss = 8" and "v4_mapped ss = Some v4"
  shows "ss = [0, 0, 0, 0, 0, 0xffff] @ in_pairs (v4_octets v4)"
proof -
  let ?b = "concat (map (to_be 2) (drop 6 ss))"
  have "length ?b = 4" using assms(1) by (simp add: length_concat_be)
  then have "v4_octets v4 = ?b"
    using assms(2) to_be_from_be [of ?b 4, where ?'a = 32] by (simp add: v4_mapped_def v4_octets_def split: if_splits)
  then have "in_pairs (v4_octets v4) = drop 6 ss" by (simp add: in_pairs_concat)
  moreover have "take 6 ss = [0, 0, 0, 0, 0, 0xffff]" using assms(2) by (simp add: v4_mapped_def split: if_splits)
  ultimately show ?thesis by (metis append_take_drop_id)
qed

lemma length_in_pairs_octets: "length (in_pairs (v4_octets w)) = 2"
  using v4_octets_four [of w] by auto

lemma read_v6_mapped:
  "read_v6 (''::ffff:'' @ v4_text v4) = Some (of_segments ([0, 0, 0, 0, 0, 0xffff] @ in_pairs (v4_octets v4)), [])"
proof -
  let ?t = "''ffff:'' @ v4_text v4"
  have h: "read_groups 8 0 (''::'' @ ?t) = ([], False, ''::'' @ ?t)" by (rule read_groups_end) (simp add: group_end_def)
  have n: "read_v4 ?t = None" using read_octet_None [of ?t] by (simp add: read_v4_def stops_def to_digit_def)
  have t16: "num_text 16 65535 = ''ffff''" by (simp add: num_text.simps digit_char_def)
  have g: "read_separator CHR '':'' 0 (read_number 16 4 65536 True) ?t = Some (0xffff, CHR '':'' # v4_text v4)"
    using read_group_text [of "CHR '':'' # v4_text v4" 0 "0xffff"] by (simp add: t16)
  have v: "read_separator CHR '':'' 1 read_v4 (CHR '':'' # v4_text v4) = Some (v4, [])"
    using read_v4_text [of "[]" v4] by (simp add: read_separator_def read_char_def)
  have g1: "read_groups 7 (Suc 0) (CHR '':'' # v4_text v4) = (in_pairs (v4_octets v4), True, [])"
    using v by (simp add: read_groups.simps [of 7 "Suc 0"])
  have "read_groups 7 0 ?t = (0xffff # in_pairs (v4_octets v4), True, [])"
    using n g g1 by (simp add: read_groups.simps [of 7 0] read_separator_def)
  with h show ?thesis by (simp add: read_v6_def read_char_def length_in_pairs_octets numeral_eq_Suc)
qed

lemma read_v6_text: "read_v6 (v6_text a) = Some (a, [])"
proof (cases "v4_mapped (segments a)")
  case (Some v4)
  then show ?thesis
    using mapped_segments [OF _ Some] read_v6_mapped of_segments_segments [of a] by (simp add: v6_text_def)
next
  case None
  obtain s l where z: "zero_span 0 (0, 0) (0, 0) (segments a) = (s, l)" by fastforce
  have "zeros_at (segments a) (s, l)"
    using zero_span_zeros [of "[]" "segments a" "(0, 0)" 0 0] by (simp add: z zeros_at_def)
  then have t: "take s (segments a) @ replicate l 0 @ drop (s + l) (segments a) = segments a" and l: "s + l \<le> 8"
    by (rule take_zeros) (use \<open>zeros_at (segments a) (s, l)\<close> in \<open>simp add: zeros_at_def\<close>)
  have x: "v6_text a = (if 1 < l then segments_text (take s (segments a)) @ ''::'' @ segments_text (drop (s + l) (segments a))
      else segments_text (segments a))" by (simp add: v6_text_def None z Let_def)
  show ?thesis
  proof (cases "1 < l")
    case True
    have "8 - length (take s (segments a)) - length (drop (s + l) (segments a)) = l" using l by simp
    then show ?thesis
      using True l read_v6_short [of "take s (segments a)" "drop (s + l) (segments a)"] t
      by (simp add: x of_segments_segments)
  next
    case False
    then show ?thesis using read_v6_full [of "segments a"] by (simp add: x of_segments_segments)
  qed
qed

section \<open>The round trips\<close>

lemma v6_text_no_v4: "read_v4 (v6_text a) = None"
proof (cases "v4_mapped (segments a)")
  case (Some v4)
  then show ?thesis using read_octet_None [of "v6_text a"] by (simp add: v6_text_def read_v4_def)
next
  case None
  have "CHR ''.'' \<notin> set (v6_text a)"
    using groups_no_dot [of 0] by (simp add: v6_text_def None segments_text_from Let_def split: prod.split)
  then show ?thesis by (rule read_v4_no_dot)
qed

theorem parse_ip_text: "parse_ip (ip_text ip) = Some ip"
proof (cases ip)
  case (IpV4 a)
  then show ?thesis using read_v4_text [of "[]" a] by (simp add: parse_ip_def read_ip_def ip_text_def)
next
  case (IpV6 a)
  then show ?thesis using read_v6_text [of a] v6_text_no_v4 [of a] by (simp add: parse_ip_def read_ip_def ip_text_def)
qed

lemma ascii_byte:
  assumes "(of_char c :: nat) < 128"
  shows "char_of (unat (of_nat (of_char c) :: u8)) = c" and "(of_nat (of_char c) :: u8) < 0x80"
proof -
  have "unat (of_nat (of_char c) :: u8) = of_char c" using assms by (simp add: unat_of_nat take_bit_nat_eq_self)
  then show "char_of (unat (of_nat (of_char c) :: u8)) = c" "(of_nat (of_char c) :: u8) < 0x80"
    using assms by (simp_all add: word_less_nat_alt)
qed

lemma ascii_text:
  assumes "\<forall>c \<in> set t. (of_char c :: nat) < 128"
  shows "map (\<lambda>b. char_of (unat b)) (map (\<lambda>c. of_nat (of_char c) :: u8) t) = t"
    and "utf8_ok (map (\<lambda>c. of_nat (of_char c) :: u8) t)"
  using assms by (induction t) (simp_all add: ascii_byte del: unsigned_of_nat)

definition ip_chars :: "char set" where
  "ip_chars = {CHR ''.'', CHR '':''} \<union> digit_char ` {..<16}"

lemma ip_chars_code: "c \<in> ip_chars \<Longrightarrow> 46 \<le> (of_char c :: nat) \<and> (of_char c :: nat) < 128"
  using to_digit_char(6,7) by (fastforce simp: ip_chars_def)

lemma num_text_ip: "radix_ok r \<Longrightarrow> set (num_text r n) \<subseteq> ip_chars"
proof
  fix c assume r: "radix_ok r" and c: "c \<in> set (num_text r n)"
  obtain d where "d < r" "c = digit_char d" using num_text_chars [OF r c] by blast
  then show "c \<in> ip_chars" using r by (auto simp: ip_chars_def radix_ok_def)
qed

lemma joined_ip: "\<forall>t \<in> set ts. set t \<subseteq> ip_chars \<Longrightarrow> sep = CHR ''.'' \<or> sep = CHR '':'' \<Longrightarrow> set (joined sep i ts) \<subseteq> ip_chars"
  by (induction ts arbitrary: i) (auto simp: ip_chars_def)

lemma v4_text_ip: "set (v4_text a) \<subseteq> ip_chars"
  unfolding v4_text_def by (rule joined_ip) (simp_all add: num_text_ip radix_ok_def)

lemma segments_text_ip: "set (segments_text ss) \<subseteq> ip_chars"
  unfolding segments_text_def by (rule joined_ip) (simp_all add: num_text_ip radix_ok_def)

lemma colon_ip: "CHR '':'' \<in> ip_chars" and f_ip: "CHR ''f'' \<in> ip_chars"
proof -
  have "CHR ''f'' = digit_char 15" by (simp add: digit_char_def)
  then show "CHR '':'' \<in> ip_chars" "CHR ''f'' \<in> ip_chars" by (simp_all add: ip_chars_def)
qed

lemma v6_text_cases:
  obtains (mapped) v4 where "v6_text a = ''::ffff:'' @ v4_text v4" "v4_mapped (segments a) = Some v4"
  | (short) s l where "zero_span 0 (0, 0) (0, 0) (segments a) = (s, l)" "1 < l"
      "v6_text a = segments_text (take s (segments a)) @ ''::'' @ segments_text (drop (s + l) (segments a))"
  | (full) "v6_text a = segments_text (segments a)"
proof (cases "v4_mapped (segments a)")
  case None
  obtain s l where z: "zero_span 0 (0, 0) (0, 0) (segments a) = (s, l)" by fastforce
  show ?thesis using short [OF z] full by (cases "1 < l") (simp_all add: v6_text_def None z Let_def)
qed (use mapped in \<open>simp add: v6_text_def\<close>)

lemma ip_text_ip: "set (ip_text ip) \<subseteq> ip_chars"
proof (cases ip)
  case (IpV6 a)
  have "set (v6_text a) \<subseteq> ip_chars"
    by (cases rule: v6_text_cases [of a]) (simp_all add: v4_text_ip segments_text_ip colon_ip f_ip)
  then show ?thesis by (simp add: IpV6 ip_text_def)
qed (simp add: ip_text_def v4_text_ip)

lemma v4_text_length: "7 \<le> length (v4_text a) \<and> length (v4_text a) \<le> 15"
proof -
  obtain x y z w where o: "v4_octets a = [x, y, z, w]" using v4_octets_four by blast
  have "1 \<le> length (num_text 10 n)" for n using num_text_ne [of 10 n] by (simp add: Suc_le_eq)
  from this [of "unat x"] this [of "unat y"] this [of "unat z"] this [of "unat w"] show ?thesis
    using octet_text [of x] octet_text [of y] octet_text [of z] octet_text [of w] by (simp add: v4_text_def o)
qed

text \<open>A text of sixteen characters is not the octets of its address: no segment of such octets is
  below \<open>0x1000\<close>, so the text would have 39 characters.\<close>

lemma raw_octets_differ:
  assumes "length (v6_text a) = 16"
  shows "from_be (ip_to_bytes (IpV6 a)) \<noteq> a"
proof
  let ?bs = "ip_to_bytes (IpV6 a)"
  assume "from_be ?bs = a"
  moreover have len: "length ?bs = 16" using assms by (simp add: ip_to_bytes_def ip_text_def)
  ultimately have o: "v6_octets a = ?bs" using to_be_from_be [of ?bs 16, where ?'a = 128] by (simp add: v6_octets_def)
  have big: "46 \<le> unat b" if "b \<in> set ?bs" for b
  proof -
    obtain c where "c \<in> set (ip_text (IpV6 a))" "b = of_nat (of_char c)" using \<open>b \<in> set ?bs\<close> by (auto simp: ip_to_bytes_def)
    then show ?thesis using ip_text_ip [of "IpV6 a"] ip_chars_code [of c] by (auto simp: unat_of_nat take_bit_nat_eq_self)
  qed
  have "4096 \<le> unat s" if "s \<in> set (in_pairs bs)" "\<forall>b \<in> set bs. 46 \<le> unat b" for s bs
    using that
  proof (induction bs rule: in_pairs.induct)
    case (1 x y bs)
    have "be_nat [x, y] = unat x * 256 + unat y" by (simp add: be_nat_def)
    moreover have "unat x * 256 + unat y < 2 ^ 16" using unat_less_exp [of x] unat_less_exp [of y] by simp
    ultimately have "unat (from_be [x, y] :: u16) = unat x * 256 + unat y"
      by (simp only: from_be_def unat_of_nat len_num0 len_bit0 len_num1) (simp add: take_bit_nat_eq_self)
    moreover have "46 \<le> unat x" using 1 by simp
    ultimately have "4096 \<le> unat (from_be [x, y] :: u16)" by linarith
    with 1 show ?case by auto
  qed simp_all
  then have seg: "4096 \<le> unat s" if "s \<in> set (segments a)" for s
    using that big by (auto simp: segments_def o)
  then have nz: "0 \<notin> set (segments a)" by fastforce
  have "length (joined CHR '':'' i (map (\<lambda>s. num_text 16 (unat s)) ss)) + (if i = 0 \<and> ss \<noteq> [] then 1 else 0) = 5 * length ss"
    if "\<forall>s \<in> set ss. 4096 \<le> unat s" for i and ss :: "u16 list"
    using that
  proof (induction ss arbitrary: i)
    case (Cons s ss)
    have "3 < length (num_text 16 (unat s))" using Cons.prems num_text_length_ge [of 16 3 "unat s"] by (simp add: radix_ok_def)
    then have "length (num_text 16 (unat s)) = 4" using segment_text [of s] by simp
    then show ?case using Cons.IH [of "Suc i"] Cons.prems by simp
  qed simp
  from this [of "segments a" 0] seg have full: "length (segments_text (segments a)) = 39"
    using length_segments [of a] by (cases "segments a") (auto simp: segments_text_def)
  have "v4_mapped (segments a) = None"
    using nz length_segments [of a] set_take_subset [of 6 "segments a"] by (auto simp: v4_mapped_def)
  then have "v6_text a = segments_text (segments a)" using zero_span_none [OF nz] by (simp add: v6_text_def)
  then show False using full assms by simp
qed

lemma segments_0x12: "segments 0x12 = [0, 0, 0, 0, 0, 0, 0, 0x12]"
proof -
  have "nat_bytes k 0 = replicate k 0" for k by (induction k) (simp_all add: replicate_append_same)
  then have "v6_octets 0x12 = replicate 15 0 @ [0x12]"
    using nat_bytes_split [of 15 1 18] by (simp add: v6_octets_def to_be_def)
  moreover have "in_pairs (replicate 15 0 @ [0x12]) = [0, 0, 0, 0, 0, 0, 0, 0x12]" by code_simp
  ultimately show ?thesis by (simp add: segments_def)
qed

lemma text_0x12: "v6_text 0x12 = ''::12''"
  by (simp add: v6_text_def segments_0x12 v4_mapped_def Let_def segments_text_def num_text.simps digit_char_def)

text \<open>C40. An address turned to bytes and back is itself exactly when its text has neither four nor
  sixteen characters: these are taken for raw octets, so \<open>::12\<close> comes back as \<open>58.58.49.50\<close>. IPv4 addresses always come
  back.\<close>

theorem ip_bytes_round_trip:
  "(bytes_to_ip (ip_to_bytes ip) = Some ip \<longleftrightarrow> length (ip_text ip) \<notin> {4, 16}) \<and>
    bytes_to_ip (ip_to_bytes (IpV4 a)) = Some (IpV4 a) \<and>
    bytes_to_ip (ip_to_bytes (IpV6 0x12)) = Some (IpV4 0x3A3A3132)"
proof -
  have len: "length (ip_to_bytes ip) = length (ip_text ip)" for ip by (simp add: ip_to_bytes_def)
  have chars: "\<forall>c \<in> set (ip_text ip). (of_char c :: nat) < 128" for ip using ip_text_ip [of ip] ip_chars_code by blast
  have other: "bytes_to_ip (ip_to_bytes ip) = Some ip" if "length (ip_text ip) \<noteq> 4" "length (ip_text ip) \<noteq> 16" for ip
    using that ascii_text [OF chars [of ip]] parse_ip_text [of ip] by (simp add: bytes_to_ip_def ip_to_bytes_def)
  have v4: "length (ip_text (IpV4 a)) \<noteq> 4 \<and> length (ip_text (IpV4 a)) \<noteq> 16" for a
    using v4_text_length [of a] by (simp add: ip_text_def)
  have "bytes_to_ip (ip_to_bytes ip) = Some ip \<longleftrightarrow> length (ip_text ip) \<notin> {4, 16}"
  proof (cases ip)
    case (IpV4 a)
    then show ?thesis using other v4 by simp
  next
    case (IpV6 a)
    then show ?thesis
      using other [of ip] raw_octets_differ [of a] by (auto simp: bytes_to_ip_def len) (auto simp: ip_text_def)
  qed
  moreover have "bytes_to_ip (ip_to_bytes (IpV4 a)) = Some (IpV4 a)" using other v4 by blast
  moreover have "bytes_to_ip (ip_to_bytes (IpV6 0x12)) = Some (IpV4 0x3A3A3132)"
    by (simp add: ip_to_bytes_def ip_text_def text_0x12 bytes_to_ip_def from_be_def be_nat_def)
  ultimately show ?thesis by blast
qed

end
