(* ===== verification/Checkpoint_Export.thy ===== *)
theory Checkpoint_Export
  imports Node_Claims Ip_Claims
begin

text \<open>
  The checkpoints a node exports are a spine another node can start from: the text reads back as the
  finalized boundary headers of the best chain, and seeding an empty store with it leaves the same
  headers at the same heights.
\<close>

section \<open>The best chain reaches down to the spine\<close>

text \<open>The spine a store was seeded with: a row at every boundary up to its base.\<close>

definition boundary :: "nat \<Rightarrow> u64" where
  "boundary j = of_nat (j * 2016)"

definition spine_full :: "u64 \<Rightarrow> btc_store \<Rightarrow> bool" where
  "spine_full base st \<longleftrightarrow> (\<forall>j. j * 2016 \<le> unat base \<longrightarrow> bs_headers st (0, boundary j) \<noteq> None)"

lemma unat_boundary: "j * 2016 < 2 ^ 64 \<Longrightarrow> unat (boundary j) = j * 2016"
  by (simp only: boundary_def unat_of_nat_u64)

text \<open>Below a height a fork resolves like the owner of that height.\<close>

lemma owner_below:
  assumes "forest_ok st" and "fork_meta_of st f = Some m" and "owner_loop st h f = Some (Some ow)" and "h' \<le> h"
  shows "owner_loop st h' f = owner_loop st h' ow"
  using assms(2,3)
proof (induction "unat f" arbitrary: f m rule: less_induct)
  case less
  show ?case
  proof (cases "h \<ge> fm_forkpoint m")
    case True
    then show ?thesis using less.prems by (simp add: owner_loop.simps [of st h f])
  next
    case low: False
    then have low': "\<not> h' \<ge> fm_forkpoint m" using assms(4) by (meson order_trans)
    show ?thesis
    proof (cases "fm_parent m")
      case None
      then show ?thesis using forest_root [OF assms(1) less.prems(1) None] low by simp
    next
      case (Some p)
      obtain pm where p: "p < f" "fork_meta_of st p = Some pm" using forest_parent [OF assms(1) less.prems(1) Some] by blast
      have "unat p < unat f" using p(1) by (simp add: word_less_nat_alt)
      moreover have "owner_loop st h p = Some (Some ow)" using less.prems low Some by (simp add: owner_loop.simps [of st h f])
      ultimately have "owner_loop st h' p = owner_loop st h' ow" using less.hyps p(2) by blast
      then show ?thesis using less.prems(1) low' Some by (simp add: owner_loop.simps [of st h' f])
    qed
  qed
qed

text \<open>Every height up to the tip of a fork is stored on its chain, or is on the root chain below the base.\<close>

definition reached :: "btc_store \<Rightarrow> u64 \<Rightarrow> u64 \<Rightarrow> u64 \<Rightarrow> bool" where
  "reached st base f h \<longleftrightarrow> chain_row st f h \<noteq> None \<or> owner_loop st h f = Some (Some 0) \<and> h < base"

lemma owner_root: "chain_inv L base st \<Longrightarrow> owner_loop st h 0 = Some (Some 0)"
proof -
  assume inv: "chain_inv L base st"
  then obtain m where m: "fork_meta_of st 0 = Some m" by (auto simp: chain_inv_def)
  have fok: "forest_ok st" using inv by (simp add: chain_inv_def)
  have "fm_parent m = None"
  proof (cases "fm_parent m")
    case (Some p)
    then show ?thesis using forest_parent [OF fok m Some] by auto
  qed
  then have "fm_forkpoint m = 0" by (rule forest_root(2) [OF fok m])
  then show ?thesis using m by (intro owner_own) auto
qed

lemma reached_below:
  assumes inv: "chain_inv L base st" and m: "fork_meta_of st f = Some m" and r: "reached st base f h" and h: "0 < h"
  shows "reached st base f (h - 1)"
proof -
  have fok: "forest_ok st" and rows: "rows_ok L base st" using inv by (simp_all add: chain_inv_def)
  obtain ow where ow: "owner_loop st h f = Some (Some ow)" using owner_total [OF fok m] by blast
  have "1 \<le> h" using h by (simp add: word_le_nat_alt word_less_nat_alt)
  then have less: "h - 1 < h" using h by (simp add: word_less_nat_alt unat_sub_exact)
  have own: "owner_loop st (h - 1) f = owner_loop st (h - 1) ow"
    by (rule owner_below [OF fok m ow]) (use less in simp)
  show ?thesis
  proof (cases "chain_row st f h = None \<or> ow = 0 \<and> h \<le> base")
    case True
    then have "ow = 0" "h \<le> base" using r ow by (auto simp: reached_def)
    then show ?thesis using own owner_root [OF inv] less_le_trans [OF less] by (simp add: reached_def)
  next
    case False
    then obtain x where "bs_headers st (ow, h) = Some x" "ow \<noteq> 0 \<or> h > base" using ow by (auto simp: chain_row_def not_le)
    then have "chain_row st ow (h - 1) \<noteq> None" using rows unfolding rows_ok_def by blast
    then show ?thesis using own by (simp add: reached_def chain_row_def)
  qed
qed

lemma chain_reaches_down:
  assumes inv: "chain_inv L base st" and m: "fork_meta_of st f = Some m" and h: "h \<le> fm_tip_height m"
  shows "reached st base f h"
  using h
proof (induction "unat (fm_tip_height m) - unat h" arbitrary: h)
  case 0
  then have "h = fm_tip_height m" by (simp add: word_le_nat_alt word_unat_eq_iff)
  moreover have rows: "rows_ok L base st" using inv by (simp add: chain_inv_def)
  then obtain r where r: "bs_headers st (f, fm_tip_height m) = Some r" using m unfolding rows_ok_def by blast
  then have "fm_forkpoint m \<le> fm_tip_height m" using m rows unfolding rows_ok_def by fastforce
  ultimately show ?case using r owner_own [OF m] by (simp add: reached_def chain_row_def)
next
  case (Suc k)
  then have lt: "unat h < unat (fm_tip_height m)" by simp
  then have u: "unat (h + 1) = unat h + 1"
    using unat_bound_u64 [of "fm_tip_height m"] by (subst unat_add_exact) simp_all
  have "reached st base f (h + 1)" by (rule Suc.hyps(1)) (use Suc.hyps(2) lt u in \<open>simp_all add: word_le_nat_alt\<close>)
  moreover have "0 < h + 1" using u by (simp add: word_less_nat_alt)
  ultimately show ?case using reached_below [OF inv m] by fastforce
qed

lemma boundary_stored:
  assumes inv: "chain_inv L base st" and full: "spine_full base st" and m: "fork_meta_of st f = Some m"
    and j: "j * 2016 < 2 ^ 64" and h: "boundary j \<le> fm_tip_height m"
  shows "chain_row st f (boundary j) \<noteq> None"
proof -
  have "bs_headers st (0, boundary j) \<noteq> None" if "boundary j < base"
    using full that unat_boundary [OF j] by (simp add: spine_full_def word_less_nat_alt)
  then show ?thesis using chain_reaches_down [OF inv m h] by (auto simp: reached_def chain_row_def)
qed

lemma above_tip_not_stored:
  assumes inv: "chain_inv L base st" and m: "fork_meta_of st f = Some m" and h: "fm_tip_height m < h"
  shows "chain_row st f h = None"
proof -
  have rows: "rows_ok L base st" using inv by (simp add: chain_inv_def)
  then obtain r where "bs_headers st (f, fm_tip_height m) = Some r" using m unfolding rows_ok_def by blast
  then have "fm_forkpoint m \<le> fm_tip_height m" using m rows unfolding rows_ok_def by fastforce
  then have "owner_loop st h f = Some (Some f)" using h by (intro owner_own [OF m]) auto
  moreover have "bs_headers st (f, h) = None"
    using m h rows unfolding rows_ok_def by (cases "bs_headers st (f, h)") fastforce+
  ultimately show ?thesis by (simp add: chain_row_def)
qed

section \<open>What is exported\<close>

definition export_count :: "u64 \<Rightarrow> u64 \<Rightarrow> nat" where
  "export_count fin tip = Suc (min (unat fin) (unat tip) div 2016)"

definition best_header :: "btc_store \<Rightarrow> u64 \<Rightarrow> u64 \<Rightarrow> btc_header" where
  "best_header st b h = row_header (the (chain_row st b h))"

lemma header_at_boundary:
  assumes inv: "chain_inv L base st" and full: "spine_full base st" and m: "fork_meta_of st b = Some m"
    and j: "j * 2016 \<le> unat fin"
  shows "header_at st b (boundary j) =
    Inr (if j < export_count fin (fm_tip_height m) then Some (best_header st b (boundary j)) else None)"
proof -
  have fok: "forest_ok st" using inv by (simp add: chain_inv_def)
  have b: "j * 2016 < 2 ^ 64" using j unat_bound_u64 [of fin] by linarith
  have c: "j < export_count fin (fm_tip_height m) \<longleftrightarrow> boundary j \<le> fm_tip_height m"
    using j unat_boundary [OF b] by (simp add: export_count_def word_le_nat_alt less_Suc_eq_le less_eq_div_iff_mult_less_eq)
  show ?thesis
  proof (cases "boundary j \<le> fm_tip_height m")
    case True
    then show ?thesis using boundary_stored [OF inv full m b True] c header_at_chain_row(1) [OF fok m]
      by (auto simp: best_header_def)
  next
    case False
    then show ?thesis using above_tip_not_stored [OF inv m] c header_at_chain_row(1) [OF fok m] by (simp add: not_le)
  qed
qed

lemma checkpoints_loop_boundaries:
  assumes inv: "chain_inv L base st" and full: "spine_full base st" and m: "fork_meta_of st b = Some m"
    and fin: "unat fin + 2016 < 2 ^ 64" and i: "i \<le> Suc (unat fin div 2016)"
  shows "checkpoints_loop st b fin (boundary i) =
    Some (Inr (map (\<lambda>j. (boundary j, best_header st b (boundary j))) [i..<export_count fin (fm_tip_height m)]))"
  using i
proof (induction "Suc (unat fin div 2016) - i" arbitrary: i)
  case 0
  then have i: "i = Suc (unat fin div 2016)" by simp
  then have "i * 2016 < 2 ^ 64" "unat fin < i * 2016" using fin by auto
  then have "\<not> boundary i \<le> fin" using unat_boundary [of i] by (simp add: word_le_nat_alt)
  moreover have "export_count fin (fm_tip_height m) \<le> i" using i by (simp add: export_count_def div_le_mono)
  ultimately show ?case by (simp add: checkpoints_loop.simps [of st b fin])
next
  case (Suc k)
  then have i: "i * 2016 \<le> unat fin" by (auto simp: less_eq_div_iff_mult_less_eq [symmetric])
  then have "boundary i \<le> fin" using unat_boundary [of i] unat_bound_u64 [of fin] by (simp add: word_le_nat_alt)
  moreover have "boundary i + DIFFICULTY_PERIOD = boundary (Suc i)" by (simp add: boundary_def DIFFICULTY_PERIOD_def)
  moreover note header_at_boundary [OF inv full m i]
  moreover have "checkpoints_loop st b fin (boundary (Suc i)) =
    Some (Inr (map (\<lambda>j. (boundary j, best_header st b (boundary j))) [Suc i..<export_count fin (fm_tip_height m)]))"
    using Suc by simp
  ultimately show ?case
    by (cases "i < export_count fin (fm_tip_height m)") (simp_all add: checkpoints_loop.simps [of st b fin "boundary i"] upt_conv_Cons)
qed

definition exported :: "btc_store \<Rightarrow> u64 \<Rightarrow> u64 \<Rightarrow> u64 \<Rightarrow> (u64 \<times> btc_header) list" where
  "exported st b fin tip = map (\<lambda>j. (boundary j, best_header st b (boundary j))) [0..<export_count fin tip]"

lemma finalized_checkpoints_exported:
  assumes "chain_inv L base st" and "spine_full base st" and "best_fork st = Some b" and "fork_meta_of st b = Some m"
    and "finalized_height st = Some fin" and "unat fin + 2016 < 2 ^ 64"
  shows "finalized_checkpoints st = Inr (exported st b fin (fm_tip_height m))"
  using checkpoints_loop_boundaries [OF assms(1,2,4,6), of 0] assms(3,5)
  by (simp add: finalized_checkpoints_def exported_def boundary_def)

section \<open>Reading it back\<close>

text \<open>What is asked of the hex crate: decoding inverts encoding.\<close>

definition hex_ok :: "(string \<Rightarrow> bytes option) \<Rightarrow> bool" where
  "hex_ok hex \<longleftrightarrow> (\<forall>bs. hex (hex_encode bs) = Some bs)"

lemma digit_char_no_space: "d < 16 \<Longrightarrow> \<not> is_space (digit_char d)"
proof -
  assume "d < 16"
  then have "d = 0 \<or> d = 1 \<or> d = 2 \<or> d = 3 \<or> d = 4 \<or> d = 5 \<or> d = 6 \<or> d = 7 \<or>
      d = 8 \<or> d = 9 \<or> d = 10 \<or> d = 11 \<or> d = 12 \<or> d = 13 \<or> d = 14 \<or> d = 15" by presburger
  then show ?thesis by (auto simp: digit_char_def is_space_def)
qed

lemma hex_encode_no_space: "c \<in> set (hex_encode bs) \<Longrightarrow> \<not> is_space c"
proof -
  assume "c \<in> set (hex_encode bs)"
  then obtain b :: u8 where "c = digit_char (unat b div 16) \<or> c = digit_char (unat b mod 16)" by (auto simp: hex_encode_def)
  moreover have "unat b div 16 < 16" using unat_less_exp [of b] by simp
  ultimately show ?thesis using digit_char_no_space by auto
qed

lemma trim_no_space: "\<forall>c \<in> set s. \<not> is_space c \<Longrightarrow> trim s = s"
proof -
  assume a: "\<forall>c \<in> set s. \<not> is_space c"
  have d: "dropWhile is_space xs = xs" if "\<forall>c \<in> set xs. \<not> is_space c" for xs using that by (cases xs) auto
  show ?thesis using a d [of s] d [of "rev s"] by (simp add: trim_def)
qed

lemma trim_hex: "trim (hex_encode bs) = hex_encode bs"
  by (rule trim_no_space) (use hex_encode_no_space in blast)

lemma parse_lines_exported:
  assumes "btc_lib_ok L" and "hex_ok hex"
  shows "parse_lines L hex i (map (\<lambda>h. hex_encode (bl_encode L h)) hs) =
    Inr (map (\<lambda>j. (boundary j, hs ! (j - i))) [i..<i + length hs])"
proof (induction hs arbitrary: i)
  case (Cons h hs)
  have h: "length (bl_encode L h) = 80" "bl_decode L (bl_encode L h) = Some h" using assms(1) by (simp_all add: btc_lib_ok_def)
  have "[i..<i + length (h # hs)] = i # [Suc i..<Suc i + length hs]" by (subst upt_conv_Cons) simp_all
  moreover have "map (\<lambda>j. (boundary j, (h # hs) ! (j - i))) [Suc i..<Suc i + length hs] =
      map (\<lambda>j. (boundary j, hs ! (j - Suc i))) [Suc i..<Suc i + length hs]"
    by (intro map_cong) (auto simp: nth_Cons' Suc_diff_le)
  ultimately show ?case using Cons.IH [of "Suc i"] h assms(2)
    by (simp add: trim_hex hex_ok_def of_option_def ensure_def) (simp add: boundary_def DIFFICULTY_PERIOD_def)
qed simp

lemma parse_exported:
  assumes "btc_lib_ok L" and "hex_ok hex"
  shows "parse_spine L hex (map (\<lambda>(_, h). hex_encode (bl_encode L h)) (exported st b fin tip)) = Inr (exported st b fin tip)"
proof -
  let ?hs = "map (\<lambda>j. best_header st b (boundary j)) [0..<export_count fin tip]"
  have lines: "map (\<lambda>(_, h). hex_encode (bl_encode L h)) (exported st b fin tip) = map (\<lambda>h. hex_encode (bl_encode L h)) ?hs"
    by (simp add: exported_def comp_def)
  have "hex_encode (bl_encode L h) \<noteq> []" for h
  proof -
    have "length (bl_encode L h) = 80" using assms(1) by (simp add: btc_lib_ok_def)
    then show ?thesis by (cases "bl_encode L h") (auto simp: hex_encode_def)
  qed
  then have "filter (\<lambda>l. trim l \<noteq> []) (map (\<lambda>h. hex_encode (bl_encode L h)) ?hs) = map (\<lambda>h. hex_encode (bl_encode L h)) ?hs"
    by (intro filter_True) (auto simp: trim_hex)
  moreover have "map (\<lambda>j. (boundary j, ?hs ! (j - 0))) [0..<0 + length ?hs] = exported st b fin tip"
    unfolding exported_def by (intro nth_equalityI) simp_all
  ultimately show ?thesis using parse_lines_exported [OF assms, of 0 ?hs] by (simp add: parse_spine_def lines)
qed

section \<open>Starting from a spine\<close>

definition spine_list :: "(u64 \<times> btc_header) list \<Rightarrow> bool" where
  "spine_list es \<longleftrightarrow> es \<noteq> [] \<and> (\<forall>j < length es. fst (es ! j) = boundary j) \<and> length es * 2016 < 2 ^ 64"

definition anchored :: "btc_lib \<Rightarrow> btc_store \<Rightarrow> bool" where
  "anchored L st \<longleftrightarrow> (\<exists>base. chain_inv L base st \<and> spine_full base st)"

lemma spine_list_take: "spine_list es \<Longrightarrow> 0 < n \<Longrightarrow> spine_list (take n es)"
proof -
  assume "spine_list es" "0 < n"
  moreover have "length (take n es) * 2016 \<le> length es * 2016" by simp
  ultimately show ?thesis unfolding spine_list_def by (auto simp del: length_take intro: le_less_trans) simp
qed

lemma spine_list_sorted:
  assumes "spine_list es"
  shows "sorted (map fst es)" and "contiguous es" and "fst (last es) = boundary (length es - 1)"
proof -
  have len: "length es * 2016 < 2 ^ 64" and at: "\<And>j. j < length es \<Longrightarrow> fst (es ! j) = boundary j"
    using assms by (auto simp: spine_list_def)
  show "sorted (map fst es)"
    using len by (auto simp: sorted_iff_nth_mono word_le_nat_alt at unat_boundary)
  have "contiguous es" if "\<And>j. Suc j < length es \<Longrightarrow> fst (es ! Suc j) = fst (es ! j) + DIFFICULTY_PERIOD" for es :: "(u64 \<times> btc_header) list"
    using that
  proof (induction es rule: contiguous.induct)
    case (1 h1 a h2 b es)
    have "contiguous ((h2, b) # es)" using "1.prems" [of "Suc _"] by (intro "1.IH") auto
    then show ?case using "1.prems" [of 0] by simp
  qed simp_all
  then show "contiguous es" using at by (simp add: boundary_def DIFFICULTY_PERIOD_def)
  show "fst (last es) = boundary (length es - 1)" using assms by (simp add: spine_list_def last_conv_nth)
qed

lemma seed_spine:
  assumes "spine_list es"
  shows "\<exists>st'. seed_checkpoints L net es empty_btc_store = (Inr (), st') \<and>
    finalized_height st' = Some (boundary (length es - 1)) \<and>
    chain_inv L (boundary (length es - 1)) st' \<and> spine_full (boundary (length es - 1)) st' \<and>
    (\<forall>j < length es. header_at_best st' (boundary j) = Inr (Some (snd (es ! j))))"
proof -
  note S = spine_list_sorted [OF assms]
  have ne: "es \<noteq> []" and at: "\<And>j. j < length es \<Longrightarrow> fst (es ! j) = boundary j" and len: "length es * 2016 < 2 ^ 64"
    using assms by (auto simp: spine_list_def)
  have srt: "sort_key fst es = es" using S(1) by (rule sort_key_id_if_sorted)
  then have sp: "spine_entries es = es" by (simp add: spine_entries_def)
  have "\<exists>st1. seed_checkpoints_txn L es empty_btc_store = Inr st1"
    using ne S(2) by (simp add: seed_checkpoints_txn_def srt Let_def ensure_def fork_meta_of_def empty_btc_store_def split: prod.splits)
  then obtain st1 where seed: "seed_checkpoints_txn L es empty_btc_store = Inr st1" by blast
  define st' where "st' = set_network L net st1"
  have st': "seed_checkpoints L net es empty_btc_store = (Inr (), st')" using seed by (simp add: seed_checkpoints_def st'_def)
  note C = seeded_chain [OF st', unfolded sp S(3)]
  have "bs_headers st' (0, boundary j) \<noteq> None" if "j * 2016 \<le> unat (boundary (length es - 1))" for j
  proof -
    have "(length es - 1) * 2016 < 2 ^ 64" using len by linarith
    then have "j < length es" using that unat_boundary [of "length es - 1"] ne by (cases es) auto
    then show ?thesis using seeded_store(4) [OF seed, of j] at by (simp add: sp st'_def set_network_def)
  qed
  then have "spine_full (boundary (length es - 1)) st'" by (simp add: spine_full_def)
  then show ?thesis using st' C at by (auto simp: header_at_best_def)
qed

lemma parsed_spine_list:
  assumes "parse_spine L hex ls = Inr es" and "es \<noteq> []" and "length es * 2016 < 2 ^ 64"
  shows "spine_list es"
proof -
  let ?ls = "filter (\<lambda>l. trim l \<noteq> []) ls"
  have p: "parse_lines L hex 0 ?ls = Inr es" using assms(1) by (simp add: parse_spine_def)
  have hts: "map fst es = map (\<lambda>j. of_nat j * DIFFICULTY_PERIOD) [0..<length ?ls]"
    using parse_lines_heights [OF p] by simp
  have "fst (es ! j) = boundary j" if "j < length es" for j
  proof -
    have "length es = length ?ls" using arg_cong [OF hts, of length] by simp
    then have "fst (es ! j) = of_nat j * DIFFICULTY_PERIOD" using arg_cong [OF hts, of "\<lambda>xs. xs ! j"] that by simp
    then show ?thesis by (simp add: boundary_def DIFFICULTY_PERIOD_def)
  qed
  then show ?thesis using assms by (simp add: spine_list_def)
qed

lemma exported_spine_list:
  assumes "unat fin + 2016 < 2 ^ 64"
  shows "spine_list (exported st b fin tip)"
proof -
  have "export_count fin tip \<le> Suc (unat fin div 2016)" by (simp add: export_count_def div_le_mono)
  then have "export_count fin tip * 2016 \<le> Suc (unat fin div 2016) * 2016" by (rule mult_le_mono1)
  moreover have "unat fin div 2016 * 2016 \<le> unat fin" by simp
  ultimately have "export_count fin tip * 2016 \<le> unat fin + 2016" by simp
  then have "export_count fin tip * 2016 < 2 ^ 64" using assms by linarith
  then show ?thesis by (simp add: spine_list_def exported_def export_count_def del: upt_Suc)
qed

section \<open>From one node to the next\<close>

lemma empty_no_tip: "tip_height_of empty_btc_store = None"
  by (simp add: tip_height_of_def best_fork_def meta_u64_def empty_btc_store_def)

text \<open>A store grown from an anchored one is anchored.\<close>

lemma spine_full_rows: "spine_full base st \<Longrightarrow> rows_le st st' \<Longrightarrow> spine_full base st'"
  unfolding spine_full_def rows_le_def map_le_def dom_def by (metis (mono_tags, lifting) mem_Collect_eq)

text \<open>Planting the anchor leaves an anchored store and the height above its base, or an untouched one.\<close>

lemma plant_anchors:
  assumes plant: "plant_anchor L hex spine_lines g config empty_btc_store = (r, st')" and small: "length spine_lines * 2016 < 2 ^ 64"
  shows "st' = empty_btc_store \<or> (\<exists>base. r = Inr (base + 1) \<and> chain_inv L base st' \<and> spine_full base st' \<and>
    unat base \<le> length spine_lines * 2016 \<and> finalized_height st' = Some base)"
proof (cases "cf_anchor config")
  case AnchorGenesis
  have g: "spine_list [(0, g)]" by (simp add: spine_list_def boundary_def)
  obtain st1 where st1: "seed_checkpoints L (cf_network config) [(0, g)] empty_btc_store = (Inr (), st1)"
    "finalized_height st1 = Some 0" "chain_inv L 0 st1" "spine_full 0 st1"
    using seed_spine [OF g, of L "cf_network config"] by (auto simp: boundary_def)
  then have "r = Inr 1" "st' = st1" using plant by (simp_all add: plant_anchor_def empty_no_tip AnchorGenesis)
  then show ?thesis using st1 by (intro disjI2 exI [of _ 0]) simp
next
  case (AnchorSpine periods)
  show ?thesis
  proof (cases "parse_spine L hex spine_lines")
    case (Inl e)
    then show ?thesis using plant by (simp add: plant_anchor_def empty_no_tip AnchorSpine)
  next
    case (Inr spine)
    let ?pre = "take (length spine - unat periods) spine"
    show ?thesis
    proof (cases "unat periods < length spine")
      case False
      then show ?thesis using plant Inr by (simp add: plant_anchor_def empty_no_tip AnchorSpine)
    next
      case True
      have "length spine = length (filter (\<lambda>l. trim l \<noteq> []) spine_lines)"
        using arg_cong [OF parse_lines_heights [OF Inr [unfolded parse_spine_def]], of length] by simp
      then have len: "length spine \<le> length spine_lines" by simp
      then have "length spine * 2016 < 2 ^ 64" using small by (meson le_less_trans mult_le_mono1)
      then have "spine_list spine" using True by (intro parsed_spine_list [OF Inr]) auto
      then have sl: "spine_list ?pre" using True by (intro spine_list_take) simp_all
      let ?b = "boundary (length ?pre - 1)"
      obtain st1 where st1: "seed_checkpoints L (cf_network config) ?pre empty_btc_store = (Inr (), st1)"
        "finalized_height st1 = Some ?b" "chain_inv L ?b st1" "spine_full ?b st1"
        using seed_spine [OF sl, of L "cf_network config"] by auto
      have "?pre \<noteq> []" using sl by (simp add: spine_list_def)
      then have "r = Inr (?b + 1)" "st' = st1"
        using plant True Inr st1(1) spine_list_sorted(3) [OF sl] by (simp_all add: plant_anchor_def empty_no_tip AnchorSpine)
      moreover have "(length ?pre - 1) * 2016 \<le> length spine_lines * 2016" using len by (intro mult_le_mono1) simp
      moreover from this have "unat ?b = (length ?pre - 1) * 2016" using small by (intro unat_boundary) linarith
      ultimately show ?thesis using st1 by (intro disjI2 exI [of _ ?b]) simp
    qed
  qed
qed

text \<open>C22. The checkpoints a node exports anchor another node. From any anchored store the export
  returns, with one line for each boundary up to the finalized height that the best chain has; the
  lines read back as the exported headers, and a fresh node that has them as its spine starts above the last of them,
  well formed and anchored in turn, with the headers of the exporting node at every boundary.\<close>

theorem exported_checkpoints_anchor:
  assumes lib: "btc_lib_ok L" and hex: "hex_ok hex" and anc: "anchored L st"
    and fin: "finalized_height st = Some fin" and small: "unat fin + 2016 < 2 ^ 64"
    and config: "cf_anchor config = AnchorSpine 0"
  shows "\<exists>tip exported_lines n st'. tip_height_of st = Some tip \<and>
    export_checkpoints L st = Inr exported_lines \<and> n = min (unat fin) (unat tip) div 2016 \<and> length exported_lines = Suc n \<and>
    plant_anchor L hex exported_lines g config empty_btc_store = (Inr (boundary n + 1), st') \<and>
    anchored L st' \<and> finalized_height st' = Some (boundary n) \<and>
    (\<forall>j \<le> n. \<exists>h. header_at_best st (boundary j) = Inr (Some h) \<and> header_at_best st' (boundary j) = Inr (Some h))"
proof -
  obtain base where inv: "chain_inv L base st" and full: "spine_full base st" using anc by (auto simp: anchored_def)
  obtain b m where b: "best_fork st = Some b" "fork_meta_of st b = Some m" using inv by (auto simp: chain_inv_def)
  let ?tip = "fm_tip_height m" and ?n = "min (unat fin) (unat (fm_tip_height m)) div 2016"
  let ?es = "exported st b fin ?tip"
  let ?ls = "map (\<lambda>(_, h). hex_encode (bl_encode L h)) ?es"
  have len: "length ?es = Suc ?n" by (simp add: exported_def export_count_def)
  have tip: "tip_height_of st = Some ?tip" using b by (simp add: tip_height_of_def fork_tip_def)
  have exp: "export_checkpoints L st = Inr ?ls"
    using finalized_checkpoints_exported [OF inv full b fin small] fin len
    by (auto simp: export_checkpoints_def lift_core_def ensure_def of_option_def)
  have sl: "spine_list ?es" using small by (rule exported_spine_list)
  obtain st' where st': "seed_checkpoints L (cf_network config) ?es empty_btc_store = (Inr (), st')"
    "finalized_height st' = Some (boundary ?n)" "chain_inv L (boundary ?n) st'" "spine_full (boundary ?n) st'"
    "\<And>j. j < Suc ?n \<Longrightarrow> header_at_best st' (boundary j) = Inr (Some (snd (?es ! j)))"
    using seed_spine [OF sl, of L "cf_network config"] len by auto
  have "plant_anchor L hex ?ls g config empty_btc_store = (Inr (boundary ?n + 1), st')"
    using st'(1) parse_exported [OF lib hex, of st b fin ?tip] len spine_list_sorted(3) [OF sl] sl
    by (simp add: plant_anchor_def empty_no_tip config spine_list_def)
  moreover have "header_at_best st (boundary j) = Inr (Some (snd (?es ! j)))" if "j \<le> ?n" for j
  proof -
    have "j * 2016 \<le> unat fin" using that by (simp add: less_eq_div_iff_mult_less_eq)
    from header_at_boundary [OF inv full b(2) this] that show ?thesis
      using b(1) by (simp add: header_at_best_def exported_def export_count_def less_Suc_eq_le del: upt_Suc)
  qed
  moreover have "anchored L st'" using st'(3,4) by (auto simp: anchored_def)
  ultimately show ?thesis using tip exp len st'(2,5)
    by (intro exI [of _ ?tip] exI [of _ ?ls] exI [of _ ?n] exI [of _ st']) auto
qed

text \<open>The checkpoint of a store seeded with a genesis block, with a hex decoder.\<close>

fun hex_decode :: "string \<Rightarrow> bytes option" where
  "hex_decode [] = Some []"
| "hex_decode [c] = None"
| "hex_decode (c # d # s) =
     (case (to_digit 16 c, to_digit 16 d, hex_decode s) of
        (Some a, Some b, Some bs) \<Rightarrow> Some (of_nat (a * 16 + b) # bs)
      | _ \<Rightarrow> None)"

lemma hex_decode_ok: "hex_ok hex_decode"
proof -
  have "hex_decode (hex_encode bs) = Some bs" for bs
  proof (induction bs)
    case (Cons b bs)
    have "unat b div 16 < 16" using unat_less_exp [of b] by simp
    then have d: "to_digit 16 (digit_char (unat b div 16)) = Some (unat b div 16)"
      "to_digit 16 (digit_char (unat b mod 16)) = Some (unat b mod 16)" by (simp_all add: to_digit_char(2))
    have "hex_encode (b # bs) = digit_char (unat b div 16) # digit_char (unat b mod 16) # hex_encode bs"
      by (simp add: hex_encode_def)
    moreover have "(of_nat (unat b div 16 * 16 + unat b mod 16) :: u8) = b" by (simp only: div_mult_mod_eq) simp
    ultimately show ?case using Cons d by (simp del: of_nat_add)
  qed (simp add: hex_encode_def)
  then show ?thesis by (simp add: hex_ok_def)
qed

lemma demo_anchored: "anchored demo_lib demo_store1"
proof -
  have "spine_full 0 demo_store1"
    by (auto simp: spine_full_def boundary_def demo_store1_def chain_eval demo_defs)
  then show ?thesis using demo_inv1 by (auto simp: anchored_def)
qed

lemma exported_checkpoints_anchor_witness:
  "\<exists>exported_lines st'. export_checkpoints demo_lib demo_store1 = Inr exported_lines \<and> length exported_lines = 1 \<and>
    plant_anchor demo_lib hex_decode exported_lines (demo_header 0 4 1) default_settings empty_btc_store = (Inr 1, st') \<and>
    anchored demo_lib st'"
  using exported_checkpoints_anchor [OF demo_lib_ok hex_decode_ok demo_anchored demo_store_reads(7), of default_settings "demo_header 0 4 1"]
  by (auto simp: default_settings_def boundary_def)

end
