(* ===== verification/Cli.thy ===== *)
theory Cli
  imports Checkpoint_Export Core_System
begin

text \<open>
  The command line: \<open>cli/src/main.rs\<close> over \<open>Node::open\<close>. What the machine does is an argument: which
  directories and files it opens, its names and its peers. The files are the state; a store file is the
  database of the core, as its last committed transaction left it. Parsing the arguments belongs to
  clap, so a command is its parsed value.
\<close>

section \<open>Files and machines\<close>

datatype disk_file =
    StoreFile core_state
  | OtherFile string

type_synonym files = "string \<Rightarrow> disk_file option"

record host =
  ho_dir :: "string \<Rightarrow> string option"
  ho_opens :: "string \<Rightarrow> bool"
  ho_file :: "string \<Rightarrow> string option"
  ho_stdout :: bool
  ho_dns :: resolver
  ho_dial :: dialer

text \<open>What is compiled in: the libraries, the embedded spine and the genesis block of each network.\<close>

record program =
  pr_lib :: btc_lib
  pr_hex :: "string \<Rightarrow> bytes option"
  pr_spine :: "string list"
  pr_genesis :: "network \<Rightarrow> btc_header"

datatype cli_error =
    DirError
  | StoreError
  | NodeError sync_error
  | WriteError

text \<open>An absent or empty file becomes an empty database, with its tables; anything but a database is refused.\<close>

definition store_open :: "host \<Rightarrow> string \<Rightarrow> files \<Rightarrow> (core_state \<times> files) option" where
  "store_open h path fs =
     (let fresh = Some (core_open, fs(path \<mapsto> StoreFile core_open))
      in if \<not> ho_opens h path then None
         else case fs path of
                None \<Rightarrow> fresh
              | Some (StoreFile cs) \<Rightarrow> Some (cs, fs)
              | Some (OtherFile t) \<Rightarrow> if t = [] then fresh else None)"

record node =
  nd_path :: string
  nd_core :: core_state
  nd_config :: node_settings

definition node_open :: "host \<Rightarrow> node_settings \<Rightarrow> files \<Rightarrow> (cli_error + node) \<times> files" where
  "node_open h config fs =
     (case ho_dir h (cf_data_dir config) of
        None \<Rightarrow> (Inl DirError, fs)
      | Some data_dir \<Rightarrow>
          let store_path = data_dir @ ''/chain.redb''
          in case store_open h store_path fs of
               None \<Rightarrow> (Inl StoreError, fs)
             | Some (core, fs') \<Rightarrow> (Inr \<lparr> nd_path = store_path, nd_core = core, nd_config = config \<rparr>, fs'))"

section \<open>Commands\<close>

record sync_args =
  sa_data_dir :: string
  sa_cut :: u64
  sa_from_genesis :: bool
  sa_peers :: nat
  sa_addr :: "socket_addr list"
  sa_seed :: "string list"
  sa_limit :: nat

record export_args =
  ea_data_dir :: string
  ea_out :: "string option"

datatype command =
    Sync sync_args
  | ExportCheckpoints export_args

text \<open>The values of arguments that are not given.\<close>

definition sync_defaults :: sync_args where
  "sync_defaults = \<lparr> sa_data_dir = ''data/rsk-one'', sa_cut = 0, sa_from_genesis = False, sa_peers = 3, sa_addr = [],
     sa_seed = [], sa_limit = 8 \<rparr>"

datatype cli_output =
    Quiet
  | Printed string

definition sync_settings :: "sync_args \<Rightarrow> node_settings" where
  "sync_settings a = default_settings\<lparr> cf_data_dir := sa_data_dir a,
     cf_anchor := (if sa_from_genesis a then AnchorGenesis else AnchorSpine (sa_cut a)),
     cf_peers := sa_peers a, cf_limit := sa_limit a, cf_addrs := sa_addr a, cf_seeds := sa_seed a \<rparr>"

definition sync_command :: "program \<Rightarrow> host \<Rightarrow> sync_args \<Rightarrow> files \<Rightarrow> (cli_error + cli_output) \<times> files" where
  "sync_command p h args fs =
     (case node_open h (sync_settings args) fs of
        (Inl e, fs1) \<Rightarrow> (Inl e, fs1)
      | (Inr node, fs1) \<Rightarrow>
          let config = nd_config node;
              (r, st) = node_sync (pr_lib p) (pr_hex p) (pr_spine p) (pr_genesis p (cf_network config)) (ho_dns h) (ho_dial h)
                  config (cs_btc (nd_core node))
          in (case r of Inl e \<Rightarrow> Inl (NodeError e) | Inr _ \<Rightarrow> Inr Quiet,
              fs1(nd_path node \<mapsto> StoreFile ((nd_core node)\<lparr> cs_btc := st \<rparr>))))"

definition checkpoints_text :: "string list \<Rightarrow> string" where
  "checkpoints_text ls = concat (map (\<lambda>l. l @ ''\<newline>'') ls)"

definition export_command :: "program \<Rightarrow> host \<Rightarrow> export_args \<Rightarrow> files \<Rightarrow> (cli_error + cli_output) \<times> files" where
  "export_command p h args fs =
     (case node_open h (default_settings\<lparr> cf_data_dir := ea_data_dir args \<rparr>) fs of
        (Inl e, fs1) \<Rightarrow> (Inl e, fs1)
      | (Inr node, fs1) \<Rightarrow>
          (case export_checkpoints (pr_lib p) (cs_btc (nd_core node)) of
             Inl e \<Rightarrow> (Inl (NodeError e), fs1)
           | Inr ls \<Rightarrow>
               (case ea_out args of
                  Some out \<Rightarrow>
                    (case ho_file h out of
                       None \<Rightarrow> (Inl WriteError, fs1)
                     | Some path \<Rightarrow> (Inr Quiet, fs1(path \<mapsto> OtherFile (checkpoints_text ls))))
                | None \<Rightarrow> (if ho_stdout h then Inr (Printed (checkpoints_text ls)) else Inl WriteError, fs1))))"

definition run_command :: "program \<Rightarrow> host \<Rightarrow> command \<Rightarrow> files \<Rightarrow> (cli_error + cli_output) \<times> files" where
  "run_command p h c fs = (case c of Sync args \<Rightarrow> sync_command p h args fs | ExportCheckpoints args \<Rightarrow> export_command p h args fs)"

text \<open>Commands one after the other, each on the machine as it is then.\<close>

fun run_commands :: "program \<Rightarrow> (host \<times> command) list \<Rightarrow> files \<Rightarrow> (cli_error + cli_output) list \<times> files" where
  "run_commands p [] fs = ([], fs)"
| "run_commands p ((h, c) # cs) fs =
     (let (r, fs1) = run_command p h c fs; (rs, fs2) = run_commands p cs fs1 in (r # rs, fs2))"

section \<open>Every store stays well formed\<close>

text \<open>What the peers may send in the sync of a command.\<close>

definition bounded_peers :: "nat \<Rightarrow> nat \<Rightarrow> host \<times> command \<Rightarrow> bool" where
  "bounded_peers n k = (\<lambda>(h, c). case c of
     ExportCheckpoints args \<Rightarrow> True
   | Sync args \<Rightarrow> (\<forall>addrs st. held (sync_peers (ho_dial h) (sync_settings args) addrs st) \<le> n \<and>
       unread (sync_peers (ho_dial h) (sync_settings args) addrs st) \<le> k))"

definition chain_ready :: "btc_lib \<Rightarrow> nat \<Rightarrow> nat \<Rightarrow> btc_store \<Rightarrow> bool" where
  "chain_ready L n k st \<longleftrightarrow> st = empty_btc_store \<or> anchored L st \<and> room_for st n k"

definition grows :: "btc_store \<Rightarrow> btc_store \<Rightarrow> bool" where
  "grows st st' \<longleftrightarrow> finalized_le st st' \<and> rows_le st st'"

lemma grows_refl: "grows st st"
  by (simp add: grows_def finalized_le_refl rows_le_refl)

lemma grows_trans: "grows a b \<Longrightarrow> grows b c \<Longrightarrow> grows a c"
  unfolding grows_def using finalized_le_trans rows_le_trans by blast

lemma grows_empty: "grows empty_btc_store st"
  by (simp add: grows_def finalized_le_def rows_le_def finalized_height_def meta_u64_def empty_btc_store_def)

lemma chain_ready_mono: "chain_ready L n k st \<Longrightarrow> n' \<le> n \<Longrightarrow> k' \<le> k \<Longrightarrow> chain_ready L n' k' st"
  using room_for_mono by (auto simp: chain_ready_def)

lemma plant_seeds:
  assumes "plant_anchor L hex ls g config empty_btc_store = (r, st')"
  shows "st' = empty_btc_store \<and> (\<exists>e. r = Inl e) \<or> (\<exists>es. seed_checkpoints L (cf_network config) es empty_btc_store = (Inr (), st') \<and>
    (es = [(0, g)] \<or> (\<exists>spine. parse_spine L hex ls = Inr spine \<and> set es \<subseteq> set spine)))"
proof -
  have failed: "st1 = empty_btc_store" if "seed_checkpoints L net es empty_btc_store = (Inl e, st1)" for net es e st1
    using that by (auto simp: seed_checkpoints_def split: sum.splits)
  show ?thesis using assms failed
    by (fastforce simp: plant_anchor_def empty_no_tip Let_def split: anchor.splits sum.splits prod.splits if_splits dest: in_set_takeD)
qed

lemma seeded_not_empty: "seed_checkpoints L net es empty_btc_store = (Inr (), st') \<Longrightarrow> st' \<noteq> empty_btc_store"
  using seeded_chain [of L net es st'] by (auto simp: best_fork_def meta_u64_def empty_btc_store_def)

lemma ready_no_tip:
  assumes "chain_ready L n k st" and "tip_height_of st = None"
  shows "st = empty_btc_store"
proof (rule ccontr)
  assume "st \<noteq> empty_btc_store"
  then obtain base where "chain_inv L base st" using assms(1) by (auto simp: chain_ready_def anchored_def)
  then show False using assms(2) by (auto simp: chain_inv_def tip_height_of_def fork_tip_def)
qed

lemma plant_done:
  assumes "plant_anchor L hex ls g config st = (Inr h, st')" and "chain_ready L n k st"
  shows "st' \<noteq> empty_btc_store"
proof (cases "tip_height_of st")
  case (Some tip)
  then show ?thesis using assms(1) empty_no_tip by (auto simp: plant_anchor_def)
next
  case None
  then have "st = empty_btc_store" using assms(2) by (intro ready_no_tip)
  then show ?thesis using plant_seeds assms(1) seeded_not_empty by fastforce
qed

lemma plant_ready:
  assumes plant: "plant_anchor L hex ls g config st = (r, st')" and ready: "chain_ready L n k st"
    and small: "length ls * 2016 + n < 2 ^ 64 - 1" and k: "Suc k < 2 ^ 64 - 1"
  shows "chain_ready L n k st' \<and> grows st st'"
proof (cases "tip_height_of st")
  case (Some tip)
  then show ?thesis using plant ready by (simp add: plant_anchor_def grows_refl)
next
  case None
  then have "st = empty_btc_store" using ready by (intro ready_no_tip)
  note p = plant [unfolded this]
  have "chain_ready L n k st'" if ne: "st' \<noteq> empty_btc_store"
  proof -
    have anc: "anchored L st'" using plant_anchors [OF p] small ne by (auto simp: anchored_def)
    obtain es where es: "seed_checkpoints L (cf_network config) es empty_btc_store = (Inr (), st')"
      "es = [(0, g)] \<or> (\<exists>spine. parse_spine L hex ls = Inr spine \<and> set es \<subseteq> set spine)"
      using plant_seeds [OF p] ne by blast
    have "\<forall>(h, _) \<in> set es. unat h + n < 2 ^ 64 - 1"
      using es(2)
    proof (elim disjE exE conjE)
      fix spine assume s: "parse_spine L hex ls = Inr spine" "set es \<subseteq> set spine"
      let ?fl = "filter (\<lambda>l. trim l \<noteq> []) ls"
      have m: "map fst spine = map (\<lambda>j. of_nat j * DIFFICULTY_PERIOD) [0..<0 + length ?fl]"
        using parse_lines_heights [OF s(1) [unfolded parse_spine_def]] .
      have "unat h \<le> length ls * 2016" if "(h, x) \<in> set spine" for h x
      proof -
        have "h \<in> set (map fst spine)" using that by force
        then obtain j where j: "j < length ?fl" "h = boundary j" unfolding m by (auto simp: boundary_def DIFFICULTY_PERIOD_def)
        have "length ?fl \<le> length ls" by simp
        then have "j * 2016 \<le> length ls * 2016" using j(1) by (intro mult_le_mono1) linarith
        moreover from this have "unat h = j * 2016" unfolding j(2) using small by (intro unat_boundary) linarith
        ultimately show ?thesis by simp
      qed
      then show ?thesis using s(2) small by fastforce
    qed (use small in simp)
    from seed_ready [OF es(1) this k] ne anc show ?thesis by (auto simp: btc_ready_def chain_ready_def)
  qed
  then show ?thesis using grows_empty \<open>st = empty_btc_store\<close> by (auto simp: chain_ready_def)
qed

lemma node_sync_ready:
  assumes run: "node_sync L hex ls g dns dial config st = (r, st')" and ready: "chain_ready L (n + a) (k + b) st"
    and peers: "\<And>addrs st. held (sync_peers dial config addrs st) \<le> a \<and> unread (sync_peers dial config addrs st) \<le> b"
    and small: "length ls * 2016 + (n + a) < 2 ^ 64 - 1" and k: "Suc (k + b) < 2 ^ 64 - 1"
  shows "chain_ready L n k st' \<and> grows st st'"
proof -
  obtain q st1 where plant: "plant_anchor L hex ls g config st = (q, st1)" by fastforce
  have ready1: "chain_ready L (n + a) (k + b) st1" "grows st st1" using plant_ready [OF plant ready small k] by auto
  show ?thesis
  proof (cases "st' = st1")
    case True
    then show ?thesis using chain_ready_mono [OF ready1(1), of n k] ready1(2) by simp
  next
    case False
    then obtain from_height addrs failed where q: "q = Inr from_height" "candidates dns (cf_addrs config) (cf_seeds config) = (addrs, failed)"
      "sync_run L dial g config addrs st1 = (r, st')"
      using run plant by (auto simp: node_sync_def Let_def split: sum.splits prod.splits if_splits)
    have "st1 \<noteq> empty_btc_store"
      using plant_done [OF plant [unfolded q(1)] ready] .
    then obtain base where base: "chain_inv L base st1" "spine_full base st1" "room_for st1 (n + a) (k + b)"
      using ready1 by (auto simp: chain_ready_def anchored_def)
    have "room_for st1 (n + held (sync_peers dial config addrs st1)) (k + unread (sync_peers dial config addrs st1))"
      using peers [of addrs st1] by (intro room_for_mono [OF base(3)]) auto
    from sync_run_keeps [OF base(1) this q(3)] have "chain_inv L base st'" "room_for st' n k" "finalized_le st1 st'" "rows_le st1 st'"
      by auto
    then show ?thesis using ready1(2) spine_full_rows [OF base(2)] grows_trans [of st st1 st']
      by (auto simp: chain_ready_def anchored_def grows_def)
  qed
qed

section \<open>Histories of commands\<close>

definition files_ready :: "btc_lib \<Rightarrow> nat \<Rightarrow> nat \<Rightarrow> files \<Rightarrow> bool" where
  "files_ready L n k fs \<longleftrightarrow> (\<forall>path cs. fs path = Some (StoreFile cs) \<longrightarrow>
     cs_rsk cs = empty_rsk_store \<and> chain_ready L n k (cs_btc cs))"

text \<open>The files of the second state hold what those of the first held, but for the paths in \<open>lost\<close>.\<close>

definition files_grow :: "string set \<Rightarrow> files \<Rightarrow> files \<Rightarrow> bool" where
  "files_grow lost fs fs' \<longleftrightarrow> (\<forall>path cs. fs path = Some (StoreFile cs) \<longrightarrow>
     path \<in> lost \<or> (\<exists>cs'. fs' path = Some (StoreFile cs') \<and> grows (cs_btc cs) (cs_btc cs')))"

definition written :: "(host \<times> command) list \<Rightarrow> string set" where
  "written cmds = {path. \<exists>h args out. (h, ExportCheckpoints args) \<in> set cmds \<and> ea_out args = Some out \<and> ho_file h out = Some path}"

lemma files_grow_refl: "files_grow lost fs fs"
  by (auto simp: files_grow_def intro: grows_refl)

lemma files_grow_trans:
  assumes "files_grow lost fs fs1" and "files_grow lost fs1 fs2"
  shows "files_grow lost fs fs2"
  using assms grows_trans unfolding files_grow_def by meson

lemma files_grow_mono: "files_grow lost fs fs' \<Longrightarrow> lost \<subseteq> lost' \<Longrightarrow> files_grow lost' fs fs'"
  unfolding files_grow_def by blast

lemma node_open_keeps:
  assumes "node_open h config fs = (r, fs')" and "files_ready L n k fs"
  shows "files_ready L n k fs' \<and> files_grow {} fs fs' \<and>
    (\<forall>node. r = Inr node \<longrightarrow> fs' (nd_path node) = Some (StoreFile (nd_core node)) \<and> nd_config node = config)"
proof -
  have fresh: "files_ready L n k (fs(path \<mapsto> StoreFile core_open)) \<and> files_grow {} fs (fs(path \<mapsto> StoreFile core_open))"
    if "\<forall>cs. fs path \<noteq> Some (StoreFile cs)" for path
    using assms(2) that by (auto simp: files_ready_def files_grow_def core_open_def chain_ready_def intro: grows_refl)
  show ?thesis using assms fresh
    by (auto simp: node_open_def store_open_def Let_def files_grow_refl split: option.splits disk_file.splits if_splits)
qed

lemma sync_command_keeps:
  assumes cmd: "sync_command p h args fs = (r, fs')" and ready: "files_ready (pr_lib p) (n + a) (k + b) fs"
    and peers: "bounded_peers a b (h, Sync args)" and small: "length (pr_spine p) * 2016 + (n + a) < 2 ^ 64 - 1" and k: "Suc (k + b) < 2 ^ 64 - 1"
  shows "files_ready (pr_lib p) n k fs' \<and> files_grow {} fs fs'"
proof -
  obtain q fs1 where op: "node_open h (sync_settings args) fs = (q, fs1)" by fastforce
  note o = node_open_keeps [OF op ready]
  have weak: "files_ready (pr_lib p) n k fs1"
    using o chain_ready_mono [of "pr_lib p" "n + a" "k + b"] unfolding files_ready_def by auto
  show ?thesis
  proof (cases q)
    case (Inl e)
    then show ?thesis using cmd op o weak by (simp add: sync_command_def)
  next
    case (Inr node)
    obtain x st where run: "node_sync (pr_lib p) (pr_hex p) (pr_spine p) (pr_genesis p (cf_network (nd_config node))) (ho_dns h) (ho_dial h)
        (nd_config node) (cs_btc (nd_core node)) = (x, st)" by fastforce
    have fs': "fs' = fs1(nd_path node \<mapsto> StoreFile ((nd_core node)\<lparr> cs_btc := st \<rparr>))"
      using cmd op Inr run by (simp add: sync_command_def Let_def)
    have at: "fs1 (nd_path node) = Some (StoreFile (nd_core node))" using o Inr by blast
    have "files_ready (pr_lib p) (n + a) (k + b) fs1" using o by blast
    then have core: "cs_rsk (nd_core node) = empty_rsk_store" "chain_ready (pr_lib p) (n + a) (k + b) (cs_btc (nd_core node))"
      using at unfolding files_ready_def by blast+
    have s: "chain_ready (pr_lib p) n k st" "grows (cs_btc (nd_core node)) st"
      using node_sync_ready [OF run core(2) _ small k] peers o Inr by (auto simp: bounded_peers_def)
    have "files_grow {} fs1 fs'" using at s(2) by (auto simp: files_grow_def fs' intro: grows_refl)
    moreover have "files_ready (pr_lib p) n k fs'" using weak core(1) s(1) by (auto simp: files_ready_def fs')
    ultimately show ?thesis using o files_grow_trans by blast
  qed
qed

lemma export_command_keeps:
  assumes cmd: "export_command p h args fs = (r, fs')" and ready: "files_ready L n k fs"
  shows "files_ready L n k fs' \<and> files_grow (written [(h, ExportCheckpoints args)]) fs fs'"
proof -
  obtain q fs1 where op: "node_open h (default_settings\<lparr> cf_data_dir := ea_data_dir args \<rparr>) fs = (q, fs1)" by fastforce
  note o = node_open_keeps [OF op ready]
  have grow: "files_grow (written [(h, ExportCheckpoints args)]) fs fs1" using o by (blast intro: files_grow_mono)
  have w: "files_ready L n k (fs1(path \<mapsto> OtherFile t))" for path t using o by (auto simp: files_ready_def)
  have "files_grow (written [(h, ExportCheckpoints args)]) fs1 (fs1(path \<mapsto> OtherFile t))"
    if "ea_out args = Some out" "ho_file h out = Some path" for path t out
    using that by (auto simp: files_grow_def written_def intro: grows_refl)
  then have wg: "files_grow (written [(h, ExportCheckpoints args)]) fs (fs1(path \<mapsto> OtherFile t))"
    if "ea_out args = Some out" "ho_file h out = Some path" for path t out
    using that grow files_grow_trans by blast
  show ?thesis using cmd op o w wg grow
    by (auto simp: export_command_def split: sum.splits option.splits)
qed

lemma run_commands_keep:
  assumes "run_commands p cmds fs = (rs, fs')" and "files_ready (pr_lib p) (n + length cmds * a) (k + length cmds * b) fs"
    and "\<forall>hc \<in> set cmds. bounded_peers a b hc"
    and "length (pr_spine p) * 2016 + (n + length cmds * a) < 2 ^ 64 - 1" and "Suc (k + length cmds * b) < 2 ^ 64 - 1"
  shows "files_ready (pr_lib p) n k fs' \<and> files_grow (written cmds) fs fs'"
  using assms
proof (induction p cmds fs arbitrary: rs fs' rule: run_commands.induct)
  case (1 p fs)
  then show ?case by (simp add: files_grow_refl)
next
  case (2 p h c cs fs)
  obtain r fs1 where c: "run_command p h c fs = (r, fs1)" by fastforce
  obtain rs1 where rest: "run_commands p cs fs1 = (rs1, fs')" using 2(2) c by (auto split: prod.splits)
  let ?n = "n + length cs * a" and ?k = "k + length cs * b"
  have n: "n + length ((h, c) # cs) * a = ?n + a" "k + length ((h, c) # cs) * b = ?k + b" by simp_all
  have ready: "files_ready (pr_lib p) (?n + a) (?k + b) fs" using 2(3) by (simp only: n)
  have weak: "files_ready (pr_lib p) ?n ?k fs" using ready chain_ready_mono unfolding files_ready_def by (meson le_add1)
  have step: "files_ready (pr_lib p) ?n ?k fs1 \<and> files_grow (written [(h, c)]) fs fs1"
  proof (cases c)
    case (Sync args)
    then have "sync_command p h args fs = (r, fs1)" "bounded_peers a b (h, Sync args)" using c 2(4) by (simp_all add: run_command_def)
    from sync_command_keeps [OF this(1) ready this(2)] 2(5,6) show ?thesis unfolding n by (auto intro: files_grow_mono)
  next
    case (ExportCheckpoints args)
    then show ?thesis using c export_command_keeps [OF _ weak] by (simp add: run_command_def)
  qed
  have "files_ready (pr_lib p) n k fs' \<and> files_grow (written cs) fs1 fs'"
    using 2(1) [OF c [symmetric] refl rest] step 2(4-6) unfolding n by auto
  moreover have "written [(h, c)] \<subseteq> written ((h, c) # cs)" "written cs \<subseteq> written ((h, c) # cs)" by (auto simp: written_def)
  ultimately show ?case using step files_grow_mono files_grow_trans by metis
qed

text \<open>C14. On a machine that starts without stores, after any sequence of commands on whatever networks,
  failed ones included, every store file has an untouched Rootstock side and a Bitcoin side that is
  empty or a well-formed chain on its full spine; and from any point on, a store file never loses a header or moves
  its finalized height back, unless an export was told to write over it. The hypotheses bound what the
  peers send in one sync, so that no height reaches the end of 64 bits.\<close>

theorem cli_history:
  assumes start: "\<forall>path cs. fs path \<noteq> Some (StoreFile cs)"
    and run: "run_commands p before fs = (rs, fs1)" "run_commands p after fs1 = (rs', fs2)"
    and peers: "\<forall>hc \<in> set (before @ after). bounded_peers a b hc"
    and small: "length (pr_spine p) * 2016 + length (before @ after) * a < 2 ^ 64 - 1" "Suc (length (before @ after) * b) < 2 ^ 64 - 1"
  shows "(\<forall>path cs. fs2 path = Some (StoreFile cs) \<longrightarrow> cs_rsk cs = empty_rsk_store \<and>
      (cs_btc cs = empty_btc_store \<or> anchored (pr_lib p) (cs_btc cs))) \<and> files_grow (written after) fs1 fs2"
proof -
  let ?n = "length after * a" and ?k = "length after * b"
  have "files_ready (pr_lib p) (?n + length before * a) (?k + length before * b) fs" using start by (simp add: files_ready_def)
  from run_commands_keep [OF run(1) this] have "files_ready (pr_lib p) ?n ?k fs1"
    using peers small by (auto simp: algebra_simps)
  then have "files_ready (pr_lib p) (0 + ?n) (0 + ?k) fs1" by simp
  from run_commands_keep [OF run(2) this] have "files_ready (pr_lib p) 0 0 fs2 \<and> files_grow (written after) fs1 fs2"
    using peers small by (auto simp: algebra_simps)
  then show ?thesis by (auto simp: files_ready_def chain_ready_def)
qed

text \<open>A sync from genesis with one peer, then an export.\<close>

lemma pool_fill_peers:
  "pool_fill dial want limit height addrs pool = (pool', left) \<Longrightarrow> length (po_peers pool') \<le> max want (length (po_peers pool)) \<and>
     (\<forall>px \<in> set (po_peers pool'). px \<in> set (po_peers pool) \<or>
        (\<exists>addr agent. dial addr agent height = Inr (px_session px, px_handshake px)))"
proof (induction addrs arbitrary: pool)
  case (Cons addr rest)
  show ?case
  proof (cases "length (po_peers pool) < want \<and> po_attempts pool < limit")
    case True
    then show ?thesis using Cons.prems Cons.IH by (fastforce simp: Let_def split: sum.splits prod.splits)
  next
    case False
    then show ?thesis using Cons.prems by auto
  qed
qed simp

definition demo_program :: program where
  "demo_program = \<lparr> pr_lib = demo_lib, pr_hex = hex_decode, pr_spine = [], pr_genesis = (\<lambda>_. demo_header 0 4 1) \<rparr>"

definition demo_host :: host where
  "demo_host = \<lparr> ho_dir = Some, ho_opens = (\<lambda>_. True), ho_file = Some, ho_stdout = True,
     ho_dns = (\<lambda>_ _. Some [SockV4 1 8333, SockV4 2 8333]), ho_dial = demo_dial \<rparr>"

lemma demo_bounded: "bounded_peers 4 6 (demo_host, Sync (sync_defaults\<lparr> sa_from_genesis := True, sa_peers := 2 \<rparr>))"
proof -
  let ?c = "sync_settings (sync_defaults\<lparr> sa_from_genesis := True, sa_peers := 2 \<rparr>)"
  have "held (sync_peers demo_dial ?c addrs st) \<le> 4 \<and> unread (sync_peers demo_dial ?c addrs st) \<le> 6" for addrs st
  proof -
    obtain pool left where pool: "pool_fill demo_dial 2 8 (start_height st) addrs (new_pool USER_AGENT) = (pool, left)" by fastforce
    have px: "sync_peers demo_dial ?c addrs st = po_peers pool"
      by (simp add: sync_peers_def sync_settings_def sync_defaults_def default_settings_def pool [unfolded numeral_2_eq_2])
    have len: "length (po_peers pool) \<le> 2" and each: "\<forall>px \<in> set (po_peers pool).
        \<exists>addr agent. demo_dial addr agent (start_height st) = Inr (px_session px, px_handshake px)"
      using pool_fill_peers [OF pool] by (auto simp: new_pool_def)
    have "script_headers (ss_incoming (px_session px)) = 2 \<and> length (ss_incoming (px_session px)) = 3"
      if px: "px \<in> set (po_peers pool)" for px
    proof -
      have "ss_incoming (px_session px) =
          [demo_say (MPing 7), demo_say (MHeaders [demo_header 1 4 2, demo_header 2 4 3]), demo_say (MHeaders [])]"
        using each px by (auto simp: demo_dial_def split: if_splits dest!: bspec) (metis session.select_convs(1))
      then show ?thesis by (simp add: script_headers_def demo_say_def)
    qed
    then have "held (po_peers pool) = 2 * length (po_peers pool)" "unread (po_peers pool) = 3 * length (po_peers pool)"
      by (induction "po_peers pool" arbitrary: pool) (simp_all add: held_def unread_def incoming_def comp_def cong: map_cong, simp_all add: sum_list_triv)
    then show ?thesis using len px by simp
  qed
  then show ?thesis by (simp add: bounded_peers_def demo_host_def)
qed

lemma cli_history_witness:
  "\<exists>rs fs1 rs' fs2. run_commands demo_program [(demo_host, Sync (sync_defaults\<lparr> sa_from_genesis := True, sa_peers := 2 \<rparr>))]
      (\<lambda>_. None) = (rs, fs1) \<and>
    run_commands demo_program [(demo_host, ExportCheckpoints \<lparr> ea_data_dir = ''data/rsk-one'', ea_out = None \<rparr>)] fs1 = (rs', fs2) \<and>
    (\<forall>path cs. fs2 path = Some (StoreFile cs) \<longrightarrow> cs_btc cs = empty_btc_store \<or> anchored demo_lib (cs_btc cs)) \<and>
    files_grow {} fs1 fs2"
proof -
  let ?s = "(demo_host, Sync (sync_defaults\<lparr> sa_from_genesis := True, sa_peers := 2 \<rparr>))"
  let ?e = "(demo_host, ExportCheckpoints \<lparr> ea_data_dir = ''data/rsk-one'', ea_out = None \<rparr>)"
  obtain rs fs1 where r1: "run_commands demo_program [?s] (\<lambda>_. None) = (rs, fs1)" by fastforce
  obtain rs' fs2 where r2: "run_commands demo_program [?e] fs1 = (rs', fs2)" by fastforce
  have "\<forall>hc \<in> set ([?s] @ [?e]). bounded_peers 4 6 hc" using demo_bounded by (simp add: bounded_peers_def)
  from cli_history [OF _ r1 r2 this] have "(\<forall>path cs. fs2 path = Some (StoreFile cs) \<longrightarrow> cs_rsk cs = empty_rsk_store \<and>
      (cs_btc cs = empty_btc_store \<or> anchored demo_lib (cs_btc cs))) \<and> files_grow (written [?e]) fs1 fs2"
    by (simp add: demo_program_def)
  moreover have "written [?e] = {}" by (simp add: written_def)
  ultimately show ?thesis using r1 r2 by auto
qed

end
